(* ===== verification/Prelude.thy ===== *)
theory Prelude
  imports Main "HOL-Library.AList" "HOL-Library.Sublist"
begin

text \<open>
  Shared vocabulary of the development: the Go values every component uses (byte strings,
  instants, decoded JSON), operations that read and update a state and may fail, and the
  lemma collections the component proofs draw on.

  \<^item> A Go \<^verbatim>\<open>string\<close> is a list of bytes, so \<^term>\<open>length s\<close> is \<^verbatim>\<open>len(s)\<close>.
  \<^item> A \<^verbatim>\<open>time.Time\<close> is the number of nanoseconds since Go's zero time; \<open>0\<close> is the value for
    which \<^verbatim>\<open>IsZero\<close> holds. Locations and monotonic readings play no part in the code modelled.
  \<^item> A Go map is an association list with distinct keys, so that loops over it are executable;
    the components prove that no result depends on the order of its entries.
  \<^item> An operation on a state \<open>'s\<close> is \<^typ>\<open>'s \<Rightarrow> ('e + 'a) \<times> 's\<close>: \<open>Inl\<close> carries the error that
    Go returns and the state is kept, because Go code may change the receiver before it fails.
\<close>

named_theorems preserve "preservation of an invariant by an operation"
named_theorems op_simps "one-step unfolding of operations"

section \<open>Operations with state and errors\<close>

type_synonym ('s, 'e, 'a) op = "'s \<Rightarrow> ('e + 'a) \<times> 's"

definition ret :: "'a \<Rightarrow> ('s, 'e, 'a) op" where
  "ret x s = (Inr x, s)"

definition raise :: "'e \<Rightarrow> ('s, 'e, 'a) op" where
  "raise e s = (Inl e, s)"

definition andThen :: "('s, 'e, 'a) op \<Rightarrow> ('a \<Rightarrow> ('s, 'e, 'b) op) \<Rightarrow> ('s, 'e, 'b) op" where
  "andThen m f s = (case m s of (Inl e, s') \<Rightarrow> (Inl e, s') | (Inr x, s') \<Rightarrow> f x s')"

definition get_state :: "('s, 'e, 's) op" where
  "get_state s = (Inr s, s)"

definition modify :: "('s \<Rightarrow> 's) \<Rightarrow> ('s, 'e, unit) op" where
  "modify f s = (Inr (), f s)"

lemma ret_simps [simp]: "ret x s = (Inr x, s)"
  by (simp add: ret_def)

lemma raise_simps [simp]: "raise e s = (Inl e, s)"
  by (simp add: raise_def)

lemma get_state_simps [simp]: "get_state s = (Inr s, s)"
  by (simp add: get_state_def)

lemma modify_simps [simp]: "modify f s = (Inr (), f s)"
  by (simp add: modify_def)

lemma andThen_Inl: "m s = (Inl e, s') \<Longrightarrow> andThen m f s = (Inl e, s')"
  by (simp add: andThen_def)

lemma andThen_Inr: "m s = (Inr x, s') \<Longrightarrow> andThen m f s = f x s'"
  by (simp add: andThen_def)

lemma andThen_ret [simp]: "andThen (ret x) f = f x"
  by (simp add: andThen_def fun_eq_iff)

lemma andThen_raise [simp]: "andThen (raise e) f = raise e"
  by (simp add: andThen_def fun_eq_iff)

lemma andThen_InrE:
  assumes "andThen m f s = (Inr y, t)"
  obtains x s' where "m s = (Inr x, s')" and "f x s' = (Inr y, t)"
  using assms by (auto simp: andThen_def split: prod.splits sum.splits)

text \<open>
  \<open>preserves P m\<close>: started in a state with \<open>P\<close>, the operation ends in one, whether it
  returns a value or an error.
\<close>

definition preserves :: "('s \<Rightarrow> bool) \<Rightarrow> ('s, 'e, 'a) op \<Rightarrow> bool" where
  "preserves P m \<longleftrightarrow> (\<forall>s. P s \<longrightarrow> P (snd (m s)))"

lemma preservesI: "(\<And>s. P s \<Longrightarrow> P (snd (m s))) \<Longrightarrow> preserves P m"
  by (simp add: preserves_def)

lemma preservesD: "preserves P m \<Longrightarrow> P s \<Longrightarrow> P (snd (m s))"
  by (simp add: preserves_def)

lemma preserves_ret [preserve, simp]: "preserves P (ret x)"
  by (simp add: preserves_def)

lemma preserves_raise [preserve, simp]: "preserves P (raise e)"
  by (simp add: preserves_def)

lemma preserves_get_state [preserve, simp]: "preserves P get_state"
  by (simp add: preserves_def)

lemma preserves_andThen [preserve]:
  assumes "preserves P m" and "\<And>x. preserves P (f x)"
  shows "preserves P (andThen m f)"
proof (rule preservesI)
  fix s
  assume "P s"
  show "P (snd (andThen m f s))"
  proof (cases "m s")
    case (Pair r s')
    with \<open>P s\<close> assms(1) have "P s'" by (auto dest: preservesD)
    with Pair assms(2) show ?thesis
      by (cases r) (auto simp: andThen_def dest: preservesD)
  qed
qed

lemma preserves_if [preserve]:
  "preserves P m \<Longrightarrow> preserves P n \<Longrightarrow> preserves P (if b then m else n)"
  by simp

lemma preserves_case_option [preserve]:
  "preserves P m \<Longrightarrow> (\<And>x. preserves P (f x)) \<Longrightarrow>
   preserves P (case z of None \<Rightarrow> m | Some x \<Rightarrow> f x)"
  by (cases z) auto

section \<open>Runs of a state machine\<close>

text \<open>
  A component whose state changes by labelled steps: \<open>reach\<close> collects the states a run from an
  initial state can visit. A predicate that holds initially and is kept by every step holds in
  every reachable state; each component interprets the locale with its own steps.
\<close>

inductive reach :: "('s \<Rightarrow> bool) \<Rightarrow> ('s \<Rightarrow> 'l \<Rightarrow> 's \<Rightarrow> bool) \<Rightarrow> 's \<Rightarrow> bool"
  for init :: "'s \<Rightarrow> bool" and step :: "'s \<Rightarrow> 'l \<Rightarrow> 's \<Rightarrow> bool" where
  start: "init s \<Longrightarrow> reach init step s"
| move: "reach init step s \<Longrightarrow> step s l t \<Longrightarrow> reach init step t"

locale invariant_machine =
  fixes init :: "'s \<Rightarrow> bool"
    and step :: "'s \<Rightarrow> 'l \<Rightarrow> 's \<Rightarrow> bool"
    and inv :: "'s \<Rightarrow> bool"
  assumes inv_init: "init s \<Longrightarrow> inv s"
    and inv_step: "inv s \<Longrightarrow> step s l t \<Longrightarrow> inv t"
begin

lemma reach_inv: "reach init step s \<Longrightarrow> inv s"
  by (induction rule: reach.induct) (auto intro: inv_init inv_step)

lemma run_inv:
  assumes "(\<lambda>a b. \<exists>l. step a l b)\<^sup>*\<^sup>* s t" and "inv s"
  shows "inv t"
  using assms by (induction rule: rtranclp_induct) (auto intro: inv_step)

end

section \<open>Go strings\<close>

definition has_prefix :: "string \<Rightarrow> string \<Rightarrow> bool" where
  "has_prefix s p \<longleftrightarrow> take (length p) s = p"

text \<open>
  \<^verbatim>\<open>strings.TrimSpace\<close>: the UTF-8 encodings of the code points \<^verbatim>\<open>unicode.IsSpace\<close> accepts,
  removed from the front and then from the back.
\<close>

definition space_encodings :: "string list" where
  "space_encodings =
     [[CHR 0x09], [CHR 0x0A], [CHR 0x0B], [CHR 0x0C], [CHR 0x0D], [CHR 0x20],
      [CHR 0xC2, CHR 0x85], [CHR 0xC2, CHR 0xA0], [CHR 0xE1, CHR 0x9A, CHR 0x80]]
     @ map (\<lambda>c. [CHR 0xE2, CHR 0x80, c])
         [CHR 0x80, CHR 0x81, CHR 0x82, CHR 0x83, CHR 0x84, CHR 0x85, CHR 0x86, CHR 0x87,
          CHR 0x88, CHR 0x89, CHR 0x8A, CHR 0xA8, CHR 0xA9, CHR 0xAF]
     @ [[CHR 0xE2, CHR 0x81, CHR 0x9F], [CHR 0xE3, CHR 0x80, CHR 0x80]]"

definition strip1 :: "string list \<Rightarrow> string \<Rightarrow> string option" where
  "strip1 ps s = (case find (\<lambda>p. p \<noteq> [] \<and> has_prefix s p) ps of
      None \<Rightarrow> None | Some p \<Rightarrow> Some (drop (length p) s))"

lemma has_prefix_iff: "has_prefix s p \<longleftrightarrow> prefix p s"
  by (auto simp: has_prefix_def prefix_def) (metis append_take_drop_id)

lemma strip1_shorter: "strip1 ps s = Some t \<Longrightarrow> length t < length s"
  by (auto simp: strip1_def has_prefix_iff find_Some_iff prefix_def split: option.splits)

function strip_prefixes :: "string list \<Rightarrow> string \<Rightarrow> string" where
  "strip_prefixes ps s = (case strip1 ps s of None \<Rightarrow> s | Some t \<Rightarrow> strip_prefixes ps t)"
  by pat_completeness auto
termination
  by (relation "measure (\<lambda>(ps, s). length s)") (auto simp: strip1_shorter)

declare strip_prefixes.simps [simp del]

definition trim_left :: "string \<Rightarrow> string" where
  "trim_left = strip_prefixes space_encodings"

definition trim_right :: "string \<Rightarrow> string" where
  "trim_right s = rev (strip_prefixes (map rev space_encodings) (rev s))"

definition trim_space :: "string \<Rightarrow> string" where
  "trim_space s = trim_right (trim_left s)"

lemma strip_prefixes_done: "strip1 ps (strip_prefixes ps s) = None"
proof (induction ps s rule: strip_prefixes.induct)
  case (1 ps s)
  then show ?case
    by (cases "strip1 ps s") (simp_all add: strip_prefixes.simps[of ps s])
qed

lemma strip_prefixes_id: "strip1 ps s = None \<Longrightarrow> strip_prefixes ps s = s"
  by (simp add: strip_prefixes.simps)

lemma strip_prefixes_suffix: "suffix (strip_prefixes ps s) s"
proof (induction ps s rule: strip_prefixes.induct)
  case (1 ps s)
  show ?case
  proof (cases "strip1 ps s")
    case None
    then show ?thesis by (simp add: strip_prefixes_id)
  next
    case (Some t)
    then have "suffix t s" by (auto simp: strip1_def suffix_drop split: option.splits)
    moreover have "suffix (strip_prefixes ps t) t" using 1 Some by simp
    ultimately show ?thesis
      using Some by (simp add: strip_prefixes.simps[of ps s] suffix_order.trans)
  qed
qed

lemma strip1_None_iff: "strip1 ps s = None \<longleftrightarrow> (\<forall>p \<in> set ps. p \<noteq> [] \<longrightarrow> \<not> prefix p s)"
proof -
  have "strip1 ps s = None \<longleftrightarrow> find (\<lambda>p. p \<noteq> [] \<and> prefix p s) ps = None"
    by (simp add: strip1_def has_prefix_iff split: option.splits)
  then show ?thesis by (auto simp: find_None_iff)
qed

lemma strip1_None_prefix: "strip1 ps t = None \<Longrightarrow> prefix s t \<Longrightarrow> strip1 ps s = None"
  using prefix_order.trans by (fastforce simp: strip1_None_iff)

lemma trim_right_prefix: "prefix (trim_right s) s"
  using strip_prefixes_suffix[of "map rev space_encodings" "rev s"]
  by (simp add: trim_right_def suffix_to_prefix)

lemma trim_space_idem [simp]: "trim_space (trim_space s) = trim_space s"
proof -
  let ?l = "trim_left s"
  have "strip1 space_encodings ?l = None"
    by (simp add: trim_left_def strip_prefixes_done)
  then have "strip1 space_encodings (trim_right ?l) = None"
    using trim_right_prefix by (rule strip1_None_prefix)
  then have left: "trim_left (trim_right ?l) = trim_right ?l"
    by (simp add: trim_left_def strip_prefixes_id)
  have "trim_right (trim_right ?l) = trim_right ?l"
    by (simp add: trim_right_def strip_prefixes_id strip_prefixes_done)
  with left show ?thesis by (simp add: trim_space_def)
qed

lemma trim_space_Nil [simp]: "trim_space [] = []"
proof -
  have "strip1 ps [] = None" for ps by (auto simp: strip1_None_iff)
  then show ?thesis
    by (simp add: trim_space_def trim_left_def trim_right_def strip_prefixes_id)
qed

text \<open>
  The number of bytes Go decodes as one rune at the front of a string: the length of a valid UTF-8
  sequence, and 1 for a byte that starts none.
\<close>

definition byte_in :: "nat \<Rightarrow> nat \<Rightarrow> char \<Rightarrow> bool" where
  "byte_in lo hi c \<longleftrightarrow> lo \<le> of_char c \<and> of_char c \<le> hi"

definition continuation :: "char list \<Rightarrow> bool" where
  "continuation cs \<longleftrightarrow> list_all (byte_in 0x80 0xBF) cs"

definition second_ok :: "char \<Rightarrow> char \<Rightarrow> bool" where
  "second_ok c d \<longleftrightarrow>
     (if c = CHR 0xE0 then byte_in 0xA0 0xBF d
      else if c = CHR 0xED then byte_in 0x80 0x9F d
      else if c = CHR 0xF0 then byte_in 0x90 0xBF d
      else if c = CHR 0xF4 then byte_in 0x80 0x8F d
      else byte_in 0x80 0xBF d)"

definition rune_size :: "string \<Rightarrow> nat" where
  "rune_size s = (case s of [] \<Rightarrow> 0 | c # cs \<Rightarrow>
     (if byte_in 0xC2 0xDF c \<and> 1 \<le> length cs \<and> second_ok c (hd cs) then 2
      else if byte_in 0xE0 0xEF c \<and> 2 \<le> length cs \<and> second_ok c (hd cs) \<and> continuation (take 1 (tl cs))
      then 3
      else if byte_in 0xF0 0xF4 c \<and> 3 \<le> length cs \<and> second_ok c (hd cs) \<and> continuation (take 2 (tl cs))
      then 4 else 1))"

lemma rune_size_bounds: "s \<noteq> [] \<Longrightarrow> 1 \<le> rune_size s \<and> rune_size s \<le> length s \<and> rune_size s \<le> 4"
  by (auto simp: rune_size_def split: list.splits)

text \<open>\<^verbatim>\<open>strconv.Itoa\<close> on the lengths and ordinals the code prints.\<close>

fun itoa :: "nat \<Rightarrow> string" where
  "itoa n = (if n < 10 then [char_of (48 + n)] else itoa (n div 10) @ [char_of (48 + n mod 10)])"

declare itoa.simps [simp del]

definition itoa_int :: "int \<Rightarrow> string" where
  "itoa_int n = (if n < 0 then ''-'' @ itoa (nat (- n)) else itoa (nat n))"

fun join :: "string \<Rightarrow> string list \<Rightarrow> string" where
  "join sep [] = []"
| "join sep [s] = s"
| "join sep (s # t # us) = s @ sep @ join sep (t # us)"

definition trim_suffix :: "string \<Rightarrow> string \<Rightarrow> string" where
  "trim_suffix s suf =
     (if length suf \<le> length s \<and> drop (length s - length suf) s = suf
      then take (length s - length suf) s else s)"

section \<open>Decoded JSON\<close>

text \<open>
  A value of Go type \<^verbatim>\<open>any\<close> that went through \<^verbatim>\<open>encoding/json\<close>. \<open>JTime\<close> is a string that
  \<^verbatim>\<open>time.Time\<close> decodes; keeping it decoded leaves RFC 3339 out of the model.
\<close>

datatype json =
    JNull
  | JBool bool
  | JNum int
  | JStr string
  | JTime int
  | JArr "json list"
  | JObj "(string \<times> json) list"

type_synonym instant = int

text \<open>\<^verbatim>\<open>t.Truncate(time.Millisecond)\<close>\<close>

definition truncate_ms :: "instant \<Rightarrow> instant" where
  "truncate_ms t = t - t mod 1000000"

lemma truncate_ms_idem [simp]: "truncate_ms (truncate_ms t) = truncate_ms t"
  by (simp add: truncate_ms_def mod_diff_left_eq[symmetric])

lemma truncate_ms_le: "truncate_ms t \<le> t"
  by (simp add: truncate_ms_def)

lemma truncate_ms_pos: "1000000 \<le> t \<Longrightarrow> 0 < truncate_ms t"
  using pos_mod_bound[of 1000000 t] by (simp add: truncate_ms_def)

section \<open>Outcomes of the world\<close>

text \<open>
  How a coming atomic replacement of a file turns out: it succeeds, or it reports an error with the
  new file already in place (\<open>replaced\<close>, as when syncing the directory fails after the rename) or
  with the old one kept.
\<close>

datatype write_result = WriteOk | WriteFailed (replaced: bool)

section \<open>Association lists as Go maps\<close>

abbreviation keys :: "('k \<times> 'v) list \<Rightarrow> 'k set" where
  "keys m \<equiv> fst ` set m"

lemma map_of_update [simp]:
  "map_of (AList.update k v m) x = (if x = k then Some v else map_of m x)"
  by (simp add: update_conv')

lemma map_of_delete [simp]:
  "map_of (AList.delete k m) x = (if x = k then None else map_of m x)"
  by (simp add: delete_conv')

lemma keys_update [simp]: "keys (AList.update k v m) = insert k (keys m)"
  by (simp add: dom_update)

lemma keys_delete [simp]: "keys (AList.delete k m) = keys m - {k}"
  by (auto simp: AList.delete_eq)

lemma distinct_keys_update: "distinct (map fst m) \<Longrightarrow> distinct (map fst (AList.update k v m))"
  by (rule distinct_update)

lemma distinct_keys_delete: "distinct (map fst m) \<Longrightarrow> distinct (map fst (AList.delete k m))"
  by (rule distinct_delete)

lemma map_of_eq_None: "map_of m k = None \<longleftrightarrow> k \<notin> keys m"
  by (simp add: map_of_eq_None_iff)

end
