(* ===== verification/LLM.thy ===== *)
theory LLM
  imports Prelude "HOL-Library.Multiset"
begin

text \<open>
  The canonical message representation (\<^verbatim>\<open>internal/foundation/llm\<close>): messages and blocks,
  token usage, the classification of user messages, the projection of a transcript to what a
  provider may see, and the check that every tool call of the projected transcript has a result.

  Go's closed string enumerations are datatypes with one constructor for any other string. The
  \<^verbatim>\<open>Blocks\<close> slice is an option, because validation distinguishes a nil slice from an empty one.
\<close>

section \<open>Data\<close>

datatype role = RoleUser | RoleAssistant | RoleSystem | RoleOther string

datatype block_type =
    BlockText | BlockImage | BlockToolUse | BlockToolResult | BlockReasoning | BlockOther string

datatype message_kind =
    KindNone | KindDirect | KindContinuation | KindToolResult | KindMCPEvent | KindObservation
  | KindWorkerThread | KindPolicyEvent | KindCompact | KindRuntimeContext | KindModelChange
  | KindSystemNotice | KindOther string

record media_ref =
  artifact_path :: string
  media_type :: string
  media_sha256 :: string
  media_original_bytes :: int
  media_width :: int
  media_height :: int

record context_artifact =
  source_kind :: string
  ca_message_id :: string
  ca_tool_use_id :: string
  ca_tool_name :: string
  ca_original_bytes :: int
  stored_path :: string
  ca_sha256 :: string
  head_bytes :: int
  tail_bytes :: int
  ca_truncated :: bool

record result_fact =
  fact_owner :: string
  fact_data :: "json option"

type_synonym tool_input = "(string \<times> json) list"

record block =
  block_type :: block_type
  block_text :: string
  media :: "media_ref option"
  tool_use_id :: string
  tool_name :: string
  tool_input :: "tool_input option"
  timeout_seconds :: int
  block_content :: string
  is_error :: bool
  signature :: string
  redacted :: bool
  artifact :: "context_artifact option"
  block_result_fact :: "result_fact option"

definition empty_block :: block where
  "empty_block = \<lparr>block_type = BlockOther [], block_text = [], media = None, tool_use_id = [],
     tool_name = [], tool_input = None, timeout_seconds = 0, block_content = [], is_error = False,
     signature = [], redacted = False, artifact = None, block_result_fact = None\<rparr>"

datatype message =
  Message (msg_id: string) (msg_role: role) (msg_blocks: "block list option")
    (msg_kind: message_kind) (policy_blocked: bool) (msg_model: string)
    (msg_compaction: "compaction_metadata option")
and compaction_metadata =
  CompactionMetadata (cm_auto: bool) (cm_reason: string) (previous_summary_id: string)
    (first_kept_message_id: string) (tail_start_message_id: string)
    (retained_message_ids: "string list") (retained_input_references: "message list")
    (tokens_before: int) (tokens_after: int) (summary_chars: int) (summary_model: string)

fun set_msg_id :: "string \<Rightarrow> message \<Rightarrow> message" where
  "set_msg_id i (Message _ r b k p m c) = Message i r b k p m c"

fun set_msg_blocks :: "block list option \<Rightarrow> message \<Rightarrow> message" where
  "set_msg_blocks b (Message i r _ k p m c) = Message i r b k p m c"

fun set_msg_kind :: "message_kind \<Rightarrow> message \<Rightarrow> message" where
  "set_msg_kind k (Message i r b _ p m c) = Message i r b k p m c"

definition blocks_of :: "message \<Rightarrow> block list" where
  "blocks_of m = (case msg_blocks m of None \<Rightarrow> [] | Some bs \<Rightarrow> bs)"

lemma set_msg_id_sel [simp]:
  "msg_id (set_msg_id i m) = i" "msg_role (set_msg_id i m) = msg_role m"
  "msg_blocks (set_msg_id i m) = msg_blocks m" "msg_kind (set_msg_id i m) = msg_kind m"
  "policy_blocked (set_msg_id i m) = policy_blocked m"
  by (cases m; simp)+

lemma set_msg_blocks_sel [simp]:
  "msg_id (set_msg_blocks b m) = msg_id m" "msg_role (set_msg_blocks b m) = msg_role m"
  "msg_blocks (set_msg_blocks b m) = b" "msg_kind (set_msg_blocks b m) = msg_kind m"
  "policy_blocked (set_msg_blocks b m) = policy_blocked m"
  by (cases m; simp)+

lemma set_msg_kind_sel [simp]:
  "msg_id (set_msg_kind k m) = msg_id m" "msg_role (set_msg_kind k m) = msg_role m"
  "msg_blocks (set_msg_kind k m) = msg_blocks m" "msg_kind (set_msg_kind k m) = k"
  "policy_blocked (set_msg_kind k m) = policy_blocked m"
  by (cases m; simp)+

lemma blocks_of_set [simp]:
  "blocks_of (set_msg_blocks (Some bs) m) = bs" "blocks_of (set_msg_id i m) = blocks_of m"
  by (simp_all add: blocks_of_def)

lemma set_msg_blocks_twice [simp]:
  "set_msg_blocks b (set_msg_blocks c m) = set_msg_blocks b m"
  by (cases m) simp

definition TextMessage :: "role \<Rightarrow> string \<Rightarrow> message" where
  "TextMessage r t = Message [] r
     (Some [empty_block\<lparr>block_type := BlockText, block_text := t\<rparr>]) KindNone False [] None"

definition ClassifyUserMessage :: "message \<Rightarrow> message" where
  "ClassifyUserMessage m =
     (if msg_role m \<noteq> RoleUser \<or> msg_kind m \<noteq> KindNone then m
      else if blocks_of m \<noteq> [] \<and> list_all (\<lambda>b. block_type b = BlockToolResult) (blocks_of m)
      then set_msg_kind KindToolResult m
      else set_msg_kind KindDirect m)"

fun first_text :: "block list \<Rightarrow> string" where
  "first_text [] = []"
| "first_text (b # bs) = (if block_type b = BlockText then block_text b else first_text bs)"

definition FirstText :: "message \<Rightarrow> string" where
  "FirstText m = first_text (blocks_of m)"

definition ToolCalls :: "message \<Rightarrow> block list" where
  "ToolCalls m = filter (\<lambda>b. block_type b = BlockToolUse) (blocks_of m)"

section \<open>Token usage\<close>

record usage =
  input_tokens :: int
  output_tokens :: int
  cached_input_tokens :: int

definition usage_zero :: usage where
  "usage_zero = \<lparr>input_tokens = 0, output_tokens = 0, cached_input_tokens = 0\<rparr>"

definition TotalTokens :: "usage \<Rightarrow> int" where
  "TotalTokens u = input_tokens u + output_tokens u"

definition usage_IsZero :: "usage \<Rightarrow> bool" where
  "usage_IsZero u \<longleftrightarrow> input_tokens u = 0 \<and> output_tokens u = 0 \<and> cached_input_tokens u = 0"

definition usage_Add :: "usage \<Rightarrow> usage \<Rightarrow> usage" where
  "usage_Add u v = \<lparr>input_tokens = input_tokens u + input_tokens v,
     output_tokens = output_tokens u + output_tokens v,
     cached_input_tokens = cached_input_tokens u + cached_input_tokens v\<rparr>"

definition CanonicalUsage :: "int \<Rightarrow> int \<Rightarrow> int \<Rightarrow> usage" where
  "CanonicalUsage inp out cached =
     \<lparr>input_tokens = (if inp < cached then cached else inp), output_tokens = out,
      cached_input_tokens = cached\<rparr>"

lemma usage_Add_assoc: "usage_Add (usage_Add a b) c = usage_Add a (usage_Add b c)"
  by (simp add: usage_Add_def)

lemma usage_Add_commute: "usage_Add a b = usage_Add b a"
  by (simp add: usage_Add_def)

lemma usage_Add_zero [simp]: "usage_Add usage_zero a = a" "usage_Add a usage_zero = a"
  by (simp_all add: usage_Add_def usage_zero_def)

lemma usage_Add_left_commute: "usage_Add a (usage_Add b c) = usage_Add b (usage_Add a c)"
  by (simp add: usage_Add_def)

lemma usage_Add_cancel [simp]: "usage_Add a b = usage_Add a c \<longleftrightarrow> b = c"
  by (cases b; cases c) (auto simp: usage_Add_def)

section \<open>Provider-visible history\<close>

record provider_capabilities =
  cap_tools :: bool
  cap_vision :: bool
  cap_streaming :: bool
  cap_reasoning_effort :: bool
  cap_reasoning_replay :: bool
  cap_max_output_tokens :: bool

definition compactBlocksForProvider :: "block list \<Rightarrow> block list" where
  "compactBlocksForProvider bs = filter (\<lambda>b. case block_type b of
       BlockText \<Rightarrow> block_text b \<noteq> []
     | BlockImage \<Rightarrow> True
     | BlockReasoning \<Rightarrow> \<not> (block_text b = [] \<and> block_content b = [])
     | BlockToolUse \<Rightarrow> \<not> (tool_use_id b = [] \<or> tool_name b = [])
     | BlockToolResult \<Rightarrow> tool_use_id b \<noteq> []
     | BlockOther _ \<Rightarrow> False) bs"

definition providerMessagesMergeable :: "message \<Rightarrow> message \<Rightarrow> bool" where
  "providerMessagesMergeable l r \<longleftrightarrow> msg_role l = msg_role r \<and> msg_kind l = msg_kind r"

definition compact_step :: "message list \<Rightarrow> message \<Rightarrow> message list" where
  "compact_step out m =
     (let bs = compactBlocksForProvider (blocks_of m) in
      if bs = [] then out
      else if out \<noteq> [] \<and> providerMessagesMergeable (last out) m
      then butlast out @ [set_msg_blocks (Some (blocks_of (last out) @ bs)) (last out)]
      else out @ [set_msg_blocks (Some bs) m])"

definition compactHistoryForProvider :: "message list \<Rightarrow> message list" where
  "compactHistoryForProvider h = foldl compact_step [] h"

fun mediaReferenceText :: "string \<Rightarrow> media_ref option \<Rightarrow> string" where
  "mediaReferenceText label None = ''['' @ label @ '': missing media reference]''"
| "mediaReferenceText label (Some r) =
     (let parts =
        (if artifact_path r \<noteq> [] then [''path='' @ artifact_path r] else [])
        @ (if media_type r \<noteq> [] then [''type='' @ media_type r] else [])
        @ (if media_sha256 r \<noteq> [] then [''sha256='' @ media_sha256 r] else [])
        @ (if media_original_bytes r > 0
           then [''bytes='' @ itoa_int (media_original_bytes r)] else [])
        @ (if media_width r > 0 \<and> media_height r > 0
           then [''size='' @ itoa_int (media_width r) @ ''x'' @ itoa_int (media_height r)] else [])
      in if parts = [] then ''['' @ label @ '': empty media reference]''
         else ''['' @ label @ '': '' @ join '' '' parts @ '']'')"

definition UnavailableMediaReferenceText :: "string \<Rightarrow> media_ref option \<Rightarrow> string" where
  "UnavailableMediaReferenceText label r =
     trim_suffix (mediaReferenceText label r) '']'' @ ''; '' @
     ''the current model cannot view image content; state that you cannot see the image instead of guessing''
     @ '']''"

definition appendMediaReference :: "string \<Rightarrow> string \<Rightarrow> string" where
  "appendMediaReference content r =
     (if trim_space content = [] then r else content @ [CHR 0x0A] @ r)"

definition imagePlaceholderBlock :: "block \<Rightarrow> block" where
  "imagePlaceholderBlock b = empty_block\<lparr>block_type := BlockText,
     block_text := UnavailableMediaReferenceText ''image'' (media b)\<rparr>"

definition ToolResultContentWithUnavailableMediaReference :: "block \<Rightarrow> string" where
  "ToolResultContentWithUnavailableMediaReference b =
     appendMediaReference (block_content b)
       (UnavailableMediaReferenceText ''tool_result_image'' (media b))"

text \<open>
  The parameter \<open>unmarshal\<close> is \<^verbatim>\<open>json.Unmarshal\<close> on raw text: \<open>None\<close> when the text is not JSON.
  Decoding into a Go map succeeds on objects (and leaves a nil map on \<^verbatim>\<open>null\<close>), decoding into a
  string succeeds on strings and leaves \<^verbatim>\<open>""\<close> on \<^verbatim>\<open>null\<close>.
\<close>

type_synonym unmarshal = "string \<Rightarrow> json option"

definition decode_object :: "unmarshal \<Rightarrow> string \<Rightarrow> tool_input option" where
  "decode_object u raw = (case u raw of Some (JObj obj) \<Rightarrow> Some obj | _ \<Rightarrow> None)"

definition decodeToolArguments ::
  "unmarshal \<Rightarrow> string \<Rightarrow> tool_input option \<times> string \<times> bool" where
  "decodeToolArguments u raw = (case decode_object u raw of
      Some input \<Rightarrow> (Some input, [], True)
    | None \<Rightarrow>
        (case (case u raw of Some (JStr e) \<Rightarrow> Some e | Some JNull \<Rightarrow> Some [] | _ \<Rightarrow> None) of
           Some encoded \<Rightarrow> (case decode_object u encoded of
               Some input \<Rightarrow> (Some input, [], True) | None \<Rightarrow> (None, encoded, False))
         | None \<Rightarrow> (None, raw, False)))"

definition copyToolInputWithoutRawArguments :: "tool_input \<Rightarrow> tool_input" where
  "copyToolInputWithoutRawArguments input = AList.delete ''_raw_arguments'' input"

definition ParseToolArguments :: "unmarshal \<Rightarrow> string \<Rightarrow> tool_input option" where
  "ParseToolArguments u raw = (if raw = [] then None else
     (case decodeToolArguments u raw of
        (input, fallback, ok) \<Rightarrow>
          if ok then input else Some [(''_raw_arguments'', JStr fallback)]))"

definition ProviderToolInput :: "unmarshal \<Rightarrow> tool_input option \<Rightarrow> tool_input option" where
  "ProviderToolInput u input = (case input of None \<Rightarrow> None
     | Some inp \<Rightarrow> (case map_of inp ''_raw_arguments'' of
         Some (JStr raw) \<Rightarrow>
           (if raw = [] then Some inp
            else let rest = copyToolInputWithoutRawArguments inp in
              (case decodeToolArguments u raw of
                 (Some decoded, _, True) \<Rightarrow>
                   Some (AList.updates (map fst rest) (map snd rest) decoded)
               | _ \<Rightarrow> Some rest))
       | _ \<Rightarrow> Some inp))"

definition shouldProjectProviderBlock :: "block \<Rightarrow> provider_capabilities \<Rightarrow> bool \<Rightarrow> bool" where
  "shouldProjectProviderBlock b caps omit_reasoning = (case block_type b of
      BlockText \<Rightarrow> True
    | BlockImage \<Rightarrow> True
    | BlockToolUse \<Rightarrow> cap_tools caps
    | BlockToolResult \<Rightarrow> cap_tools caps
    | BlockReasoning \<Rightarrow> \<not> omit_reasoning \<and> cap_reasoning_replay caps
    | BlockOther _ \<Rightarrow> False)"

definition projectProviderBlock ::
  "unmarshal \<Rightarrow> block \<Rightarrow> provider_capabilities \<Rightarrow> block" where
  "projectProviderBlock u b caps = (case block_type b of
      BlockToolUse \<Rightarrow> b\<lparr>tool_input := ProviderToolInput u (tool_input b)\<rparr>
    | BlockImage \<Rightarrow> (if \<not> cap_vision caps then imagePlaceholderBlock b else b)
    | BlockToolResult \<Rightarrow>
        (if media b \<noteq> None \<and> \<not> cap_vision caps
         then b\<lparr>block_content := ToolResultContentWithUnavailableMediaReference b,
                 media := None\<rparr>
         else b)
    | _ \<Rightarrow> b)"

definition projectProviderTranscript ::
  "unmarshal \<Rightarrow> message list \<Rightarrow> provider_capabilities \<Rightarrow> bool \<Rightarrow>
   message list" where
  "projectProviderTranscript u history caps omit_reasoning =
     compactHistoryForProvider
       (map (\<lambda>m. set_msg_blocks (Some
                 (map (\<lambda>b. projectProviderBlock u b caps)
                   (filter (\<lambda>b. shouldProjectProviderBlock b caps omit_reasoning)
                     (blocks_of m)))) m)
         (filter (\<lambda>m. \<not> policy_blocked m) history))"

section \<open>Transcript validation\<close>

type_synonym pending_tool_result = "string \<times> string"

datatype transcript_error =
    MissingToolResult "pending_tool_result list" nat "nat option"
  | UnknownToolResult string nat nat

definition providerVisibleValidationBoundary :: "block \<Rightarrow> bool" where
  "providerVisibleValidationBoundary b = (case block_type b of
      BlockText \<Rightarrow> block_text b \<noteq> []
    | BlockImage \<Rightarrow> True
    | BlockReasoning \<Rightarrow> block_text b \<noteq> [] \<or> block_content b \<noteq> []
    | BlockToolUse \<Rightarrow> tool_use_id b \<noteq> []
    | _ \<Rightarrow> False)"

fun removePendingToolResult ::
  "pending_tool_result list \<Rightarrow> string \<Rightarrow> pending_tool_result list \<times> bool" where
  "removePendingToolResult [] i = ([], False)"
| "removePendingToolResult (p # ps) i =
     (if fst p = i then (ps, True)
      else let (qs, r) = removePendingToolResult ps i in (p # qs, r))"

fun validate_blocks ::
  "bool \<Rightarrow> nat \<Rightarrow> nat \<Rightarrow> block list \<Rightarrow> pending_tool_result list \<Rightarrow>
   transcript_error + pending_tool_result list" where
  "validate_blocks at_start mi bi [] pending = Inr pending"
| "validate_blocks at_start mi bi (b # bs) pending =
     (if at_start \<and> block_type b \<noteq> BlockToolResult \<and> pending \<noteq> []
         \<and> providerVisibleValidationBoundary b
      then Inl (MissingToolResult pending mi (Some bi))
      else case block_type b of
        BlockToolUse \<Rightarrow>
          (if tool_use_id b = [] then validate_blocks at_start mi (Suc bi) bs pending
           else validate_blocks at_start mi (Suc bi) bs (pending @ [(tool_use_id b, tool_name b)]))
      | BlockToolResult \<Rightarrow>
          (if tool_use_id b = [] then validate_blocks at_start mi (Suc bi) bs pending
           else case removePendingToolResult pending (tool_use_id b) of
             (pending', True) \<Rightarrow> validate_blocks at_start mi (Suc bi) bs pending'
           | (_, False) \<Rightarrow> Inl (UnknownToolResult (tool_use_id b) (mi + 1) (bi + 1)))
      | _ \<Rightarrow> validate_blocks at_start mi (Suc bi) bs pending)"

fun validate_messages ::
  "nat \<Rightarrow> message list \<Rightarrow> pending_tool_result list \<Rightarrow>
   transcript_error + pending_tool_result list" where
  "validate_messages mi [] pending = Inr pending"
| "validate_messages mi (m # ms) pending =
     (case validate_blocks (pending \<noteq> []) mi 0 (blocks_of m) pending of
        Inl e \<Rightarrow> Inl e
      | Inr pending' \<Rightarrow> validate_messages (Suc mi) ms pending')"

definition ValidateToolTranscript :: "message list \<Rightarrow> transcript_error + unit" where
  "ValidateToolTranscript history = (case validate_messages 0 history [] of
      Inl e \<Rightarrow> Inl e
    | Inr pending \<Rightarrow>
        (if pending \<noteq> [] then Inl (MissingToolResult pending (length history) None) else Inr ()))"

definition BuildProviderContext ::
  "unmarshal \<Rightarrow> message list \<Rightarrow> provider_capabilities \<Rightarrow> bool \<Rightarrow>
   transcript_error + message list" where
  "BuildProviderContext u history caps omit_reasoning =
     (let projected = projectProviderTranscript u history caps omit_reasoning in
      case ValidateToolTranscript projected of Inl e \<Rightarrow> Inl e | Inr _ \<Rightarrow> Inr projected)"

section \<open>The compacted history\<close>

definition sendable :: "block \<Rightarrow> bool" where
  "sendable b \<longleftrightarrow> compactBlocksForProvider [b] = [b]"

definition all_blocks :: "message list \<Rightarrow> block list" where
  "all_blocks h = concat (map blocks_of h)"

lemma all_blocks_simps [simp]:
  "all_blocks [] = []" "all_blocks (m # ms) = blocks_of m @ all_blocks ms"
  "all_blocks (xs @ ys) = all_blocks xs @ all_blocks ys"
  by (simp_all add: all_blocks_def)

lemma compactBlocks_filter: "compactBlocksForProvider bs = filter sendable bs"
  unfolding sendable_def compactBlocksForProvider_def by (rule filter_cong) auto

text \<open>What every state of the output slice satisfies during the loop.\<close>

definition compacted :: "message list \<Rightarrow> bool" where
  "compacted out \<longleftrightarrow> successively (\<lambda>a b. \<not> providerMessagesMergeable a b) out
     \<and> (\<forall>m \<in> set out. blocks_of m \<noteq> [] \<and> list_all sendable (blocks_of m) \<and> msg_blocks m \<noteq> None)"

lemma successively_replace_last:
  assumes "successively R xs" "xs \<noteq> []" "\<And>a. R a (last xs) \<Longrightarrow> R a y"
  shows "successively R (butlast xs @ [y])"
proof -
  from assms(2) have "successively R (butlast xs @ [last xs])" using assms(1) by simp
  then show ?thesis using assms(3) by (auto simp: successively_append_iff)
qed

lemma compact_step_compacted:
  assumes "compacted out"
  shows "compacted (compact_step out m)"
proof -
  let ?bs = "filter sendable (blocks_of m)"
  consider "?bs = []" | "?bs \<noteq> []" "out \<noteq> []" "providerMessagesMergeable (last out) m"
    | "?bs \<noteq> []" "out = [] \<or> \<not> providerMessagesMergeable (last out) m" by blast
  then show ?thesis
  proof cases
    case 1
    then show ?thesis using assms by (simp add: compact_step_def compactBlocks_filter)
  next
    case 2
    let ?y = "set_msg_blocks (Some (blocks_of (last out) @ ?bs)) (last out)"
    have "successively (\<lambda>a b. \<not> providerMessagesMergeable a b) (butlast out @ [?y])"
      using assms 2 by (intro successively_replace_last)
        (auto simp: compacted_def providerMessagesMergeable_def)
    with assms 2 show ?thesis
      by (auto simp: compact_step_def compactBlocks_filter compacted_def list_all_iff
          dest: in_set_butlastD)
  next
    case 3
    then show ?thesis
      using assms by (auto simp: compact_step_def compactBlocks_filter compacted_def
          list_all_iff successively_append_iff providerMessagesMergeable_def)
  qed
qed

lemma compact_step_blocks: "all_blocks (compact_step out m) = all_blocks out @ filter sendable (blocks_of m)"
proof (cases "out = []")
  case False
  then have "all_blocks out = all_blocks (butlast out) @ blocks_of (last out)"
    by (metis all_blocks_simps append_Nil2 append_butlast_last_id)
  then show ?thesis by (simp add: compact_step_def compactBlocks_filter Let_def)
qed (simp add: compact_step_def compactBlocks_filter Let_def)

lemma foldl_compact_compacted: "compacted out \<Longrightarrow> compacted (foldl compact_step out h)"
  by (induction h arbitrary: out) (auto intro: compact_step_compacted)

lemma foldl_compact_blocks:
  "all_blocks (foldl compact_step out h) = all_blocks out @ filter sendable (all_blocks h)"
  by (induction h arbitrary: out) (simp_all add: compact_step_blocks)

lemma compactHistory_compacted: "compacted (compactHistoryForProvider h)"
  unfolding compactHistoryForProvider_def
  by (rule foldl_compact_compacted) (simp add: compacted_def)

lemma compactHistory_blocks:
  "all_blocks (compactHistoryForProvider h) = filter sendable (all_blocks h)"
  by (simp add: compactHistoryForProvider_def foldl_compact_blocks)

lemma compact_step_fresh:
  assumes "compacted (out @ [m])"
  shows "compact_step out m = out @ [m]"
proof -
  from assms have f: "filter sendable (blocks_of m) = blocks_of m" "blocks_of m \<noteq> []"
    "msg_blocks m = Some (blocks_of m)"
    by (auto simp: compacted_def list_all_iff blocks_of_def)
  from assms have "out = [] \<or> \<not> providerMessagesMergeable (last out) m"
    by (auto simp: compacted_def successively_append_iff)
  moreover have "set_msg_blocks (Some (blocks_of m)) m = m"
    using f(3) by (cases m) auto
  ultimately show ?thesis using f by (auto simp: compact_step_def compactBlocks_filter)
qed

lemma foldl_compact_id: "compacted (out @ h) \<Longrightarrow> foldl compact_step out h = out @ h"
proof (induction h arbitrary: out)
  case (Cons m h)
  have "compacted (out @ [m])" using Cons.prems
    by (auto simp: compacted_def successively_append_iff)
  then show ?case using Cons.IH[of "out @ [m]"] Cons.prems by (simp add: compact_step_fresh)
qed simp

lemma compactHistory_idem:
  "compactHistoryForProvider (compactHistoryForProvider h) = compactHistoryForProvider h"
  using compactHistory_compacted[of h]
  by (simp add: compactHistoryForProvider_def[of "compactHistoryForProvider h"] foldl_compact_id)

section \<open>Tool calls and results\<close>

definition use_ids :: "block list \<Rightarrow> string list" where
  "use_ids bs = map tool_use_id (filter (\<lambda>b. block_type b = BlockToolUse \<and> tool_use_id b \<noteq> []) bs)"

definition result_ids :: "block list \<Rightarrow> string list" where
  "result_ids bs =
     map tool_use_id (filter (\<lambda>b. block_type b = BlockToolResult \<and> tool_use_id b \<noteq> []) bs)"

lemma use_ids_simps [simp]:
  "use_ids [] = []" "use_ids (xs @ ys) = use_ids xs @ use_ids ys"
  "use_ids (b # bs) = (if block_type b = BlockToolUse \<and> tool_use_id b \<noteq> []
     then tool_use_id b # use_ids bs else use_ids bs)"
  by (simp_all add: use_ids_def)

lemma result_ids_simps [simp]:
  "result_ids [] = []" "result_ids (xs @ ys) = result_ids xs @ result_ids ys"
  "result_ids (b # bs) = (if block_type b = BlockToolResult \<and> tool_use_id b \<noteq> []
     then tool_use_id b # result_ids bs else result_ids bs)"
  by (simp_all add: result_ids_def)

lemma removePending_mset:
  "removePendingToolResult ps i = (qs, True) \<Longrightarrow> mset (map fst ps) = add_mset i (mset (map fst qs))"
  by (induction ps i arbitrary: qs rule: removePendingToolResult.induct)
    (auto split: if_splits prod.splits)

lemma validate_blocks_mset:
  "validate_blocks a mi bi bs pending = Inr pending' \<Longrightarrow>
   mset (map fst pending) + mset (use_ids bs) = mset (map fst pending') + mset (result_ids bs)"
proof (induction bs arbitrary: bi pending)
  case (Cons b bs)
  show ?case
  proof (cases "block_type b = BlockToolResult \<and> tool_use_id b \<noteq> []")
    case True
    with Cons.prems obtain qs where rem: "removePendingToolResult pending (tool_use_id b) = (qs, True)"
      and ok: "validate_blocks a mi (Suc bi) bs qs = Inr pending'"
      by (auto split: if_splits prod.splits bool.splits)
    from True removePending_mset[OF rem] Cons.IH[OF ok] show ?thesis by simp
  next
    case False
    then show ?thesis using Cons.prems
      by (auto split: if_splits block_type.splits dest!: Cons.IH)
  qed
qed simp

lemma validate_blocks_prefix:
  assumes "validate_blocks a mi bi (xs @ ys) pending = Inr pending'"
  shows "\<exists>q. validate_blocks a mi bi xs pending = Inr q"
  using assms
  by (induction a mi bi xs pending arbitrary: pending' rule: validate_blocks.induct)
    (auto split: if_splits block_type.splits prod.splits bool.splits)

lemma validate_messages_mset:
  "validate_messages mi ms pending = Inr pending' \<Longrightarrow>
   mset (map fst pending) + mset (use_ids (all_blocks ms))
     = mset (map fst pending') + mset (result_ids (all_blocks ms))"
proof (induction mi ms pending arbitrary: pending' rule: validate_messages.induct)
  case (2 mi m ms pending)
  then obtain q where q: "validate_blocks (pending \<noteq> []) mi 0 (blocks_of m) pending = Inr q"
    and r: "validate_messages (Suc mi) ms q = Inr pending'"
    by (auto split: sum.splits)
  from validate_blocks_mset[OF q] "2.IH"[OF q r] show ?case
    by (simp add: add.assoc) (metis (no_types, lifting) add.assoc add.commute)
qed simp

lemma validate_messages_prefix:
  assumes "validate_messages mi ms pending = Inr pending'" and "prefix p (all_blocks ms)"
  shows "mset (result_ids p) \<subseteq># mset (map fst pending) + mset (use_ids p)"
  using assms
proof (induction mi ms pending arbitrary: pending' p rule: validate_messages.induct)
  case (1 mi pending)
  then show ?case by simp
next
  case (2 mi m ms pending)
  then obtain q where q: "validate_blocks (pending \<noteq> []) mi 0 (blocks_of m) pending = Inr q"
    and r: "validate_messages (Suc mi) ms q = Inr pending'"
    by (auto split: sum.splits)
  from "2.prems"(2) consider (head) "prefix p (blocks_of m)"
    | (tail) p' where "p = blocks_of m @ p'" "prefix p' (all_blocks ms)"
    by (auto simp: prefix_append)
  then show ?case
  proof cases
    case head
    then obtain ys where "blocks_of m = p @ ys" by (auto simp: prefix_def)
    with q validate_blocks_prefix obtain q' where
      "validate_blocks (pending \<noteq> []) mi 0 p pending = Inr q'" by metis
    from validate_blocks_mset[OF this] show ?thesis by (metis mset_subset_eq_add_right)
  next
    case tail
    have "mset (result_ids p') \<subseteq># mset (map fst q) + mset (use_ids p')"
      using "2.IH"[OF q r tail(2)] .
    then have "mset (result_ids (blocks_of m)) + mset (result_ids p')
        \<subseteq># (mset (map fst q) + mset (result_ids (blocks_of m))) + mset (use_ids p')"
      by (simp add: ac_simps)
    also have "mset (map fst q) + mset (result_ids (blocks_of m))
        = mset (map fst pending) + mset (use_ids (blocks_of m))"
      using validate_blocks_mset[OF q] by simp
    finally show ?thesis using tail(1) by (simp add: ac_simps)
  qed
qed

lemma validate_no_tools:
  "\<forall>b \<in> set bs. block_type b \<noteq> BlockToolUse \<and> block_type b \<noteq> BlockToolResult \<Longrightarrow>
   validate_blocks a mi bi bs [] = Inr []"
  by (induction bs arbitrary: bi) (auto split: block_type.splits)

lemma validate_messages_no_tools:
  "\<forall>b \<in> set (all_blocks ms). block_type b \<noteq> BlockToolUse \<and> block_type b \<noteq> BlockToolResult \<Longrightarrow>
   validate_messages mi ms [] = Inr []"
  by (induction ms arbitrary: mi) (auto simp: validate_no_tools)

lemma all_blocks_map_project:
  "set (all_blocks (map (\<lambda>m. set_msg_blocks (Some (f m)) m) ms)) = (\<Union>m \<in> set ms. set (f m))"
  by (induction ms) auto

lemma projected_no_tools:
  assumes "\<not> cap_tools caps" and "b \<in> set (all_blocks (projectProviderTranscript u h caps om))"
  shows "block_type b \<noteq> BlockToolUse \<and> block_type b \<noteq> BlockToolResult"
proof -
  from assms(2) obtain c where c: "b = projectProviderBlock u c caps"
    "shouldProjectProviderBlock c caps om"
    by (auto simp: projectProviderTranscript_def compactHistory_blocks all_blocks_map_project)
  with assms(1) show ?thesis
    by (auto simp: projectProviderBlock_def shouldProjectProviderBlock_def
        imagePlaceholderBlock_def split: block_type.splits)
qed


definition wit_call :: message where
  "wit_call = Message ''m1'' RoleAssistant (Some [empty_block\<lparr>block_type := BlockToolUse,
     tool_use_id := ''t1'', tool_name := ''shell''\<rparr>]) KindNone False [] None"

definition wit_result :: message where
  "wit_result = Message ''m2'' RoleUser (Some [empty_block\<lparr>block_type := BlockToolResult,
     tool_use_id := ''t1'', block_content := ''ok''\<rparr>]) KindToolResult False [] None"

definition wit_caps :: provider_capabilities where
  "wit_caps = \<lparr>cap_tools = True, cap_vision = False, cap_streaming = False,
     cap_reasoning_effort = False, cap_reasoning_replay = False, cap_max_output_tokens = False\<rparr>"

lemma wit_context:
  "BuildProviderContext (\<lambda>_. None) [wit_call, wit_result] wit_caps False
     = Inr [wit_call, wit_result]"
  by (simp add: BuildProviderContext_def ValidateToolTranscript_def projectProviderTranscript_def
      compactHistoryForProvider_def compact_step_def compactBlocksForProvider_def blocks_of_def
      wit_call_def wit_result_def wit_caps_def shouldProjectProviderBlock_def
      projectProviderBlock_def ProviderToolInput_def empty_block_def
      providerMessagesMergeable_def Let_def)


text \<open>The compacted history keeps the blocks a provider can receive, in order, merges
  neighbours of the same role and kind, leaves no message without blocks, and compacting it again
  changes nothing.\<close>

theorem compact_history_canonical:
  "compacted (compactHistoryForProvider h)
   \<and> all_blocks (compactHistoryForProvider h) = filter sendable (all_blocks h)
   \<and> compactHistoryForProvider (compactHistoryForProvider h) = compactHistoryForProvider h"
  by (simp add: compactHistory_compacted compactHistory_blocks compactHistory_idem)

text \<open>For a model without the tools capability the provider context is always built, and it
  has neither tool calls nor tool results, however broken the stored transcript is.\<close>

theorem provider_context_without_tools:
  assumes "\<not> cap_tools caps"
  shows "\<exists>msgs. BuildProviderContext u history caps omit = Inr msgs
    \<and> use_ids (all_blocks msgs) = [] \<and> result_ids (all_blocks msgs) = []"
proof -
  let ?msgs = "projectProviderTranscript u history caps omit"
  have none: "\<forall>b \<in> set (all_blocks ?msgs).
      block_type b \<noteq> BlockToolUse \<and> block_type b \<noteq> BlockToolResult"
    using projected_no_tools[OF assms] by blast
  then have "BuildProviderContext u history caps omit = Inr ?msgs"
    by (simp add: BuildProviderContext_def ValidateToolTranscript_def Let_def
        validate_messages_no_tools)
  moreover from none have "use_ids (all_blocks ?msgs) = []" "result_ids (all_blocks ?msgs) = []"
    by (auto simp: use_ids_def result_ids_def filter_empty_conv)
  ultimately show ?thesis by blast
qed

theorem provider_context_without_tools_witness:
  "\<exists>msgs. BuildProviderContext (\<lambda>_. None) [wit_result] (wit_caps\<lparr>cap_tools := False\<rparr>) False = Inr msgs
    \<and> use_ids (all_blocks msgs) = [] \<and> result_ids (all_blocks msgs) = []"
  by (rule provider_context_without_tools) simp

end
