(* ===== verification/Events.thy ===== *)
theory Events
  imports Prelude
begin

text \<open>
  The event envelope of \<^verbatim>\<open>internal/foundation/events\<close> and the decoding of payload fields by
  \<^verbatim>\<open>encoding/json\<close>. A payload is the JSON value its Go struct encodes to, which is also what the
  journal gives back. Unmarshalling fills each known field on its own: a missing or null field
  keeps the zero value, and a field of the wrong type is reported as an error after the others are
  filled. Keys are matched exactly.
\<close>

datatype replay_policy = ReplayDefault | ReplayOther string

record event =
  ev_id :: string
  ev_type :: string
  schema_version :: int
  ev_replay_policy :: replay_policy
  ev_timestamp :: instant
  ev_turn_id :: string
  ev_payload :: json
  ev_transient :: bool
  ev_opaque :: bool

definition new_event :: "string \<Rightarrow> string \<Rightarrow> json \<Rightarrow> event" where
  "new_event ty turn p = \<lparr>ev_id = [], ev_type = ty, schema_version = 0,
     ev_replay_policy = ReplayDefault, ev_timestamp = 0, ev_turn_id = turn, ev_payload = p,
     ev_transient = False, ev_opaque = False\<rparr>"

text \<open>\<^verbatim>\<open>Normalize\<close>: a random id (\<open>fresh\<close>) and the current time where they are unset.\<close>

definition Normalize :: "string \<Rightarrow> instant \<Rightarrow> event \<Rightarrow> event" where
  "Normalize fresh now e =
     (let e1 = (if ev_id e = [] then e\<lparr>ev_id := fresh\<rparr> else e);
          e2 = (if ev_timestamp e1 = 0 then e1\<lparr>ev_timestamp := now\<rparr> else e1)
      in e2\<lparr>ev_timestamp := truncate_ms (ev_timestamp e2)\<rparr>)"

section \<open>Field decoding\<close>

definition field :: "json \<Rightarrow> string \<Rightarrow> json option" where
  "field j k = (case j of JObj obj \<Rightarrow> map_of obj k | _ \<Rightarrow> None)"

text \<open>Each decoder gives the value stored in the Go field and whether decoding it was an error.\<close>

definition dec_string :: "json option \<Rightarrow> string \<times> bool" where
  "dec_string j = (case j of None \<Rightarrow> ([], False) | Some JNull \<Rightarrow> ([], False)
     | Some (JStr s) \<Rightarrow> (s, False) | Some _ \<Rightarrow> ([], True))"

definition dec_time :: "json option \<Rightarrow> instant \<times> bool" where
  "dec_time j = (case j of None \<Rightarrow> (0, False) | Some JNull \<Rightarrow> (0, False)
     | Some (JTime t) \<Rightarrow> (t, False) | Some _ \<Rightarrow> (0, True))"

definition dec_strings :: "json option \<Rightarrow> string list \<times> bool" where
  "dec_strings j = (case j of None \<Rightarrow> ([], False) | Some JNull \<Rightarrow> ([], False)
     | Some (JArr xs) \<Rightarrow> (map (\<lambda>x. fst (dec_string (Some x))) xs,
                          list_ex (\<lambda>x. snd (dec_string (Some x))) xs)
     | Some _ \<Rightarrow> ([], True))"

text \<open>Whether a JSON value can be decoded into a struct at all.\<close>

definition dec_struct_error :: "json \<Rightarrow> bool" where
  "dec_struct_error j = (case j of JNull \<Rightarrow> False | JObj _ \<Rightarrow> False | _ \<Rightarrow> True)"

lemma dec_simps [simp]:
  "dec_string (Some (JStr s)) = (s, False)" "dec_string None = ([], False)"
  "dec_time (Some (JTime t)) = (t, False)" "dec_time None = (0, False)"
  "dec_strings None = ([], False)" "dec_strings (Some JNull) = ([], False)"
  by (simp_all add: dec_string_def dec_time_def dec_strings_def)

lemma dec_strings_JStr [simp]: "dec_strings (Some (JArr (map JStr xs))) = (xs, False)"
  by (simp add: dec_strings_def comp_def list_ex_iff)

end
