(* ===== verification/PendingQueue.thy ===== *)
theory PendingQueue
  imports LLM Events
begin

text \<open>
  The durable pending-input queue of a Thread: \<^verbatim>\<open>PendingInputQueue\<close> in
  \<^verbatim>\<open>internal/framework/runtime/pending_queue.go\<close> and its input-tracking half in
  \<^verbatim>\<open>input_tracking.go\<close>. Every method is one operation on a \<open>pending_queue\<close> record; the queue mutex makes
  the methods atomic, so an execution is a sequence of operations.

  The record holds the fields of the Go struct and the parts of the world the methods touch:
  the file \<^verbatim>\<open>inputs.json\<close> (its decoded content), the outcome of each coming file write and of
  each coming update of the Thread's pending count, and the facts read from the Thread (its
  committed events, its message history, its context scope and its materialized count). Time, fresh
  random ids and the message id derived from an input id are arguments of the operations.
\<close>

section \<open>Data\<close>

datatype pending_input_state =
    StAccepting | StPending | StAdmitted | StProcessed | StRetryable | StDeadLettered
  | StSettled | StExpired | StDropped | StOther string

datatype pending_input_origin = OriginQueued | OriginTurn | OriginOther string

record pending_input_record =
  scope_id :: string
  checked_at :: "instant option"
  model_message :: "message option"
  rec_id :: string
  turn_id :: string
  message_id :: string
  rec_message :: message
  rec_summary :: string
  origin :: pending_input_origin
  rec_state :: pending_input_state
  created_at :: instant
  expires_at :: instant
  attempts :: int
  processed_at :: "instant option"
  last_error :: string
  last_error_kind :: string

definition isReplayablePendingState :: "pending_input_state \<Rightarrow> bool" where
  "isReplayablePendingState s \<longleftrightarrow>
     s \<in> {StAccepting, StPending, StAdmitted, StProcessed, StRetryable}"

definition record_Expired :: "pending_input_record \<Rightarrow> instant \<Rightarrow> bool" where
  "record_Expired r now \<longleftrightarrow> scope_id r = [] \<and> origin r \<noteq> OriginTurn
     \<and> isReplayablePendingState (rec_state r) \<and> expires_at r \<noteq> 0 \<and> \<not> expires_at r > now"

record input_checked_payload =
  icp_input_ids :: "string list"
  icp_scope_id :: string
  icp_checked_at :: instant
  icp_tool_use_id :: string
  icp_message_id :: string

datatype inputs_file =
    FileMissing | FileUnreadable | FileMalformed | FileDocument int "pending_input_record list"

record thread_view =
  tv_events :: "event list"
  tv_events_readable :: bool
  tv_history :: "message list"
  tv_scope :: string
  tv_pending_inputs :: int

record pending_queue =
  q_track :: bool
  q_scope :: string
  q_checked :: "(string \<times> input_checked_payload) list"
  q_thread :: "thread_view option"
  q_file :: inputs_file
  q_writes :: "write_result list"
  q_counts :: "write_result list"
  q_loaded :: bool
  q_records :: "(string \<times> pending_input_record) list"
  q_order :: "string list"
  q_message_index :: "string \<rightharpoonup> string"
  q_turn_index :: "string \<rightharpoonup> string"
  q_completed :: "string set"
  q_handled :: "string set"
  q_handled_msgs :: "string set"

record pq_env =
  env_now :: instant
  env_message_id :: "instant \<Rightarrow> string \<Rightarrow> string"
  env_fresh :: "string list"
  env_event_id :: string

datatype record_error =
    InvalidIdentity | InvalidTimes | InvalidOrigin | AcceptingWithoutTurn
  | WithoutTurn pending_input_state | NotPersistable pending_input_state
  | BadRetryKind string | RetainsErrorKind pending_input_state

datatype pq_error =
    ErrReadState | ErrMalformed | ErrVersion int | ErrRecord nat record_error
  | ErrDuplicateId string | ErrSharedMessage string string string
  | ErrReadEvents | ErrEncode string record_error | ErrWrite | ErrCount
  | ErrPendingInputHandled | ErrChecklistFull | ErrStillDrawing
  | ErrIntentNotFound string | ErrIntentState string pending_input_state string
  | ErrRollback string pending_input_state
  | ErrNeedThreadAndIds | ErrInvalidInputId string | ErrUnknownInput string
  | ErrContext | ErrAppendEvent | ErrUncheckedRemain

datatype pending_terminal_disposition =
  TerminalNone | TerminalCompleted | TerminalCancelled | TerminalRetryable | TerminalDeadLettered

definition pendingInputSummaryLength :: nat where "pendingInputSummaryLength = 200"
definition pendingInputDocumentVersion :: int where "pendingInputDocumentVersion = 1"
definition maxTrackedInputs :: nat where "maxTrackedInputs = 256"
definition DefaultPendingInputTTL :: int where "DefaultPendingInputTTL = 15 * 60 * 1000000000"
definition InitialGeneration :: string where "InitialGeneration = ''g000001''"

definition InputCheckedType :: string where "InputCheckedType = ''input.checked''"
definition InputTrackedType :: string where "InputTrackedType = ''input.tracked''"

definition truncate_text :: "string \<Rightarrow> nat \<Rightarrow> string" where
  "truncate_text s n = (if length s \<le> n then s
     else take n s @ ''...(truncated, total '' @ itoa (length s) @ '' bytes)'')"

definition nowMillis :: "pq_env \<Rightarrow> instant" where
  "nowMillis env = truncate_ms (env_now env)"

definition NewPendingInputQueue ::
  "bool \<Rightarrow> thread_view option \<Rightarrow> inputs_file \<Rightarrow> write_result list \<Rightarrow> write_result list \<Rightarrow>
   pending_queue" where
  "NewPendingInputQueue track th file writes counts =
     \<lparr>q_track = track, q_scope = [], q_checked = [], q_thread = th, q_file = file,
      q_writes = writes, q_counts = counts, q_loaded = False, q_records = [], q_order = [],
      q_message_index = Map.empty, q_turn_index = Map.empty, q_completed = {}, q_handled = {},
      q_handled_msgs = {}\<rparr>"

section \<open>Records, order and indexes\<close>

text \<open>Removing the first occurrence of an id from the order slice.\<close>

definition removePendingInputID :: "string list \<Rightarrow> string \<Rightarrow> string list" where
  "removePendingInputID order i = remove1 i order"

fun nextUniquePendingInputID ::
  "(string \<times> pending_input_record) list \<Rightarrow> string list \<Rightarrow> string option" where
  "nextUniquePendingInputID records [] = None"
| "nextUniquePendingInputID records (c # cs) =
     (if c \<in> keys records then nextUniquePendingInputID records cs else Some c)"

definition index_step ::
  "(string \<times> pending_input_record) list \<Rightarrow>
   (string \<rightharpoonup> string) \<times> (string \<rightharpoonup> string) \<Rightarrow> string \<Rightarrow>
   (string \<rightharpoonup> string) \<times> (string \<rightharpoonup> string)" where
  "index_step records ix i = (case map_of records i of None \<Rightarrow> ix
     | Some r \<Rightarrow>
        (let mi = (fst ix)(message_id r \<mapsto> i) in
         if origin r = OriginTurn \<and> (rec_state r = StAdmitted \<or> rec_state r = StProcessed)
            \<and> turn_id r \<noteq> []
         then (mi, (snd ix)(turn_id r \<mapsto> i)) else (mi, snd ix)))"

definition rebuildIndexesLocked :: "pending_queue \<Rightarrow> pending_queue" where
  "rebuildIndexesLocked q =
     (let ix = foldl (index_step (q_records q)) (Map.empty, Map.empty) (q_order q)
      in q\<lparr>q_message_index := fst ix, q_turn_index := snd ix\<rparr>)"

definition materializedPendingCountLocked :: "pending_queue \<Rightarrow> int" where
  "materializedPendingCountLocked q = int (length (filter
     (\<lambda>(_, r). rec_state r \<in> {StAccepting, StPending, StRetryable}) (q_records q)))"

definition validatePendingInputRecord :: "pending_input_record \<Rightarrow> record_error option" where
  "validatePendingInputRecord r =
     (if trim_space (rec_id r) = [] \<or> trim_space (rec_id r) \<noteq> rec_id r
         \<or> trim_space (message_id r) = [] \<or> trim_space (message_id r) \<noteq> message_id r
         \<or> msg_id (rec_message r) \<noteq> message_id r \<or> msg_role (rec_message r) \<noteq> RoleUser
         \<or> msg_blocks (rec_message r) = None
      then Some InvalidIdentity
      else if created_at r = 0 \<or> attempts r < 0 then Some InvalidTimes
      else if origin r \<noteq> OriginQueued \<and> origin r \<noteq> OriginTurn then Some InvalidOrigin
      else case
        (case rec_state r of
           StAccepting \<Rightarrow>
             (if origin r \<noteq> OriginTurn \<or> turn_id r = [] then Some AcceptingWithoutTurn else None)
         | StPending \<Rightarrow> None
         | StExpired \<Rightarrow> Some (NotPersistable StExpired)
         | StDropped \<Rightarrow> Some (NotPersistable StDropped)
         | StOther s \<Rightarrow> Some (NotPersistable (StOther s))
         | st \<Rightarrow> (if turn_id r = [] then Some (WithoutTurn st) else None)) of
        Some e \<Rightarrow> Some e
      | None \<Rightarrow>
          (if rec_state r = StRetryable
           then (if last_error_kind r \<in> {''runtime_restart'', ''interrupted'', ''terminated''}
                 then None else Some (BadRetryKind (last_error_kind r)))
           else if last_error_kind r \<noteq> [] \<and> rec_state r \<noteq> StDeadLettered
           then Some (RetainsErrorKind (rec_state r))
           else None))"

section \<open>Persistence\<close>

text \<open>The write of \<^verbatim>\<open>inputs.json\<close>: a failed atomic write leaves the old file or the new one.\<close>

definition writeFile :: "inputs_file \<Rightarrow> (pending_queue, pq_error, unit) op" where
  "writeFile doc q = (case q_writes q of
      [] \<Rightarrow> (Inr (), q\<lparr>q_file := doc\<rparr>)
    | WriteOk # ws \<Rightarrow> (Inr (), q\<lparr>q_file := doc, q_writes := ws\<rparr>)
    | WriteFailed rep # ws \<Rightarrow>
        (Inl ErrWrite, q\<lparr>q_file := (if rep then doc else q_file q), q_writes := ws\<rparr>))"

definition SetPendingInputCount :: "int \<Rightarrow> thread_view \<Rightarrow> (pending_queue, pq_error, unit) op" where
  "SetPendingInputCount n t q =
     (let q' = q\<lparr>q_thread := Some (t\<lparr>tv_pending_inputs := n\<rparr>)\<rparr> in case q_counts q of
        [] \<Rightarrow> (Inr (), q')
      | WriteOk # cs \<Rightarrow> (Inr (), q'\<lparr>q_counts := cs\<rparr>)
      | WriteFailed rep # cs \<Rightarrow> (Inl ErrCount, (if rep then q' else q)\<lparr>q_counts := cs\<rparr>))"

definition synchronizePendingCountLocked :: "bool \<Rightarrow> (pending_queue, pq_error, unit) op" where
  "synchronizePendingCountLocked force q = (case q_thread q of
      None \<Rightarrow> (Inr (), q)
    | Some t \<Rightarrow>
        (let count = materializedPendingCountLocked q in
         if \<not> force \<and> tv_pending_inputs t = count then (Inr (), q)
         else SetPendingInputCount count t q))"

fun encode_records ::
  "(string \<times> pending_input_record) list \<Rightarrow> string list \<Rightarrow>
   pq_error + pending_input_record list" where
  "encode_records records [] = Inr []"
| "encode_records records (i # is) = (case map_of records i of
      None \<Rightarrow> encode_records records is
    | Some r \<Rightarrow> (case validatePendingInputRecord r of
        Some e \<Rightarrow> Inl (ErrEncode i e)
      | None \<Rightarrow> (case encode_records records is of
          Inl e \<Rightarrow> Inl e | Inr rs \<Rightarrow> Inr (r # rs))))"

definition persistLocked ::
  "(string \<times> pending_input_record) list \<Rightarrow> string list \<Rightarrow> (pending_queue, pq_error, unit) op" where
  "persistLocked records order q = (case encode_records records order of
      Inl e \<Rightarrow> (Inl e, q)
    | Inr rs \<Rightarrow>
        (case writeFile (FileDocument pendingInputDocumentVersion rs) q of
           (Inl e, q1) \<Rightarrow> (Inl e, q1\<lparr>q_loaded := False\<rparr>)
         | (Inr _, q1) \<Rightarrow>
            (let q2 = (rebuildIndexesLocked
                        (q1\<lparr>q_records := records, q_order := order\<rparr>))\<lparr>q_loaded := True\<rparr> in
             case synchronizePendingCountLocked False q2 of
               (Inl e, q3) \<Rightarrow> (Inl e, q3\<lparr>q_loaded := False\<rparr>)
             | (Inr _, q3) \<Rightarrow> (Inr (), q3))))"

definition persistCurrentLocked :: "(pending_queue, pq_error, unit) op" where
  "persistCurrentLocked q = persistLocked (q_records q) (q_order q) q"

definition upsertLocked :: "pending_input_record \<Rightarrow> (pending_queue, pq_error, unit) op" where
  "upsertLocked r q =
     (let records = q_records q; order = q_order q in
      if rec_id r \<notin> keys records then
        (if scope_id r \<noteq> [] \<and>
            maxTrackedInputs \<le> length (filter (\<lambda>(_, e). scope_id e \<noteq> [] \<and> scope_id e = q_scope q
                                   \<and> checked_at e = None) records)
         then (Inl ErrChecklistFull, q)
         else persistLocked (AList.update (rec_id r) r records) (order @ [rec_id r]) q)
      else persistLocked (AList.update (rec_id r) r records) order q)"

section \<open>Terminal events\<close>

definition pendingDispositionFromEvent ::
  "event \<Rightarrow> pending_terminal_disposition \<times> string list \<times> string \<times> string" where
  "pendingDispositionFromEvent e =
     (if ev_type e \<notin> {''turn.completed'', ''turn.errored'', ''turn.cancelled''}
      then (TerminalNone, [], [], [])
      else let (ids, e1) = dec_strings (field (ev_payload e) ''input_ids'');
               (err, e2) = dec_string (field (ev_payload e) ''error'');
               (kind, e3) = dec_string (field (ev_payload e) ''error_kind'')
        in if dec_struct_error (ev_payload e) \<or> e1 \<or> e2 \<or> e3 \<or> ids = []
           then (TerminalNone, [], [], [])
           else if ev_type e = ''turn.completed'' then (TerminalCompleted, ids, [], [])
           else if ev_type e = ''turn.cancelled'' then (TerminalCancelled, ids, err, kind)
           else if kind = ''cancelled'' then (TerminalCancelled, ids, err, kind)
           else if kind \<in> {''runtime_restart'', ''interrupted'', ''terminated''}
           then (TerminalRetryable, ids, err, kind)
           else (TerminalDeadLettered, ids, err, kind))"

definition terminal_step ::
  "pending_terminal_disposition \<Rightarrow> string \<Rightarrow> string \<Rightarrow> string \<Rightarrow> pending_queue \<times> bool \<Rightarrow>
   pending_queue \<times> bool" where
  "terminal_step d msg kind i qc = (let q = fst qc in case map_of (q_records q) i of
      None \<Rightarrow> qc
    | Some r \<Rightarrow> (case d of
        TerminalNone \<Rightarrow> qc
      | TerminalRetryable \<Rightarrow>
          (if rec_state r \<noteq> StRetryable \<or> last_error r \<noteq> msg \<or> last_error_kind r \<noteq> kind
           then (q\<lparr>q_records := AList.update i (r\<lparr>rec_state := StRetryable, last_error := msg,
                    last_error_kind := kind\<rparr>) (q_records q)\<rparr>, True)
           else qc)
      | TerminalDeadLettered \<Rightarrow>
          (if rec_state r \<noteq> StDeadLettered \<or> last_error r \<noteq> msg \<or> last_error_kind r \<noteq> kind
           then (q\<lparr>q_records := AList.update i (r\<lparr>rec_state := StDeadLettered, last_error := msg,
                    last_error_kind := kind\<rparr>) (q_records q)\<rparr>, True)
           else qc)
      | _ \<Rightarrow>
          (if scope_id r \<noteq> [] \<and> scope_id r = q_scope q \<and> checked_at r = None
           then (if rec_state r \<noteq> StSettled
                 then (q\<lparr>q_records := AList.update i (r\<lparr>rec_state := StSettled, last_error := [],
                          last_error_kind := []\<rparr>) (q_records q)\<rparr>, True)
                 else qc)
           else (q\<lparr>q_records := AList.delete i (q_records q),
                    q_order := removePendingInputID (q_order q) i\<rparr>, True))))"

definition applyTerminalStateLocked ::
  "pending_terminal_disposition \<Rightarrow> string list \<Rightarrow> string \<Rightarrow> string \<Rightarrow> pending_queue \<Rightarrow>
   pending_queue \<times> bool" where
  "applyTerminalStateLocked d ids msg kind q =
     (if d = TerminalNone \<or> ids = [] then (q, False)
      else let (q', changed) = fold (terminal_step d msg kind) ids (q, False)
        in (if changed then rebuildIndexesLocked q' else q', changed))"

definition mark_handled :: "string list \<Rightarrow> pending_queue \<Rightarrow> pending_queue" where
  "mark_handled ids q = q\<lparr>q_handled := q_handled q \<union> set ids\<rparr>"

definition mark_handled_msgs :: "string list \<Rightarrow> pending_queue \<Rightarrow> pending_queue" where
  "mark_handled_msgs ids q = q\<lparr>q_handled_msgs := q_handled_msgs q
     \<union> set (List.map_filter (\<lambda>i. map_option message_id (map_of (q_records q) i)) ids)\<rparr>"

definition mark_completed ::
  "pending_terminal_disposition \<Rightarrow> string list \<Rightarrow> pending_queue \<Rightarrow> pending_queue" where
  "mark_completed d ids q =
     (if d = TerminalCompleted then q\<lparr>q_completed := q_completed q \<union> set ids\<rparr> else q)"

definition applyTerminalLocked ::
  "pending_terminal_disposition \<Rightarrow> string list \<Rightarrow> string \<Rightarrow> string \<Rightarrow>
   (pending_queue, pq_error, unit) op" where
  "applyTerminalLocked d ids msg kind q =
     (let q1 = mark_completed d ids (mark_handled_msgs ids (mark_handled ids q));
          (q2, changed) = applyTerminalStateLocked d ids msg kind q1
      in if changed then persistCurrentLocked q2 else (Inr (), q2))"

section \<open>Input tracking\<close>

definition currentInputScopeID :: "pending_queue \<Rightarrow> string" where
  "currentInputScopeID q = (case q_thread q of None \<Rightarrow> InitialGeneration | Some t \<Rightarrow> tv_scope t)"

definition trackInputLocked :: "pending_queue \<Rightarrow> pending_input_record \<Rightarrow> pending_input_record" where
  "trackInputLocked q r =
     (if q_track q \<and> msg_kind (ClassifyUserMessage (rec_message r)) = KindDirect
      then r\<lparr>scope_id := q_scope q, expires_at := 0\<rparr> else r)"

definition processedMessageLocked :: "pending_queue \<Rightarrow> pending_input_record \<Rightarrow> message option" where
  "processedMessageLocked q r =
     (if scope_id r = [] then None
      else case q_thread q of None \<Rightarrow> model_message r
        | Some t \<Rightarrow> (case find (\<lambda>m. msg_id m = message_id r) (tv_history t) of
            Some m \<Rightarrow> Some m | None \<Rightarrow> model_message r))"

definition prune_step :: "string \<Rightarrow> pending_queue \<times> bool \<Rightarrow> pending_queue \<times> bool" where
  "prune_step i qc = (let q = fst qc in case map_of (q_records q) i of
      None \<Rightarrow> qc
    | Some r \<Rightarrow>
        (if scope_id r = [] \<or> scope_id r = q_scope q then qc
         else if rec_state r = StSettled
         then (q\<lparr>q_records := AList.delete i (q_records q),
                  q_order := removePendingInputID (q_order q) i\<rparr>, True)
         else if model_message r = None
         then (q\<lparr>q_records := AList.update i (r\<lparr>scope_id := q_scope q\<rparr>) (q_records q)\<rparr>, True)
         else qc))"

definition pruneInputScopesLocked :: "pending_queue \<Rightarrow> pending_queue \<times> bool" where
  "pruneInputScopesLocked q = fold prune_step (q_order q) (q, False)"

definition refreshInputScopeLocked :: "(pending_queue, pq_error, unit) op" where
  "refreshInputScopeLocked q =
     (let current = currentInputScopeID q in
      if q_scope q \<noteq> current
      then (let (q', changed) = pruneInputScopesLocked (q\<lparr>q_scope := current, q_checked := []\<rparr>)
            in if changed then persistCurrentLocked q' else (Inr (), q'))
      else (Inr (), q))"

definition check_step ::
  "input_checked_payload \<Rightarrow> string \<Rightarrow> pending_queue \<times> bool \<Rightarrow> pending_queue \<times> bool" where
  "check_step p i qc =
     (let q = (fst qc)\<lparr>q_checked := AList.update i p (q_checked (fst qc))\<rparr> in
      case map_of (q_records q) i of
        None \<Rightarrow> (q, snd qc)
      | Some r \<Rightarrow>
          (if scope_id r \<noteq> icp_scope_id p \<or> checked_at r \<noteq> None then (q, snd qc)
           else if rec_state r = StSettled
           then (q\<lparr>q_records := AList.delete i (q_records q),
                    q_order := removePendingInputID (q_order q) i\<rparr>, True)
           else (q\<lparr>q_records := AList.update i (r\<lparr>checked_at := Some (icp_checked_at p)\<rparr>)
                    (q_records q)\<rparr>, True)))"

definition applyInputCheckLocked ::
  "input_checked_payload \<Rightarrow> pending_queue \<Rightarrow> pending_queue \<times> bool" where
  "applyInputCheckLocked p q =
     (if icp_scope_id p = [] \<or> icp_scope_id p \<noteq> q_scope q then (q, False)
      else fold (check_step p) (icp_input_ids p) (q, False))"

definition decode_input_checked :: "json \<Rightarrow> input_checked_payload" where
  "decode_input_checked j = \<lparr>icp_input_ids = fst (dec_strings (field j ''input_ids'')),
     icp_scope_id = fst (dec_string (field j ''scope_id'')),
     icp_checked_at = fst (dec_time (field j ''checked_at'')),
     icp_tool_use_id = fst (dec_string (field j ''tool_use_id'')),
     icp_message_id = fst (dec_string (field j ''message_id''))\<rparr>"

definition encode_input_checked :: "input_checked_payload \<Rightarrow> json" where
  "encode_input_checked p = JObj [(''input_ids'', JArr (map JStr (icp_input_ids p))),
     (''scope_id'', JStr (icp_scope_id p)), (''checked_at'', JTime (icp_checked_at p)),
     (''tool_use_id'', JStr (icp_tool_use_id p)), (''message_id'', JStr (icp_message_id p))]"

lemma decode_encode_input_checked [simp]: "decode_input_checked (encode_input_checked p) = p"
  by (simp add: decode_input_checked_def encode_input_checked_def field_def)

section \<open>Loading\<close>

fun load_records ::
  "nat \<Rightarrow> pending_input_record list \<Rightarrow> (string \<times> pending_input_record) list \<Rightarrow> string list \<Rightarrow>
   (string \<times> string) list \<Rightarrow>
   pq_error + ((string \<times> pending_input_record) list \<times> string list)" where
  "load_records n [] records order messages = Inr (records, order)"
| "load_records n (r # rs) records order messages =
     (case validatePendingInputRecord r of
        Some e \<Rightarrow> Inl (ErrRecord n e)
      | None \<Rightarrow>
         (if rec_id r \<in> keys records then Inl (ErrDuplicateId (rec_id r))
          else case map_of messages (message_id r) of
            Some previous \<Rightarrow> Inl (ErrSharedMessage (message_id r) previous (rec_id r))
          | None \<Rightarrow> load_records (Suc n) rs (AList.update (rec_id r) r records)
                     (order @ [rec_id r]) (AList.update (message_id r) (rec_id r) messages)))"

definition loadDocumentLocked ::
  "inputs_file \<Rightarrow> pq_error + ((string \<times> pending_input_record) list \<times> string list)" where
  "loadDocumentLocked f = (case f of
      FileMissing \<Rightarrow> Inr ([], [])
    | FileUnreadable \<Rightarrow> Inl ErrReadState
    | FileMalformed \<Rightarrow> Inl ErrMalformed
    | FileDocument v rs \<Rightarrow>
        (if v \<noteq> pendingInputDocumentVersion then Inl (ErrVersion v)
         else load_records 0 rs [] [] []))"

definition replay_event :: "event \<Rightarrow> pending_queue \<times> bool \<Rightarrow> pending_queue \<times> bool" where
  "replay_event e qc =
     (let (q1, c1) = (if ev_type e = InputCheckedType
                      then applyInputCheckLocked (decode_input_checked (ev_payload e)) (fst qc)
                      else (fst qc, False));
          (d, ids, msg, kind) = pendingDispositionFromEvent e;
          q2 = (if d \<noteq> TerminalNone then mark_handled ids q1 else q1);
          q3 = mark_completed d ids q2;
          (q4, c4) = applyTerminalStateLocked d ids msg kind q3
      in (q4, snd qc \<or> c1 \<or> c4))"

definition fill_model_message ::
  "pq_env \<Rightarrow> pending_queue \<Rightarrow> pending_input_record \<Rightarrow> pending_input_record" where
  "fill_model_message env q r =
     (if scope_id r \<noteq> [] \<and> model_message r = None
      then case processedMessageLocked q r of None \<Rightarrow> r
        | Some m \<Rightarrow> r\<lparr>model_message := Some m, processed_at :=
            (case processed_at r of None \<Rightarrow> Some (nowMillis env) | Some t \<Rightarrow> Some t)\<rparr>
      else r)"

definition fill_model_messages :: "pq_env \<Rightarrow> pending_queue \<Rightarrow> pending_queue \<times> bool" where
  "fill_model_messages env q =
     (let records = map (\<lambda>(i, r). (i, fill_model_message env q r)) (q_records q)
      in (q\<lparr>q_records := records\<rparr>,
          list_ex (\<lambda>(_, r). scope_id r \<noteq> [] \<and> model_message r = None
                            \<and> processedMessageLocked q r \<noteq> None) (q_records q)))"

definition ensureLoadedLocked :: "pq_env \<Rightarrow> (pending_queue, pq_error, unit) op" where
  "ensureLoadedLocked env q =
     (if q_loaded q then refreshInputScopeLocked q
      else case loadDocumentLocked (q_file q) of
        Inl e \<Rightarrow> (Inl e, q)
      | Inr (records, order) \<Rightarrow>
          (let q1 = rebuildIndexesLocked (q\<lparr>q_records := records, q_order := order,
                      q_completed := {}, q_handled := {}, q_handled_msgs := {}, q_checked := [],
                      q_scope := currentInputScopeID q\<rparr>) in
           case (case q_thread q1 of None \<Rightarrow> Some (q1, False)
                 | Some t \<Rightarrow> (if tv_events_readable t
                              then Some (fold replay_event (tv_events t) (q1, False)) else None)) of
             None \<Rightarrow> (Inl ErrReadEvents, q1)
           | Some (q2, c2) \<Rightarrow>
               (let (q3, c3) = fill_model_messages env (q2\<lparr>q_loaded := True\<rparr>);
                    (q4, c4) = pruneInputScopesLocked q3
                in if c2 \<or> c3 \<or> c4
                   then andThen persistCurrentLocked (\<lambda>_. synchronizePendingCountLocked True) q4
                   else (case synchronizePendingCountLocked True q4 of
                           (Inl e, q5) \<Rightarrow> (Inl e, q5\<lparr>q_loaded := False\<rparr>)
                         | (Inr u, q5) \<Rightarrow> (Inr u, q5)))))"

section \<open>Queue methods\<close>

definition with_queue ::
  "pq_env \<Rightarrow> (pending_queue \<Rightarrow> (pending_queue, pq_error, 'a) op) \<Rightarrow>
   (pending_queue, pq_error, 'a) op" where
  "with_queue env f = andThen (ensureLoadedLocked env) (\<lambda>_. andThen get_state f)"

definition fresh_message :: "pq_env \<Rightarrow> string \<Rightarrow> message \<Rightarrow> message" where
  "fresh_message env i msg =
     (let m = set_msg_id (env_message_id env (nowMillis env) i) msg in
      if msg_blocks m = None then set_msg_blocks (Some []) m else m)"

definition enqueue_record ::
  "pq_env \<Rightarrow> message \<Rightarrow> int \<Rightarrow> string \<Rightarrow> string \<Rightarrow> pending_input_record" where
  "enqueue_record env msg ttl turn i =
     (let now = nowMillis env; m = fresh_message env i msg;
          t = (if ttl \<le> 0 then DefaultPendingInputTTL else ttl)
      in \<lparr>scope_id = [], checked_at = None, model_message = None, rec_id = i, turn_id = turn,
          message_id = msg_id m, rec_message = m,
          rec_summary = truncate_text (FirstText m) pendingInputSummaryLength,
          origin = OriginQueued, rec_state = StPending, created_at = now, expires_at = now + t,
          attempts = 0, processed_at = None, last_error = [], last_error_kind = []\<rparr>)"

definition store_new ::
  "pending_input_record \<Rightarrow> (pending_queue, pq_error, pending_input_record) op" where
  "store_new r q = (let r' = trackInputLocked q r in
     andThen (upsertLocked r') (\<lambda>_. ret r') q)"

definition Enqueue ::
  "pq_env \<Rightarrow> message \<Rightarrow> string \<Rightarrow> int \<Rightarrow> string \<Rightarrow>
   (pending_queue, pq_error, pending_input_record) op" where
  "Enqueue env msg opt_id ttl turn = with_queue env (\<lambda>q.
     (let i = trim_space opt_id in
      if i \<noteq> [] then
        (case map_of (q_records q) i of
           Some existing \<Rightarrow> ret existing
         | None \<Rightarrow> (if i \<in> q_completed q then raise ErrPendingInputHandled
                   else if i \<in> q_handled q then raise ErrPendingInputHandled
                   else store_new (enqueue_record env msg ttl turn i)))
      else (case nextUniquePendingInputID (q_records q) (env_fresh env) of
              None \<Rightarrow> raise ErrStillDrawing
            | Some i' \<Rightarrow> store_new (enqueue_record env msg ttl turn i'))))"

definition promoteTurnInputLocked ::
  "pending_input_record \<Rightarrow> string \<Rightarrow> pending_input_state \<Rightarrow>
   (pending_queue, pq_error, pending_input_record) op" where
  "promoteTurnInputLocked r turn st =
     (if origin r = OriginTurn \<and> rec_state r = st \<and> turn_id r = turn then ret r
      else let r' = r\<lparr>origin := OriginTurn, rec_state := st, turn_id := turn, expires_at := 0,
                      attempts := attempts r + 1, processed_at := None, last_error := [],
                      last_error_kind := []\<rparr>
           in andThen (upsertLocked r') (\<lambda>_. ret r'))"

definition turn_record ::
  "pq_env \<Rightarrow> message \<Rightarrow> string \<Rightarrow> pending_input_state \<Rightarrow> string \<Rightarrow> pending_input_record" where
  "turn_record env msg turn st i =
     (let now = nowMillis env; m = fresh_message env i msg
      in \<lparr>scope_id = [], checked_at = None, model_message = None, rec_id = i, turn_id = turn,
          message_id = msg_id m, rec_message = m,
          rec_summary = truncate_text (FirstText m) pendingInputSummaryLength,
          origin = OriginTurn, rec_state = st, created_at = now, expires_at = 0,
          attempts = (if st = StAdmitted then 1 else 0), processed_at = None, last_error = [],
          last_error_kind = []\<rparr>)"

definition store_fresh_turn_input ::
  "pq_env \<Rightarrow> string \<Rightarrow> message \<Rightarrow> pending_input_state \<Rightarrow> pending_queue \<Rightarrow>
   (pending_queue, pq_error, pending_input_record) op" where
  "store_fresh_turn_input env turn msg st q =
     (case nextUniquePendingInputID (q_records q) (env_fresh env) of
        None \<Rightarrow> raise ErrStillDrawing
      | Some i \<Rightarrow> store_new (turn_record env msg turn st i))"

definition storeTurnInput ::
  "pq_env \<Rightarrow> string \<Rightarrow> message \<Rightarrow> bool \<Rightarrow> pending_input_state \<Rightarrow>
   (pending_queue, pq_error, pending_input_record) op" where
  "storeTurnInput env turn msg reuse st = with_queue env (\<lambda>q.
     (case (if reuse then (case q_turn_index q turn of Some i \<Rightarrow> map_of (q_records q) i
                           | None \<Rightarrow> None) else None) of
        Some r \<Rightarrow> ret r
      | None \<Rightarrow>
          (if msg_id msg \<noteq> [] \<and> msg_id msg \<in> q_handled_msgs q then raise ErrPendingInputHandled
           else case (if msg_id msg \<noteq> [] then q_message_index q (msg_id msg) else None) of
             Some i \<Rightarrow> (case map_of (q_records q) i of
                 None \<Rightarrow> raise ErrPendingInputHandled
               | Some r \<Rightarrow>
                   (if isReplayablePendingState (rec_state r)
                    then (if st = StAccepting then ret r else promoteTurnInputLocked r turn st)
                    else raise ErrPendingInputHandled))
           | None \<Rightarrow> store_fresh_turn_input env turn msg st q)))"

definition AdmitTurnInput ::
  "pq_env \<Rightarrow> string \<Rightarrow> message \<Rightarrow> bool \<Rightarrow> (pending_queue, pq_error, pending_input_record) op" where
  "AdmitTurnInput env turn msg reuse = storeTurnInput env turn msg reuse StAdmitted"

definition StageTurnInput ::
  "pq_env \<Rightarrow> string \<Rightarrow> message \<Rightarrow> bool \<Rightarrow> (pending_queue, pq_error, pending_input_record) op" where
  "StageTurnInput env turn msg reuse = storeTurnInput env turn msg reuse StAccepting"

definition CommitTurnInput :: "pq_env \<Rightarrow> string \<Rightarrow> string \<Rightarrow> (pending_queue, pq_error, unit) op" where
  "CommitTurnInput env i turn = with_queue env (\<lambda>q. case map_of (q_records q) i of
      None \<Rightarrow> raise (ErrIntentNotFound i)
    | Some r \<Rightarrow>
        (if origin r = OriginTurn \<and> rec_state r = StAdmitted \<and> turn_id r = turn then ret ()
         else if rec_state r = StAccepting \<and> turn_id r \<noteq> turn
         then raise (ErrIntentState i (rec_state r) (turn_id r))
         else if \<not> isReplayablePendingState (rec_state r)
         then raise (ErrIntentState i (rec_state r) (turn_id r))
         else upsertLocked (r\<lparr>origin := OriginTurn, rec_state := StAdmitted, turn_id := turn,
                expires_at := 0,
                attempts := (if rec_state r = StAccepting \<or> attempts r = 0 \<or> turn_id r \<noteq> turn
                             then attempts r + 1 else attempts r),
                processed_at := None, last_error := [], last_error_kind := []\<rparr>)))"

definition drop_expired ::
  "instant \<Rightarrow> string \<Rightarrow> (string \<times> pending_input_record) list \<times> string list \<times> bool \<Rightarrow>
   (string \<times> pending_input_record) list \<times> string list \<times> bool" where
  "drop_expired now i = (\<lambda>(records, order, changed). case map_of records i of
      None \<Rightarrow> (records, order, changed)
    | Some r \<Rightarrow> (if record_Expired r now
        then (AList.delete i records, removePendingInputID order i, True)
        else (records, order, changed)))"

definition replay_eligible :: "pending_input_record \<Rightarrow> bool" where
  "replay_eligible r \<longleftrightarrow> isReplayablePendingState (rec_state r) \<and> rec_state r \<noteq> StDeadLettered
     \<and> \<not> (rec_state r = StRetryable \<and> last_error_kind r = ''runtime_restart'')"

definition records_in_order :: "pending_queue \<Rightarrow> pending_input_record list" where
  "records_in_order q = List.map_filter (map_of (q_records q)) (q_order q)"

definition Replayable ::
  "pq_env \<Rightarrow> nat \<Rightarrow> (pending_queue, pq_error, pending_input_record list) op" where
  "Replayable env limit = with_queue env (\<lambda>q.
     (let (records, order, changed) =
            fold (drop_expired (nowMillis env)) (q_order q) (q_records q, q_order q, False)
      in andThen (if changed then persistLocked records order else ret ())
           (\<lambda>_. andThen get_state (\<lambda>q'.
              (let out = filter replay_eligible (records_in_order q')
               in ret (if limit > 0 then take limit out else out))))))"

datatype update_verdict = Keep | Mutate pending_input_record

definition update_step ::
  "(pending_input_record \<Rightarrow> update_verdict) \<Rightarrow> string \<Rightarrow>
   (string \<times> pending_input_record) list \<times> bool \<Rightarrow> (string \<times> pending_input_record) list \<times> bool" where
  "update_step f i = (\<lambda>(records, changed). case map_of records i of
      None \<Rightarrow> (records, changed)
    | Some r \<Rightarrow> (case f r of
        Keep \<Rightarrow> (records, changed)
      | Mutate r' \<Rightarrow> (AList.update i r' records, True)))"

text \<open>
  \<^verbatim>\<open>updateStates\<close>: no caller asks for a removal, so an update either keeps or replaces a
  record and the order is written back unchanged.
\<close>

definition updateStates ::
  "pq_env \<Rightarrow> string list \<Rightarrow> (pending_queue \<Rightarrow> pending_input_record \<Rightarrow> update_verdict) \<Rightarrow>
   (pending_queue, pq_error, unit) op" where
  "updateStates env ids f = (if ids = [] then ret () else with_queue env (\<lambda>q.
     (let (records, changed) = fold (update_step (f q)) ids (q_records q, False)
      in if changed then persistLocked records (q_order q) else ret ())))"

definition admitted_record :: "string \<Rightarrow> pending_input_record \<Rightarrow> pending_input_record" where
  "admitted_record turn r = r\<lparr>rec_state := StAdmitted, turn_id := turn, expires_at := 0,
     attempts := attempts r + 1, processed_at := None, last_error := [], last_error_kind := []\<rparr>"

definition pending_record :: "pending_input_record \<Rightarrow> pending_input_record" where
  "pending_record r = r\<lparr>rec_state := StPending, turn_id := [], processed_at := None,
     last_error := [], last_error_kind := []\<rparr>"

definition MarkAdmitted ::
  "pq_env \<Rightarrow> string list \<Rightarrow> string \<Rightarrow> (pending_queue, pq_error, unit) op" where
  "MarkAdmitted env ids turn = updateStates env ids (\<lambda>_ r.
     if \<not> isReplayablePendingState (rec_state r) \<or> rec_state r = StDeadLettered then Keep
     else if rec_state r = StAdmitted \<and> turn_id r = turn then Keep
     else Mutate (admitted_record turn r))"

definition PromoteToTurnInput ::
  "pq_env \<Rightarrow> string list \<Rightarrow> string \<Rightarrow> (pending_queue, pq_error, unit) op" where
  "PromoteToTurnInput env ids turn = updateStates env ids (\<lambda>_ r.
     if \<not> isReplayablePendingState (rec_state r) \<or> rec_state r = StDeadLettered then Keep
     else if origin r = OriginTurn \<and> rec_state r = StAdmitted \<and> turn_id r = turn then Keep
     else Mutate ((admitted_record turn r)\<lparr>origin := OriginTurn\<rparr>))"

definition MarkProcessed :: "pq_env \<Rightarrow> string list \<Rightarrow> (pending_queue, pq_error, unit) op" where
  "MarkProcessed env ids = updateStates env ids (\<lambda>q r.
     if \<not> isReplayablePendingState (rec_state r) \<or> rec_state r = StDeadLettered
        \<or> rec_state r = StProcessed then Keep
     else Mutate (r\<lparr>rec_state := StProcessed, processed_at := Some (nowMillis env),
            model_message := processedMessageLocked q
              (r\<lparr>rec_state := StProcessed, processed_at := Some (nowMillis env)\<rparr>)\<rparr>))"

definition MarkMessageProcessed :: "pq_env \<Rightarrow> message \<Rightarrow> (pending_queue, pq_error, unit) op" where
  "MarkMessageProcessed env m = (if msg_id m = [] then ret () else with_queue env (\<lambda>q.
     case q_message_index q (msg_id m) of
       None \<Rightarrow> ret ()
     | Some i \<Rightarrow> (case map_of (q_records q) i of
         None \<Rightarrow> ret ()
       | Some r \<Rightarrow>
           (if rec_state r = StProcessed \<or> rec_state r = StDeadLettered then ret ()
            else let r1 = r\<lparr>rec_state := StProcessed, processed_at := Some (nowMillis env)\<rparr>
                 in upsertLocked (if scope_id r \<noteq> [] then r1\<lparr>model_message := Some m\<rparr> else r1)))))"

definition Retry :: "pq_env \<Rightarrow> string \<Rightarrow> (pending_queue, pq_error, unit) op" where
  "Retry env i = updateStates env [i] (\<lambda>_ r.
     if rec_state r \<noteq> StDeadLettered \<and> rec_state r \<noteq> StRetryable then Keep
     else Mutate (pending_record r))"

definition retry_turn_step ::
  "string \<Rightarrow> string \<Rightarrow> (string \<times> pending_input_record) list \<times> pending_input_record list \<Rightarrow>
   (string \<times> pending_input_record) list \<times> pending_input_record list" where
  "retry_turn_step turn i = (\<lambda>(records, retried). case map_of records i of
      None \<Rightarrow> (records, retried)
    | Some r \<Rightarrow> (if rec_state r \<noteq> StRetryable \<or> turn_id r \<noteq> turn then (records, retried)
                else (AList.update i (pending_record r) records, retried @ [r])))"

text \<open>
  \<^verbatim>\<open>retryTurnInputs\<close> hands the retried records to its caller also when the write failed, so that
  the caller can restore them: the error carries them.
\<close>

definition retryTurnInputs ::
  "pq_env \<Rightarrow> string \<Rightarrow>
   (pending_queue, pending_input_record list \<times> pq_error, pending_input_record list) op" where
  "retryTurnInputs env turn q = (if trim_space turn = [] then (Inr [], q)
     else case ensureLoadedLocked env q of
       (Inl e, q1) \<Rightarrow> (Inl ([], e), q1)
     | (Inr _, q1) \<Rightarrow>
         (let (records, retried) = fold (retry_turn_step turn) (q_order q1) (q_records q1, [])
          in if retried = [] then (Inr [], q1)
             else case persistLocked records (q_order q1) q1 of
               (Inl e, q2) \<Rightarrow> (Inl (retried, e), q2)
             | (Inr _, q2) \<Rightarrow> (Inr retried, q2)))"

definition RetryTurnInputs ::
  "pq_env \<Rightarrow> string \<Rightarrow> pending_queue \<Rightarrow> (nat \<times> pq_error option) \<times> pending_queue" where
  "RetryTurnInputs env turn q = (case retryTurnInputs env turn q of
      (Inl (retried, e), q') \<Rightarrow> ((length retried, Some e), q')
    | (Inr retried, q') \<Rightarrow> ((length retried, None), q'))"

fun restore_all ::
  "pending_input_record list \<Rightarrow> (string \<times> pending_input_record) list \<Rightarrow>
   pq_error + (string \<times> pending_input_record) list" where
  "restore_all [] records = Inr records"
| "restore_all (p # ps) records = (case map_of records (rec_id p) of
      None \<Rightarrow> Inl (ErrRollback (rec_id p) (StOther []))
    | Some c \<Rightarrow> (if rec_state c \<noteq> StPending \<or> turn_id c \<noteq> []
                then Inl (ErrRollback (rec_id p) (rec_state c))
                else restore_all ps (AList.update (rec_id p) p records)))"

definition restoreRetriedInputs ::
  "pq_env \<Rightarrow> pending_input_record list \<Rightarrow> (pending_queue, pq_error, unit) op" where
  "restoreRetriedInputs env retried = (if retried = [] then ret () else with_queue env (\<lambda>q.
     case restore_all retried (q_records q) of
       Inl e \<Rightarrow> raise e
     | Inr records \<Rightarrow> persistLocked records (q_order q)))"

definition remove_step ::
  "string \<Rightarrow>
   (string \<times> pending_input_record) list \<times> string list \<times> pending_input_record list \<Rightarrow>
   (string \<times> pending_input_record) list \<times> string list \<times> pending_input_record list" where
  "remove_step i = (\<lambda>(records, order, removed). case map_of records i of
      None \<Rightarrow> (records, order, removed)
    | Some r \<Rightarrow> (AList.delete i records, removePendingInputID order i, removed @ [r]))"

definition remove_inputs :: "pq_env \<Rightarrow> string list \<Rightarrow> (pending_queue, pq_error, unit) op" where
  "remove_inputs env ids = (if ids = [] then ret () else with_queue env (\<lambda>q.
     (let (records, order, removed) = fold remove_step ids (q_records q, q_order q, [])
      in if removed = [] then ret ()
         else andThen (persistLocked records order)
           (\<lambda>_. modify (\<lambda>q. q\<lparr>q_handled := q_handled q \<union> set (map rec_id removed),
                  q_handled_msgs := q_handled_msgs q \<union> set (map message_id removed)\<rparr>)))))"

definition MarkDropped :: "pq_env \<Rightarrow> string list \<Rightarrow> (pending_queue, pq_error, unit) op" where
  "MarkDropped env ids = remove_inputs env ids"

definition MarkExpired :: "pq_env \<Rightarrow> string list \<Rightarrow> (pending_queue, pq_error, unit) op" where
  "MarkExpired env ids = remove_inputs env ids"

definition Cancel :: "pq_env \<Rightarrow> string \<Rightarrow> (pending_queue, pq_error, unit) op" where
  "Cancel env i = remove_inputs env [i]"

definition Records ::
  "pq_env \<Rightarrow> (pending_queue, pq_error, (string \<times> pending_input_record) list) op" where
  "Records env = with_queue env (\<lambda>q. ret (q_records q))"

definition Completed :: "pq_env \<Rightarrow> string \<Rightarrow> (pending_queue, pq_error, bool) op" where
  "Completed env i = (if i = [] then ret False else with_queue env (\<lambda>q. ret (i \<in> q_completed q)))"

definition InputIDsForTurn ::
  "pq_env \<Rightarrow> string \<Rightarrow> (pending_queue, pq_error, string list) op" where
  "InputIDsForTurn env turn = (if turn = [] then ret [] else with_queue env (\<lambda>q.
     ret (filter (\<lambda>i. case map_of (q_records q) i of None \<Rightarrow> False
            | Some r \<Rightarrow> turn_id r = turn \<and> (rec_state r = StAdmitted \<or> rec_state r = StProcessed))
          (q_order q))))"

definition ApplyTerminalEvent :: "pq_env \<Rightarrow> event \<Rightarrow> (pending_queue, pq_error, unit) op" where
  "ApplyTerminalEvent env e =
     (let (d, ids, msg, kind) = pendingDispositionFromEvent e in
      if d = TerminalNone \<or> ids = [] then ret ()
      else with_queue env (\<lambda>_. applyTerminalLocked d ids msg kind))"

definition interrupted_text :: string where
  "interrupted_text = ''process ended before a terminal Turn record''"

text \<open>The switch on the record's state, then the reconciliation of one record.\<close>

definition reconcile_state ::
  "string set \<Rightarrow> pending_input_record \<Rightarrow> pending_input_record \<times> bool" where
  "reconcile_state admitted r =
     (if rec_state r = StAccepting then
        (if message_id r \<in> admitted then (r\<lparr>rec_state := StAdmitted\<rparr>, True)
         else (r\<lparr>rec_state := StPending, origin := OriginQueued, turn_id := []\<rparr>, True))
      else if rec_state r = StAdmitted \<or> rec_state r = StProcessed then
        (if last_error r \<noteq> interrupted_text
         then (r\<lparr>last_error := interrupted_text\<rparr>, True) else (r, False))
      else (r, False))"

definition reconcile_record ::
  "pq_env \<Rightarrow> pending_queue \<Rightarrow> string set \<Rightarrow> string set \<Rightarrow> pending_input_record \<Rightarrow>
   pending_input_record \<times> bool" where
  "reconcile_record env q admitted transcribed r =
     (if rec_state r = StDeadLettered \<or> rec_state r = StSettled then (r, False)
      else let (r1, c1) = reconcile_state admitted r
        in if message_id r \<in> transcribed \<and> processed_at r1 = None
           then (let r2 = r1\<lparr>processed_at := Some (nowMillis env)\<rparr>
                 in (r2\<lparr>model_message := processedMessageLocked q r2\<rparr>, True))
           else (r1, c1))"

definition reconcile_step ::
  "pq_env \<Rightarrow> pending_queue \<Rightarrow> string set \<Rightarrow> string set \<Rightarrow> string \<Rightarrow>
   (string \<times> pending_input_record) list \<times> bool \<Rightarrow> (string \<times> pending_input_record) list \<times> bool" where
  "reconcile_step env q admitted transcribed i = (\<lambda>(records, changed). case map_of records i of
      None \<Rightarrow> (records, changed)
    | Some r \<Rightarrow> (let (r', c) = reconcile_record env q admitted transcribed r
                in (AList.update i r' records, changed \<or> c)))"

definition ReconcileRecoveryFacts ::
  "pq_env \<Rightarrow> string set \<Rightarrow> string set \<Rightarrow> (pending_queue, pq_error, unit) op" where
  "ReconcileRecoveryFacts env admitted transcribed = with_queue env (\<lambda>q.
     (let (records, changed) = fold (reconcile_step env q admitted transcribed) (q_order q)
                                 (q_records q, False)
      in if changed then persistLocked records (q_order q) else ret ()))"

section \<open>Input checks\<close>

definition is_unchecked :: "pending_queue \<Rightarrow> pending_input_record \<Rightarrow> bool" where
  "is_unchecked q r \<longleftrightarrow> scope_id r \<noteq> [] \<and> scope_id r = q_scope q \<and> checked_at r = None"

definition uncheckedRecords :: "pq_env \<Rightarrow> (pending_queue, pq_error, pending_input_record list) op" where
  "uncheckedRecords env = with_queue env (\<lambda>q. ret (filter
     (\<lambda>r. is_unchecked q r \<and> processed_at r \<noteq> None
          \<and> (case model_message r of None \<Rightarrow> False | Some m \<Rightarrow> \<not> policy_blocked m))
     (records_in_order q)))"

fun classify_checks ::
  "pending_queue \<Rightarrow> string list \<Rightarrow> string set \<Rightarrow> string list \<Rightarrow> string list \<Rightarrow>
   pq_error + (string list \<times> string list)" where
  "classify_checks q [] seen confirmed pending = Inr (confirmed, pending)"
| "classify_checks q (i # is) seen confirmed pending =
     (if i = [] \<or> trim_space i \<noteq> i then Inl (ErrInvalidInputId i)
      else if i \<in> seen then classify_checks q is seen confirmed pending
      else if (case map_of (q_checked q) i of None \<Rightarrow> False | Some p \<Rightarrow> icp_scope_id p = q_scope q)
      then classify_checks q is (insert i seen) (confirmed @ [i]) pending
      else case map_of (q_records q) i of
        None \<Rightarrow> Inl (ErrUnknownInput i)
      | Some r \<Rightarrow>
          (if scope_id r = [] \<or> scope_id r \<noteq> q_scope q \<or> processed_at r = None
              \<or> (case model_message r of None \<Rightarrow> True | Some m \<Rightarrow> policy_blocked m)
           then Inl (ErrUnknownInput i)
           else classify_checks q is (insert i seen) (confirmed @ [i])
                  (if checked_at r = None then pending @ [i] else pending)))"

text \<open>
  The commit of a non-empty check: the fact is appended to the Thread, then applied to the queue and
  written. \<open>append_ok\<close> tells whether the Thread commits the event; \<open>call\<close> is the tool-use id and
  message id of the calling tool.
\<close>

definition commit_check ::
  "pq_env \<Rightarrow> bool \<Rightarrow> string \<times> string \<Rightarrow> string \<Rightarrow> thread_view \<Rightarrow> string list \<Rightarrow> string list \<Rightarrow>
   pending_queue \<Rightarrow> (pending_queue, pq_error, string list \<times> event option) op" where
  "commit_check env append_ok call turn t confirmed pending q =
     (let p = \<lparr>icp_input_ids = pending, icp_scope_id = q_scope q,
                icp_checked_at = nowMillis env, icp_tool_use_id = fst call,
                icp_message_id = snd call\<rparr>;
          e = Normalize (env_event_id env) (env_now env)
                (new_event InputCheckedType turn (encode_input_checked p))
      in if \<not> append_ok
         then andThen (modify (\<lambda>q. q\<lparr>q_loaded := False\<rparr>)) (\<lambda>_. raise ErrAppendEvent)
         else andThen (modify (\<lambda>q. fst (applyInputCheckLocked p
                  (q\<lparr>q_thread := Some (t\<lparr>tv_events := tv_events t @ [e]\<rparr>)\<rparr>))))
                (\<lambda>_. andThen persistCurrentLocked (\<lambda>_. ret (confirmed, Some e))))"

text \<open>\<^verbatim>\<open>checkInputs\<close>: \<open>ctx_done\<close> tells whether the caller's context has ended.\<close>

definition checkInputs ::
  "pq_env \<Rightarrow> bool \<Rightarrow> bool \<Rightarrow> string \<times> string \<Rightarrow> string list \<Rightarrow> string \<Rightarrow>
   (pending_queue, pq_error, string list \<times> event option) op" where
  "checkInputs env ctx_done append_ok call ids turn = with_queue env (\<lambda>q.
     case q_thread q of
       None \<Rightarrow> raise ErrNeedThreadAndIds
     | Some t \<Rightarrow>
        (if ids = [] \<or> length ids > maxTrackedInputs then raise ErrNeedThreadAndIds
         else case classify_checks q ids {} [] [] of
           Inl e \<Rightarrow> raise e
         | Inr (confirmed, pending) \<Rightarrow>
            (if ctx_done then raise ErrContext
             else if pending = [] then ret (confirmed, None)
             else commit_check env append_ok call turn t confirmed pending q)))"

definition checkInputScopeRenewal :: "pq_env \<Rightarrow> (pending_queue, pq_error, unit) op" where
  "checkInputScopeRenewal env = with_queue env (\<lambda>q.
     if list_ex (\<lambda>(_, r). is_unchecked q r) (q_records q) then raise ErrUncheckedRemain else ret ())"

text \<open>
  \<^verbatim>\<open>inputAssociation\<close> ranges over the record map; message ids are unique in it, so the first
  match in any order is the only one.
\<close>

definition inputAssociation ::
  "pq_env \<Rightarrow> message \<Rightarrow> (pending_queue, pq_error, event option) op" where
  "inputAssociation env m = with_queue env (\<lambda>q. ret
     (case find (\<lambda>(_, r). message_id r = msg_id m \<and> scope_id r \<noteq> [] \<and> \<not> policy_blocked m)
        (q_records q) of
        None \<Rightarrow> None
      | Some (_, r) \<Rightarrow> Some (Normalize (env_event_id env) (env_now env)
          (new_event InputTrackedType (turn_id r) (JObj [(''input_id'', JStr (rec_id r)),
             (''message_id'', JStr (msg_id m)), (''scope_id'', JStr (scope_id r))])))))"

end
