(* ===== verification/PendingQueueInv.thy ===== *)
theory PendingQueueInv
  imports PendingQueue
begin

text \<open>
  The consistency of the pending-input queue. \<open>pq_wf\<close> is the shape the Go struct relies on (the
  record map and the order slice hold the same distinct ids); \<open>in_sync\<close> says that what is in memory
  is what is on disk, that every record would pass validation, and that the Thread shows the right
  pending count. Every method keeps the shape, and every method that does not report an encoding
  failure leaves a loaded queue in sync.
\<close>

section \<open>Shape of the record map and the order\<close>

definition shape :: "(string \<times> pending_input_record) list \<Rightarrow> string list \<Rightarrow> bool" where
  "shape R ord \<longleftrightarrow> distinct ord \<and> distinct (map fst R) \<and> set ord = keys R
     \<and> (\<forall>i r. map_of R i = Some r \<longrightarrow> rec_id r = i)"

definition pq_wf :: "pending_queue \<Rightarrow> bool" where
  "pq_wf q \<longleftrightarrow> shape (q_records q) (q_order q)"

lemma shape_Nil [simp]: "shape [] []"
  by (simp add: shape_def)

lemma shape_update:
  "shape R ord \<Longrightarrow> map_of R i = Some r0 \<Longrightarrow> rec_id r = i \<Longrightarrow> shape (AList.update i r R) ord"
  by (auto simp: shape_def distinct_keys_update intro: rev_image_eqI dest: map_of_SomeD)

lemma shape_insert:
  "shape R ord \<Longrightarrow> i \<notin> keys R \<Longrightarrow> rec_id r = i \<Longrightarrow> shape (AList.update i r R) (ord @ [i])"
  by (auto simp: shape_def distinct_keys_update)

lemma shape_delete: "shape R ord \<Longrightarrow> shape (AList.delete i R) (removePendingInputID ord i)"
  by (auto simp: shape_def distinct_keys_delete removePendingInputID_def)

lemma shape_rec_id: "shape R ord \<Longrightarrow> map_of R i = Some r \<Longrightarrow> rec_id r = i"
  by (simp add: shape_def)

lemma shape_in_order: "shape R ord \<Longrightarrow> map_of R i = Some r \<Longrightarrow> i \<in> set ord"
  by (auto simp: shape_def dest: map_of_SomeD intro: rev_image_eqI)

lemma fold_inv: "P s \<Longrightarrow> (\<And>x s. x \<in> set xs \<Longrightarrow> P s \<Longrightarrow> P (f x s)) \<Longrightarrow> P (fold f xs s)"
  by (induction xs arbitrary: s) auto

lemma pq_wf_cong [simp]:
  "pq_wf (q\<lparr>q_loaded := b\<rparr>) = pq_wf q" "pq_wf (q\<lparr>q_file := f\<rparr>) = pq_wf q"
  "pq_wf (q\<lparr>q_writes := w\<rparr>) = pq_wf q" "pq_wf (q\<lparr>q_counts := w\<rparr>) = pq_wf q"
  "pq_wf (q\<lparr>q_thread := t\<rparr>) = pq_wf q" "pq_wf (q\<lparr>q_scope := s\<rparr>) = pq_wf q"
  "pq_wf (q\<lparr>q_checked := c\<rparr>) = pq_wf q" "pq_wf (q\<lparr>q_handled := h\<rparr>) = pq_wf q"
  "pq_wf (q\<lparr>q_handled_msgs := h\<rparr>) = pq_wf q" "pq_wf (q\<lparr>q_completed := h\<rparr>) = pq_wf q"
  "pq_wf (q\<lparr>q_message_index := mi\<rparr>) = pq_wf q" "pq_wf (q\<lparr>q_turn_index := mi\<rparr>) = pq_wf q"
  by (simp_all add: pq_wf_def)

lemma rebuild_sel [simp]:
  "q_records (rebuildIndexesLocked q) = q_records q" "q_order (rebuildIndexesLocked q) = q_order q"
  "q_file (rebuildIndexesLocked q) = q_file q" "q_loaded (rebuildIndexesLocked q) = q_loaded q"
  "q_thread (rebuildIndexesLocked q) = q_thread q" "q_scope (rebuildIndexesLocked q) = q_scope q"
  "q_writes (rebuildIndexesLocked q) = q_writes q" "q_counts (rebuildIndexesLocked q) = q_counts q"
  "q_completed (rebuildIndexesLocked q) = q_completed q" "q_track (rebuildIndexesLocked q) = q_track q"
  "q_handled (rebuildIndexesLocked q) = q_handled q"
  "q_handled_msgs (rebuildIndexesLocked q) = q_handled_msgs q"
  "q_checked (rebuildIndexesLocked q) = q_checked q"
  by (simp_all add: rebuildIndexesLocked_def Let_def)

lemma rebuild_wf [simp]: "pq_wf (rebuildIndexesLocked q) = pq_wf q"
  by (simp add: pq_wf_def)

section \<open>In-memory steps keep the shape\<close>

lemma terminal_step_wf: "pq_wf (fst qc) \<Longrightarrow> pq_wf (fst (terminal_step d msg kind i qc))"
  by (cases d) (auto simp: terminal_step_def Let_def pq_wf_def shape_delete
      intro!: shape_update dest: shape_rec_id split: option.splits)

lemma applyTerminalState_wf:
  "pq_wf q \<Longrightarrow> pq_wf (fst (applyTerminalStateLocked d ids msg kind q))"
  using fold_inv[where P = "\<lambda>qc. pq_wf (fst qc)" and f = "terminal_step d msg kind" and xs = ids
      and s = "(q, False)"]
  by (auto simp: applyTerminalStateLocked_def terminal_step_wf split: prod.splits)

lemma prune_step_wf: "pq_wf (fst qc) \<Longrightarrow> pq_wf (fst (prune_step i qc))"
  by (auto simp: prune_step_def Let_def pq_wf_def shape_delete
      intro!: shape_update dest: shape_rec_id split: option.splits)

lemma prune_wf: "pq_wf q \<Longrightarrow> pq_wf (fst (pruneInputScopesLocked q))"
  unfolding pruneInputScopesLocked_def
  by (rule fold_inv[where P = "\<lambda>qc. pq_wf (fst qc)"]) (auto simp: prune_step_wf)

lemma check_step_wf: "pq_wf (fst qc) \<Longrightarrow> pq_wf (fst (check_step p i qc))"
  by (auto simp: check_step_def Let_def pq_wf_def shape_delete
      intro!: shape_update dest: shape_rec_id split: option.splits)

lemma applyInputCheck_wf: "pq_wf q \<Longrightarrow> pq_wf (fst (applyInputCheckLocked p q))"
  unfolding applyInputCheckLocked_def
  using fold_inv[where P = "\<lambda>qc. pq_wf (fst qc)" and f = "check_step p" and xs = "icp_input_ids p"
      and s = "(q, False)"]
  by (auto simp: check_step_wf)

lemma mark_wf [simp]:
  "pq_wf (mark_handled ids q) = pq_wf q" "pq_wf (mark_handled_msgs ids q) = pq_wf q"
  "pq_wf (mark_completed d ids q) = pq_wf q"
  by (simp_all add: mark_handled_def mark_handled_msgs_def mark_completed_def)

lemma replay_event_wf: "pq_wf (fst qc) \<Longrightarrow> pq_wf (fst (replay_event e qc))"
  by (auto simp: replay_event_def Let_def case_prod_unfold
      intro!: applyTerminalState_wf applyInputCheck_wf)

lemma fill_model_message_id [simp]: "rec_id (fill_model_message env q r) = rec_id r"
  by (simp add: fill_model_message_def split: option.splits)

lemma map_of_map_snd: "map_of (map (\<lambda>(i, r). (i, f r)) R) i = map_option f (map_of R i)"
  by (induction R) auto

lemma keys_map_snd [simp]: "fst ` (\<lambda>(i, r). (i, f r)) ` set R = fst ` set R"
  by force

lemma fst_map_snd [simp]: "map (fst \<circ> (\<lambda>(i, r). (i, f r))) R = map fst R"
  by (induction R) auto

lemma fill_wf: "pq_wf q \<Longrightarrow> pq_wf (fst (fill_model_messages env q))"
  by (auto simp: fill_model_messages_def Let_def pq_wf_def shape_def map_of_map_snd)

section \<open>Loading and encoding\<close>

definition doc_of :: "(string \<times> pending_input_record) list \<Rightarrow> string list \<Rightarrow>
    pending_input_record list" where
  "doc_of R ord = List.map_filter (map_of R) ord"

lemma doc_of_Nil [simp]: "doc_of R [] = []"
  by (simp add: doc_of_def List.map_filter_def)

lemma doc_of_Cons:
  "doc_of R (i # is) = (case map_of R i of None \<Rightarrow> doc_of R is | Some r \<Rightarrow> r # doc_of R is)"
  by (simp add: doc_of_def List.map_filter_def split: option.splits)

lemma doc_of_append: "doc_of R (xs @ ys) = doc_of R xs @ doc_of R ys"
  by (induction xs) (auto simp: doc_of_Cons split: option.splits)

lemma doc_of_cong: "(\<And>i. i \<in> set ord \<Longrightarrow> map_of R i = map_of S i) \<Longrightarrow> doc_of R ord = doc_of S ord"
  by (induction ord) (auto simp: doc_of_Cons split: option.split)

lemma doc_of_fresh: "k \<notin> set ord \<Longrightarrow> doc_of (AList.update k r R) ord = doc_of R ord"
  by (rule doc_of_cong) auto

lemma set_doc_of: "shape R ord \<Longrightarrow> r \<in> set (doc_of R ord) \<longleftrightarrow> (\<exists>i. map_of R i = Some r)"
proof -
  assume sh: "shape R ord"
  have "r \<in> set (doc_of R xs) \<longleftrightarrow> (\<exists>i \<in> set xs. map_of R i = Some r)" for xs
    by (induction xs) (auto simp: doc_of_Cons split: option.splits)
  with sh show ?thesis by (auto dest: shape_in_order)
qed

lemma doc_of_ids: "shape R ord \<Longrightarrow> map rec_id (doc_of R ord) = ord"
proof -
  assume sh: "shape R ord"
  have "set xs \<subseteq> keys R \<Longrightarrow> map rec_id (doc_of R xs) = xs" for xs
    by (induction xs) (auto simp: doc_of_Cons shape_rec_id[OF sh] map_of_eq_None
        split: option.splits)
  with sh show ?thesis by (auto simp: shape_def)
qed

definition all_valid :: "(string \<times> pending_input_record) list \<Rightarrow> bool" where
  "all_valid R \<longleftrightarrow> (\<forall>i r. map_of R i = Some r \<longrightarrow> validatePendingInputRecord r = None)"

lemma all_valid_Nil [simp]: "all_valid []"
  by (simp add: all_valid_def)

lemma encode_records_Inr:
  "encode_records R ord = Inr rs \<longleftrightarrow>
   rs = doc_of R ord \<and> (\<forall>i \<in> set ord. \<forall>r. map_of R i = Some r \<longrightarrow> validatePendingInputRecord r = None)"
  by (induction ord arbitrary: rs) (auto simp: doc_of_Cons split: option.splits sum.splits)

lemma encode_records_Inl: "encode_records R ord = Inl e \<Longrightarrow> \<exists>i v. e = ErrEncode i v"
  by (induction ord) (auto split: option.splits sum.splits)

lemma encode_records_valid: "all_valid R \<Longrightarrow> encode_records R ord = Inr (doc_of R ord)"
  by (simp add: encode_records_Inr all_valid_def)

lemma load_records_spec:
  assumes "load_records n rs R ord M = Inr (R', ord')" and "shape R ord" and "all_valid R"
  shows "shape R' ord' \<and> all_valid R' \<and> doc_of R' ord' = doc_of R ord @ rs"
  using assms
proof (induction n rs R ord M rule: load_records.induct)
  case (1 n R ord M)
  then show ?case by simp
next
  case (2 n r rs R ord M)
  from "2.prems"(1) have v: "validatePendingInputRecord r = None" and k: "rec_id r \<notin> keys R"
    and m: "map_of M (message_id r) = None"
    and l: "load_records (Suc n) rs (AList.update (rec_id r) r R) (ord @ [rec_id r])
              (AList.update (message_id r) (rec_id r) M) = Inr (R', ord')"
    by (auto split: option.splits if_splits)
  have "rec_id r \<notin> set ord" using k "2.prems"(2) by (simp add: shape_def)
  then have d: "doc_of (AList.update (rec_id r) r R) (ord @ [rec_id r]) = doc_of R ord @ [r]"
    by (simp add: doc_of_append doc_of_Cons doc_of_fresh)
  have av: "all_valid (AList.update (rec_id r) r R)"
    using "2.prems"(3) v by (auto simp: all_valid_def)
  from "2.IH"[OF v k m l shape_insert[OF "2.prems"(2) k refl] av] d show ?case by simp
qed

lemma loadDocument_spec:
  assumes "loadDocumentLocked f = Inr (R, ord)"
  shows "shape R ord \<and> all_valid R
     \<and> (f = FileDocument pendingInputDocumentVersion (doc_of R ord) \<or> f = FileMissing \<and> ord = [])"
proof (cases f)
  case (FileDocument v rs)
  with assms have v: "v = pendingInputDocumentVersion" and "load_records 0 rs [] [] [] = Inr (R, ord)"
    by (simp_all add: loadDocumentLocked_def split: if_splits)
  from load_records_spec[OF this(2)] show ?thesis by (simp add: FileDocument v)
qed (use assms in \<open>simp_all add: loadDocumentLocked_def\<close>)

lemma load_records_complete:
  assumes "\<forall>r \<in> set rs. validatePendingInputRecord r = None"
    and "distinct (map rec_id rs)" and "distinct (map message_id rs)"
    and "rec_id ` set rs \<inter> keys R = {}" and "message_id ` set rs \<inter> keys M = {}"
  shows "\<exists>R' ord'. load_records n rs R ord M = Inr (R', ord')"
  using assms
proof (induction rs arbitrary: n R ord M)
  case (Cons r rs)
  then have m: "map_of M (message_id r) = None" and k: "rec_id r \<notin> keys R"
    by (simp_all add: map_of_eq_None)
  have "\<exists>R' ord'. load_records (Suc n) rs (AList.update (rec_id r) r R) (ord @ [rec_id r])
          (AList.update (message_id r) (rec_id r) M) = Inr (R', ord')"
    using Cons.prems by (intro Cons.IH) simp_all
  with m k Cons.prems(1) show ?case by simp
qed simp

section \<open>Memory and disk in step\<close>

definition count_ok :: "pending_queue \<Rightarrow> bool" where
  "count_ok q \<longleftrightarrow> (case q_thread q of None \<Rightarrow> True
     | Some t \<Rightarrow> tv_pending_inputs t = materializedPendingCountLocked q)"

definition index_ok :: "pending_queue \<Rightarrow> bool" where
  "index_ok q \<longleftrightarrow> (q_message_index q, q_turn_index q)
     = foldl (index_step (q_records q)) (Map.empty, Map.empty) (q_order q)"

definition file_ok :: "pending_queue \<Rightarrow> bool" where
  "file_ok q \<longleftrightarrow> q_file q = FileDocument pendingInputDocumentVersion (doc_of (q_records q) (q_order q))
     \<or> q_file q = FileMissing \<and> q_order q = []"

definition in_sync :: "pending_queue \<Rightarrow> bool" where
  "in_sync q \<longleftrightarrow> file_ok q \<and> all_valid (q_records q) \<and> index_ok q \<and> count_ok q"

definition pq_ok :: "pending_queue \<Rightarrow> bool" where
  "pq_ok q \<longleftrightarrow> pq_wf q \<and> (q_loaded q \<longrightarrow> in_sync q)"

definition no_encode_error :: "pq_error + 'a \<Rightarrow> bool" where
  "no_encode_error res \<longleftrightarrow> (\<forall>i e. res \<noteq> Inl (ErrEncode i e))"

lemma no_encode_error_simps [simp]:
  "no_encode_error (Inr x)" "no_encode_error (Inl (ErrEncode i e)) = False"
  "no_encode_error (Inl ErrWrite)" "no_encode_error (Inl ErrCount)"
  by (simp_all add: no_encode_error_def)

lemma index_ok_rebuild [simp]: "index_ok (rebuildIndexesLocked q)"
  by (simp add: index_ok_def rebuildIndexesLocked_def Let_def)

lemma index_ok_cong [simp]:
  "index_ok (q\<lparr>q_loaded := b\<rparr>) = index_ok q" "index_ok (q\<lparr>q_file := f\<rparr>) = index_ok q"
  "index_ok (q\<lparr>q_thread := t\<rparr>) = index_ok q" "index_ok (q\<lparr>q_counts := c\<rparr>) = index_ok q"
  by (simp_all add: index_ok_def)

lemma materialized_cong [simp]:
  "materializedPendingCountLocked (q\<lparr>q_loaded := b\<rparr>) = materializedPendingCountLocked q"
  "materializedPendingCountLocked (q\<lparr>q_thread := t\<rparr>) = materializedPendingCountLocked q"
  "materializedPendingCountLocked (q\<lparr>q_counts := c\<rparr>) = materializedPendingCountLocked q"
  by (simp_all add: materializedPendingCountLocked_def)

lemma synchronize_frame:
  assumes "synchronizePendingCountLocked force q = (res, q')"
  shows "q' = q\<lparr>q_thread := q_thread q', q_counts := q_counts q'\<rparr>"
  using assms
  by (auto simp: synchronizePendingCountLocked_def SetPendingInputCount_def Let_def
      split: option.splits list.splits write_result.splits if_splits)

lemma synchronize_thread:
  assumes "synchronizePendingCountLocked force q = (res, q')"
  shows "map_option (tv_pending_inputs_update (\<lambda>_. 0)) (q_thread q')
       = map_option (tv_pending_inputs_update (\<lambda>_. 0)) (q_thread q)"
  using assms
  by (auto simp: synchronizePendingCountLocked_def SetPendingInputCount_def Let_def
      split: option.splits list.splits write_result.splits if_splits)

lemma synchronize_error:
  assumes "synchronizePendingCountLocked force q = (Inl e, q')"
  shows "e = ErrCount"
  using assms
  by (auto simp: synchronizePendingCountLocked_def SetPendingInputCount_def Let_def
      split: option.splits list.splits write_result.splits if_splits)

lemma synchronize_sel:
  assumes "synchronizePendingCountLocked force q = (res, q')"
  shows "q_records q' = q_records q" "q_order q' = q_order q" "q_file q' = q_file q"
    "q_loaded q' = q_loaded q" "q_scope q' = q_scope q" "q_writes q' = q_writes q"
    "q_track q' = q_track q" "q_checked q' = q_checked q" "q_completed q' = q_completed q"
    "q_handled q' = q_handled q" "q_handled_msgs q' = q_handled_msgs q"
    "index_ok q' = index_ok q" "file_ok q' = file_ok q" "pq_wf q' = pq_wf q"
  by (subst synchronize_frame[OF assms], simp add: file_ok_def)+

lemma synchronize_count_ok:
  assumes "synchronizePendingCountLocked force q = (res, q')"
  shows "res = Inr () \<or> count_ok q \<Longrightarrow> count_ok q'"
  using assms
  by (auto simp: synchronizePendingCountLocked_def SetPendingInputCount_def Let_def count_ok_def
      split: option.splits list.splits write_result.splits if_splits)

lemma writeFile_cases:
  obtains (ok) ws where "writeFile doc q = (Inr (), q\<lparr>q_file := doc, q_writes := ws\<rparr>)"
  | (bad) ws f where "writeFile doc q = (Inl ErrWrite, q\<lparr>q_file := f, q_writes := ws\<rparr>)"
      "f = doc \<or> f = q_file q"
  by (cases "q_writes q" rule: list.exhaust;
      cases "hd (q_writes q)")
     (auto simp: writeFile_def split: if_splits intro: that(1)[of "q_writes q"])

lemma persist_encode_same:
  "persistLocked R ord q = (Inl (ErrEncode i e), q') \<Longrightarrow> q' = q"
  by (cases "FileDocument pendingInputDocumentVersion (doc_of R ord)" q rule: writeFile_cases)
     (auto simp: persistLocked_def encode_records_Inr Let_def dest: synchronize_error
        split: sum.splits prod.splits)

lemma persist_Inr:
  assumes "persistLocked R ord q = (Inr u, q')"
  shows "q_loaded q'" "q_records q' = R" "q_order q' = ord"
    "q_file q' = FileDocument pendingInputDocumentVersion (doc_of R ord)"
    "\<And>i r. i \<in> set ord \<Longrightarrow> map_of R i = Some r \<Longrightarrow> validatePendingInputRecord r = None"
    "index_ok q'" "count_ok q'"
  using assms
  by (cases "FileDocument pendingInputDocumentVersion (doc_of R ord)" q rule: writeFile_cases;
      auto simp: persistLocked_def encode_records_Inr Let_def synchronize_sel synchronize_count_ok
        split: sum.splits prod.splits)+

lemma persist_frame:
  assumes "persistLocked R ord q = (res, q')"
  shows "q_scope q' = q_scope q" "q_track q' = q_track q" "q_checked q' = q_checked q"
    "q_completed q' = q_completed q" "q_handled q' = q_handled q"
    "q_handled_msgs q' = q_handled_msgs q"
  using assms
  by (cases "FileDocument pendingInputDocumentVersion (doc_of R ord)" q rule: writeFile_cases;
      auto simp: persistLocked_def encode_records_Inr Let_def synchronize_sel
        split: sum.splits prod.splits)+

lemma persist_thread:
  assumes "persistLocked R ord q = (res, q')"
  shows "map_option (tv_pending_inputs_update (\<lambda>_. 0)) (q_thread q')
       = map_option (tv_pending_inputs_update (\<lambda>_. 0)) (q_thread q)"
proof (cases "FileDocument pendingInputDocumentVersion (doc_of R ord)" q rule: writeFile_cases)
  case (ok ws)
  let ?q = "(rebuildIndexesLocked (q\<lparr>q_file := FileDocument pendingInputDocumentVersion (doc_of R ord),
    q_writes := ws, q_records := R, q_order := ord\<rparr>))\<lparr>q_loaded := True\<rparr>"
  obtain r s where "synchronizePendingCountLocked False ?q = (r, s)" by (rule prod.exhaust)
  with ok assms synchronize_thread[OF this] show ?thesis
    by (auto simp: persistLocked_def encode_records_Inr Let_def split: sum.splits prod.splits)
next
  case (bad ws f)
  with assms show ?thesis
    by (auto simp: persistLocked_def encode_records_Inr split: sum.splits)
qed

lemma persist_failed:
  assumes "persistLocked R ord q = (Inl e, q')"
  shows "(\<exists>i v. e = ErrEncode i v) \<and> q' = q \<or> \<not> q_loaded q'"
    "q_file q' = q_file q \<or> q_file q' = FileDocument pendingInputDocumentVersion (doc_of R ord)"
  using assms
  by (cases "FileDocument pendingInputDocumentVersion (doc_of R ord)" q rule: writeFile_cases;
      auto simp: persistLocked_def encode_records_Inr Let_def synchronize_sel
        dest: encode_records_Inl split: sum.splits prod.splits)+

lemma persist_wf:
  assumes "pq_wf q" and "shape R ord"
  shows "pq_wf (snd (persistLocked R ord q))"
  using assms
  by (cases "FileDocument pendingInputDocumentVersion (doc_of R ord)" q rule: writeFile_cases)
     (auto simp: persistLocked_def encode_records_Inr Let_def synchronize_sel pq_wf_def
        split: sum.splits prod.splits)

lemma persist_ok:
  assumes "pq_wf q" and "shape R ord" and "persistLocked R ord q = (res, q')"
    and "no_encode_error res"
  shows "pq_ok q'"
proof (cases res)
  case (Inl e)
  with assms persist_failed(1)[of R ord q e q'] show ?thesis
    using persist_wf[OF assms(1,2)] by (auto simp: pq_ok_def)
next
  case (Inr u)
  with assms have p: "persistLocked R ord q = (Inr u, q')" by simp
  have "all_valid R"
    using persist_Inr(5)[OF p] shape_in_order[OF assms(2)] by (auto simp: all_valid_def)
  with persist_Inr[OF p] persist_wf[OF assms(1,2)] assms(3) show ?thesis
    by (simp add: pq_ok_def in_sync_def file_ok_def)
qed

section \<open>Outcomes\<close>

text \<open>
  \<open>settles out\<close>: the shape is kept whatever happened, and unless an encoding failure is reported a
  queue that counts as loaded is in step with its file.
\<close>

definition settles :: "(pq_error + 'a) \<times> pending_queue \<Rightarrow> bool" where
  "settles out \<longleftrightarrow> pq_wf (snd out) \<and> (no_encode_error (fst out) \<longrightarrow> pq_ok (snd out))"

lemma pq_ok_wf: "pq_ok q \<Longrightarrow> pq_wf q"
  by (simp add: pq_ok_def)

lemma pq_ok_shape: "pq_ok q \<Longrightarrow> shape (q_records q) (q_order q)"
  by (simp add: pq_ok_def pq_wf_def)

lemma settles_ret [simp]: "pq_ok q \<Longrightarrow> settles (Inr x, q)"
  by (simp add: settles_def pq_ok_wf)

lemma settles_error: "pq_ok q \<Longrightarrow> settles (Inl e, q)"
  by (simp add: settles_def pq_ok_wf)

lemma settles_persist: "pq_wf q \<Longrightarrow> shape R ord \<Longrightarrow> settles (persistLocked R ord q)"
  using persist_wf[of q R ord] persist_ok[of q R ord]
  by (cases "persistLocked R ord q") (auto simp: settles_def)

lemma settles_persistCurrent: "pq_wf q \<Longrightarrow> settles (persistCurrentLocked q)"
  by (simp add: persistCurrentLocked_def settles_persist pq_wf_def)

lemma settles_andThen:
  assumes "settles (m q)" and "\<And>x q1. m q = (Inr x, q1) \<Longrightarrow> pq_ok q1 \<Longrightarrow> settles (f x q1)"
  shows "settles (andThen m f q)"
proof (cases "m q")
  case (Pair r q1)
  show ?thesis
  proof (cases r)
    case (Inl e)
    with Pair assms(1) show ?thesis by (simp add: andThen_def settles_def no_encode_error_def)
  next
    case (Inr x)
    with Pair assms show ?thesis by (simp add: andThen_def settles_def)
  qed
qed

definition core :: "pending_queue \<Rightarrow> (string \<times> pending_input_record) list \<times> string list
    \<times> inputs_file \<times> bool \<times> thread_view option \<times> (string \<rightharpoonup> string) \<times> (string \<rightharpoonup> string)" where
  "core q = (q_records q, q_order q, q_file q, q_loaded q, q_thread q, q_message_index q,
     q_turn_index q)"

lemma pq_ok_core: "core q = core q' \<Longrightarrow> pq_ok q = pq_ok q'"
  by (simp add: core_def pq_ok_def pq_wf_def in_sync_def file_ok_def index_ok_def count_ok_def
      materializedPendingCountLocked_def cong: option.case_cong)

lemma in_sync_core: "core q = core q' \<Longrightarrow> in_sync q = in_sync q'"
  by (simp add: core_def in_sync_def file_ok_def index_ok_def count_ok_def
      materializedPendingCountLocked_def cong: option.case_cong)

text \<open>Loops that report whether they changed anything really leave the core alone otherwise.\<close>

lemma fold_flag:
  assumes "\<And>x s. snd s \<Longrightarrow> snd (f x s)"
    and "\<And>x s. \<not> snd (f x s) \<Longrightarrow> core (fst (f x s)) = core (fst s)"
  shows "\<not> snd (fold f xs s) \<Longrightarrow> core (fst (fold f xs s)) = core (fst s) \<and> \<not> snd s"
proof (induction xs arbitrary: s)
  case (Cons x xs)
  from Cons.IH[of "f x s"] Cons.prems have "core (fst (fold f xs (f x s))) = core (fst (f x s))"
    and "\<not> snd (f x s)" by simp_all
  with assms(1)[of s x] assms(2)[of x s] show ?case by auto
qed simp

lemma terminal_step_flag:
  "snd qc \<Longrightarrow> snd (terminal_step d msg kind i qc)"
  "\<not> snd (terminal_step d msg kind i qc) \<Longrightarrow> core (fst (terminal_step d msg kind i qc)) = core (fst qc)"
  by (cases d; auto simp: terminal_step_def Let_def split: option.splits if_splits)+

lemma applyTerminalState_flag:
  "\<not> snd (applyTerminalStateLocked d ids msg kind q) \<Longrightarrow>
   core (fst (applyTerminalStateLocked d ids msg kind q)) = core q"
  using fold_flag[of "terminal_step d msg kind" ids "(q, False)", OF terminal_step_flag]
  by (auto simp: applyTerminalStateLocked_def split: prod.splits if_splits)

lemma prune_step_flag:
  "snd qc \<Longrightarrow> snd (prune_step i qc)"
  "\<not> snd (prune_step i qc) \<Longrightarrow> core (fst (prune_step i qc)) = core (fst qc)"
  by (auto simp: prune_step_def Let_def split: option.splits if_splits)

lemma prune_flag:
  "\<not> snd (pruneInputScopesLocked q) \<Longrightarrow> core (fst (pruneInputScopesLocked q)) = core q"
  using fold_flag[of prune_step "q_order q" "(q, False)", OF prune_step_flag]
  by (simp add: pruneInputScopesLocked_def)

lemma check_step_flag:
  "snd qc \<Longrightarrow> snd (check_step p i qc)"
  "\<not> snd (check_step p i qc) \<Longrightarrow> core (fst (check_step p i qc)) = core (fst qc)"
  by (auto simp: check_step_def Let_def core_def split: option.splits if_splits)

lemma applyInputCheck_flag:
  "\<not> snd (applyInputCheckLocked p q) \<Longrightarrow> core (fst (applyInputCheckLocked p q)) = core q"
  using fold_flag[of "check_step p" "icp_input_ids p" "(q, False)", OF check_step_flag]
  by (auto simp: applyInputCheckLocked_def)

lemma mark_core [simp]:
  "core (mark_handled ids q) = core q" "core (mark_handled_msgs ids q) = core q"
  "core (mark_completed d ids q) = core q"
  by (simp_all add: core_def mark_handled_def mark_handled_msgs_def mark_completed_def)

lemma replay_event_flag:
  "snd qc \<Longrightarrow> snd (replay_event e qc)"
  "\<not> snd (replay_event e qc) \<Longrightarrow> core (fst (replay_event e qc)) = core (fst qc)"
  by (auto simp: replay_event_def Let_def case_prod_unfold applyTerminalState_flag
      applyInputCheck_flag split: if_splits)

lemma fill_flag:
  assumes "\<not> snd (fill_model_messages env q)"
  shows "core (fst (fill_model_messages env q)) = core q"
proof -
  have "fill_model_message env q r = r" if "(i, r) \<in> set (q_records q)" for i r
    using assms that
    by (auto simp: fill_model_messages_def fill_model_message_def Let_def list_ex_iff
        split: option.splits)
  then have "map (\<lambda>(i, r). (i, fill_model_message env q r)) (q_records q) = q_records q"
    by (intro map_idI) auto
  then show ?thesis by (simp add: fill_model_messages_def Let_def core_def)
qed

section \<open>Loading settles\<close>

lemma settles_refresh:
  assumes "pq_ok q" and "q_loaded q"
  shows "settles (refreshInputScopeLocked q)"
    and "refreshInputScopeLocked q = (Inr u, q') \<Longrightarrow> q_loaded q'"
proof -
  let ?q = "q\<lparr>q_scope := currentInputScopeID q, q_checked := []\<rparr>"
  have c: "core ?q = core q" by (simp add: core_def)
  with assms(1) have ok: "pq_ok ?q" using pq_ok_core by blast
  obtain q1 ch where p: "pruneInputScopesLocked ?q = (q1, ch)" by (rule prod.exhaust)
  have wf: "pq_wf q1" using prune_wf[of ?q] p ok by (simp add: pq_ok_def)
  have same: "core q1 = core q" if "\<not> ch" using prune_flag[of ?q] p c that by simp
  then have ok1: "pq_ok q1" if "\<not> ch" using that pq_ok_core assms(1) by blast
  show "settles (refreshInputScopeLocked q)"
    using p wf ok1 assms(1)
    by (auto simp: refreshInputScopeLocked_def Let_def settles_persistCurrent)
  show "q_loaded q'" if "refreshInputScopeLocked q = (Inr u, q')"
    using that p same assms(2)
    by (auto simp: refreshInputScopeLocked_def persistCurrentLocked_def core_def Let_def
        dest: persist_Inr(1) split: if_splits)
qed

definition load_start :: "pending_queue \<Rightarrow> (string \<times> pending_input_record) list \<Rightarrow> string list \<Rightarrow>
    pending_queue" where
  "load_start q R ord = rebuildIndexesLocked (q\<lparr>q_records := R, q_order := ord,
     q_completed := {}, q_handled := {}, q_handled_msgs := {}, q_checked := [],
     q_scope := currentInputScopeID q\<rparr>)"

definition load_replay :: "pending_queue \<Rightarrow> (pending_queue \<times> bool) option" where
  "load_replay q = (case q_thread q of None \<Rightarrow> Some (q, False)
     | Some t \<Rightarrow> (if tv_events_readable t then Some (fold replay_event (tv_events t) (q, False))
                  else None))"

definition load_finish :: "pq_env \<Rightarrow> bool \<Rightarrow> (pending_queue, pq_error, unit) op" where
  "load_finish env c2 q =
     (let (q3, c3) = fill_model_messages env (q\<lparr>q_loaded := True\<rparr>);
          (q4, c4) = pruneInputScopesLocked q3
      in if c2 \<or> c3 \<or> c4
         then andThen persistCurrentLocked (\<lambda>_. synchronizePendingCountLocked True) q4
         else (case synchronizePendingCountLocked True q4 of
                 (Inl e, q5) \<Rightarrow> (Inl e, q5\<lparr>q_loaded := False\<rparr>) | (Inr u, q5) \<Rightarrow> (Inr u, q5)))"

lemma ensureLoaded_phases:
  "ensureLoadedLocked env q =
     (if q_loaded q then refreshInputScopeLocked q
      else case loadDocumentLocked (q_file q) of
        Inl e \<Rightarrow> (Inl e, q)
      | Inr (R, ord) \<Rightarrow> (case load_replay (load_start q R ord) of
          None \<Rightarrow> (Inl ErrReadEvents, load_start q R ord)
        | Some (q2, c2) \<Rightarrow> load_finish env c2 q2))"
  unfolding ensureLoadedLocked_def load_start_def load_replay_def load_finish_def Let_def
  by (rule refl)

lemma load_replay_facts:
  assumes "load_replay q = Some (q2, c2)"
  shows "pq_wf q \<Longrightarrow> pq_wf q2" and "\<not> c2 \<Longrightarrow> core q2 = core q"
proof -
  have "(q2, c2) = (q, False) \<or> (\<exists>es. (q2, c2) = fold replay_event es (q, False))"
    using assms by (auto simp: load_replay_def intro: sym split: option.splits if_splits)
  then obtain es where es: "(q2, c2) = fold replay_event es (q, False)"
    by (metis fold_simps(1))
  show "pq_wf q2" if "pq_wf q"
    using fold_inv[where P = "\<lambda>s. pq_wf (fst s)" and f = replay_event and xs = es and s = "(q, False)"]
      that replay_event_wf es[symmetric] by simp
  show "core q2 = core q" if "\<not> c2"
    using fold_flag[of replay_event es "(q, False)", OF replay_event_flag] that es[symmetric] by simp
qed

lemma settles_synchronize:
  assumes "pq_ok q"
  shows "settles (synchronizePendingCountLocked force q)"
proof -
  obtain r q' where s: "synchronizePendingCountLocked force q = (r, q')" by (rule prod.exhaust)
  have "all_valid (q_records q') = all_valid (q_records q)" by (simp add: synchronize_sel(1)[OF s])
  with assms s synchronize_sel[OF s] synchronize_count_ok[OF s] show ?thesis
    by (simp add: settles_def pq_ok_def in_sync_def)
qed

lemma settles_load_finish:
  assumes "pq_wf q" and "\<not> c2 \<Longrightarrow> file_ok q \<and> all_valid (q_records q) \<and> index_ok q"
  shows "settles (load_finish env c2 q)"
    and "load_finish env c2 q = (Inr u, q') \<Longrightarrow> q_loaded q'"
proof -
  let ?q = "q\<lparr>q_loaded := True\<rparr>"
  obtain q3 c3 where f: "fill_model_messages env ?q = (q3, c3)" by (rule prod.exhaust)
  obtain q4 c4 where p: "pruneInputScopesLocked q3 = (q4, c4)" by (rule prod.exhaust)
  have "pq_wf q3" using fill_wf[of ?q env] assms(1) f by simp
  then have wf: "pq_wf q4" using prune_wf[of q3] p by simp
  have same: "core q4 = core ?q" if "\<not> (c2 \<or> c3 \<or> c4)"
    using fill_flag[of env ?q] prune_flag[of q3] f p that by simp
  then have parts: "file_ok q4 \<and> all_valid (q_records q4) \<and> index_ok q4 \<and> q_loaded q4"
    if "\<not> (c2 \<or> c3 \<or> c4)"
    using assms(2) that by (simp add: core_def file_ok_def index_ok_def)
  show "settles (load_finish env c2 q)"
  proof (cases "c2 \<or> c3 \<or> c4")
    case True
    have "settles (andThen persistCurrentLocked (\<lambda>_. synchronizePendingCountLocked True) q4)"
      by (rule settles_andThen) (auto intro: settles_persistCurrent wf settles_synchronize)
    with f p True show ?thesis by (simp add: load_finish_def)
  next
    case False
    obtain r q5 where s: "synchronizePendingCountLocked True q4 = (r, q5)" by (rule prod.exhaust)
    have v: "all_valid (q_records q5)" using parts[OF False] synchronize_sel(1)[OF s] by simp
    have "settles (case r of Inl e \<Rightarrow> (Inl e, q5\<lparr>q_loaded := False\<rparr>) | Inr u \<Rightarrow> (Inr u, q5))"
      using parts[OF False] v wf synchronize_sel[OF s] synchronize_count_ok[OF s]
      by (cases r) (simp_all add: settles_def pq_ok_def in_sync_def)
    with f p False s show ?thesis
      by (cases r) (simp_all add: load_finish_def)
  qed
  show "q_loaded q'" if "load_finish env c2 q = (Inr u, q')"
    using that f p parts
    by (auto simp: load_finish_def persistCurrentLocked_def synchronize_sel
        dest: persist_Inr(1) elim!: andThen_InrE split: if_splits prod.splits sum.splits)
qed

lemma settles_ensureLoaded:
  assumes "pq_ok q"
  shows "settles (ensureLoadedLocked env q)"
    and "ensureLoadedLocked env q = (Inr u, q') \<Longrightarrow> q_loaded q' \<and> pq_ok q'"
proof -
  have main: "settles (ensureLoadedLocked env q)
     \<and> (\<forall>u q'. ensureLoadedLocked env q = (Inr u, q') \<longrightarrow> q_loaded q')"
  proof (cases "q_loaded q")
    case True
    then show ?thesis using settles_refresh[OF assms True] by (simp add: ensureLoaded_phases)
  next
    case False
    show ?thesis
    proof (cases "loadDocumentLocked (q_file q)")
      case (Inl e)
      with False assms show ?thesis by (simp add: ensureLoaded_phases settles_error)
    next
      case (Inr d)
      obtain R ord where d: "d = (R, ord)" by (rule prod.exhaust)
      let ?s = "load_start q R ord"
      from loadDocument_spec[of "q_file q" R ord] Inr d
      have spec: "shape R ord" "all_valid R" "file_ok ?s" "index_ok ?s"
        by (auto simp: file_ok_def load_start_def)
      have s: "pq_wf ?s" "\<not> q_loaded ?s" "q_records ?s = R"
        using spec(1) False by (simp_all add: load_start_def pq_wf_def)
      show ?thesis
      proof (cases "load_replay ?s")
        case None
        with False Inr d s show ?thesis
          by (simp add: ensureLoaded_phases settles_error pq_ok_def)
      next
        case (Some p)
        obtain q2 c2 where p: "p = (q2, c2)" by (rule prod.exhaust)
        have wf: "pq_wf q2" using load_replay_facts(1)[of ?s q2 c2] Some p s(1) by simp
        have "file_ok q2 \<and> all_valid (q_records q2) \<and> index_ok q2" if "\<not> c2"
          using load_replay_facts(2)[of ?s q2 c2] Some p that spec s(3)
          by (simp add: core_def file_ok_def index_ok_def)
        from settles_load_finish[OF wf this] False Inr d Some p show ?thesis
          by (simp add: ensureLoaded_phases)
      qed
    qed
  qed
  then show "settles (ensureLoadedLocked env q)" by simp
  show "q_loaded q' \<and> pq_ok q'" if "ensureLoadedLocked env q = (Inr u, q')"
    using main that by (auto simp: settles_def)
qed

lemma settles_with_queue:
  assumes "pq_ok q" and "\<And>q1. pq_ok q1 \<Longrightarrow> q_loaded q1 \<Longrightarrow> settles (f q1 q1)"
  shows "settles (with_queue env f q)"
  unfolding with_queue_def
proof (rule settles_andThen)
  show "settles (ensureLoadedLocked env q)" by (rule settles_ensureLoaded(1)[OF assms(1)])
next
  fix x q1
  assume "ensureLoadedLocked env q = (Inr x, q1)"
  with settles_ensureLoaded(2)[OF assms(1)] have "pq_ok q1" "q_loaded q1" by blast+
  then show "settles (andThen get_state f q1)" by (simp add: andThen_def assms(2))
qed

section \<open>Every method settles\<close>

lemma settles_upsert: "pq_ok q \<Longrightarrow> settles (upsertLocked r q)"
  using settles_persist[OF pq_ok_wf shape_insert[OF pq_ok_shape _ refl], of q q r]
    settles_persist[OF pq_ok_wf shape_update[OF pq_ok_shape _ refl], of q q r]
  by (auto simp: upsertLocked_def Let_def settles_error dest: weak_map_of_SomeI
      intro: settles_error)

lemma settles_then_ret: "settles (m q) \<Longrightarrow> settles (andThen m (\<lambda>_. ret x) q)"
  by (rule settles_andThen) auto

lemma settles_store_new: "pq_ok q \<Longrightarrow> settles (store_new r q)"
  by (simp add: store_new_def Let_def settles_then_ret settles_upsert)

lemma settles_promote: "pq_ok q \<Longrightarrow> settles (promoteTurnInputLocked r turn st q)"
  by (simp add: promoteTurnInputLocked_def Let_def settles_then_ret settles_upsert)

lemmas settles_basic = settles_error settles_store_new settles_promote settles_upsert

lemma settles_Enqueue: "pq_ok q \<Longrightarrow> settles (Enqueue env msg i ttl turn q)"
  unfolding Enqueue_def
  by (rule settles_with_queue) (auto simp: Let_def settles_basic split: option.splits)

lemma settles_storeTurnInput: "pq_ok q \<Longrightarrow> settles (storeTurnInput env turn msg reuse st q)"
  unfolding storeTurnInput_def store_fresh_turn_input_def
  by (rule settles_with_queue) (auto simp: settles_basic split: option.splits)

lemma settles_CommitTurnInput: "pq_ok q \<Longrightarrow> settles (CommitTurnInput env i turn q)"
  unfolding CommitTurnInput_def
  by (rule settles_with_queue) (auto simp: settles_basic split: option.splits)

lemma settles_MarkMessageProcessed: "pq_ok q \<Longrightarrow> settles (MarkMessageProcessed env m q)"
  unfolding MarkMessageProcessed_def
  by (auto simp: settles_basic Let_def intro!: settles_with_queue split: option.splits)

lemma drop_expired_shape:
  "shape R ord \<Longrightarrow> drop_expired now i (R, ord, c) = (R', ord', c') \<Longrightarrow> shape R' ord'"
  by (auto simp: drop_expired_def shape_delete split: option.splits if_splits)

lemma fold_drop_expired_shape:
  "shape R ord \<Longrightarrow> fold (drop_expired now) is (R, ord, c) = (R', ord', c') \<Longrightarrow> shape R' ord'"
proof (induction "is" arbitrary: R ord c)
  case (Cons i "is")
  then show ?case by (cases "drop_expired now i (R, ord, c)") (auto dest: drop_expired_shape)
qed simp

lemma settles_Replayable: "pq_ok q \<Longrightarrow> settles (Replayable env limit q)"
  unfolding Replayable_def
proof (rule settles_with_queue)
  fix q1
  assume ok: "pq_ok q1"
  obtain R ord c where f: "fold (drop_expired (nowMillis env)) (q_order q1)
      (q_records q1, q_order q1, False) = (R, ord, c)"
    by (metis prod.exhaust)
  have "settles ((if c then persistLocked R ord else ret ()) q1)"
    using fold_drop_expired_shape[OF pq_ok_shape[OF ok] f] ok
    by (simp add: settles_persist pq_ok_wf)
  then have "settles (andThen (if c then persistLocked R ord else ret ())
      (\<lambda>_. andThen get_state (\<lambda>q'. ret (let out = filter replay_eligible (records_in_order q')
         in if limit > 0 then take limit out else out))) q1)"
    by (rule settles_andThen) (simp add: andThen_def)
  then show "settles ((let (records, order, changed) =
      fold (drop_expired (nowMillis env)) (q_order q1) (q_records q1, q_order q1, False)
      in andThen (if changed then persistLocked records order else ret ())
        (\<lambda>_. andThen get_state (\<lambda>q'. let out = filter replay_eligible (records_in_order q')
          in ret (if 0 < limit then take limit out else out)))) q1)"
    by (simp add: f Let_def)
qed

lemma fold_update_step_shape:
  assumes "\<And>r r'. f r = Mutate r' \<Longrightarrow> rec_id r' = rec_id r"
  shows "shape R ord \<Longrightarrow> fold (update_step f) is (R, c) = (R', c') \<Longrightarrow> shape R' ord"
proof (induction "is" arbitrary: R c)
  case (Cons i "is")
  obtain R1 c1 where s: "update_step f i (R, c) = (R1, c1)" by (rule prod.exhaust)
  have "shape R1 ord"
    using s Cons.prems(1) assms
    by (auto simp: update_step_def shape_rec_id intro!: shape_update
        split: option.splits update_verdict.splits)
  with Cons s show ?case by simp
qed simp

lemma settles_updateStates:
  assumes "pq_ok q" and "\<And>q1 r r'. f q1 r = Mutate r' \<Longrightarrow> rec_id r' = rec_id r"
  shows "settles (updateStates env ids f q)"
proof -
  have "settles ((let (records, changed) = fold (update_step (f q1)) ids (q_records q1, False)
      in if changed then persistLocked records (q_order q1) else ret ()) q1)" if "pq_ok q1" for q1
  proof (cases "fold (update_step (f q1)) ids (q_records q1, False)")
    case (Pair R c)
    have "shape R (q_order q1)"
      using fold_update_step_shape[of "f q1" "q_records q1" "q_order q1" ids False R c]
        assms(2) pq_ok_shape[OF that] Pair by blast
    with Pair that show ?thesis by (simp add: settles_persist pq_ok_wf)
  qed
  then show ?thesis
    using assms(1) by (simp add: updateStates_def settles_with_queue)
qed

lemma settles_updates:
  assumes "pq_ok q"
  shows "settles (MarkAdmitted env ids turn q)" "settles (PromoteToTurnInput env ids turn q)"
    "settles (MarkProcessed env ids q)" "settles (Retry env i q)"
  using assms
  by (auto simp: MarkAdmitted_def PromoteToTurnInput_def MarkProcessed_def Retry_def
      admitted_record_def pending_record_def intro!: settles_updateStates split: if_splits)

lemma fold_retry_shape:
  "shape R ord \<Longrightarrow> fold (retry_turn_step turn) is (R, rs) = (R', rs') \<Longrightarrow> shape R' ord"
proof (induction "is" arbitrary: R rs)
  case (Cons i "is")
  obtain R1 rs1 where s: "retry_turn_step turn i (R, rs) = (R1, rs1)" by (rule prod.exhaust)
  have "shape R1 ord"
    using s Cons.prems(1)
    by (auto simp: retry_turn_step_def pending_record_def shape_rec_id intro!: shape_update
        split: option.splits if_splits)
  with Cons s show ?case by simp
qed simp

lemma restore_all_shape: "shape R ord \<Longrightarrow> restore_all ps R = Inr R' \<Longrightarrow> shape R' ord"
proof (induction ps arbitrary: R)
  case (Cons p ps)
  then show ?case
    by (auto intro: shape_update split: option.splits if_splits)
qed simp

lemma settles_restore: "pq_ok q \<Longrightarrow> settles (restoreRetriedInputs env rs q)"
  unfolding restoreRetriedInputs_def
  by (auto intro!: settles_with_queue settles_persist pq_ok_wf simp: settles_error
      split: sum.splits dest: restore_all_shape[OF pq_ok_shape])

lemma fold_remove_shape:
  "shape R ord \<Longrightarrow> fold remove_step is (R, ord, rs) = (R', ord', rs') \<Longrightarrow> shape R' ord'"
proof (induction "is" arbitrary: R ord rs)
  case (Cons i "is")
  obtain R1 o1 rs1 where s: "remove_step i (R, ord, rs) = (R1, o1, rs1)" by (metis prod.exhaust)
  have "shape R1 o1"
    using s Cons.prems(1) by (auto simp: remove_step_def shape_delete split: option.splits)
  with Cons s show ?case by simp
qed simp

lemma settles_remove: "pq_ok q \<Longrightarrow> settles (remove_inputs env ids q)"
proof -
  have "settles ((let (records, order, removed) = fold remove_step ids (q_records q1, q_order q1, [])
      in if removed = [] then ret ()
         else andThen (persistLocked records order)
           (\<lambda>_. modify (\<lambda>q. q\<lparr>q_handled := q_handled q \<union> set (map rec_id removed),
                  q_handled_msgs := q_handled_msgs q \<union> set (map message_id removed)\<rparr>))) q1)"
    if "pq_ok q1" for q1
  proof -
    obtain R ord rs where f: "fold remove_step ids (q_records q1, q_order q1, []) = (R, ord, rs)"
      by (metis prod.exhaust)
    have "settles (persistLocked R ord q1)"
      using fold_remove_shape[OF pq_ok_shape[OF that] f] that by (simp add: settles_persist pq_ok_wf)
    then have "settles (andThen (persistLocked R ord)
           (\<lambda>_. modify (\<lambda>q. q\<lparr>q_handled := q_handled q \<union> set (map rec_id rs),
                  q_handled_msgs := q_handled_msgs q \<union> set (map message_id rs)\<rparr>)) q1)"
      by (rule settles_andThen)
        (auto simp: core_def intro!: settles_ret intro: pq_ok_core[THEN iffD1])
    with f that show ?thesis by simp
  qed
  then show "pq_ok q \<Longrightarrow> settles (remove_inputs env ids q)"
    by (simp add: remove_inputs_def settles_with_queue)
qed

lemma settles_applyTerminal: "pq_ok q \<Longrightarrow> settles (applyTerminalLocked d ids msg kind q)"
proof -
  assume ok: "pq_ok q"
  let ?q = "mark_completed d ids (mark_handled_msgs ids (mark_handled ids q))"
  obtain q2 c where a: "applyTerminalStateLocked d ids msg kind ?q = (q2, c)" by (rule prod.exhaust)
  have "pq_wf q2" using applyTerminalState_wf[of ?q d ids msg kind] a ok by (simp add: pq_ok_wf)
  moreover have "pq_ok q2" if "\<not> c"
    using applyTerminalState_flag[of d ids msg kind ?q] a that ok pq_ok_core[of q2 q] by simp
  ultimately show ?thesis
    using a by (simp add: applyTerminalLocked_def Let_def settles_persistCurrent)
qed

lemma settles_ApplyTerminalEvent: "pq_ok q \<Longrightarrow> settles (ApplyTerminalEvent env e q)"
  by (auto simp: ApplyTerminalEvent_def intro!: settles_with_queue settles_applyTerminal
      split: prod.splits)

lemma reconcile_record_id:
  "reconcile_record env q A T r = (r', c) \<Longrightarrow> rec_id r' = rec_id r"
  by (auto simp: reconcile_record_def reconcile_state_def Let_def split: if_splits prod.splits)

lemma fold_reconcile_shape:
  "shape R ord \<Longrightarrow> fold (reconcile_step env q A T) is (R, c) = (R', c') \<Longrightarrow> shape R' ord"
proof (induction "is" arbitrary: R c)
  case (Cons i "is")
  obtain R1 c1 where s: "reconcile_step env q A T i (R, c) = (R1, c1)" by (rule prod.exhaust)
  have "shape R1 ord"
    using s Cons.prems(1)
    by (auto simp: reconcile_step_def shape_rec_id dest!: reconcile_record_id intro!: shape_update
        split: option.splits prod.splits)
  with Cons s show ?case by simp
qed simp

lemma settles_Reconcile: "pq_ok q \<Longrightarrow> settles (ReconcileRecoveryFacts env A T q)"
  unfolding ReconcileRecoveryFacts_def
  by (rule settles_with_queue)
     (auto intro!: settles_persist pq_ok_wf dest: fold_reconcile_shape[OF pq_ok_shape]
        split: prod.splits)

lemma settles_reads:
  assumes "pq_ok q"
  shows "settles (Records env q)" "settles (Completed env i q)" "settles (InputIDsForTurn env turn q)"
    "settles (uncheckedRecords env q)" "settles (checkInputScopeRenewal env q)"
    "settles (inputAssociation env m q)"
  using assms
  by (auto simp: Records_def Completed_def InputIDsForTurn_def uncheckedRecords_def
      checkInputScopeRenewal_def inputAssociation_def settles_error intro!: settles_with_queue)

lemma settles_commit_check: "pq_ok q \<Longrightarrow> settles (commit_check env ok call turn t cs ps s q)"
proof -
  assume ok: "pq_ok q"
  have un: "pq_ok (q\<lparr>q_loaded := False\<rparr>)" using ok by (simp add: pq_ok_def)
  have "settles (persistCurrentLocked (fst (applyInputCheckLocked p (q\<lparr>q_thread := u\<rparr>))))" for p u
    using ok by (simp add: settles_persistCurrent applyInputCheck_wf pq_ok_wf)
  then have "settles (andThen persistCurrentLocked (\<lambda>_. ret x)
      (fst (applyInputCheckLocked p (q\<lparr>q_thread := u\<rparr>))))" for p u and x :: "string list \<times> event option"
    by (rule settles_then_ret)
  with un show ?thesis by (simp add: commit_check_def Let_def andThen_def settles_error)
qed

lemma settles_checkInputs: "pq_ok q \<Longrightarrow> settles (checkInputs env ctx ok call ids turn q)"
  unfolding checkInputs_def
  by (rule settles_with_queue)
     (auto simp: settles_error settles_commit_check split: option.splits sum.splits)

section \<open>Runs of the queue\<close>

text \<open>
  One label per method. A run interleaves method calls with what happens around the queue: the
  Thread gains events and messages or changes its scope, the process restarts and a new queue is
  made over the file left behind, and the coming writes turn out to succeed or to fail.
\<close>

datatype pq_call =
    CallEnqueue message string int string
  | CallStoreTurnInput string message bool pending_input_state
  | CallCommitTurnInput string string
  | CallReplayable nat
  | CallMarkAdmitted "string list" string
  | CallPromote "string list" string
  | CallMarkProcessed "string list"
  | CallMarkMessageProcessed message
  | CallRemove "string list"
  | CallRetry string
  | CallRetryTurn string
  | CallRestore "pending_input_record list"
  | CallRecords
  | CallCompleted string
  | CallInputIDsForTurn string
  | CallApplyTerminal event
  | CallReconcile "string set" "string set"
  | CallUnchecked
  | CallCheckInputs bool bool "string \<times> string" "string list" string
  | CallScopeRenewal
  | CallAssociation message

definition forget :: "(pending_queue, pq_error, 'a) op \<Rightarrow> (pending_queue, pq_error, unit) op" where
  "forget m q = (case m q of (Inl e, q') \<Rightarrow> (Inl e, q') | (Inr _, q') \<Rightarrow> (Inr (), q'))"

fun run_call :: "pq_env \<Rightarrow> pq_call \<Rightarrow> (pending_queue, pq_error, unit) op" where
  "run_call env (CallEnqueue msg i ttl turn) = forget (Enqueue env msg i ttl turn)"
| "run_call env (CallStoreTurnInput turn msg reuse st) = forget (storeTurnInput env turn msg reuse st)"
| "run_call env (CallCommitTurnInput i turn) = CommitTurnInput env i turn"
| "run_call env (CallReplayable limit) = forget (Replayable env limit)"
| "run_call env (CallMarkAdmitted ids turn) = MarkAdmitted env ids turn"
| "run_call env (CallPromote ids turn) = PromoteToTurnInput env ids turn"
| "run_call env (CallMarkProcessed ids) = MarkProcessed env ids"
| "run_call env (CallMarkMessageProcessed m) = MarkMessageProcessed env m"
| "run_call env (CallRemove ids) = remove_inputs env ids"
| "run_call env (CallRetry i) = Retry env i"
| "run_call env (CallRetryTurn turn) = (\<lambda>q. case retryTurnInputs env turn q of
      (Inl (_, e), q') \<Rightarrow> (Inl e, q') | (Inr _, q') \<Rightarrow> (Inr (), q'))"
| "run_call env (CallRestore rs) = restoreRetriedInputs env rs"
| "run_call env CallRecords = forget (Records env)"
| "run_call env (CallCompleted i) = forget (Completed env i)"
| "run_call env (CallInputIDsForTurn turn) = forget (InputIDsForTurn env turn)"
| "run_call env (CallApplyTerminal e) = ApplyTerminalEvent env e"
| "run_call env (CallReconcile A T) = ReconcileRecoveryFacts env A T"
| "run_call env CallUnchecked = forget (uncheckedRecords env)"
| "run_call env (CallCheckInputs ctx ok call ids turn) = forget (checkInputs env ctx ok call ids turn)"
| "run_call env CallScopeRenewal = checkInputScopeRenewal env"
| "run_call env (CallAssociation m) = forget (inputAssociation env m)"

lemma settles_forget: "settles (m q) \<Longrightarrow> settles (forget m q)"
  by (auto simp: forget_def settles_def no_encode_error_def split: prod.splits sum.splits)

lemma settles_retryTurn: "pq_ok q \<Longrightarrow> settles (run_call env (CallRetryTurn turn) q)"
proof -
  assume ok: "pq_ok q"
  show ?thesis
  proof (cases "trim_space turn = []")
    case True
    with ok show ?thesis by (simp add: retryTurnInputs_def)
  next
    case False
    obtain r q1 where l: "ensureLoadedLocked env q = (r, q1)" by (rule prod.exhaust)
    show ?thesis
    proof (cases r)
      case (Inl e)
      with l False settles_ensureLoaded(1)[OF ok, of env] show ?thesis
        by (simp add: retryTurnInputs_def settles_def no_encode_error_def)
    next
      case (Inr u)
      with settles_ensureLoaded(2)[OF ok] l have ok1: "pq_ok q1" by blast
      obtain R rs where f: "fold (retry_turn_step turn) (q_order q1) (q_records q1, []) = (R, rs)"
        by (rule prod.exhaust)
      have "settles (persistLocked R (q_order q1) q1)"
        using fold_retry_shape[OF pq_ok_shape[OF ok1] f] ok1 by (simp add: settles_persist pq_ok_wf)
      with l Inr False f ok1 show ?thesis
        by (auto simp: retryTurnInputs_def settles_def no_encode_error_def pq_ok_wf
            split: prod.splits sum.splits)
    qed
  qed
qed

lemma settles_run_call: "pq_ok q \<Longrightarrow> settles (run_call env c q)"
  by (cases c)
     (auto simp del: run_call.simps(11) simp: settles_forget settles_Enqueue settles_storeTurnInput
        settles_CommitTurnInput settles_Replayable settles_updates settles_MarkMessageProcessed
        settles_remove settles_retryTurn settles_restore settles_reads settles_ApplyTerminalEvent
        settles_Reconcile settles_checkInputs)

datatype pq_label = Call pq_env pq_call | ThreadMoves | Weather | Restart

inductive pq_step :: "pending_queue \<Rightarrow> pq_label \<Rightarrow> pending_queue \<Rightarrow> bool" where
  call: "run_call env c q = (res, q') \<Longrightarrow> no_encode_error res \<Longrightarrow> pq_step q (Call env c) q'"
| thread: "q_thread q = Some t \<Longrightarrow> tv_pending_inputs t' = tv_pending_inputs t \<Longrightarrow>
    pq_step q ThreadMoves (q\<lparr>q_thread := Some t'\<rparr>)"
| weather: "pq_step q Weather (q\<lparr>q_writes := ws, q_counts := cs\<rparr>)"
| restart: "pq_step q Restart (NewPendingInputQueue track th (q_file q) ws cs)"

definition pq_init :: "pending_queue \<Rightarrow> bool" where
  "pq_init q \<longleftrightarrow> (\<exists>track th file ws cs. q = NewPendingInputQueue track th file ws cs)"

inductive_cases pq_stepE: "pq_step q l q'"

lemma pq_ok_new [simp]: "pq_ok (NewPendingInputQueue track th file ws cs)"
  by (simp add: NewPendingInputQueue_def pq_ok_def pq_wf_def)

lemma pq_ok_thread:
  "pq_ok q \<Longrightarrow> q_thread q = Some t \<Longrightarrow> tv_pending_inputs t' = tv_pending_inputs t \<Longrightarrow>
   pq_ok (q\<lparr>q_thread := Some t'\<rparr>)"
  by (simp add: pq_ok_def in_sync_def file_ok_def count_ok_def)

lemma pq_step_ok: "pq_ok q \<Longrightarrow> pq_step q l q' \<Longrightarrow> pq_ok q'"
proof (erule pq_stepE)
  fix env c res
  assume "pq_ok q" and "run_call env c q = (res, q')" and "no_encode_error res"
  with settles_run_call[of q env c] show "pq_ok q'" by (simp add: settles_def)
next
  fix ws cs
  assume "pq_ok q" and "q' = q\<lparr>q_writes := ws, q_counts := cs\<rparr>"
  then show "pq_ok q'" using pq_ok_core[of q' q] by (simp add: core_def)
qed (auto simp: pq_ok_thread)

interpretation queue_runs: invariant_machine pq_init pq_step pq_ok
  by unfold_locales (auto simp: pq_init_def intro: pq_step_ok)

end
