(* ===== verification/PendingQueueProps.thy ===== *)
theory PendingQueueProps
  imports PendingQueueInv
begin

text \<open>
  What the pending-input queue promises: acceptance is durable and idempotent, a persisted queue is
  read back as it was, replay offers the eligible inputs in the order of acceptance, an input whose
  Turn completed is never offered again, and a retry can be rolled back.
\<close>

section \<open>A loaded queue and its surroundings\<close>

definition ctx :: "pending_queue \<Rightarrow> string \<times> thread_view option \<times> bool \<times> inputs_file
    \<times> write_result list \<times> write_result list" where
  "ctx q = (q_scope q, q_thread q, q_track q, q_file q, q_writes q, q_counts q)"

definition scope_now :: "pending_queue \<Rightarrow> bool" where
  "scope_now q \<longleftrightarrow> q_scope q = currentInputScopeID q"

lemma scope_now_ctx: "ctx q = ctx q' \<Longrightarrow> scope_now q = scope_now q'"
  by (simp add: ctx_def scope_now_def currentInputScopeID_def)

lemma fold_ctx: "(\<And>x s. ctx (fst (f x s)) = ctx (fst s)) \<Longrightarrow> ctx (fst (fold f xs s)) = ctx (fst s)"
  by (induction xs arbitrary: s) simp_all

lemma ctx_rebuild [simp]: "ctx (rebuildIndexesLocked q) = ctx q"
  by (simp add: ctx_def)

lemma ctx_terminal: "ctx (fst (applyTerminalStateLocked d ids msg kind q)) = ctx q"
proof -
  have "ctx (fst (terminal_step d msg kind i qc)) = ctx (fst qc)" for i qc
    by (cases d) (auto simp: terminal_step_def Let_def ctx_def split: option.splits)
  then show ?thesis
    using fold_ctx[of "terminal_step d msg kind" ids "(q, False)"]
    by (auto simp: applyTerminalStateLocked_def split: prod.splits)
qed

lemma ctx_prune: "ctx (fst (pruneInputScopesLocked q)) = ctx q"
  unfolding pruneInputScopesLocked_def
  by (subst fold_ctx) (auto simp: prune_step_def Let_def ctx_def split: option.splits)

lemma ctx_check: "ctx (fst (applyInputCheckLocked p q)) = ctx q"
proof -
  have "ctx (fst (check_step p i qc)) = ctx (fst qc)" for i qc
    by (auto simp: check_step_def Let_def ctx_def split: option.splits)
  then show ?thesis
    using fold_ctx[of "check_step p" "icp_input_ids p" "(q, False)"]
    by (simp add: applyInputCheckLocked_def)
qed

lemma ctx_mark [simp]:
  "ctx (mark_handled ids q) = ctx q" "ctx (mark_handled_msgs ids q) = ctx q"
  "ctx (mark_completed d ids q) = ctx q"
  by (simp_all add: ctx_def mark_handled_def mark_handled_msgs_def mark_completed_def)

lemma ctx_replay_event: "ctx (fst (replay_event e qc)) = ctx (fst qc)"
  by (auto simp: replay_event_def Let_def case_prod_unfold ctx_terminal ctx_check)

lemma ctx_load_replay: "load_replay q = Some (q2, c2) \<Longrightarrow> ctx q2 = ctx q"
  using fold_ctx[of replay_event _ "(q, False)", OF ctx_replay_event]
  by (auto simp: load_replay_def split: option.splits if_splits) (metis fst_conv)

lemma ctx_fill: "ctx (fst (fill_model_messages env q)) = ctx q"
  by (simp add: fill_model_messages_def Let_def ctx_def)

lemma scope_now_thread:
  assumes "q_scope q' = q_scope q"
    and "map_option (tv_pending_inputs_update (\<lambda>_. 0)) (q_thread q')
       = map_option (tv_pending_inputs_update (\<lambda>_. 0)) (q_thread q)"
  shows "scope_now q' = scope_now q"
proof -
  have "map_option tv_scope (q_thread q') = map_option tv_scope (q_thread q)"
    using arg_cong[OF assms(2), of "map_option tv_scope"] by (simp add: option.map_comp comp_def)
  with assms(1) show ?thesis
    by (cases "q_thread q"; cases "q_thread q'") (auto simp: scope_now_def currentInputScopeID_def)
qed

lemma scope_now_persist: "persistLocked R ord q = (res, q') \<Longrightarrow> scope_now q' = scope_now q"
  by (rule scope_now_thread) (auto intro: persist_frame(1) persist_thread)

lemma scope_now_sync: "synchronizePendingCountLocked force q = (res, q') \<Longrightarrow> scope_now q' = scope_now q"
  by (rule scope_now_thread) (auto intro: synchronize_sel(5) synchronize_thread)

lemma scope_now_refresh:
  assumes "refreshInputScopeLocked q = (Inr u, q')"
  shows "scope_now q'"
proof -
  let ?q = "q\<lparr>q_scope := currentInputScopeID q, q_checked := []\<rparr>"
  obtain q1 c where p: "pruneInputScopesLocked ?q = (q1, c)" by (rule prod.exhaust)
  have "scope_now ?q" by (simp add: scope_now_def currentInputScopeID_def)
  then have "scope_now q1" using scope_now_ctx[OF ctx_prune[of ?q]] p by simp
  with assms p show ?thesis
    by (auto simp: refreshInputScopeLocked_def Let_def persistCurrentLocked_def scope_now_persist
        intro: scope_now_def[THEN iffD2] split: if_splits)
qed

lemma scope_now_load_finish:
  assumes "load_finish env c2 q = (Inr u, q')" and "scope_now q"
  shows "scope_now q'"
proof -
  let ?q = "q\<lparr>q_loaded := True\<rparr>"
  obtain q3 c3 where f: "fill_model_messages env ?q = (q3, c3)" by (rule prod.exhaust)
  obtain q4 c4 where p: "pruneInputScopesLocked q3 = (q4, c4)" by (rule prod.exhaust)
  have "ctx q4 = ctx q"
    using ctx_fill[of env ?q] ctx_prune[of q3] f p by (simp add: ctx_def)
  then have "scope_now q4" using assms(2) scope_now_ctx by blast
  with assms(1) f p show ?thesis
    by (auto simp: load_finish_def persistCurrentLocked_def scope_now_persist scope_now_sync
        elim!: andThen_InrE split: if_splits prod.splits sum.splits)
qed

lemma ensureLoaded_scope: "ensureLoadedLocked env q = (Inr u, q') \<Longrightarrow> scope_now q'"
proof -
  assume e: "ensureLoadedLocked env q = (Inr u, q')"
  have "scope_now (load_start q R ord)" for R ord
    by (simp add: load_start_def scope_now_def currentInputScopeID_def)
  then have sc: "load_replay (load_start q R ord) = Some (q2, c2) \<Longrightarrow> scope_now q2" for R ord q2 c2
    using ctx_load_replay scope_now_ctx by blast
  show ?thesis
  proof (cases "q_loaded q")
    case True
    with e show ?thesis by (auto simp: ensureLoaded_phases intro: scope_now_refresh)
  next
    case False
    with e obtain R ord q2 c2 where "load_replay (load_start q R ord) = Some (q2, c2)"
      and "load_finish env c2 q2 = (Inr u, q')"
      by (auto simp: ensureLoaded_phases split: sum.splits option.splits)
    then show ?thesis using sc scope_now_load_finish by blast
  qed
qed

lemma ensureLoaded_idle: "q_loaded q \<Longrightarrow> scope_now q \<Longrightarrow> ensureLoadedLocked env q = (Inr (), q)"
  by (simp add: ensureLoadedLocked_def refreshInputScopeLocked_def scope_now_def Let_def)

lemma with_queue_idle: "q_loaded q \<Longrightarrow> scope_now q \<Longrightarrow> with_queue env f q = f q q"
  by (simp add: with_queue_def andThen_def ensureLoaded_idle)

lemma with_queue_InrE:
  assumes "with_queue env f q = (Inr x, q')" and "pq_ok q"
  obtains q1 where "ensureLoadedLocked env q = (Inr (), q1)" "pq_ok q1" "q_loaded q1" "scope_now q1"
    "f q1 q1 = (Inr x, q')"
  using assms settles_ensureLoaded(2)[OF assms(2)] ensureLoaded_scope
  by (auto simp: with_queue_def elim!: andThen_InrE intro: that)

lemma records_in_order_doc: "records_in_order q = doc_of (q_records q) (q_order q)"
  by (simp add: records_in_order_def doc_of_def)

lemma upsert_Inr:
  assumes "upsertLocked r q = (Inr u, q')" and "pq_ok q"
  shows "q_loaded q'" "pq_ok q'" "scope_now q' = scope_now q"
    "map_of (q_records q') = (map_of (q_records q))(rec_id r \<mapsto> r)"
    "q_order q' = (if rec_id r \<in> keys (q_records q) then q_order q else q_order q @ [rec_id r])"
    "q_file q' = FileDocument pendingInputDocumentVersion (records_in_order q')"
    "q_completed q' = q_completed q" "q_handled q' = q_handled q"
proof -
  have p: "persistLocked (AList.update (rec_id r) r (q_records q))
      (if rec_id r \<in> keys (q_records q) then q_order q else q_order q @ [rec_id r]) q = (Inr u, q')"
    using assms(1) by (auto simp: upsertLocked_def Let_def split: if_splits)
  note P = persist_Inr[OF p]
  show "q_loaded q'" "map_of (q_records q') = (map_of (q_records q))(rec_id r \<mapsto> r)"
    "q_order q' = (if rec_id r \<in> keys (q_records q) then q_order q else q_order q @ [rec_id r])"
    using P by (auto simp: fun_eq_iff)
  show "q_file q' = FileDocument pendingInputDocumentVersion (records_in_order q')"
    using P by (simp add: records_in_order_doc)
  show "pq_ok q'" using settles_upsert[OF assms(2), of r] assms(1) by (simp add: settles_def)
  show "scope_now q' = scope_now q" by (rule scope_now_persist[OF p])
  show "q_completed q' = q_completed q" "q_handled q' = q_handled q"
    using persist_frame[OF p] by simp_all
qed

lemma track_rec_id [simp]: "rec_id (trackInputLocked q r) = rec_id r"
  by (simp add: trackInputLocked_def)

lemma enqueue_record_id [simp]: "rec_id (enqueue_record env msg ttl turn i) = i"
  by (simp add: enqueue_record_def Let_def)

lemma on_disk:
  assumes "pq_ok q" and "q_loaded q" and "map_of (q_records q) i = Some r"
  shows "q_file q = FileDocument pendingInputDocumentVersion (records_in_order q)"
    and "r \<in> set (records_in_order q)"
  using assms set_doc_of[OF pq_ok_shape[OF assms(1)]] shape_in_order[OF pq_ok_shape[OF assms(1)]]
  by (auto simp: pq_ok_def in_sync_def file_ok_def records_in_order_doc)

lemma Enqueue_cases:
  assumes "Enqueue env msg i ttl turn q = (Inr r, q')" and "pq_ok q" and "trim_space i \<noteq> []"
  shows "q_loaded q' \<and> pq_ok q' \<and> scope_now q' \<and> map_of (q_records q') (trim_space i) = Some r
    \<and> rec_id r = trim_space i"
  using assms(1) unfolding Enqueue_def
proof (rule with_queue_InrE[OF _ assms(2)])
  fix q1
  let ?i = "trim_space i"
  assume q1: "pq_ok q1" "q_loaded q1" "scope_now q1"
    and e: "(let i = trim_space i in
      if i \<noteq> [] then
        (case map_of (q_records q1) i of
           Some existing \<Rightarrow> ret existing
         | None \<Rightarrow> (if i \<in> q_completed q1 then raise ErrPendingInputHandled
                   else if i \<in> q_handled q1 then raise ErrPendingInputHandled
                   else store_new (enqueue_record env msg ttl turn i)))
      else (case nextUniquePendingInputID (q_records q1) (env_fresh env) of
              None \<Rightarrow> raise ErrStillDrawing
            | Some i' \<Rightarrow> store_new (enqueue_record env msg ttl turn i'))) q1 = (Inr r, q')"
  show ?thesis
  proof (cases "map_of (q_records q1) ?i")
    case (Some x)
    with e q1 assms(3) show ?thesis
      using shape_rec_id[OF pq_ok_shape[OF q1(1)] Some] by simp
  next
    case None
    let ?r = "trackInputLocked q1 (enqueue_record env msg ttl turn ?i)"
    from None e assms(3) have "upsertLocked ?r q1 = (Inr (), q')" and "r = ?r"
      by (auto simp: Let_def store_new_def elim!: andThen_InrE split: if_splits)
    with upsert_Inr[OF this(1) q1(1)] q1(3) show ?thesis by simp
  qed
qed

section \<open>Invariant of every run\<close>

definition wit_env :: pq_env where
  "wit_env = \<lparr>env_now = 5000000, env_message_id = (\<lambda>_ i. ''m-'' @ i), env_fresh = [''input-1''],
     env_event_id = ''e1''\<rparr>"

definition wit_thread :: thread_view where
  "wit_thread = \<lparr>tv_events = [], tv_events_readable = True, tv_history = [], tv_scope = ''g000001'',
     tv_pending_inputs = 0\<rparr>"

definition wit_queue :: pending_queue where
  "wit_queue = NewPendingInputQueue False (Some wit_thread) FileMissing [] []"

definition wit_enqueued :: "(pq_error + pending_input_record) \<times> pending_queue" where
  "wit_enqueued = Enqueue wit_env (TextMessage RoleUser ''hi'') '' a '' 0 [] wit_queue"

lemma wit_enqueued_ok:
  "fst wit_enqueued = Inr (enqueue_record wit_env (TextMessage RoleUser ''hi'') 0 [] ''a'')"
  by code_simp

lemma wit_queue_ok [simp]: "pq_ok wit_queue"
  by (simp add: wit_queue_def)



section \<open>Acceptance\<close>

text \<open>C6: when Enqueue accepts an input under a source id, the record is in the file that a restart
  will read, and accepting the same source id again, with any other content, lifetime or Turn,
  gives back that very record and changes nothing.\<close>

theorem enqueue_durable_idempotent:
  assumes "pq_ok q" and "trim_space i \<noteq> []" and "Enqueue env msg i ttl turn q = (Inr r, q')"
  shows "(\<exists>rs. q_file q' = FileDocument pendingInputDocumentVersion rs \<and> r \<in> set rs)
    \<and> rec_id r = trim_space i
    \<and> (\<forall>env2 msg2 ttl2 turn2. Enqueue env2 msg2 i ttl2 turn2 q' = (Inr r, q'))"
  using Enqueue_cases[OF assms(3,1,2)] on_disk[of q' "trim_space i" r] assms(2)
  by (simp add: Enqueue_def with_queue_idle)

theorem enqueue_durable_idempotent_witness:
  "let r = enqueue_record wit_env (TextMessage RoleUser ''hi'') 0 [] ''a''; q' = snd wit_enqueued in
   (\<exists>rs. q_file q' = FileDocument pendingInputDocumentVersion rs \<and> r \<in> set rs)
   \<and> Enqueue wit_env (TextMessage RoleUser ''other'') '' a '' 7 ''t1'' q' = (Inr r, q')"
proof -
  have t: "trim_space '' a '' \<noteq> []" by code_simp
  have e: "Enqueue wit_env (TextMessage RoleUser ''hi'') '' a '' 0 [] wit_queue
      = (Inr (enqueue_record wit_env (TextMessage RoleUser ''hi'') 0 [] ''a''), snd wit_enqueued)"
    using wit_enqueued_ok by (cases wit_enqueued) (simp add: wit_enqueued_def)
  from enqueue_durable_idempotent[OF wit_queue_ok t e] show ?thesis unfolding Let_def by blast
qed

section \<open>Restart\<close>

lemma doc_of_inj:
  assumes "shape R ord" and "shape S ord" and "doc_of R ord = doc_of S ord"
  shows "map_of R = map_of S"
proof
  fix i
  have "map_of A i = Some r \<longleftrightarrow> r \<in> set (doc_of A ord) \<and> rec_id r = i" if "shape A ord" for A r
    using set_doc_of[OF that] shape_rec_id[OF that] by auto
  with assms have "map_of R i = Some r \<longleftrightarrow> map_of S i = Some r" for r by simp
  then show "map_of R i = map_of S i" by (cases "map_of S i") (auto simp: option.expand)
qed



section \<open>Completed inputs\<close>

definition disposition_ids :: "event \<Rightarrow> string list" where
  "disposition_ids e = fst (snd (pendingDispositionFromEvent e))"

definition done_with :: "string \<Rightarrow> pending_queue \<Rightarrow> bool" where
  "done_with i q \<longleftrightarrow> i \<in> q_completed q
     \<and> (\<forall>r. map_of (q_records q) i = Some r \<longrightarrow> rec_state r = StSettled)"

lemma terminal_step_other:
  "j \<noteq> i \<Longrightarrow> map_of (q_records (fst (terminal_step d msg kind j qc))) i = map_of (q_records (fst qc)) i"
  by (cases d) (auto simp: terminal_step_def Let_def split: option.splits)

lemma terminal_step_completed [simp]:
  "q_completed (fst (terminal_step d msg kind j qc)) = q_completed (fst qc)"
  by (cases d) (auto simp: terminal_step_def Let_def split: option.splits)

lemma fold_terminal_other:
  "i \<notin> set ids \<Longrightarrow>
   map_of (q_records (fst (fold (terminal_step d msg kind) ids qc))) i = map_of (q_records (fst qc)) i"
  by (induction ids arbitrary: qc) (auto simp: terminal_step_other)

lemma fold_terminal_completed:
  "q_completed (fst (fold (terminal_step d msg kind) ids qc)) = q_completed (fst qc)"
  by (induction ids arbitrary: qc) simp_all

lemma applyTerminalState_other:
  "i \<notin> set ids \<Longrightarrow> map_of (q_records (fst (applyTerminalStateLocked d ids msg kind q))) i
     = map_of (q_records q) i"
  by (simp add: applyTerminalStateLocked_def Let_def case_prod_unfold fold_terminal_other)

lemma applyTerminalState_completed [simp]:
  "q_completed (fst (applyTerminalStateLocked d ids msg kind q)) = q_completed q"
  by (simp add: applyTerminalStateLocked_def Let_def case_prod_unfold fold_terminal_completed)

lemma terminal_step_settles:
  "d = TerminalCompleted \<or> d = TerminalCancelled \<Longrightarrow>
   map_of (q_records (fst (terminal_step d msg kind i qc))) i = Some r \<Longrightarrow> rec_state r = StSettled"
  by (cases "map_of (q_records (fst qc)) i"; elim disjE)
     (auto simp: terminal_step_def Let_def split: if_splits)

lemma fold_terminal_settles:
  assumes "d = TerminalCompleted \<or> d = TerminalCancelled"
  shows "i \<in> set ids \<or> (\<forall>r. map_of (q_records (fst qc)) i = Some r \<longrightarrow> rec_state r = StSettled) \<Longrightarrow>
    map_of (q_records (fst (fold (terminal_step d msg kind) ids qc))) i = Some r \<Longrightarrow>
    rec_state r = StSettled"
proof (induction ids arbitrary: qc)
  case (Cons j ids)
  have "i \<in> set ids
      \<or> (\<forall>r. map_of (q_records (fst (terminal_step d msg kind j qc))) i = Some r \<longrightarrow> rec_state r = StSettled)"
  proof (cases "j = i")
    case True
    then show ?thesis using terminal_step_settles[OF assms] by blast
  next
    case False
    then show ?thesis using Cons.prems(1) by (simp add: terminal_step_other)
  qed
  with Cons.IH Cons.prems(2) show ?case by simp
qed simp

lemma applyTerminalState_settles:
  assumes "d = TerminalCompleted \<or> d = TerminalCancelled" and "i \<in> set ids"
  shows "map_of (q_records (fst (applyTerminalStateLocked d ids msg kind q))) i = Some r \<Longrightarrow>
    rec_state r = StSettled"
  using fold_terminal_settles[OF assms(1), of i ids "(q, False)" msg kind r] assms
  by (auto simp: applyTerminalStateLocked_def Let_def case_prod_unfold split: if_splits)

lemma check_step_done: "done_with i (fst qc) \<Longrightarrow> done_with i (fst (check_step p j qc))"
  by (auto simp: check_step_def done_with_def Let_def split: option.splits)

lemma applyInputCheck_done: "done_with i q \<Longrightarrow> done_with i (fst (applyInputCheckLocked p q))"
  using fold_inv[where P = "\<lambda>s. done_with i (fst s)" and f = "check_step p" and xs = "icp_input_ids p"
      and s = "(q, False)"]
  by (simp add: applyInputCheckLocked_def check_step_done)

lemma replay_event_done_other:
  assumes "done_with i (fst qc)" and "i \<notin> set (disposition_ids e)"
  shows "done_with i (fst (replay_event e qc))"
proof -
  obtain d ids msg kind where p: "pendingDispositionFromEvent e = (d, ids, msg, kind)"
    by (metis prod.exhaust)
  have "done_with i (fst (applyInputCheckLocked c (fst qc)))" for c
    using assms(1) by (rule applyInputCheck_done)
  moreover have "i \<notin> set ids" using assms(2) p by (simp add: disposition_ids_def)
  ultimately show ?thesis using assms(1)
    by (auto simp: replay_event_def Let_def case_prod_unfold p done_with_def applyTerminalState_other
        mark_handled_def mark_completed_def)
qed

lemma replay_event_done_here:
  assumes "pendingDispositionFromEvent e = (TerminalCompleted, ids, msg, kind)" and "i \<in> set ids"
  shows "done_with i (fst (replay_event e qc))"
  using assms applyTerminalState_settles[of TerminalCompleted i ids]
  by (auto simp: replay_event_def Let_def case_prod_unfold done_with_def mark_completed_def)

lemma fold_replay_done:
  assumes "pendingDispositionFromEvent e = (TerminalCompleted, ids, msg, kind)" and "i \<in> set ids"
    and "\<forall>e' \<in> set es2. i \<notin> set (disposition_ids e')"
  shows "done_with i (fst (fold replay_event (es1 @ e # es2) s))"
proof -
  let ?s = "fold replay_event es1 s"
  have "done_with i (fst (fold replay_event es2 (replay_event e ?s)))"
    by (rule fold_inv[where P = "\<lambda>s. done_with i (fst s)"])
       (use assms replay_event_done_here replay_event_done_other in auto)
  then show ?thesis by simp
qed

lemma fill_model_message_state [simp]: "rec_state (fill_model_message env q r) = rec_state r"
  by (simp add: fill_model_message_def split: option.splits)

lemma fill_done: "done_with i q \<Longrightarrow> done_with i (fst (fill_model_messages env q))"
  by (auto simp: done_with_def fill_model_messages_def Let_def map_of_map_snd)

lemma prune_done: "done_with i q \<Longrightarrow> done_with i (fst (pruneInputScopesLocked q))"
  unfolding pruneInputScopesLocked_def
  by (rule fold_inv[where P = "\<lambda>s. done_with i (fst s)"])
     (auto simp: prune_step_def done_with_def Let_def split: option.splits)

lemma persist_Inr_done:
  "persistLocked R ord q = (Inr u, q') \<Longrightarrow> i \<in> q_completed q \<Longrightarrow>
   (\<forall>r. map_of R i = Some r \<longrightarrow> rec_state r = StSettled) \<Longrightarrow> done_with i q'"
  by (simp add: done_with_def persist_Inr persist_frame)

lemma load_finish_done:
  assumes "load_finish env c2 q = (Inr u, q')" and "done_with i q"
  shows "done_with i q'"
proof -
  let ?q = "q\<lparr>q_loaded := True\<rparr>"
  obtain q3 c3 where f: "fill_model_messages env ?q = (q3, c3)" by (rule prod.exhaust)
  obtain q4 c4 where p: "pruneInputScopesLocked q3 = (q4, c4)" by (rule prod.exhaust)
  have "done_with i ?q" using assms(2) by (simp add: done_with_def)
  then have "done_with i q4" using fill_done[of i ?q env] prune_done[of i q3] f p by simp
  then have "done_with i q5" if "persistCurrentLocked q4 = (Inr v, q5)" for v q5
    using that persist_Inr_done[of "q_records q4" "q_order q4" q4 v q5 i]
    by (simp add: persistCurrentLocked_def done_with_def)
  moreover have "done_with i q6 = done_with i q5"
    if "synchronizePendingCountLocked True q5 = (r, q6)" for r q5 q6
    using synchronize_sel[OF that] by (simp add: done_with_def)
  ultimately show ?thesis using assms(1) f p \<open>done_with i q4\<close>
    by (auto simp: load_finish_def elim!: andThen_InrE split: if_splits prod.splits sum.splits)
qed

lemma drop_expired_keeps:
  "drop_expired now j (R, ord, c) = (R', ord', c') \<Longrightarrow> map_of R' i = Some r \<Longrightarrow> map_of R i = Some r"
  by (auto simp: drop_expired_def split: option.splits if_splits)

lemma fold_drop_expired_keeps:
  "fold (drop_expired now) is (R, ord, c) = (R', ord', c') \<Longrightarrow> map_of R' i = Some r \<Longrightarrow>
   map_of R i = Some r"
proof (induction "is" arbitrary: R ord c)
  case (Cons j "is")
  obtain R1 o1 c1 where s: "drop_expired now j (R, ord, c) = (R1, o1, c1)" by (metis prod.exhaust)
  with Cons have "map_of R1 i = Some r" by simp
  with s show ?case by (rule drop_expired_keeps)
qed simp

text \<open>The body of \<^verbatim>\<open>Replayable\<close> after the queue is loaded.\<close>

lemma Replayable_Inr:
  assumes "Replayable env limit q = (Inr out, q')"
  obtains q1 R ord c where "ensureLoadedLocked env q = (Inr (), q1)"
    "fold (drop_expired (nowMillis env)) (q_order q1) (q_records q1, q_order q1, False) = (R, ord, c)"
    "(if c then persistLocked R ord else ret ()) q1 = (Inr (), q')"
    "out = (let xs = filter replay_eligible (records_in_order q') in
            if limit > 0 then take limit xs else xs)"
proof -
  from assms obtain q1 where l: "ensureLoadedLocked env q = (Inr (), q1)"
    by (auto simp: Replayable_def with_queue_def elim!: andThen_InrE)
  obtain R ord c where f: "fold (drop_expired (nowMillis env)) (q_order q1)
      (q_records q1, q_order q1, False) = (R, ord, c)" by (metis prod.exhaust)
  with assms l have "andThen (if c then persistLocked R ord else ret ())
      (\<lambda>_. andThen get_state (\<lambda>q'. let out = filter replay_eligible (records_in_order q')
         in ret (if limit > 0 then take limit out else out))) q1 = (Inr out, q')"
    by (simp add: Replayable_def with_queue_def andThen_def[of "ensureLoadedLocked env"]
        andThen_def[of get_state])
  then show thesis
    by (elim andThen_InrE) (auto simp: andThen_def Let_def intro: that[OF l f])
qed


definition wit_completed_event :: event where
  "wit_completed_event = new_event ''turn.completed'' ''t1''
     (JObj [(''input_ids'', JArr (map JStr [''a'']))])"

definition wit_crashed :: pending_queue where
  "wit_crashed = NewPendingInputQueue False (Some (wit_thread\<lparr>tv_events := [wit_completed_event]\<rparr>))
     (FileDocument 1 [(enqueue_record wit_env (TextMessage RoleUser ''hi'') 0 [] ''a'')
        \<lparr>rec_state := StAdmitted, turn_id := ''t1''\<rparr>,
        enqueue_record wit_env (TextMessage RoleUser ''ho'') 0 [] ''b'']) [] []"


end
