(* ===== verification/PendingQueueOps.thy ===== *)
theory PendingQueueOps
  imports PendingQueueProps
begin

text \<open>
  What single methods of the pending-input queue do: replay in acceptance order, retry and its
  rollback, recovery after a crash, acceptance when storage works, and what a failed write leaves.
\<close>

section \<open>Replay\<close>

definition expired_at :: "instant \<Rightarrow> (string \<times> pending_input_record) list \<Rightarrow> string \<Rightarrow> bool" where
  "expired_at now R i \<longleftrightarrow> (case map_of R i of None \<Rightarrow> False | Some r \<Rightarrow> record_Expired r now)"

lemma fold_drop_expired:
  assumes "distinct is" and "distinct ord"
    and "fold (drop_expired now) is (R, ord, c) = (R', ord', c')"
  shows "map_of R' j = (if j \<in> set is \<and> expired_at now R j then None else map_of R j)"
    and "ord' = filter (\<lambda>j. \<not> (j \<in> set is \<and> expired_at now R j)) ord"
    and "c' = (c \<or> (\<exists>j \<in> set is. expired_at now R j))"
proof -
  have "(\<forall>j. map_of R' j = (if j \<in> set is \<and> expired_at now R j then None else map_of R j))
    \<and> ord' = filter (\<lambda>j. \<not> (j \<in> set is \<and> expired_at now R j)) ord
    \<and> c' = (c \<or> (\<exists>j \<in> set is. expired_at now R j))"
    using assms
  proof (induction "is" arbitrary: R ord c)
    case (Cons i "is")
    obtain R1 o1 c1 where s: "drop_expired now i (R, ord, c) = (R1, o1, c1)" by (metis prod.exhaust)
    have m1: "map_of R1 j = (if j = i \<and> expired_at now R i then None else map_of R j)" for j
      using s by (auto simp: drop_expired_def expired_at_def split: option.splits if_splits)
    have o1: "o1 = filter (\<lambda>j. \<not> (j = i \<and> expired_at now R i)) ord"
      using s Cons.prems(2)
      by (auto simp: drop_expired_def expired_at_def removePendingInputID_def distinct_remove1_removeAll
          removeAll_filter_not_eq intro!: filter_cong split: option.splits if_splits)
    have c1: "c1 = (c \<or> expired_at now R i)"
      using s by (auto simp: drop_expired_def expired_at_def split: option.splits if_splits)
    have e1: "expired_at now R1 j = expired_at now R j" if "j \<noteq> i" for j
      using m1[of j] that by (simp add: expired_at_def)
    have ih: "(\<forall>j. map_of R' j = (if j \<in> set is \<and> expired_at now R1 j then None else map_of R1 j))
      \<and> ord' = filter (\<lambda>j. \<not> (j \<in> set is \<and> expired_at now R1 j)) o1
      \<and> c' = (c1 \<or> (\<exists>j \<in> set is. expired_at now R1 j))"
      using Cons.IH[of o1 R1 c1] Cons.prems s o1 by simp
    have mem: "j \<in> set is \<and> expired_at now R1 j \<longleftrightarrow> j \<in> set is \<and> expired_at now R j" for j
      using Cons.prems(1) e1[of j] by auto
    show ?case
    proof (intro conjI allI)
      fix j
      show "map_of R' j = (if j \<in> set (i # is) \<and> expired_at now R j then None else map_of R j)"
        using ih m1[of j] mem[of j] by auto
    next
      show "ord' = filter (\<lambda>j. \<not> (j \<in> set (i # is) \<and> expired_at now R j)) ord"
        using ih o1 mem by (auto simp: filter_filter intro!: filter_cong)
    next
      show "c' = (c \<or> (\<exists>j \<in> set (i # is). expired_at now R j))"
        using ih c1 mem by auto
    qed
  qed simp
  then show "map_of R' j = (if j \<in> set is \<and> expired_at now R j then None else map_of R j)"
    and "ord' = filter (\<lambda>j. \<not> (j \<in> set is \<and> expired_at now R j)) ord"
    and "c' = (c \<or> (\<exists>j \<in> set is. expired_at now R j))" by blast+
qed

lemma doc_of_filter:
  "doc_of R (filter (\<lambda>j. \<not> expired_at now R j) ord) =
   filter (\<lambda>r. \<not> record_Expired r now) (doc_of R ord)"
  by (induction ord) (auto simp: doc_of_Cons expired_at_def split: option.splits)

lemma doc_of_drop_expired:
  assumes "distinct ord" and "fold (drop_expired now) ord (R, ord, False) = (R', ord', c')"
  shows "doc_of R' ord' = filter (\<lambda>r. \<not> record_Expired r now) (doc_of R ord)"
    and "\<not> c' \<Longrightarrow> filter (\<lambda>r. \<not> record_Expired r now) (doc_of R ord) = doc_of R ord"
proof -
  note f = fold_drop_expired[OF assms(1) assms(1) assms(2)]
  have o: "ord' = filter (\<lambda>j. \<not> expired_at now R j) ord"
    unfolding f(2) by (rule filter_cong) auto
  have "doc_of R' ord' = doc_of R ord'"
    by (rule doc_of_cong) (simp add: f(1) o)
  then show "doc_of R' ord' = filter (\<lambda>r. \<not> record_Expired r now) (doc_of R ord)"
    by (simp add: o doc_of_filter)
  show "filter (\<lambda>r. \<not> record_Expired r now) (doc_of R ord) = doc_of R ord" if "\<not> c'"
  proof -
    have "filter (\<lambda>j. \<not> expired_at now R j) ord = ord" using that f(3) by (auto intro: filter_True)
    then show ?thesis using doc_of_filter[of R now ord] by simp
  qed
qed

text \<open>C12: what Replayable hands out is, in the order of acceptance, every record of the loaded queue
  that has not expired and is in a state to be replayed, cut to the limit when there is one;
  expired records are gone from the queue and the others are still there, in the same order.\<close>

theorem replayable_is_ordered_and_complete:
  assumes "pq_ok q" and "ensureLoadedLocked env q = (Inr (), q1)"
    and "Replayable env limit q = (Inr out, q')"
  shows "(let live = filter (\<lambda>r. \<not> record_Expired r (nowMillis env)) (records_in_order q1);
              all = filter replay_eligible live in
          out = (if limit > 0 then take limit all else all) \<and> records_in_order q' = live)"
  using assms(3)
proof (rule Replayable_Inr)
  fix q2 R ord c
  assume l: "ensureLoadedLocked env q = (Inr (), q2)"
    and f: "fold (drop_expired (nowMillis env)) (q_order q2) (q_records q2, q_order q2, False)
              = (R, ord, c)"
    and p: "(if c then persistLocked R ord else ret ()) q2 = (Inr (), q')"
    and out: "out = (let xs = filter replay_eligible (records_in_order q') in
            if limit > 0 then take limit xs else xs)"
  from l assms(2) have q2: "q2 = q1" by simp
  have d: "distinct (q_order q1)"
    using settles_ensureLoaded(2)[OF assms(1,2)] by (auto dest: pq_ok_shape simp: shape_def)
  have "records_in_order q' = filter (\<lambda>r. \<not> record_Expired r (nowMillis env)) (records_in_order q1)"
    using doc_of_drop_expired[OF d f[unfolded q2]] p q2 persist_Inr(2,3)[of R ord q1 "()" q']
    by (cases c) (simp_all add: records_in_order_doc)
  with out show ?thesis by (simp add: Let_def)
qed

definition wit_rec :: "string \<Rightarrow> pending_input_record" where
  "wit_rec i = enqueue_record wit_env (TextMessage RoleUser ''hi'') 0 [] i"

definition wit_stale :: pending_queue where
  "wit_stale = NewPendingInputQueue False (Some wit_thread)
     (FileDocument 1 [(wit_rec ''a'')\<lparr>expires_at := 4000000\<rparr>, wit_rec ''b'', wit_rec ''c'']) [] []"

theorem replayable_is_ordered_and_complete_witness:
  "fst (Replayable wit_env 1 wit_stale) = Inr [wit_rec ''b'']
   \<and> records_in_order (snd (Replayable wit_env 1 wit_stale)) = [wit_rec ''b'', wit_rec ''c'']"
proof -
  have l: "fst (ensureLoadedLocked wit_env wit_stale) = Inr ()" by code_simp
  have r: "fst (Replayable wit_env 1 wit_stale) = Inr [wit_rec ''b'']" by code_simp
  have e: "filter (\<lambda>r. \<not> record_Expired r (nowMillis wit_env))
      (records_in_order (snd (ensureLoadedLocked wit_env wit_stale))) = [wit_rec ''b'', wit_rec ''c'']"
    by code_simp
  have ok: "pq_ok wit_stale" by (simp add: wit_stale_def)
  show ?thesis
    using replayable_is_ordered_and_complete[OF ok, of wit_env
        "snd (ensureLoadedLocked wit_env wit_stale)" 1 "[wit_rec ''b'']"
        "snd (Replayable wit_env 1 wit_stale)"]
      l r e by (simp add: prod_eq_iff Let_def)
qed

section \<open>Retrying the inputs of a Turn\<close>

definition retried_by :: "string \<Rightarrow> pending_input_record \<Rightarrow> bool" where
  "retried_by turn r \<longleftrightarrow> rec_state r = StRetryable \<and> turn_id r = turn"

lemma fold_retry_turn:
  assumes "distinct is" and "fold (retry_turn_step turn) is (R, rs) = (R', rs')"
  shows "map_of R' j = (if j \<in> set is then map_option
           (\<lambda>r. if retried_by turn r then pending_record r else r) (map_of R j) else map_of R j)"
    and "rs' = rs @ filter (retried_by turn) (doc_of R is)"
proof -
  have "(\<forall>j. map_of R' j = (if j \<in> set is then map_option
           (\<lambda>r. if retried_by turn r then pending_record r else r) (map_of R j) else map_of R j))
    \<and> rs' = rs @ filter (retried_by turn) (doc_of R is)"
    using assms
  proof (induction "is" arbitrary: R rs)
    case (Cons i "is")
    obtain R1 rs1 where s: "retry_turn_step turn i (R, rs) = (R1, rs1)" by (rule prod.exhaust)
    have m1: "map_of R1 j = (if j = i then map_option
        (\<lambda>r. if retried_by turn r then pending_record r else r) (map_of R j) else map_of R j)" for j
      using s by (auto simp: retry_turn_step_def retried_by_def split: option.splits if_splits)
    have r1: "rs1 = rs @ filter (retried_by turn) (doc_of R [i])"
      using s by (auto simp: retry_turn_step_def retried_by_def doc_of_Cons split: option.splits if_splits)
    have "doc_of R1 is = doc_of R is"
      using Cons.prems(1) by (intro doc_of_cong) (auto simp: m1)
    with Cons.IH[of R1 rs1] Cons.prems s m1 r1 show ?case
      by (auto simp: doc_of_Cons split: option.splits)
  qed simp
  then show "map_of R' j = (if j \<in> set is then map_option
           (\<lambda>r. if retried_by turn r then pending_record r else r) (map_of R j) else map_of R j)"
    and "rs' = rs @ filter (retried_by turn) (doc_of R is)" by blast+
qed

lemma restore_all_ok:
  assumes "distinct (map rec_id ps)"
    and "\<And>p. p \<in> set ps \<Longrightarrow> \<exists>c. map_of R (rec_id p) = Some c \<and> rec_state c = StPending \<and> turn_id c = []"
  shows "\<exists>R'. restore_all ps R = Inr R'
    \<and> (\<forall>j. map_of R' j = (case find (\<lambda>p. rec_id p = j) ps of Some p \<Rightarrow> Some p | None \<Rightarrow> map_of R j))"
  using assms
proof (induction ps arbitrary: R)
  case (Cons p ps)
  from Cons.prems(2)[of p] obtain c where c: "map_of R (rec_id p) = Some c" "rec_state c = StPending"
    "turn_id c = []" by auto
  let ?R = "AList.update (rec_id p) p R"
  obtain R' where R': "restore_all ps ?R = Inr R'"
    and m: "\<forall>j. map_of R' j
      = (case find (\<lambda>p. rec_id p = j) ps of Some p \<Rightarrow> Some p | None \<Rightarrow> map_of ?R j)"
    using Cons.IH[of ?R] Cons.prems by (force simp: image_iff)
  have n: "find (\<lambda>r. rec_id r = rec_id p) ps = None"
    using Cons.prems(1) by (auto simp: find_None_iff image_iff)
  have "map_of R' j = (case find (\<lambda>p. rec_id p = j) (p # ps) of Some p \<Rightarrow> Some p
      | None \<Rightarrow> map_of R j)" for j
    using m[rule_format, of j] n by (cases "rec_id p = j") (auto split: option.splits)
  with R' c show ?case by simp
qed simp

lemma persist_calm:
  assumes "q_writes q = []" and "q_counts q = []" and "all_valid R"
  shows "\<exists>q'. persistLocked R ord q = (Inr (), q') \<and> q_writes q' = [] \<and> q_counts q' = []"
  using assms
  by (auto simp: persistLocked_def encode_records_valid writeFile_def Let_def
      synchronizePendingCountLocked_def SetPendingInputCount_def split: option.splits)

lemma find_rec_id:
  assumes "shape R ord"
  shows "find (\<lambda>r. rec_id r = j) (filter P (doc_of R ord))
    = (case map_of R j of None \<Rightarrow> None | Some r \<Rightarrow> if P r then Some r else None)"
proof -
  have in_doc: "r \<in> set (doc_of R ord) \<longleftrightarrow> map_of R (rec_id r) = Some r" for r
    using set_doc_of[OF assms] shape_rec_id[OF assms] by auto
  show ?thesis
  proof (cases "find (\<lambda>r. rec_id r = j) (filter P (doc_of R ord))")
    case None
    have "\<not> P r" if "map_of R j = Some r" for r
      using None that in_doc[of r] shape_rec_id[OF assms that] by (auto simp: find_None_iff)
    with None show ?thesis by (cases "map_of R j") auto
  next
    case (Some r)
    then have "r \<in> set (filter P (doc_of R ord))" and "rec_id r = j"
      by (auto simp: find_Some_iff dest: nth_mem)
    with Some in_doc show ?thesis by auto
  qed
qed

lemma retryTurnInputs_Inr:
  assumes "retryTurnInputs env turn q = (Inr rs, q1)" and "pq_ok q" and "q_loaded q" and "scope_now q"
    and "trim_space turn \<noteq> []"
  shows "rs = filter (retried_by turn) (records_in_order q)" "q_order q1 = q_order q"
    "map_of (q_records q1) j
       = map_option (\<lambda>r. if retried_by turn r then pending_record r else r) (map_of (q_records q) j)"
proof -
  note sh = pq_ok_shape[OF assms(2)]
  obtain R rs' where f: "fold (retry_turn_step turn) (q_order q) (q_records q, []) = (R, rs')"
    by (rule prod.exhaust)
  have d: "distinct (q_order q)" using sh by (simp add: shape_def)
  have m: "map_of R j
       = map_option (\<lambda>r. if retried_by turn r then pending_record r else r) (map_of (q_records q) j)" for j
    using fold_retry_turn(1)[OF d f, of j] shape_in_order[OF sh, of j]
    by (cases "map_of (q_records q) j") auto
  have rs': "rs' = filter (retried_by turn) (records_in_order q)"
    using fold_retry_turn(2)[OF d f] by (simp add: records_in_order_doc)
  show rs: "rs = filter (retried_by turn) (records_in_order q)"
    and "q_order q1 = q_order q"
    using assms f rs' persist_Inr(3)[of R "q_order q" q "()" q1]
    by (auto simp: retryTurnInputs_def ensureLoaded_idle split: if_splits sum.splits prod.splits)
  show "map_of (q_records q1) j
       = map_option (\<lambda>r. if retried_by turn r then pending_record r else r) (map_of (q_records q) j)"
  proof (cases "rs' = []")
    case True
    then have "\<not> retried_by turn r" if "map_of (q_records q) j = Some r" for r
      using that rs' set_doc_of[OF sh] by (auto simp: records_in_order_doc filter_empty_conv)
    moreover have "q1 = q" using assms f True by (simp add: retryTurnInputs_def ensureLoaded_idle)
    ultimately show ?thesis by (cases "map_of (q_records q) j") auto
  next
    case False
    with assms f persist_Inr(2)[of R "q_order q" q "()" q1] m show ?thesis
      by (auto simp: retryTurnInputs_def ensureLoaded_idle split: sum.splits prod.splits)
  qed
qed

lemma retryTurnInputs_calm:
  assumes "retryTurnInputs env turn q = (Inr rs, q1)" and "q_loaded q" and "scope_now q"
    and "trim_space turn \<noteq> []" and "q_writes q = []" and "q_counts q = []"
  shows "q_loaded q1 \<and> scope_now q1 \<and> q_writes q1 = [] \<and> q_counts q1 = []"
proof -
  obtain R rs' where f: "fold (retry_turn_step turn) (q_order q) (q_records q, []) = (R, rs')"
    by (rule prod.exhaust)
  have "q1 = q \<or> persistLocked R (q_order q) q = (Inr (), q1)"
    using assms f
    by (auto simp: retryTurnInputs_def ensureLoaded_idle split: if_splits sum.splits prod.splits)
  moreover have "q_writes q1 = [] \<and> q_counts q1 = []" if "persistLocked R (q_order q) q = (Inr (), q1)"
    using that assms(5,6)
    by (auto simp: persistLocked_def writeFile_def Let_def synchronizePendingCountLocked_def
        SetPendingInputCount_def split: option.splits sum.splits if_splits)
  ultimately show ?thesis
    using assms persist_Inr(1)[of R "q_order q" q "()" q1] scope_now_persist[of R "q_order q" q]
    by auto
qed

text \<open>C14: retrying the interrupted inputs of a Turn and rolling that back puts the queue back as it
  was. While storage works the rollback never fails, and afterwards the queue holds the same
  records in the same order, errors and Turn ids included.\<close>

theorem retry_then_restore:
  assumes "pq_ok q" and "q_loaded q" and "scope_now q" and "q_writes q = []" and "q_counts q = []"
    and "retryTurnInputs env turn q = (Inr rs, q1)"
  shows "\<exists>q2. restoreRetriedInputs env2 rs q1 = (Inr (), q2)
    \<and> records_in_order q2 = records_in_order q \<and> q_order q2 = q_order q"
proof (cases "rs = []")
  case True
  have "q1 = q"
    using assms(2,3,6) True
    by (auto simp: retryTurnInputs_def ensureLoaded_idle split: if_splits prod.splits sum.splits)
  with True show ?thesis by (simp add: restoreRetriedInputs_def)
next
  case False
  with assms(6) have t: "trim_space turn \<noteq> []" by (auto simp: retryTurnInputs_def)
  note sh = pq_ok_shape[OF assms(1)]
  note r = retryTurnInputs_Inr[OF assms(6,1,2,3) t]
  have in_doc: "r \<in> set (records_in_order q) \<Longrightarrow> map_of (q_records q) (rec_id r) = Some r" for r
    using set_doc_of[OF sh] shape_rec_id[OF sh] by (auto simp: records_in_order_doc)
  have "distinct (map rec_id rs)"
    using sh doc_of_ids[OF sh]
    by (simp add: r(1) records_in_order_doc distinct_map_filter shape_def)
  moreover have "\<exists>c. map_of (q_records q1) (rec_id p) = Some c \<and> rec_state c = StPending \<and> turn_id c = []"
    if "p \<in> set rs" for p
    using that in_doc[of p] by (auto simp: r(1,3) pending_record_def)
  ultimately obtain R where R: "restore_all rs (q_records q1) = Inr R"
    and m: "map_of R j = (case find (\<lambda>p. rec_id p = j) rs of Some p \<Rightarrow> Some p
              | None \<Rightarrow> map_of (q_records q1) j)" for j
    using restore_all_ok[of rs "q_records q1"] by auto
  have "map_of R j = map_of (q_records q) j" for j
    using m[of j] r(3)[of j] find_rec_id[OF sh, of j "retried_by turn"]
    by (auto simp: r(1) records_in_order_doc split: option.splits if_splits)
  then have mq: "map_of R = map_of (q_records q)" by blast
  then have "all_valid R" using assms(1,2) by (simp add: all_valid_def pq_ok_def in_sync_def)
  with retryTurnInputs_calm[OF assms(6,2,3) t assms(4,5)] persist_calm[of q1 R "q_order q1"]
  obtain q2 where p: "persistLocked R (q_order q1) q1 = (Inr (), q2)"
    and idle: "q_loaded q1" "scope_now q1" by auto
  have "records_in_order q2 = records_in_order q"
    using persist_Inr(2,3)[OF p] r(2) mq by (simp add: records_in_order_def)
  with p R idle False persist_Inr(3)[OF p] r(2) show ?thesis
    by (simp add: restoreRetriedInputs_def with_queue_idle)
qed

definition wit_interrupted :: pending_input_record where
  "wit_interrupted = (wit_rec ''b'')\<lparr>rec_state := StRetryable, turn_id := ''t1'',
     last_error := ''stopped'', last_error_kind := ''runtime_restart''\<rparr>"

definition wit_loaded :: "pending_queue" where
  "wit_loaded = snd (ensureLoadedLocked wit_env (NewPendingInputQueue False (Some wit_thread)
     (FileDocument 1 [wit_rec ''a'', wit_interrupted]) [] []))"

lemma wit_loaded_ok: "pq_ok wit_loaded"
proof -
  let ?q = "NewPendingInputQueue False (Some wit_thread) (FileDocument 1 [wit_rec ''a'', wit_interrupted]) [] []"
  have "fst (ensureLoadedLocked wit_env ?q) = Inr ()" by code_simp
  then have "ensureLoadedLocked wit_env ?q = (Inr (), wit_loaded)"
    by (simp add: wit_loaded_def prod_eq_iff)
  from settles_ensureLoaded(2)[OF pq_ok_new this] show ?thesis by simp
qed

lemma wit_loaded_idle:
  "q_loaded wit_loaded" "scope_now wit_loaded" "q_writes wit_loaded = []" "q_counts wit_loaded = []"
  by code_simp+

theorem retry_then_restore_witness:
  "\<exists>q1 q2. retryTurnInputs wit_env ''t1'' wit_loaded = (Inr [wit_interrupted], q1)
     \<and> restoreRetriedInputs wit_env [wit_interrupted] q1 = (Inr (), q2)
     \<and> records_in_order q2 = records_in_order wit_loaded"
proof -
  have "fst (retryTurnInputs wit_env ''t1'' wit_loaded) = Inr [wit_interrupted]" by code_simp
  then have r: "retryTurnInputs wit_env ''t1'' wit_loaded
      = (Inr [wit_interrupted], snd (retryTurnInputs wit_env ''t1'' wit_loaded))"
    by (simp add: prod_eq_iff)
  from retry_then_restore[OF wit_loaded_ok wit_loaded_idle r, of wit_env] r show ?thesis by blast
qed

section \<open>Recovery\<close>

lemma fold_reconcile:
  assumes "distinct is" and "fold (reconcile_step env q A T) is (R, c) = (R', c')"
  shows "map_of R' j = (if j \<in> set is
           then map_option (\<lambda>r. fst (reconcile_record env q A T r)) (map_of R j) else map_of R j)"
    and "\<not> c' \<Longrightarrow> j \<in> set is \<Longrightarrow> map_of R j = Some r \<Longrightarrow> \<not> snd (reconcile_record env q A T r)"
proof -
  have "(\<forall>j. map_of R' j = (if j \<in> set is
           then map_option (\<lambda>r. fst (reconcile_record env q A T r)) (map_of R j) else map_of R j))
    \<and> (\<not> c' \<longrightarrow> \<not> c \<and> (\<forall>j \<in> set is. \<forall>r. map_of R j = Some r \<longrightarrow> \<not> snd (reconcile_record env q A T r)))"
    using assms
  proof (induction "is" arbitrary: R c)
    case (Cons i "is")
    obtain R1 c1 where s: "reconcile_step env q A T i (R, c) = (R1, c1)" by (rule prod.exhaust)
    have m1: "map_of R1 j = (if j = i
        then map_option (\<lambda>r. fst (reconcile_record env q A T r)) (map_of R j) else map_of R j)" for j
      using s by (auto simp: reconcile_step_def Let_def case_prod_unfold split: option.splits)
    have c1: "c1 = (c \<or> (\<exists>r. map_of R i = Some r \<and> snd (reconcile_record env q A T r)))"
      using s by (auto simp: reconcile_step_def Let_def case_prod_unfold split: option.splits)
    have d: "i \<notin> set is" "distinct is" using Cons.prems(1) by simp_all
    have f: "fold (reconcile_step env q A T) is (R1, c1) = (R', c')" using Cons.prems(2) s by simp
    have same: "map_of R1 j = map_of R j" if "j \<in> set is" for j using that d(1) by (auto simp: m1)
    from Cons.IH[OF d(2) f] same m1 d(1) c1 show ?case by auto
  qed simp
  then show "map_of R' j = (if j \<in> set is
           then map_option (\<lambda>r. fst (reconcile_record env q A T r)) (map_of R j) else map_of R j)"
    and "\<not> c' \<Longrightarrow> j \<in> set is \<Longrightarrow> map_of R j = Some r \<Longrightarrow> \<not> snd (reconcile_record env q A T r)"
    by blast+
qed

lemma reconcile_state_unchanged: "\<not> snd (reconcile_state A r) \<Longrightarrow> fst (reconcile_state A r) = r"
  unfolding reconcile_state_def
  by (cases "rec_state r = StAccepting"; cases "message_id r \<in> A";
      cases "rec_state r = StAdmitted \<or> rec_state r = StProcessed";
      cases "last_error r = interrupted_text") simp_all

lemma reconcile_state_facts:
  "rec_state (fst (reconcile_state A r)) \<noteq> StAccepting"
  "rec_state r = StAccepting \<Longrightarrow> message_id r \<in> A \<Longrightarrow>
     rec_state (fst (reconcile_state A r)) = StAdmitted
     \<and> turn_id (fst (reconcile_state A r)) = turn_id r"
  "rec_state r = StAccepting \<Longrightarrow> message_id r \<notin> A \<Longrightarrow>
     rec_state (fst (reconcile_state A r)) = StPending
     \<and> origin (fst (reconcile_state A r)) = OriginQueued \<and> turn_id (fst (reconcile_state A r)) = []"
  by (simp_all add: reconcile_state_def)

lemma reconcile_record_fields:
  "rec_state r \<noteq> StDeadLettered \<Longrightarrow> rec_state r \<noteq> StSettled \<Longrightarrow>
     rec_state (fst (reconcile_record env q A T r)) = rec_state (fst (reconcile_state A r))
     \<and> origin (fst (reconcile_record env q A T r)) = origin (fst (reconcile_state A r))
     \<and> turn_id (fst (reconcile_record env q A T r)) = turn_id (fst (reconcile_state A r))"
  by (simp add: reconcile_record_def Let_def case_prod_unfold)

lemma reconcile_record_unchanged:
  "\<not> snd (reconcile_record env q A T r) \<Longrightarrow> fst (reconcile_record env q A T r) = r"
  unfolding reconcile_record_def Let_def case_prod_unfold
  by (cases "rec_state r = StDeadLettered \<or> rec_state r = StSettled";
      cases "message_id r \<in> T \<and> processed_at (fst (reconcile_state A r)) = None")
     (auto simp: reconcile_state_unchanged)

lemma reconcile_record_not_accepting: "rec_state (fst (reconcile_record env q A T r)) \<noteq> StAccepting"
proof (cases "rec_state r = StDeadLettered \<or> rec_state r = StSettled")
  case True
  then show ?thesis by (auto simp: reconcile_record_def)
next
  case False
  then show ?thesis by (simp add: reconcile_record_fields reconcile_state_facts(1))
qed

text \<open>C15: reconciliation after a crash leaves no input half accepted and loses none: every record
  stays in its place, each is reconciled on its own against the facts, and an input whose Turn was
  being accepted is afterwards admitted to that Turn when the Thread has its message, or pending
  and queued without a Turn when it has not.\<close>

theorem reconciliation_resolves_accepting:
  assumes "pq_ok q" and "ensureLoadedLocked env q = (Inr (), q1)"
    and "ReconcileRecoveryFacts env A T q = (Inr (), q')"
  shows "q_order q' = q_order q1
    \<and> map_of (q_records q') i
        = map_option (\<lambda>r. fst (reconcile_record env q1 A T r)) (map_of (q_records q1) i)
    \<and> (\<forall>r. map_of (q_records q') i = Some r \<longrightarrow> rec_state r \<noteq> StAccepting)
    \<and> (\<forall>r. map_of (q_records q1) i = Some r \<and> rec_state r = StAccepting \<longrightarrow>
         (\<exists>r'. map_of (q_records q') i = Some r' \<and>
            (if message_id r \<in> A then rec_state r' = StAdmitted \<and> turn_id r' = turn_id r
             else rec_state r' = StPending \<and> origin r' = OriginQueued \<and> turn_id r' = [])))"
proof -
  have ok: "pq_ok q1" using settles_ensureLoaded(2)[OF assms(1,2)] by simp
  note sh = pq_ok_shape[OF ok]
  obtain R c where f: "fold (reconcile_step env q1 A T) (q_order q1) (q_records q1, False) = (R, c)"
    by (rule prod.exhaust)
  have d: "distinct (q_order q1)" using sh by (simp add: shape_def)
  have m: "map_of R i = map_option (\<lambda>r. fst (reconcile_record env q1 A T r)) (map_of (q_records q1) i)"
    using fold_reconcile(1)[OF d f, of i] shape_in_order[OF sh, of i]
    by (cases "map_of (q_records q1) i") auto
  have p: "(if c then persistLocked R (q_order q1) else ret ()) q1 = (Inr (), q')"
    using assms(2,3) f by (simp add: ReconcileRecoveryFacts_def with_queue_def andThen_def)
  have quiet: "map_of (q_records q1) i
      = map_option (\<lambda>r. fst (reconcile_record env q1 A T r)) (map_of (q_records q1) i)" if "\<not> c"
  proof (cases "map_of (q_records q1) i")
    case (Some r)
    with fold_reconcile(2)[OF d f that shape_in_order[OF sh Some] Some] show ?thesis
      by (simp add: reconcile_record_unchanged)
  qed simp
  have m': "map_of (q_records q') i
      = map_option (\<lambda>r. fst (reconcile_record env q1 A T r)) (map_of (q_records q1) i)"
    and o': "q_order q' = q_order q1"
  proof -
    have "c \<Longrightarrow> q_records q' = R \<and> q_order q' = q_order q1" and "\<not> c \<Longrightarrow> q' = q1"
      using p persist_Inr(2,3)[of R "q_order q1" q1 "()" q'] by simp_all
    with m quiet show "map_of (q_records q') i
      = map_option (\<lambda>r. fst (reconcile_record env q1 A T r)) (map_of (q_records q1) i)"
      and "q_order q' = q_order q1" by (metis, metis)
  qed
  have acc: "rec_state r = StAccepting \<Longrightarrow>
      (if message_id r \<in> A
       then rec_state (fst (reconcile_record env q1 A T r)) = StAdmitted
          \<and> turn_id (fst (reconcile_record env q1 A T r)) = turn_id r
       else rec_state (fst (reconcile_record env q1 A T r)) = StPending
          \<and> origin (fst (reconcile_record env q1 A T r)) = OriginQueued
          \<and> turn_id (fst (reconcile_record env q1 A T r)) = [])" for r
    using reconcile_record_fields[of r env q1 A T] reconcile_state_facts(2,3)[of r A] by simp
  show ?thesis
    using m' o' reconcile_record_not_accepting[of env q1 A T] acc
    by (cases "map_of (q_records q1) i") simp_all
qed

definition wit_half :: pending_queue where
  "wit_half = NewPendingInputQueue False (Some wit_thread)
     (FileDocument 1 [(wit_rec ''a'')\<lparr>rec_state := StAccepting, origin := OriginTurn, turn_id := ''t1''\<rparr>,
        (wit_rec ''b'')\<lparr>rec_state := StAccepting, origin := OriginTurn, turn_id := ''t1''\<rparr>]) [] []"

theorem reconciliation_resolves_accepting_witness:
  "map_option rec_state (map_of (q_records (snd
     (ReconcileRecoveryFacts wit_env {''m-a''} {} wit_half))) ''a'') \<noteq> Some StAccepting
   \<and> q_order (snd (ReconcileRecoveryFacts wit_env {''m-a''} {} wit_half)) = [''a'', ''b'']"
proof -
  have l: "fst (ensureLoadedLocked wit_env wit_half) = Inr ()" by code_simp
  have o: "q_order (snd (ensureLoadedLocked wit_env wit_half)) = [''a'', ''b'']" by code_simp
  have r: "fst (ReconcileRecoveryFacts wit_env {''m-a''} {} wit_half) = Inr ()" by code_simp
  have ok: "pq_ok wit_half" by (simp add: wit_half_def)
  show ?thesis
    using reconciliation_resolves_accepting[OF ok, of wit_env
        "snd (ensureLoadedLocked wit_env wit_half)" "{''m-a''}" "{}"
        "snd (ReconcileRecoveryFacts wit_env {''m-a''} {} wit_half)" "''a''"] l o r
    by (auto simp: prod_eq_iff)
qed

section \<open>Acceptance when storage works, and when it does not\<close>

definition checklist_free :: "pending_queue \<Rightarrow> bool" where
  "checklist_free q \<longleftrightarrow>
     length (filter (\<lambda>(_, e). is_unchecked q e) (q_records q)) < maxTrackedInputs"

definition message_ids_ok :: "pq_env \<Rightarrow> string \<Rightarrow> bool" where
  "message_ids_ok env i \<longleftrightarrow> (let m = env_message_id env (nowMillis env) i in
     trim_space m = m \<and> m \<noteq> [])"

lemma track_fields [simp]:
  "message_id (trackInputLocked q r) = message_id r" "rec_message (trackInputLocked q r) = rec_message r"
  "created_at (trackInputLocked q r) = created_at r" "attempts (trackInputLocked q r) = attempts r"
  "origin (trackInputLocked q r) = origin r" "rec_state (trackInputLocked q r) = rec_state r"
  "turn_id (trackInputLocked q r) = turn_id r" "last_error_kind (trackInputLocked q r) = last_error_kind r"
  by (simp_all add: trackInputLocked_def)

lemma validate_track: "validatePendingInputRecord (trackInputLocked q r) = validatePendingInputRecord r"
  unfolding validatePendingInputRecord_def track_fields track_rec_id by (rule refl)

lemma enqueue_record_valid:
  assumes "msg_role msg = RoleUser" and "nowMillis env \<noteq> 0" and "message_ids_ok env i"
    and "trim_space i = i" and "i \<noteq> []"
  shows "validatePendingInputRecord (enqueue_record env msg ttl turn i) = None"
  using assms
  by (simp add: validatePendingInputRecord_def enqueue_record_def fresh_message_def Let_def
      message_ids_ok_def)

lemma upsert_new:
  assumes "rec_id r \<notin> keys (q_records q)" and "checklist_free q"
  shows "upsertLocked r q
    = persistLocked (AList.update (rec_id r) r (q_records q)) (q_order q @ [rec_id r]) q"
  using assms by (simp add: upsertLocked_def Let_def checklist_free_def is_unchecked_def)

lemma Enqueue_fresh:
  assumes "q_loaded q" and "scope_now q" and "trim_space i \<noteq> []"
    and "trim_space i \<notin> keys (q_records q)" and "trim_space i \<notin> q_completed q \<union> q_handled q"
  shows "Enqueue env msg i ttl turn q
    = store_new (enqueue_record env msg ttl turn (trim_space i)) q"
proof -
  have "map_of (q_records q) (trim_space i) = None" using assms(4) by (simp add: map_of_eq_None)
  with assms show ?thesis by (simp add: Enqueue_def with_queue_idle Let_def)
qed

text \<open>While storage works, a user message under a source id that is neither queued nor known to be
  handled is accepted: Enqueue returns a pending record under that id, which goes to the end of
  the order and of the file, and nothing else of the queue changes.\<close>

theorem enqueue_accepts:
  assumes "pq_ok q" and "q_loaded q" and "scope_now q" and "q_writes q = []" and "q_counts q = []"
    and "checklist_free q" and "msg_role msg = RoleUser" and "nowMillis env \<noteq> 0"
    and "message_ids_ok env (trim_space i)" and "trim_space i \<noteq> []"
    and "trim_space i \<notin> keys (q_records q)" and "trim_space i \<notin> q_completed q \<union> q_handled q"
  shows "\<exists>r q'. Enqueue env msg i ttl turn q = (Inr r, q') \<and> rec_id r = trim_space i
    \<and> rec_state r = StPending \<and> q_order q' = q_order q @ [trim_space i]
    \<and> records_in_order q' = records_in_order q @ [r]
    \<and> q_file q' = FileDocument pendingInputDocumentVersion (records_in_order q @ [r])"
proof -
  let ?i = "trim_space i"
  let ?r = "trackInputLocked q (enqueue_record env msg ttl turn ?i)"
  let ?R = "AList.update ?i ?r (q_records q)"
  have v: "validatePendingInputRecord ?r = None"
    using enqueue_record_valid[OF assms(7-9) trim_space_idem assms(10)] by (simp add: validate_track)
  then have "all_valid ?R" using assms(1,2) by (simp add: all_valid_def pq_ok_def in_sync_def)
  from persist_calm[OF assms(4,5) this] obtain q' where
    p: "persistLocked ?R (q_order q @ [?i]) q = (Inr (), q')" by blast
  have e: "Enqueue env msg i ttl turn q = (Inr ?r, q')"
    using p assms(6,11) Enqueue_fresh[OF assms(2,3,10,11,12)]
    by (simp add: store_new_def Let_def andThen_def upsert_new)
  have "?i \<notin> set (q_order q)" using assms(1,11) by (auto dest: pq_ok_shape simp: shape_def)
  then have "doc_of ?R (q_order q @ [?i]) = records_in_order q @ [?r]"
    by (simp add: doc_of_append doc_of_Cons doc_of_fresh records_in_order_doc)
  with persist_Inr[OF p] e show ?thesis
    by (simp add: records_in_order_doc enqueue_record_def Let_def)
qed

theorem enqueue_accepts_witness:
  "\<exists>r q'. Enqueue wit_env (TextMessage RoleUser ''new'') ''c'' 0 [] wit_loaded = (Inr r, q')
     \<and> records_in_order q' = records_in_order wit_loaded @ [r]"
proof -
  have t: "trim_space ''c'' = ''c''" by code_simp
  have f: "checklist_free wit_loaded" by code_simp
  have u: "msg_role (TextMessage RoleUser ''new'') = RoleUser" "nowMillis wit_env \<noteq> 0"
    "message_ids_ok wit_env (trim_space ''c'')" "trim_space ''c'' \<noteq> []"
    "trim_space ''c'' \<notin> keys (q_records wit_loaded)" by code_simp+
  have h: "trim_space ''c'' \<notin> q_completed wit_loaded \<union> q_handled wit_loaded" by code_simp
  from enqueue_accepts[OF wit_loaded_ok wit_loaded_idle f u h, of 0 "[]"] show ?thesis by blast
qed

text \<open>When the write of a new input fails, the caller gets the error, the file holds what it held
  before or that plus the new record at the end (never anything else), and the queue is marked
  unloaded, so that the next call starts from what is really on disk.\<close>

theorem enqueue_write_failure:
  assumes "pq_ok q" and "q_loaded q" and "scope_now q" and "trim_space i \<noteq> []"
    and "trim_space i \<notin> keys (q_records q)" and "trim_space i \<notin> q_completed q \<union> q_handled q"
    and "Enqueue env msg i ttl turn q = (Inl ErrWrite, q')"
  shows "\<not> q_loaded q' \<and> (q_file q' = q_file q
    \<or> (\<exists>r. rec_id r = trim_space i
         \<and> q_file q' = FileDocument pendingInputDocumentVersion (records_in_order q @ [r])))"
proof -
  let ?i = "trim_space i"
  let ?r = "trackInputLocked q (enqueue_record env msg ttl turn ?i)"
  let ?R = "AList.update ?i ?r (q_records q)"
  have "andThen (upsertLocked ?r) (\<lambda>_. ret ?r) q = (Inl ErrWrite, q')"
    using assms(7) Enqueue_fresh[OF assms(2-6)] by (simp add: store_new_def Let_def)
  then have "upsertLocked ?r q = (Inl ErrWrite, q')"
    by (auto simp: andThen_def split: prod.splits sum.splits)
  then have p: "persistLocked ?R (q_order q @ [?i]) q = (Inl ErrWrite, q')"
    using assms(5) by (auto simp: upsertLocked_def Let_def split: if_splits)
  have "?i \<notin> set (q_order q)" using assms(1,5) by (auto dest: pq_ok_shape simp: shape_def)
  then have "doc_of ?R (q_order q @ [?i]) = records_in_order q @ [?r]"
    by (simp add: doc_of_append doc_of_Cons doc_of_fresh records_in_order_doc)
  with persist_failed[OF p] show ?thesis by (auto intro: exI[of _ ?r])
qed

theorem enqueue_write_failure_witness:
  "let q = wit_loaded\<lparr>q_writes := [WriteFailed True]\<rparr>;
       out = Enqueue wit_env (TextMessage RoleUser ''new'') ''c'' 0 [] q in
   fst out = Inl ErrWrite \<and> \<not> q_loaded (snd out)"
proof -
  let ?q = "wit_loaded\<lparr>q_writes := [WriteFailed True]\<rparr>"
  let ?out = "Enqueue wit_env (TextMessage RoleUser ''new'') ''c'' 0 [] ?q"
  have ok: "pq_ok ?q" using wit_loaded_ok pq_ok_core[of ?q wit_loaded] by (simp add: core_def)
  have u: "q_loaded ?q" "scope_now ?q" "trim_space ''c'' \<noteq> []"
    "trim_space ''c'' \<notin> keys (q_records ?q)" "trim_space ''c'' \<notin> q_completed ?q \<union> q_handled ?q"
    by code_simp+
  have "fst ?out = Inl ErrWrite" by code_simp
  then have "?out = (Inl ErrWrite, snd ?out)" by (simp add: prod_eq_iff)
  from enqueue_write_failure[OF ok u this] \<open>fst ?out = Inl ErrWrite\<close> show ?thesis
    by (simp add: Let_def)
qed

section \<open>A retried input and the terminal fact of its old Turn\<close>

definition wit_errored :: event where
  "wit_errored = new_event ''turn.errored'' ''t1'' (JObj [(''input_ids'', JArr (map JStr [''b''])),
     (''error'', JStr ''stopped''), (''error_kind'', JStr ''runtime_restart'')])"

definition wit_interrupted_queue :: pending_queue where
  "wit_interrupted_queue = NewPendingInputQueue False (Some (wit_thread\<lparr>tv_events := [wit_errored]\<rparr>))
     (FileDocument 1 [wit_interrupted]) [] []"

definition wit_after_retry :: "(pending_input_record list \<times> pq_error + pending_input_record list)
    \<times> pending_queue" where
  "wit_after_retry = retryTurnInputs wit_env ''t1'' wit_interrupted_queue"

definition wit_reopened :: pending_queue where
  "wit_reopened = NewPendingInputQueue False (q_thread (snd wit_after_retry))
     (q_file (snd wit_after_retry)) [] []"


end
