(* ===== verification/ModelHealth.thy ===== *)
theory ModelHealth
  imports Prelude "HOL-Library.Word"
begin

text \<open>
  The circuit breaker over a chain of models, \<^verbatim>\<open>internal/framework/modelhealth/model_health.go\<close>.
  \<^verbatim>\<open>Acquire\<close> picks the first model of the chain that may be tried and hands out a ticket;
  \<^verbatim>\<open>Complete\<close> reports how the attempt ended. Generations and probe tokens are \<^verbatim>\<open>uint64\<close> counters
  and are kept at that width. The clock reading of each call is an argument.
\<close>

section \<open>Data\<close>

datatype model_health_outcome =
  ModelHealthSuccess | ModelHealthEligibleFailure | ModelHealthNeutral | OutcomeOther

record model_attempt_ticket =
  tk_ref :: string
  tk_probe :: bool
  tk_generation :: "64 word"
  tk_token :: "64 word"

record model_health_skip =
  sk_ref :: string
  sk_reason :: string
  sk_remaining :: int

record model_selection =
  sel_index :: int
  sel_ticket :: model_attempt_ticket
  sel_skipped :: "model_health_skip list"

record model_health_transition =
  tr_applied :: bool
  tr_stale :: bool
  tr_cooldown :: int
  tr_until :: instant

record model_health_state =
  ms_generation :: "64 word"
  ms_failures :: int
  ms_until :: instant
  ms_reason :: string
  ms_probing :: bool
  ms_token :: "64 word"

record model_health =
  mh_states :: "(string \<times> model_health_state) list"
  mh_next :: "64 word"

definition modelHealthCooldowns :: "int list" where
  "modelHealthCooldowns =
     [30 * 1000000000, 60 * 1000000000, 2 * 60 * 1000000000, 5 * 60 * 1000000000]"

definition zero_ticket :: model_attempt_ticket where
  "zero_ticket = \<lparr>tk_ref = [], tk_probe = False, tk_generation = 0, tk_token = 0\<rparr>"

definition zero_state :: model_health_state where
  "zero_state = \<lparr>ms_generation = 0, ms_failures = 0, ms_until = 0, ms_reason = [],
     ms_probing = False, ms_token = 0\<rparr>"

definition zero_transition :: model_health_transition where
  "zero_transition = \<lparr>tr_applied = False, tr_stale = False, tr_cooldown = 0, tr_until = 0\<rparr>"

definition NewModelHealth :: model_health where
  "NewModelHealth = \<lparr>mh_states = [], mh_next = 0\<rparr>"

section \<open>Operations\<close>

text \<open>The loop of \<^verbatim>\<open>Acquire\<close> from position \<open>index\<close> on, with the skips collected so far.\<close>

fun acquire_loop ::
  "instant \<Rightarrow> string set \<Rightarrow> nat \<Rightarrow> string list \<Rightarrow> model_health_skip list \<Rightarrow> model_health \<Rightarrow>
   (model_selection \<times> bool) \<times> model_health" where
  "acquire_loop now attempted index [] skipped h =
     ((\<lparr>sel_index = -1, sel_ticket = zero_ticket, sel_skipped = skipped\<rparr>, False), h)"
| "acquire_loop now attempted index (ref # chain) skipped h =
     (if ref = [] \<or> ref \<in> attempted
      then acquire_loop now attempted (Suc index) chain skipped h
      else case map_of (mh_states h) ref of
        None \<Rightarrow>
          ((\<lparr>sel_index = int index,
             sel_ticket = \<lparr>tk_ref = ref, tk_probe = False, tk_generation = 0, tk_token = 0\<rparr>,
             sel_skipped = skipped\<rparr>, True), h)
      | Some st \<Rightarrow>
          (if ms_failures st = 0 then
             ((\<lparr>sel_index = int index, sel_ticket = \<lparr>tk_ref = ref, tk_probe = False,
                  tk_generation = ms_generation st, tk_token = 0\<rparr>, sel_skipped = skipped\<rparr>, True), h)
           else if now < ms_until st then
             acquire_loop now attempted (Suc index) chain
               (skipped @ [\<lparr>sk_ref = ref, sk_reason = ms_reason st,
                            sk_remaining = ms_until st - now\<rparr>]) h
           else if ms_probing st then
             acquire_loop now attempted (Suc index) chain
               (skipped @ [\<lparr>sk_ref = ref, sk_reason = ''probe_in_flight'', sk_remaining = 0\<rparr>]) h
           else
             (let token = mh_next h + 1;
                  st' = st\<lparr>ms_probing := True, ms_token := token\<rparr>
              in ((\<lparr>sel_index = int index, sel_ticket = \<lparr>tk_ref = ref, tk_probe = True,
                      tk_generation = ms_generation st, tk_token = token\<rparr>, sel_skipped = skipped\<rparr>, True),
                  h\<lparr>mh_next := token, mh_states := AList.update ref st' (mh_states h)\<rparr>))))"

definition Acquire ::
  "instant \<Rightarrow> string list \<Rightarrow> string set \<Rightarrow> model_health \<Rightarrow> (model_selection \<times> bool) \<times> model_health" where
  "Acquire now chain attempted h = acquire_loop now attempted 0 chain [] h"

definition is_stale :: "model_attempt_ticket \<Rightarrow> model_health_state \<Rightarrow> bool" where
  "is_stale t st \<longleftrightarrow> ms_generation st \<noteq> tk_generation t
     \<or> (tk_probe t \<and> (\<not> ms_probing st \<or> ms_token st \<noteq> tk_token t))"

definition failed_state :: "instant \<Rightarrow> string \<Rightarrow> model_health_state \<Rightarrow> model_health_state \<times> int" where
  "failed_state now reason st =
     (let failures = ms_failures st + 1;
          cooldown = modelHealthCooldowns ! nat (min (failures - 1)
                       (int (length modelHealthCooldowns) - 1))
      in (\<lparr>ms_generation = ms_generation st + 1, ms_failures = failures, ms_until = now + cooldown,
           ms_reason = reason, ms_probing = False, ms_token = 0\<rparr>, cooldown))"

definition Complete ::
  "instant \<Rightarrow> model_attempt_ticket \<Rightarrow> model_health_outcome \<Rightarrow> string \<Rightarrow> model_health \<Rightarrow>
   model_health_transition \<times> model_health" where
  "Complete now t outcome reason h =
     (if tk_ref t = [] then (zero_transition, h)
      else
        (let st = (case map_of (mh_states h) (tk_ref t) of None \<Rightarrow> zero_state | Some s \<Rightarrow> s);
             put = (\<lambda>s. h\<lparr>mh_states := AList.update (tk_ref t) s (mh_states h)\<rparr>)
         in if is_stale t st then (zero_transition\<lparr>tr_stale := True\<rparr>, put st)
            else case outcome of
              ModelHealthNeutral \<Rightarrow>
                (zero_transition\<lparr>tr_applied := True\<rparr>,
                 put (if tk_probe t then st\<lparr>ms_probing := False, ms_token := 0\<rparr> else st))
            | ModelHealthSuccess \<Rightarrow>
                (zero_transition\<lparr>tr_applied := True\<rparr>,
                 put (st\<lparr>ms_generation := ms_generation st + 1, ms_failures := 0, ms_until := 0,
                         ms_reason := [], ms_probing := False, ms_token := 0\<rparr>))
            | ModelHealthEligibleFailure \<Rightarrow>
                (let (st', cooldown) = failed_state now reason st
                 in (zero_transition\<lparr>tr_applied := True, tr_cooldown := cooldown,
                       tr_until := ms_until st'\<rparr>, put st'))
            | OutcomeOther \<Rightarrow> (zero_transition, put st)))"

section \<open>The state a model is in\<close>

definition state_of :: "model_health \<Rightarrow> string \<Rightarrow> model_health_state" where
  "state_of h ref = (case map_of (mh_states h) ref of None \<Rightarrow> zero_state | Some s \<Rightarrow> s)"

definition available :: "instant \<Rightarrow> model_health_state \<Rightarrow> bool" where
  "available now st \<longleftrightarrow> ms_failures st = 0 \<or> (ms_until st \<le> now \<and> \<not> ms_probing st)"

definition candidate :: "string set \<Rightarrow> string \<Rightarrow> bool" where
  "candidate attempted ref \<longleftrightarrow> ref \<noteq> [] \<and> ref \<notin> attempted"

definition skip_of :: "instant \<Rightarrow> string \<Rightarrow> model_health_state \<Rightarrow> model_health_skip" where
  "skip_of now ref st = (if now < ms_until st
     then \<lparr>sk_ref = ref, sk_reason = ms_reason st, sk_remaining = ms_until st - now\<rparr>
     else \<lparr>sk_ref = ref, sk_reason = ''probe_in_flight'', sk_remaining = 0\<rparr>)"

definition skips :: "instant \<Rightarrow> string set \<Rightarrow> model_health \<Rightarrow> string list \<Rightarrow> model_health_skip list" where
  "skips now attempted h chain =
     map (\<lambda>ref. skip_of now ref (state_of h ref)) (filter (candidate attempted) chain)"

lemma skips_simps [simp]:
  "skips now attempted h [] = []"
  "skips now attempted h (ref # chain) =
     (if candidate attempted ref then skip_of now ref (state_of h ref) # skips now attempted h chain
      else skips now attempted h chain)"
  by (simp_all add: skips_def)

definition pickable :: "instant \<Rightarrow> string set \<Rightarrow> model_health \<Rightarrow> string \<Rightarrow> bool" where
  "pickable now attempted h ref \<longleftrightarrow> candidate attempted ref \<and> available now (state_of h ref)"

lemma zero_state_available [simp]: "available now zero_state"
  by (simp add: available_def zero_state_def)

lemma zero_state_sel [simp]:
  "ms_failures zero_state = 0" "ms_generation zero_state = 0" "ms_probing zero_state = False"
  by (simp_all add: zero_state_def)

text \<open>The ticket and the state change for the chosen model.\<close>

definition issue :: "string \<Rightarrow> model_health \<Rightarrow> model_attempt_ticket \<times> model_health" where
  "issue ref h = (let st = state_of h ref; token = mh_next h + 1 in
     if ms_failures st = 0
     then (\<lparr>tk_ref = ref, tk_probe = False, tk_generation = ms_generation st, tk_token = 0\<rparr>, h)
     else (\<lparr>tk_ref = ref, tk_probe = True, tk_generation = ms_generation st, tk_token = token\<rparr>,
           h\<lparr>mh_next := token, mh_states := AList.update ref
               (st\<lparr>ms_probing := True, ms_token := token\<rparr>) (mh_states h)\<rparr>))"

lemma acquire_loop_None:
  assumes "\<forall>ref \<in> set chain. \<not> pickable now attempted h ref"
  shows "acquire_loop now attempted k chain sk h =
    ((\<lparr>sel_index = -1, sel_ticket = zero_ticket, sel_skipped = sk @ skips now attempted h chain\<rparr>, False), h)"
  using assms
  by (induction chain arbitrary: k sk)
     (auto simp: pickable_def candidate_def available_def state_of_def skip_of_def split: option.splits)

lemma acquire_loop_Some:
  assumes "\<forall>ref \<in> set pre. \<not> pickable now attempted h ref" and "pickable now attempted h ref"
  shows "acquire_loop now attempted k (pre @ ref # post) sk h =
    ((\<lparr>sel_index = int (k + length pre), sel_ticket = fst (issue ref h),
       sel_skipped = sk @ skips now attempted h pre\<rparr>, True), snd (issue ref h))"
  using assms
proof (induction pre arbitrary: k sk)
  case Nil
  then show ?case
    by (auto simp: pickable_def candidate_def available_def state_of_def issue_def Let_def
        split: option.splits)
next
  case (Cons r pre)
  then show ?case
    by (auto simp: pickable_def candidate_def available_def state_of_def skip_of_def
        split: option.splits)
qed

section \<open>Choosing a model\<close>

text \<open>C24: Acquire chooses the first model of the chain that is named, not yet attempted, and either
  healthy or past its cooldown with no probe in flight. Every candidate before it is reported as
  skipped, in order, with the cooldown that is left or the probe as the reason; when there is no
  such model it chooses none, reports all candidates and changes nothing. A model that has
  failures is only ever handed out as a probe.\<close>

theorem acquire_picks_first_available:
  "Acquire now chain attempted h =
     (let pre = takeWhile (\<lambda>ref. \<not> pickable now attempted h ref) chain in
      case drop (length pre) chain of
        [] \<Rightarrow> ((\<lparr>sel_index = -1, sel_ticket = zero_ticket,
                 sel_skipped = skips now attempted h chain\<rparr>, False), h)
      | ref # _ \<Rightarrow> ((\<lparr>sel_index = int (length pre), sel_ticket = fst (issue ref h),
                 sel_skipped = skips now attempted h pre\<rparr>, True), snd (issue ref h)))"
proof -
  let ?P = "\<lambda>ref. \<not> pickable now attempted h ref"
  let ?pre = "takeWhile ?P chain"
  have pre: "\<forall>ref \<in> set ?pre. ?P ref" by (auto dest: set_takeWhileD)
  have split: "chain = ?pre @ dropWhile ?P chain" by simp
  have d: "drop (length ?pre) chain = dropWhile ?P chain" by (rule dropWhile_eq_drop[symmetric])
  show ?thesis
  proof (cases "dropWhile ?P chain")
    case Nil
    then have "\<forall>ref \<in> set chain. ?P ref" by (simp add: dropWhile_eq_Nil_conv)
    moreover have "drop (length ?pre) chain = []" using d unfolding Nil .
    ultimately show ?thesis
      unfolding Let_def by (simp only:) (simp add: Acquire_def acquire_loop_None)
  next
    case (Cons ref post)
    then have "pickable now attempted h ref"
      using hd_dropWhile[of ?P chain] by simp
    from acquire_loop_Some[OF pre this, of 0 post "[]"] split Cons d show ?thesis
      by (simp add: Acquire_def Let_def)
  qed
qed

section \<open>Tickets\<close>

lemma update_same: "map_of m k = Some v \<Longrightarrow> AList.update k v m = m"
  by (induction m) auto

lemma word_succ_neq: "(g :: 64 word) + 1 \<noteq> g"
  by simp


definition wit_ticket :: "string \<Rightarrow> model_attempt_ticket" where
  "wit_ticket ref = \<lparr>tk_ref = ref, tk_probe = False, tk_generation = 0, tk_token = 0\<rparr>"


text \<open>C26: an applied failure sets the cooldown its position in the row of failures calls for (30 seconds,
  one, two, and from the fourth on five minutes); until it has run out Acquire never hands the
  model out.\<close>

theorem failed_model_cools_down:
  assumes "Complete now t ModelHealthEligibleFailure reason h = (tr, h')" and "tr_applied tr"
    and "0 \<le> ms_failures (state_of h (tk_ref t))"
  shows "tr_cooldown tr = modelHealthCooldowns ! nat (min (ms_failures (state_of h (tk_ref t))) 3)
    \<and> 30 * 1000000000 \<le> tr_cooldown tr \<and> tr_cooldown tr \<le> 300 * 1000000000
    \<and> tr_until tr = now + tr_cooldown tr
    \<and> (\<forall>now' chain attempted sel h''. now' < tr_until tr \<longrightarrow>
         Acquire now' chain attempted h' = ((sel, True), h'') \<longrightarrow> tk_ref (sel_ticket sel) \<noteq> tk_ref t)"
proof -
  let ?st = "state_of h (tk_ref t)"
  let ?c = "modelHealthCooldowns ! nat (min (ms_failures ?st) 3)"
  have ref: "tk_ref t \<noteq> []" and fresh: "\<not> is_stale t ?st"
    using assms(1,2)
    by (auto simp: Complete_def state_of_def Let_def zero_transition_def split: if_splits)
  have len: "length modelHealthCooldowns = 4" by (simp add: modelHealthCooldowns_def)
  have tr: "tr_cooldown tr = ?c" "tr_until tr = now + ?c"
    and h': "state_of h' (tk_ref t) = fst (failed_state now reason ?st)"
    using assms(1) ref fresh
    by (auto simp: Complete_def state_of_def failed_state_def Let_def len split: if_splits)
  have st': "ms_failures (state_of h' (tk_ref t)) > 0" "ms_until (state_of h' (tk_ref t)) = now + ?c"
    using h' assms(3) by (simp_all add: failed_state_def Let_def len)
  have "nat (min (ms_failures ?st) 3) \<in> {0, 1, 2, 3}" using assms(3) by auto
  then have b: "30 * 1000000000 \<le> ?c \<and> ?c \<le> 300 * 1000000000"
    by (auto simp: modelHealthCooldowns_def)
  have off: "tk_ref (sel_ticket sel) \<noteq> tk_ref t"
    if lt: "now' < tr_until tr" and a: "Acquire now' chain attempted h' = ((sel, True), h'')"
    for now' chain attempted sel h''
  proof -
    let ?P = "\<lambda>ref. \<not> pickable now' attempted h' ref"
    have np: "?P (tk_ref t)"
      using st' lt tr(2) by (simp add: pickable_def available_def)
    show ?thesis
    proof (cases "dropWhile ?P chain")
      case Nil
      then have "\<forall>ref \<in> set chain. ?P ref" by (simp add: dropWhile_eq_Nil_conv)
      with a show ?thesis by (simp add: Acquire_def acquire_loop_None)
    next
      case (Cons ref post)
      then have p: "pickable now' attempted h' ref" using hd_dropWhile[of ?P chain] by simp
      have "chain = takeWhile ?P chain @ ref # post" using Cons takeWhile_dropWhile_id[of ?P chain] by simp
      moreover have "\<forall>r \<in> set (takeWhile ?P chain). ?P r" by (auto dest: set_takeWhileD)
      ultimately have "sel_ticket sel = fst (issue ref h')"
        using a acquire_loop_Some[OF _ p, of "takeWhile ?P chain" 0 post "[]"]
        by (auto simp: Acquire_def)
      then have "tk_ref (sel_ticket sel) = ref" by (simp add: issue_def Let_def)
      with p np show ?thesis by auto
    qed
  qed
  show ?thesis by (intro conjI allI impI) (use tr b off in simp_all)
qed

theorem failed_model_cools_down_witness:
  "let out = Complete 7 (wit_ticket ''m'') ModelHealthEligibleFailure ''overloaded'' NewModelHealth in
   tr_cooldown (fst out) = 30 * 1000000000
   \<and> (\<forall>sel h''. Acquire 8 [''m'', ''n''] {} (snd out) = ((sel, True), h'') \<longrightarrow> tk_ref (sel_ticket sel) \<noteq> ''m'')"
proof -
  let ?out = "Complete 7 (wit_ticket ''m'') ModelHealthEligibleFailure ''overloaded'' NewModelHealth"
  have o: "?out = (fst ?out, snd ?out)" by simp
  have a: "tr_applied (fst ?out)" by code_simp
  have z: "0 \<le> ms_failures (state_of NewModelHealth (tk_ref (wit_ticket ''m'')))" by code_simp
  have r: "tk_ref (wit_ticket ''m'') = ''m''" by (simp add: wit_ticket_def)
  have u: "8 < tr_until (fst ?out)" "tr_cooldown (fst ?out) = 30 * 1000000000" by code_simp+
  have "tk_ref (sel_ticket sel) \<noteq> tk_ref (wit_ticket ''m'')"
    if "Acquire 8 [''m'', ''n''] {} (snd ?out) = ((sel, True), h'')" for sel h''
    using failed_model_cools_down[OF o a z] u(1) that by blast
  with u r show ?thesis unfolding Let_def r by blast
qed

section \<open>One probe at a time\<close>

text \<open>
  The breaker together with every ticket it has handed out. Holders may report a ticket at any time,
  in any order and more than once. The counters are 64 bits wide; a step that would wrap one around
  is not taken, which no process can reach.
\<close>

type_synonym health_world = "model_health \<times> model_attempt_ticket list"

datatype health_label =
  LAcquire instant "string list" "string set"
  | LComplete instant model_attempt_ticket model_health_outcome string

inductive health_step :: "health_world \<Rightarrow> health_label \<Rightarrow> health_world \<Rightarrow> bool" where
  taken: "Acquire now chain attempted h = ((sel, True), h') \<Longrightarrow> mh_next h \<noteq> -1 \<Longrightarrow>
    health_step (h, issued) (LAcquire now chain attempted) (h', sel_ticket sel # issued)"
| none: "Acquire now chain attempted h = ((sel, False), h') \<Longrightarrow>
    health_step (h, issued) (LAcquire now chain attempted) (h', issued)"
| complete: "t \<in> set issued \<Longrightarrow> ms_generation (state_of h (tk_ref t)) \<noteq> -1 \<Longrightarrow>
    Complete now t outcome reason h = (tr, h') \<Longrightarrow>
    health_step (h, issued) (LComplete now t outcome reason) (h', issued)"

definition health_init :: "health_world \<Rightarrow> bool" where
  "health_init w \<longleftrightarrow> w = (NewModelHealth, [])"

definition state_ok :: "64 word \<Rightarrow> model_health_state \<Rightarrow> bool" where
  "state_ok next st \<longleftrightarrow> 0 \<le> ms_failures st \<and> (ms_probing st \<longrightarrow> 0 < ms_failures st)
     \<and> ms_token st \<le> next"

definition ticket_ok :: "model_health \<Rightarrow> model_attempt_ticket \<Rightarrow> bool" where
  "ticket_ok h t \<longleftrightarrow> tk_ref t \<noteq> [] \<and> tk_generation t \<le> ms_generation (state_of h (tk_ref t))
     \<and> (tk_probe t \<longrightarrow> tk_token t \<le> mh_next h)
     \<and> (tk_generation t = ms_generation (state_of h (tk_ref t)) \<and> \<not> tk_probe t \<longrightarrow>
          ms_failures (state_of h (tk_ref t)) = 0)"

definition probe_tokens :: "model_attempt_ticket list \<Rightarrow> (64 word) list" where
  "probe_tokens issued = map tk_token (filter tk_probe issued)"

definition health_ok :: "health_world \<Rightarrow> bool" where
  "health_ok w \<longleftrightarrow> (case w of (h, issued) \<Rightarrow>
     (\<forall>ref. state_ok (mh_next h) (state_of h ref)) \<and> (\<forall>t \<in> set issued. ticket_ok h t)
     \<and> distinct (probe_tokens issued))"

lemma word_succ_less:
  assumes "(x :: 64 word) \<noteq> -1"
  shows "x < x + 1" and "y \<le> x \<Longrightarrow> y < x + 1"
proof -
  have "1 + x \<noteq> 0" using assms by (metis add.inverse_unique)
  then have s: "unat (x + 1) = Suc (unat x)" using unatSuc[of x] by (simp add: add.commute)
  then show "x < x + 1" by (simp add: word_less_nat_alt)
  show "y \<le> x \<Longrightarrow> y < x + 1" using s by (simp add: word_less_nat_alt word_le_nat_alt)
qed

lemma Acquire_True:
  assumes "Acquire now chain attempted h = ((sel, True), h')"
  obtains ref where "pickable now attempted h ref" "sel_ticket sel = fst (issue ref h)"
    "h' = snd (issue ref h)"
proof -
  let ?P = "\<lambda>ref. \<not> pickable now attempted h ref"
  show thesis
  proof (cases "dropWhile ?P chain")
    case Nil
    then have "\<forall>ref \<in> set chain. ?P ref" by (simp add: dropWhile_eq_Nil_conv)
    with assms show thesis by (simp add: Acquire_def acquire_loop_None)
  next
    case (Cons ref post)
    then have p: "pickable now attempted h ref" using hd_dropWhile[of ?P chain] by simp
    have "chain = takeWhile ?P chain @ ref # post" using Cons takeWhile_dropWhile_id[of ?P chain] by simp
    moreover have "\<forall>r \<in> set (takeWhile ?P chain). ?P r" by (auto dest: set_takeWhileD)
    ultimately show thesis
      using assms acquire_loop_Some[OF _ p, of "takeWhile ?P chain" 0 post "[]"] that[OF p]
      by (auto simp: Acquire_def)
  qed
qed

lemma Acquire_False:
  assumes "Acquire now chain attempted h = ((sel, False), h')"
  shows "h' = h"
proof -
  have "acquire_loop now attempted k chain sk h = ((sel, False), h') \<Longrightarrow> h' = h" for k sk
    by (induction chain arbitrary: k sk) (auto simp: Let_def split: if_splits option.splits)
  with assms show ?thesis by (simp add: Acquire_def)
qed

lemma issue_ok:
  assumes "health_ok (h, issued)" and "pickable now attempted h ref" and "mh_next h \<noteq> -1"
  shows "health_ok (snd (issue ref h), fst (issue ref h) # issued)"
proof (cases "ms_failures (state_of h ref) = 0")
  case True
  with assms(1,2) show ?thesis
    by (simp add: health_ok_def issue_def ticket_ok_def probe_tokens_def pickable_def candidate_def)
next
  case False
  let ?n = "mh_next h + 1"
  let ?st = "(state_of h ref)\<lparr>ms_probing := True, ms_token := ?n\<rparr>"
  let ?h = "h\<lparr>mh_next := ?n, mh_states := AList.update ref ?st (mh_states h)\<rparr>"
  let ?t = "\<lparr>tk_ref = ref, tk_probe = True, tk_generation = ms_generation (state_of h ref), tk_token = ?n\<rparr>"
  have i: "issue ref h = (?t, ?h)" using False by (simp add: issue_def Let_def)
  have s: "state_of ?h r = (if r = ref then ?st else state_of h r)" for r
    by (simp add: state_of_def)
  have le: "y \<le> mh_next h \<Longrightarrow> y \<le> ?n" and ne: "y \<le> mh_next h \<Longrightarrow> y \<noteq> ?n" for y
    using word_succ_less(2)[OF assms(3), of y] by auto
  have "state_ok ?n (state_of ?h r)" for r
    using assms(1) False le by (auto simp: s health_ok_def state_ok_def less_le)
  moreover have "ticket_ok ?h t" if "t \<in> set issued" for t
    using assms(1) that le by (auto simp: health_ok_def ticket_ok_def s)
  moreover have "ticket_ok ?h ?t"
    using assms(2) by (simp add: ticket_ok_def s pickable_def candidate_def)
  moreover have "?n \<notin> set (probe_tokens issued)"
    using assms(1) ne by (fastforce simp: health_ok_def ticket_ok_def probe_tokens_def)
  ultimately show ?thesis
    using assms(1) i by (simp add: health_ok_def probe_tokens_def)
qed

lemma complete_state:
  assumes "Complete now t outcome reason h = (tr, h')" and "tk_ref t \<noteq> []"
  shows "mh_next h' = mh_next h" and "r \<noteq> tk_ref t \<Longrightarrow> state_of h' r = state_of h r"
    and "let st = state_of h (tk_ref t); st' = state_of h' (tk_ref t) in
         st' = st \<or> st' = st\<lparr>ms_probing := False, ms_token := 0\<rparr>
         \<or> (ms_generation st' = ms_generation st + 1 \<and> \<not> ms_probing st' \<and> ms_token st' = 0
            \<and> (ms_failures st' = 0 \<or> ms_failures st' = ms_failures st + 1))"
proof -
  let ?st = "state_of h (tk_ref t)"
  have st: "(case map_of (mh_states h) (tk_ref t) of None \<Rightarrow> zero_state | Some s \<Rightarrow> s) = ?st"
    by (simp add: state_of_def)
  have "\<exists>s. h' = h\<lparr>mh_states := AList.update (tk_ref t) s (mh_states h)\<rparr>
      \<and> (s = ?st \<or> s = ?st\<lparr>ms_probing := False, ms_token := 0\<rparr>
         \<or> (ms_generation s = ms_generation ?st + 1 \<and> \<not> ms_probing s \<and> ms_token s = 0
            \<and> (ms_failures s = 0 \<or> ms_failures s = ms_failures ?st + 1)))"
    using assms unfolding Complete_def st
    by (cases outcome) (auto simp: Let_def failed_state_def split: if_splits)
  then obtain s where h': "h' = h\<lparr>mh_states := AList.update (tk_ref t) s (mh_states h)\<rparr>"
    and s: "s = ?st \<or> s = ?st\<lparr>ms_probing := False, ms_token := 0\<rparr>
         \<or> (ms_generation s = ms_generation ?st + 1 \<and> \<not> ms_probing s \<and> ms_token s = 0
            \<and> (ms_failures s = 0 \<or> ms_failures s = ms_failures ?st + 1))" by blast
  show "mh_next h' = mh_next h" "r \<noteq> tk_ref t \<Longrightarrow> state_of h' r = state_of h r"
    by (simp_all add: h' state_of_def)
  show "let st = state_of h (tk_ref t); st' = state_of h' (tk_ref t) in
         st' = st \<or> st' = st\<lparr>ms_probing := False, ms_token := 0\<rparr>
         \<or> (ms_generation st' = ms_generation st + 1 \<and> \<not> ms_probing st' \<and> ms_token st' = 0
            \<and> (ms_failures st' = 0 \<or> ms_failures st' = ms_failures st + 1))"
  proof -
    have "state_of h' (tk_ref t) = s" by (simp add: h' state_of_def)
    with s show ?thesis by (simp add: Let_def)
  qed
qed

lemma complete_ok:
  assumes "health_ok (h, issued)" and "t \<in> set issued"
    and "ms_generation (state_of h (tk_ref t)) \<noteq> -1"
    and "Complete now t outcome reason h = (tr, h')"
  shows "health_ok (h', issued)"
proof -
  let ?st = "state_of h (tk_ref t)" and ?st' = "state_of h' (tk_ref t)"
  have ref: "tk_ref t \<noteq> []" using assms(1,2) by (auto simp: health_ok_def ticket_ok_def)
  note c = complete_state[OF assms(4) ref]
  have ok: "state_ok (mh_next h) ?st" using assms(1) by (simp add: health_ok_def)
  have "state_ok (mh_next h') (state_of h' r)" for r
    using assms(1) c(1) c(2)[of r] c(3) ok
    by (cases "r = tk_ref t") (auto simp: health_ok_def state_ok_def Let_def)
  moreover have "ticket_ok h' u" if "u \<in> set issued" for u
  proof (cases "tk_ref u = tk_ref t")
    case True
    have u: "ticket_ok h u" using assms(1) that by (simp add: health_ok_def)
    then have "tk_generation u < ms_generation ?st + 1"
      using True word_succ_less(2)[OF assms(3)] by (simp add: ticket_ok_def)
    with u True c(1) c(3) show ?thesis by (auto simp: ticket_ok_def Let_def)
  next
    case False
    then show ?thesis using assms(1) that c(1) c(2) by (simp add: health_ok_def ticket_ok_def)
  qed
  ultimately show ?thesis using assms(1) by (simp add: health_ok_def)
qed

interpretation health_runs: invariant_machine health_init health_step health_ok
proof
  fix s :: health_world
  assume "health_init s"
  then show "health_ok s"
    by (simp add: health_init_def health_ok_def NewModelHealth_def state_of_def state_ok_def
        zero_state_def probe_tokens_def)
next
  fix s t :: health_world and l
  assume "health_ok s" and "health_step s l t"
  from this(2,1) show "health_ok t"
    by cases (auto elim!: Acquire_True dest: Acquire_False intro: issue_ok complete_ok)
qed

lemma distinct_one:
  "distinct (map f xs) \<Longrightarrow> length (filter (\<lambda>x. f x = k) xs) \<le> 1"
proof (induction xs)
  case (Cons x xs)
  have "filter (\<lambda>y. f y = f x) xs = []" using Cons.prems by (auto simp: filter_empty_conv image_iff)
  with Cons show ?case by auto
qed simp


definition wit_world :: health_world where
  "wit_world = (let t = wit_ticket ''m'';
      h1 = snd (Complete 7 t ModelHealthEligibleFailure ''overloaded'' NewModelHealth);
      out = Acquire (7 + 30 * 1000000000) [''m''] {} h1
    in (snd out, [sel_ticket (fst (fst out)), t]))"


end
