(* ===== verification/Tasks.thy ===== *)
theory Tasks
  imports Prelude
begin

text \<open>
  The tasks module: the per-Thread task store of \<^verbatim>\<open>internal/features/tasks/store.go\<close>, the tools a
  model calls on it (\<^verbatim>\<open>tools.go\<close>) and the completion gate that keeps a Turn going while work is
  left (\<^verbatim>\<open>module.go\<close>). The file \<^verbatim>\<open>tasks.json\<close> is its decoded document, the outcome of each coming
  write is part of the state, and so is whether a context renewal holds the file.

  Two functions are parameters: \<open>redact\<close>, the three regular-expression replacements of
  \<^verbatim>\<open>redactTaskText\<close>, and \<open>render\<close>, the JSON text of one task; every theorem holds for any choice of them.
\<close>

section \<open>Data\<close>

datatype status = Todo | Doing | Done | Pending | Failed | StatusOther string

datatype priority = P0 | P1 | P2 | PriorityOther string

record task =
  task_id :: string
  title :: string
  description :: string
  acceptance :: string
  status :: status
  status_reason :: string
  priority :: priority
  continuation_count :: int
  updated_at :: instant

record task_create =
  cr_title :: string
  cr_description :: string
  cr_acceptance :: string
  cr_status :: status
  cr_status_reason :: string
  cr_priority :: priority

record task_update =
  up_title :: "string option"
  up_description :: "string option"
  up_acceptance :: "string option"
  up_status :: status
  up_status_reason :: "string option"
  up_priority :: priority

datatype tasks_file = TasksMissing | TasksUnreadable | TasksMalformed | TasksDoc int "task list"

datatype task_error =
    RequiredFields | InvalidStatus status | InvalidPriority priority | NegativeCount | NoUpdatedAt
  | TooMany | ContextTooLong | NotFound string | ReadError | ParseError | VersionError int
  | DuplicateTask string | RenewalInProgress | SaveError | StageError
  | EmptyStatus | EmptyPriority | NothingToUpdate | UnknownTool string | CleanupError

record task_store =
  ts_file :: tasks_file
  ts_renewing :: bool
  ts_staged :: "task list option"
  ts_saves :: "write_result list"

record gate_decision =
  gd_task :: task
  gd_block_stop :: bool
  gd_prompt :: string
  gd_reason :: string

definition maxTaskCount :: nat where "maxTaskCount = 64"
definition maxTaskContextBytes :: nat where "maxTaskContextBytes = 32 * 1024"

definition zero_task :: task where
  "zero_task = \<lparr>task_id = [], title = [], description = [], acceptance = [],
     status = StatusOther [], status_reason = [], priority = PriorityOther [],
     continuation_count = 0, updated_at = 0\<rparr>"

section \<open>Text\<close>

fun rune_starts :: "nat \<Rightarrow> string \<Rightarrow> nat \<Rightarrow> nat list" where
  "rune_starts 0 s i = []"
| "rune_starts (Suc fuel) s i =
     (if s = [] then [] else i # rune_starts fuel (drop (rune_size s) s) (i + rune_size s))"

text \<open>\<^verbatim>\<open>truncate\<close>: cut at the last rune start that is not beyond \<open>n\<close>.\<close>

definition truncate_runes :: "string \<Rightarrow> nat \<Rightarrow> string" where
  "truncate_runes s n =
     (if n = 0 \<or> length s \<le> n then s
      else let limit = fold (\<lambda>i l. if i \<le> n then i else l) (rune_starts (length s) s 0) 0
           in take limit s @ ''...(truncated, total '' @ itoa (length s) @ '' bytes)'')"

definition sanitizeTaskTextLimit :: "(string \<Rightarrow> string) \<Rightarrow> string \<Rightarrow> nat \<Rightarrow> string" where
  "sanitizeTaskTextLimit redact s n = redact (truncate_runes s n)"

definition normalize :: "(string \<Rightarrow> string) \<Rightarrow> task \<Rightarrow> task" where
  "normalize redact t = t\<lparr>
     title := sanitizeTaskTextLimit redact (trim_space (title t)) 1000,
     description := sanitizeTaskTextLimit redact (trim_space (description t)) 1000,
     acceptance := sanitizeTaskTextLimit redact (trim_space (acceptance t)) (32 * 1024),
     status_reason := sanitizeTaskTextLimit redact (trim_space (status_reason t)) 1000\<rparr>"

definition validate :: "task \<Rightarrow> task_error option" where
  "validate t =
     (if trim_space (task_id t) = [] \<or> trim_space (title t) = [] \<or> trim_space (description t) = []
      then Some RequiredFields
      else case status t of StatusOther _ \<Rightarrow> Some (InvalidStatus (status t))
      | _ \<Rightarrow> (case priority t of PriorityOther _ \<Rightarrow> Some (InvalidPriority (priority t))
        | _ \<Rightarrow> (if continuation_count t < 0 then Some NegativeCount
               else if updated_at t = 0 then Some NoUpdatedAt else None)))"

definition context_header :: string where
  "context_header = ''Current thread tasks (model-owned; use create_task, update_task and delete_task to keep this list current):'' @ [CHR 0x0A]"

definition RenderProviderContext :: "(task \<Rightarrow> string) \<Rightarrow> task list \<Rightarrow> string option" where
  "RenderProviderContext render ts = (if ts = [] then None
     else Some (trim_space (context_header @ concat (map (\<lambda>t. render t @ [CHR 0x0A]) ts))))"

text \<open>The largest \<^verbatim>\<open>int\<close> and the last millisecond of the year 9999 stand for the reserved metadata.\<close>

definition max_int :: int where "max_int = 2 ^ 63 - 1"
definition last_instant :: instant where "last_instant = 315537897599999000000"

definition reserve :: "task \<Rightarrow> task" where
  "reserve t = t\<lparr>continuation_count := max_int, updated_at := last_instant\<rparr>"

definition validateCapacity :: "(task \<Rightarrow> string) \<Rightarrow> task list \<Rightarrow> task_error option" where
  "validateCapacity render ts =
     (if length ts > maxTaskCount then Some TooMany
      else case RenderProviderContext render (map reserve ts) of
        None \<Rightarrow> None
      | Some text \<Rightarrow> (if length text > maxTaskContextBytes then Some ContextTooLong else None))"

section \<open>The store\<close>

type_synonym 'a task_op = "(task_store, task_error, 'a) op"

fun validate_all :: "task list \<Rightarrow> string set \<Rightarrow> task_error option" where
  "validate_all [] seen = None"
| "validate_all (t # ts) seen = (case validate t of
      Some e \<Rightarrow> Some e
    | None \<Rightarrow> (if task_id t \<in> seen then Some (DuplicateTask (task_id t))
              else validate_all ts (insert (task_id t) seen)))"

definition load_tasks :: "tasks_file \<Rightarrow> task_error + task list" where
  "load_tasks f = (case f of
      TasksMissing \<Rightarrow> Inr []
    | TasksUnreadable \<Rightarrow> Inl ReadError
    | TasksMalformed \<Rightarrow> Inl ParseError
    | TasksDoc v ts \<Rightarrow> (if v \<noteq> 1 then Inl (VersionError v)
        else case validate_all ts {} of Some e \<Rightarrow> Inl e | None \<Rightarrow> Inr ts))"

definition loadLocked :: "task list task_op" where
  "loadLocked s = (load_tasks (ts_file s), s)"

definition Snapshot :: "task list task_op" where
  "Snapshot = loadLocked"

definition StatusSnapshot :: "task list option task_op" where
  "StatusSnapshot = andThen Snapshot (\<lambda>ts. ret (if ts = [] then None else Some ts))"

definition saveLocked :: "task list \<Rightarrow> unit task_op" where
  "saveLocked ts s = (case ts_saves s of
      [] \<Rightarrow> (Inr (), s\<lparr>ts_file := TasksDoc 1 ts\<rparr>)
    | WriteOk # rest \<Rightarrow> (Inr (), s\<lparr>ts_file := TasksDoc 1 ts, ts_saves := rest\<rparr>)
    | WriteFailed rep # rest \<Rightarrow>
        (Inl SaveError, s\<lparr>ts_file := (if rep then TasksDoc 1 ts else ts_file s), ts_saves := rest\<rparr>))"

definition tasks_file_ready :: "unit task_op" where
  "tasks_file_ready s = (if ts_renewing s then raise RenewalInProgress else ret ()) s"

definition lift_error :: "task_error option \<Rightarrow> unit task_op" where
  "lift_error e = (case e of None \<Rightarrow> ret () | Some err \<Rightarrow> raise err)"

definition new_task :: "(string \<Rightarrow> string) \<Rightarrow> string \<Rightarrow> instant \<Rightarrow> task_create \<Rightarrow> task" where
  "new_task redact fresh now c = normalize redact
     \<lparr>task_id = fresh, title = cr_title c, description = cr_description c,
      acceptance = cr_acceptance c,
      status = (if cr_status c = StatusOther [] then Todo else cr_status c),
      status_reason = cr_status_reason c,
      priority = (if cr_priority c = PriorityOther [] then P1 else cr_priority c),
      continuation_count = 0, updated_at = truncate_ms now\<rparr>"

definition Create ::
  "(string \<Rightarrow> string) \<Rightarrow> (task \<Rightarrow> string) \<Rightarrow> string \<Rightarrow> instant \<Rightarrow> task_create \<Rightarrow> task task_op" where
  "Create redact render fresh now c =
     andThen tasks_file_ready (\<lambda>_. andThen loadLocked (\<lambda>ts.
       (let t = new_task redact fresh now c in
        andThen (lift_error (validate t)) (\<lambda>_.
          andThen (lift_error (validateCapacity render (ts @ [t]))) (\<lambda>_.
            andThen (saveLocked (ts @ [t])) (\<lambda>_. ret t))))))"

definition apply_update ::
  "(string \<Rightarrow> string) \<Rightarrow> instant \<Rightarrow> task_update \<Rightarrow> task \<Rightarrow> task" where
  "apply_update redact now u t = normalize redact
     (t\<lparr>title := (case up_title u of None \<Rightarrow> title t | Some x \<Rightarrow> x),
        description := (case up_description u of None \<Rightarrow> description t | Some x \<Rightarrow> x),
        acceptance := (case up_acceptance u of None \<Rightarrow> acceptance t | Some x \<Rightarrow> x),
        status_reason := (case up_status_reason u of None \<Rightarrow> status_reason t | Some x \<Rightarrow> x),
        status := (if up_status u = StatusOther [] then status t else up_status u),
        priority := (if up_priority u = PriorityOther [] then priority t else up_priority u),
        updated_at := truncate_ms now\<rparr>)"

fun index_of :: "string \<Rightarrow> task list \<Rightarrow> nat option" where
  "index_of i [] = None"
| "index_of i (t # ts) = (if task_id t = i then Some 0 else map_option Suc (index_of i ts))"

definition Update ::
  "(string \<Rightarrow> string) \<Rightarrow> (task \<Rightarrow> string) \<Rightarrow> instant \<Rightarrow> string \<Rightarrow> task_update \<Rightarrow> task task_op" where
  "Update redact render now i u =
     andThen tasks_file_ready (\<lambda>_. andThen loadLocked (\<lambda>ts.
       (case index_of i ts of
          None \<Rightarrow> raise (NotFound i)
        | Some k \<Rightarrow> (let t = apply_update redact now u (ts ! k) in
            andThen (lift_error (validate t)) (\<lambda>_.
              andThen (lift_error (validateCapacity render (ts[k := t]))) (\<lambda>_.
                andThen (saveLocked (ts[k := t])) (\<lambda>_. ret t)))))))"

definition Delete :: "string \<Rightarrow> unit task_op" where
  "Delete i = andThen tasks_file_ready (\<lambda>_. andThen loadLocked (\<lambda>ts.
     (case index_of i ts of
        None \<Rightarrow> raise (NotFound i)
      | Some k \<Rightarrow> saveLocked (take k ts @ drop (Suc k) ts))))"

text \<open>
  \<^verbatim>\<open>modstate.RemoveFile\<close>: a missing file is no error and takes no sync; a removal whose directory sync
  fails has had its effect.
\<close>

definition RemoveFile :: "unit task_op" where
  "RemoveFile s = (if ts_file s = TasksMissing then (Inr (), s)
     else case ts_saves s of
      [] \<Rightarrow> (Inr (), s\<lparr>ts_file := TasksMissing\<rparr>)
    | WriteOk # rest \<Rightarrow> (Inr (), s\<lparr>ts_file := TasksMissing, ts_saves := rest\<rparr>)
    | WriteFailed rep # rest \<Rightarrow>
        (Inl SaveError, s\<lparr>ts_file := (if rep then TasksMissing else ts_file s), ts_saves := rest\<rparr>))"

definition Clear :: "unit task_op" where
  "Clear = andThen tasks_file_ready (\<lambda>_. RemoveFile)"

section \<open>The completion gate\<close>

text \<open>Go compares the priorities as strings.\<close>

fun bytes_less :: "string \<Rightarrow> string \<Rightarrow> bool" where
  "bytes_less xs [] = False"
| "bytes_less [] (y # ys) = True"
| "bytes_less (x # xs) (y # ys) =
     (of_char x < (of_char y :: nat) \<or> (x = y \<and> bytes_less xs ys))"

definition priority_text :: "priority \<Rightarrow> string" where
  "priority_text p = (case p of P0 \<Rightarrow> ''p0'' | P1 \<Rightarrow> ''p1'' | P2 \<Rightarrow> ''p2'' | PriorityOther s \<Rightarrow> s)"

definition select_step :: "task \<Rightarrow> task \<Rightarrow> task" where
  "select_step selected t =
     (if status t \<noteq> Doing \<and> status t \<noteq> Todo then selected
      else if task_id selected = [] \<or> (status t = Doing \<and> status selected = Todo)
        \<or> (status t = status selected
            \<and> bytes_less (priority_text (priority t)) (priority_text (priority selected)))
      then t else selected)"

definition selectedTask :: "task list \<Rightarrow> task option" where
  "selectedTask ts = (let sel = foldl select_step zero_task ts in
     if task_id sel \<noteq> [] then Some sel else None)"

definition gate_prompt :: "(task \<Rightarrow> string) \<Rightarrow> task \<Rightarrow> string" where
  "gate_prompt render t = ''Continue the selected unfinished task. Use update_task with its ID to record progress: doing while working, pending when new external input is required, done after verifying acceptance, or failed when it cannot be completed.'' @ [CHR 0x0A, CHR 0x0A] @ render t"

definition zero_decision :: gate_decision where
  "zero_decision = \<lparr>gd_task = zero_task, gd_block_stop = False, gd_prompt = [], gd_reason = []\<rparr>"

definition CompletionGateDecision :: "(task \<Rightarrow> string) \<Rightarrow> gate_decision task_op" where
  "CompletionGateDecision render = andThen Snapshot (\<lambda>ts. ret (case selectedTask ts of
      None \<Rightarrow> zero_decision
    | Some t \<Rightarrow> \<lparr>gd_task = t, gd_block_stop = True, gd_prompt = gate_prompt render t,
                gd_reason = ''task_unfinished''\<rparr>))"

definition continued :: "instant \<Rightarrow> task \<Rightarrow> task" where
  "continued now t = t\<lparr>continuation_count := continuation_count t + 1, updated_at := truncate_ms now\<rparr>"

definition RecordContinuation :: "instant \<Rightarrow> gate_decision \<Rightarrow> bool task_op" where
  "RecordContinuation now d = (if \<not> gd_block_stop d then ret False
     else andThen tasks_file_ready (\<lambda>_. andThen loadLocked (\<lambda>ts.
       (case selectedTask ts of
          None \<Rightarrow> ret False
        | Some t \<Rightarrow>
            (if t \<noteq> gd_task d then ret False
             else let ts' = (case index_of (task_id t) ts of None \<Rightarrow> ts
                             | Some k \<Rightarrow> ts[k := continued now (ts ! k)])
                  in andThen (saveLocked ts') (\<lambda>_. ret True))))))"

definition unfinished :: "task list \<Rightarrow> task list" where
  "unfinished ts = filter (\<lambda>t. status t \<noteq> Done) ts"

text \<open>
  \<^verbatim>\<open>StagePruneDone\<close> with the two closures it returns. \<open>stage_ok\<close> tells whether the Thread staged the
  replacement; from then on the file is held until the renewal is finalized or rolled back.
\<close>

definition StagePruneDone :: "bool \<Rightarrow> bool task_op" where
  "StagePruneDone stage_ok = andThen tasks_file_ready (\<lambda>_. andThen loadLocked (\<lambda>ts.
     (let remaining = unfinished ts in
      if length remaining = length ts then ret False
      else if \<not> stage_ok then raise StageError
      else andThen (modify (\<lambda>s. s\<lparr>ts_renewing := True, ts_staged := Some remaining\<rparr>))
             (\<lambda>_. ret True))))"

definition finalize_prune :: "unit task_op" where
  "finalize_prune = modify (\<lambda>s. case ts_staged s of None \<Rightarrow> s
     | Some ts \<Rightarrow> s\<lparr>ts_file := TasksDoc 1 ts, ts_staged := None, ts_renewing := False\<rparr>)"

definition rollback_prune :: "unit task_op" where
  "rollback_prune = modify (\<lambda>s. case ts_staged s of None \<Rightarrow> s
     | Some ts \<Rightarrow> s\<lparr>ts_staged := None, ts_renewing := False\<rparr>)"

section \<open>The module: tools and finish policy\<close>

record continued_payload =
  cp_task_id :: string
  cp_status :: status
  cp_reason :: string
  cp_count :: int
  cp_prompt_len :: nat

definition tasksContinuedPayload :: "gate_decision \<Rightarrow> task list option \<Rightarrow> continued_payload" where
  "tasksContinuedPayload d snapshot =
     (let t = (case find (\<lambda>x. task_id x = task_id (gd_task d)) (case snapshot of None \<Rightarrow> [] | Some ts \<Rightarrow> ts) of
                 Some x \<Rightarrow> x | None \<Rightarrow> gd_task d)
      in \<lparr>cp_task_id = task_id t, cp_status = status t, cp_reason = gd_reason d,
          cp_count = continuation_count t, cp_prompt_len = length (gd_prompt d)\<rparr>)"

definition tasksUpdatedPayload :: "task list option \<Rightarrow> task list" where
  "tasksUpdatedPayload snapshot = (case snapshot of None \<Rightarrow> [] | Some ts \<Rightarrow> ts)"

record tasks_module =
  tm_store :: task_store
  tm_continuation :: bool
  tm_deferring :: bool
  tm_cleanup :: "bool option"
  tm_cleanups :: nat
  tm_updated :: "task list list"
  tm_continued :: "continued_payload list"

type_synonym 'a module_op = "(tasks_module, task_error, 'a) op"

definition on_store :: "'a task_op \<Rightarrow> 'a module_op" where
  "on_store f m = (case f (tm_store m) of (r, s) \<Rightarrow> (r, m\<lparr>tm_store := s\<rparr>))"

text \<open>\<^verbatim>\<open>emitTasksUpdated\<close> publishes the current list; errors of reading or publishing are ignored.\<close>

definition emitTasksUpdated :: "unit module_op" where
  "emitTasksUpdated m = (Inr (), (case fst (StatusSnapshot (tm_store m)) of
      Inl _ \<Rightarrow> m | Inr snapshot \<Rightarrow> m\<lparr>tm_updated := tm_updated m @ [tasksUpdatedPayload snapshot]\<rparr>))"

definition notifyAllTasksDone :: "unit module_op" where
  "notifyAllTasksDone m = (case tm_cleanup m of
      None \<Rightarrow> (Inr (), m)
    | Some ok \<Rightarrow> (case load_tasks (ts_file (tm_store m)) of
        Inl e \<Rightarrow> (Inl e, m)
      | Inr ts \<Rightarrow>
          (if ts = [] \<or> list_ex (\<lambda>t. status t \<noteq> Done) ts then (Inr (), m)
           else ((if ok then Inr () else Inl CleanupError), m\<lparr>tm_cleanups := Suc (tm_cleanups m)\<rparr>))))"

type_synonym tool_args = "(string \<times> json) list"

definition str_arg :: "tool_args \<Rightarrow> string \<Rightarrow> string" where
  "str_arg inp k = (case map_of inp k of Some (JStr s) \<Rightarrow> trim_space s | _ \<Rightarrow> [])"

definition opt_arg :: "tool_args \<Rightarrow> string \<Rightarrow> string option" where
  "opt_arg inp k = (case map_of inp k of None \<Rightarrow> None | Some _ \<Rightarrow> Some (str_arg inp k))"

definition parse_status :: "string \<Rightarrow> status" where
  "parse_status s = (if s = ''todo'' then Todo else if s = ''doing'' then Doing
     else if s = ''done'' then Done else if s = ''pending'' then Pending
     else if s = ''failed'' then Failed else StatusOther s)"

definition parse_priority :: "string \<Rightarrow> priority" where
  "parse_priority s = (if s = ''p0'' then P0 else if s = ''p1'' then P1 else if s = ''p2'' then P2
     else PriorityOther s)"

datatype tool_result = TaskList "task list" | TaskDeleted string | TaskChanged task

definition create_args :: "tool_args \<Rightarrow> task_create" where
  "create_args inp = \<lparr>cr_title = str_arg inp ''title'', cr_description = str_arg inp ''description'',
     cr_acceptance = str_arg inp ''acceptance'', cr_status = parse_status (str_arg inp ''status''),
     cr_status_reason = str_arg inp ''status_reason'',
     cr_priority = parse_priority (str_arg inp ''priority'')\<rparr>"

definition update_args :: "tool_args \<Rightarrow> task_error + task_update" where
  "update_args inp =
     (if map_of inp ''status'' \<noteq> None \<and> str_arg inp ''status'' = [] then Inl EmptyStatus
      else if map_of inp ''priority'' \<noteq> None \<and> str_arg inp ''priority'' = [] then Inl EmptyPriority
      else if \<not> list_ex (\<lambda>k. map_of inp k \<noteq> None)
                  [''title'', ''description'', ''acceptance'', ''status_reason'', ''status'', ''priority'']
      then Inl NothingToUpdate
      else Inr \<lparr>up_title = opt_arg inp ''title'', up_description = opt_arg inp ''description'',
        up_acceptance = opt_arg inp ''acceptance'', up_status = parse_status (str_arg inp ''status''),
        up_status_reason = opt_arg inp ''status_reason'',
        up_priority = parse_priority (str_arg inp ''priority'')\<rparr>)"

definition after_change :: "tool_result \<Rightarrow> tool_result module_op" where
  "after_change r = andThen emitTasksUpdated (\<lambda>_. (\<lambda>m. case notifyAllTasksDone m of
      (Inl _, m') \<Rightarrow> (Inl CleanupError, m') | (Inr _, m') \<Rightarrow> (Inr r, m')))"

definition module_call ::
  "(string \<Rightarrow> string) \<Rightarrow> (task \<Rightarrow> string) \<Rightarrow> string \<Rightarrow> instant \<Rightarrow> string \<Rightarrow> tool_args \<Rightarrow>
   tool_result module_op" where
  "module_call redact render fresh now name inp =
     (if name = ''list_tasks'' then andThen (on_store Snapshot) (\<lambda>ts. ret (TaskList ts))
      else if name = ''create_task''
      then andThen (on_store (Create redact render fresh now (create_args inp)))
             (\<lambda>t. after_change (TaskChanged t))
      else if name = ''update_task''
      then (case update_args inp of Inl e \<Rightarrow> raise e
            | Inr u \<Rightarrow> andThen (on_store (Update redact render now (str_arg inp ''id'') u))
                         (\<lambda>t. after_change (TaskChanged t)))
      else if name = ''delete_task''
      then andThen (on_store (Delete (str_arg inp ''id'')))
             (\<lambda>_. after_change (TaskDeleted (str_arg inp ''id'')))
      else raise (UnknownTool name))"

datatype finish_decision = FinishComplete | FinishContinue string gate_decision

text \<open>
  \<^verbatim>\<open>EvaluateFinish\<close>: the prompt of a blocking decision starts with a fixed sentence, so the code's
  check for an empty prompt never fires; the observer callbacks are left out.
\<close>

definition EvaluateFinish :: "(task \<Rightarrow> string) \<Rightarrow> finish_decision module_op" where
  "EvaluateFinish render m =
     (if \<not> tm_continuation m then (Inr FinishComplete, m)
      else andThen (on_store (CompletionGateDecision render)) (\<lambda>d.
        (if gd_block_stop d \<and> \<not> tm_deferring m then ret (FinishContinue (gd_prompt d) d)
         else ret FinishComplete)) m)"

definition CommitFinishDecision :: "instant \<Rightarrow> finish_decision \<Rightarrow> bool module_op" where
  "CommitFinishDecision now selected m =
     (if \<not> tm_continuation m \<or> tm_deferring m then (Inr False, m)
      else case selected of FinishComplete \<Rightarrow> (Inr False, m)
      | FinishContinue _ d \<Rightarrow>
          (if \<not> gd_block_stop d then (Inr False, m)
           else andThen (on_store (RecordContinuation now d)) (\<lambda>recorded.
             (if recorded then andThen emitTasksUpdated (\<lambda>_. ret True) else ret False)) m))"

definition FinishContinuationCommitted :: "finish_decision \<Rightarrow> unit module_op" where
  "FinishContinuationCommitted selected m = (case selected of
      FinishComplete \<Rightarrow> (Inr (), m)
    | FinishContinue _ d \<Rightarrow> (Inr (), m\<lparr>tm_continued := tm_continued m @ [tasksContinuedPayload d
        (case fst (StatusSnapshot (tm_store m)) of Inl _ \<Rightarrow> None | Inr snapshot \<Rightarrow> snapshot)]\<rparr>))"

text \<open>The text the module adds to the provider context; a file that cannot be read adds nothing.\<close>

definition tasksStateContextFromStore :: "(task \<Rightarrow> string) \<Rightarrow> task_store \<Rightarrow> string option" where
  "tasksStateContextFromStore render s = (case fst (Snapshot s) of
      Inl _ \<Rightarrow> None | Inr ts \<Rightarrow> RenderProviderContext render ts)"

end
