(* ===== verification/TasksProps.thy ===== *)
theory TasksProps
  imports Tasks
begin

text \<open>
  What the task store and its completion gate promise: the file always loads and stays within its
  capacity, a mutation touches one task only, a continuation is recorded at most once for the value
  it was decided on, a staged prune loses no work, and the gate picks the right task.
\<close>

section \<open>Loading\<close>

lemma validate_all_None:
  "validate_all ts seen = None \<longleftrightarrow>
   (\<forall>t \<in> set ts. validate t = None) \<and> distinct (map task_id ts) \<and> task_id ` set ts \<inter> seen = {}"
  by (induction ts arbitrary: seen) (auto split: option.splits)

lemma load_tasks_Inr:
  "load_tasks f = Inr ts \<longleftrightarrow>
   (f = TasksMissing \<and> ts = [] \<or> f = TasksDoc 1 ts)
   \<and> (\<forall>t \<in> set ts. validate t = None) \<and> distinct (map task_id ts)"
proof (cases f)
  case (TasksDoc v us)
  then show ?thesis
    using validate_all_None[of us "{}"]
    by (cases "validate_all us {}") (auto simp: load_tasks_def)
qed (auto simp: load_tasks_def)

lemma load_tasks_doc:
  "load_tasks (TasksDoc 1 ts) = Inr ts \<longleftrightarrow>
   (\<forall>t \<in> set ts. validate t = None) \<and> distinct (map task_id ts)"
  by (simp add: load_tasks_Inr)

lemma valid_id: "validate t = None \<Longrightarrow> task_id t \<noteq> []"
  by (auto simp: validate_def split: if_splits)

lemma index_of_None: "index_of i ts = None \<longleftrightarrow> i \<notin> task_id ` set ts"
  by (induction ts) auto

lemma index_of_Some:
  "index_of i ts = Some k \<Longrightarrow> k < length ts \<and> task_id (ts ! k) = i \<and> i \<notin> task_id ` set (take k ts)"
  by (induction ts arbitrary: k) (auto split: if_splits)

lemma normalize_id [simp]: "task_id (normalize redact t) = task_id t"
  by (simp add: normalize_def)

lemma apply_update_id [simp]: "task_id (apply_update redact now u t) = task_id t"
  by (simp add: apply_update_def)

lemma new_task_id [simp]: "task_id (new_task redact fresh now c) = fresh"
  by (simp add: new_task_def)

lemma continued_id [simp]: "task_id (continued now t) = task_id t"
  by (simp add: continued_def)

lemma map_id_update: "k < length ts \<Longrightarrow> task_id t = task_id (ts ! k) \<Longrightarrow>
   map task_id (ts[k := t]) = map task_id ts"
  by (simp add: map_update) (metis length_map list_update_id nth_map)

section \<open>Outcomes of the operations\<close>

lemma lift_error_simps [simp]:
  "lift_error None = ret ()" "lift_error (Some e) = raise e"
  by (simp_all add: lift_error_def)

lemma ready_cases:
  "andThen tasks_file_ready f s =
     (if ts_renewing s then (Inl RenewalInProgress, s) else f () s)"
  by (simp add: andThen_def tasks_file_ready_def)

lemma modify_cases: "andThen (modify f) g s = g () (f s)"
  by (simp add: andThen_def)

lemma load_cases:
  "andThen loadLocked f s = (case load_tasks (ts_file s) of Inl e \<Rightarrow> (Inl e, s) | Inr ts \<Rightarrow> f ts s)"
  by (simp add: andThen_def loadLocked_def split: sum.splits)

text \<open>What a save can leave: the new list, or the old file when the save reports an error.\<close>

lemma save_cases:
  obtains w f where "snd (saveLocked ts s) = s\<lparr>ts_file := f, ts_saves := w\<rparr>"
    "f = TasksDoc 1 ts \<or> f = ts_file s \<and> fst (saveLocked ts s) = Inl SaveError"
proof (cases "ts_saves s")
  case Nil
  then show thesis using that[of "[]" "TasksDoc 1 ts"] by (simp add: saveLocked_def)
next
  case (Cons w ws)
  then show thesis
    using that[of ws "TasksDoc 1 ts"] that[of ws "if replaced w then TasksDoc 1 ts else ts_file s"]
    by (cases w) (simp_all add: saveLocked_def)
qed

lemma save_ok: "fst (saveLocked ts s) = Inr u \<Longrightarrow> ts_file (snd (saveLocked ts s)) = TasksDoc 1 ts"
  by (auto simp: saveLocked_def split: list.splits write_result.splits)

lemma save_frame [simp]:
  "ts_renewing (snd (saveLocked ts s)) = ts_renewing s" "ts_staged (snd (saveLocked ts s)) = ts_staged s"
  by (auto simp: saveLocked_def split: list.splits write_result.splits)

lemma snd_save_then: "snd (andThen (saveLocked ts) (\<lambda>_. ret x) s) = snd (saveLocked ts s)"
  by (auto simp: andThen_def split: prod.splits sum.splits)

definition replaces :: "task_store \<Rightarrow> task list \<Rightarrow> task_store \<Rightarrow> bool" where
  "replaces s ts s' \<longleftrightarrow> \<not> ts_renewing s \<and> ts_renewing s' = ts_renewing s \<and> ts_staged s' = ts_staged s
     \<and> (ts_file s' = TasksDoc 1 ts \<or> ts_file s' = ts_file s)"

lemma replaces_save:
  "\<not> ts_renewing s \<Longrightarrow> replaces s ts (snd (saveLocked ts s))"
  by (rule save_cases[of ts s]) (auto simp: replaces_def)

lemma replaces_refl: "\<not> ts_renewing s \<Longrightarrow> replaces s ts s"
  by (simp add: replaces_def)

lemma Create_eq:
  "Create redact render fresh now c s =
     (if ts_renewing s then (Inl RenewalInProgress, s)
      else case load_tasks (ts_file s) of Inl e \<Rightarrow> (Inl e, s)
      | Inr ts \<Rightarrow> (let t = new_task redact fresh now c in
          case validate t of Some e \<Rightarrow> (Inl e, s)
          | None \<Rightarrow> (case validateCapacity render (ts @ [t]) of Some e \<Rightarrow> (Inl e, s)
            | None \<Rightarrow> andThen (saveLocked (ts @ [t])) (\<lambda>_. ret t) s)))"
  by (simp add: Create_def ready_cases load_cases Let_def split: sum.split option.split)

lemma Update_eq:
  "Update redact render now i u s =
     (if ts_renewing s then (Inl RenewalInProgress, s)
      else case load_tasks (ts_file s) of Inl e \<Rightarrow> (Inl e, s)
      | Inr ts \<Rightarrow> (case index_of i ts of None \<Rightarrow> (Inl (NotFound i), s)
        | Some k \<Rightarrow> (let t = apply_update redact now u (ts ! k) in
            case validate t of Some e \<Rightarrow> (Inl e, s)
            | None \<Rightarrow> (case validateCapacity render (ts[k := t]) of Some e \<Rightarrow> (Inl e, s)
              | None \<Rightarrow> andThen (saveLocked (ts[k := t])) (\<lambda>_. ret t) s))))"
  by (simp add: Update_def ready_cases load_cases Let_def split: sum.split option.split)

lemma Delete_eq:
  "Delete i s =
     (if ts_renewing s then (Inl RenewalInProgress, s)
      else case load_tasks (ts_file s) of Inl e \<Rightarrow> (Inl e, s)
      | Inr ts \<Rightarrow> (case index_of i ts of None \<Rightarrow> (Inl (NotFound i), s)
        | Some k \<Rightarrow> saveLocked (take k ts @ drop (Suc k) ts) s))"
  by (simp add: Delete_def ready_cases load_cases split: sum.split option.split)

definition bump :: "instant \<Rightarrow> string \<Rightarrow> task list \<Rightarrow> task list" where
  "bump now i ts = (case index_of i ts of None \<Rightarrow> ts | Some k \<Rightarrow> ts[k := continued now (ts ! k)])"

lemma RecordContinuation_eq:
  "RecordContinuation now d s =
     (if \<not> gd_block_stop d then (Inr False, s)
      else if ts_renewing s then (Inl RenewalInProgress, s)
      else case load_tasks (ts_file s) of Inl e \<Rightarrow> (Inl e, s)
      | Inr ts \<Rightarrow> (if selectedTask ts = Some (gd_task d)
          then andThen (saveLocked (bump now (task_id (gd_task d)) ts)) (\<lambda>_. ret True) s
          else (Inr False, s)))"
  by (auto simp: RecordContinuation_def ready_cases load_cases Let_def bump_def split: sum.split option.split)

lemma StagePruneDone_eq:
  "StagePruneDone ok s =
     (if ts_renewing s then (Inl RenewalInProgress, s)
      else case load_tasks (ts_file s) of Inl e \<Rightarrow> (Inl e, s)
      | Inr ts \<Rightarrow> (if length (unfinished ts) = length ts then (Inr False, s)
          else if \<not> ok then (Inl StageError, s)
          else (Inr True, s\<lparr>ts_renewing := True, ts_staged := Some (unfinished ts)\<rparr>)))"
  by (simp add: StagePruneDone_def ready_cases load_cases Let_def modify_cases split: sum.split)

lemmas op_eqs = Create_eq Update_eq Delete_eq RecordContinuation_eq StagePruneDone_eq

section \<open>Every run keeps the file loadable and within capacity\<close>

definition tasks_ok :: "task_store \<Rightarrow> bool" where
  "tasks_ok s \<longleftrightarrow> (\<exists>ts. load_tasks (ts_file s) = Inr ts \<and> length ts \<le> maxTaskCount
     \<and> (case ts_staged s of None \<Rightarrow> True | Some us \<Rightarrow> ts_renewing s \<and> us = unfinished ts))"

datatype task_label =
    LCreate string instant task_create | LUpdate instant string task_update | LDelete string | LClear
  | LRecord instant gate_decision | LStage bool | LFinalize | LRollback | LWeather

inductive task_step :: "(string \<Rightarrow> string) \<Rightarrow> (task \<Rightarrow> string) \<Rightarrow> task_store \<Rightarrow> task_label \<Rightarrow> task_store \<Rightarrow> bool"
  for redact render where
  step_create: "\<forall>ts. load_tasks (ts_file s) = Inr ts \<longrightarrow> fresh \<notin> task_id ` set ts \<Longrightarrow>
    task_step redact render s (LCreate fresh now c) (snd (Create redact render fresh now c s))"
| step_update: "task_step redact render s (LUpdate now i u) (snd (Update redact render now i u s))"
| step_delete: "task_step redact render s (LDelete i) (snd (Delete i s))"
| step_clear: "task_step redact render s LClear (snd (Clear s))"
| step_record: "truncate_ms now \<noteq> 0 \<Longrightarrow> task_step redact render s (LRecord now d) (snd (RecordContinuation now d s))"
| step_stage: "task_step redact render s (LStage ok) (snd (StagePruneDone ok s))"
| step_finalize: "task_step redact render s LFinalize (snd (finalize_prune s))"
| step_rollback: "task_step redact render s LRollback (snd (rollback_prune s))"
| step_weather: "task_step redact render s LWeather (s\<lparr>ts_saves := w\<rparr>)"

definition task_init :: "task_store \<Rightarrow> bool" where
  "task_init s \<longleftrightarrow> ts_file s = TasksMissing \<and> ts_staged s = None \<and> \<not> ts_renewing s"

lemma tasks_ok_save:
  assumes "tasks_ok s" and "\<not> ts_renewing s" and "load_tasks (TasksDoc 1 ts) = Inr ts"
    and "length ts \<le> maxTaskCount"
  shows "tasks_ok (snd (saveLocked ts s))"
proof (rule save_cases[of ts s])
  fix w f
  assume "snd (saveLocked ts s) = s\<lparr>ts_file := f, ts_saves := w\<rparr>"
    and "f = TasksDoc 1 ts \<or> f = ts_file s \<and> fst (saveLocked ts s) = Inl SaveError"
  with assms show ?thesis by (auto simp: tasks_ok_def split: option.splits)
qed

lemma capacity_count: "validateCapacity render ts = None \<Longrightarrow> length ts \<le> maxTaskCount"
  by (simp add: validateCapacity_def split: if_splits)

lemma create_keeps_ok:
  assumes "tasks_ok s" and "\<forall>ts. load_tasks (ts_file s) = Inr ts \<longrightarrow> fresh \<notin> task_id ` set ts"
  shows "tasks_ok (snd (Create redact render fresh now c s))"
proof -
  obtain ts where l: "load_tasks (ts_file s) = Inr ts" using assms(1) by (auto simp: tasks_ok_def)
  let ?t = "new_task redact fresh now c"
  have "tasks_ok (snd (saveLocked (ts @ [?t]) s))"
    if "\<not> ts_renewing s" "validate ?t = None" "validateCapacity render (ts @ [?t]) = None"
    using assms l that capacity_count[OF that(3)]
    by (intro tasks_ok_save) (auto simp: load_tasks_Inr)
  with assms(1) l show ?thesis
    by (auto simp: Create_eq Let_def snd_save_then split: option.splits)
qed

lemma load_update:
  assumes "load_tasks f = Inr ts" and "k < length ts" and "validate t = None"
    and "task_id t = task_id (ts ! k)"
  shows "load_tasks (TasksDoc 1 (ts[k := t])) = Inr (ts[k := t])"
  using assms by (auto simp: load_tasks_Inr map_id_update dest: set_update_subset_insert[THEN subsetD])

lemma update_keeps_ok:
  assumes "tasks_ok s"
  shows "tasks_ok (snd (Update redact render now i u s))"
proof -
  obtain ts where l: "load_tasks (ts_file s) = Inr ts" using assms by (auto simp: tasks_ok_def)
  show ?thesis
  proof (cases "index_of i ts")
    case None
    with assms l show ?thesis by (simp add: Update_eq)
  next
    case (Some k)
    let ?t = "apply_update redact now u (ts ! k)"
    have "tasks_ok (snd (saveLocked (ts[k := ?t]) s))"
      if "\<not> ts_renewing s" "validate ?t = None" "validateCapacity render (ts[k := ?t]) = None"
      using assms l that index_of_Some[OF Some] capacity_count[OF that(3)]
      by (intro tasks_ok_save load_update) auto
    with assms l Some show ?thesis
      by (auto simp: Update_eq Let_def snd_save_then split: option.splits)
  qed
qed

lemma delete_keeps_ok:
  assumes "tasks_ok s"
  shows "tasks_ok (snd (Delete i s))"
proof -
  obtain ts where l: "load_tasks (ts_file s) = Inr ts" "length ts \<le> maxTaskCount"
    using assms by (auto simp: tasks_ok_def)
  have "distinct (map task_id (take k ts @ drop (Suc k) ts))" for k
  proof (cases "k < length ts")
    case True
    have "distinct (map task_id (take k ts @ ts ! k # drop (Suc k) ts))"
      using l True by (simp add: load_tasks_Inr id_take_nth_drop[symmetric])
    then show ?thesis by simp
  next
    case False
    then show ?thesis using l by (simp add: load_tasks_Inr)
  qed
  then have "tasks_ok (snd (saveLocked (take k ts @ drop (Suc k) ts) s))"
    if "\<not> ts_renewing s" for k
    using assms l that by (intro tasks_ok_save) (auto simp: load_tasks_Inr dest: in_set_takeD in_set_dropD)
  with assms l show ?thesis by (auto simp: Delete_eq split: option.splits)
qed

lemma continued_valid: "validate t = None \<Longrightarrow> truncate_ms now \<noteq> 0 \<Longrightarrow> validate (continued now t) = None"
  by (auto simp: validate_def continued_def split: if_splits status.splits priority.splits)

lemma bump_ok:
  assumes "load_tasks f = Inr ts" and "truncate_ms now \<noteq> 0"
  shows "load_tasks (TasksDoc 1 (bump now i ts)) = Inr (bump now i ts) \<and> length (bump now i ts) = length ts"
proof (cases "index_of i ts")
  case None
  with assms show ?thesis by (auto simp: bump_def load_tasks_Inr)
next
  case (Some k)
  with assms index_of_Some[OF Some] load_update[OF assms(1), of k "continued now (ts ! k)"]
  show ?thesis by (simp add: bump_def continued_valid load_tasks_Inr)
qed

lemma record_keeps_ok:
  assumes "tasks_ok s" and "truncate_ms now \<noteq> 0"
  shows "tasks_ok (snd (RecordContinuation now d s))"
proof -
  obtain ts where l: "load_tasks (ts_file s) = Inr ts" "length ts \<le> maxTaskCount"
    using assms(1) by (auto simp: tasks_ok_def)
  have "tasks_ok (snd (saveLocked (bump now i ts) s))" if "\<not> ts_renewing s" for i
    using assms l that bump_ok[OF l(1) assms(2), of i] by (intro tasks_ok_save) auto
  with assms(1) l show ?thesis by (simp add: RecordContinuation_eq snd_save_then)
qed

lemma unfinished_loads:
  "load_tasks f = Inr ts \<Longrightarrow> load_tasks (TasksDoc 1 (unfinished ts)) = Inr (unfinished ts)"
  by (auto simp: load_tasks_Inr unfinished_def distinct_map_filter)

lemma unfinished_length: "length (unfinished ts) \<le> length ts"
  by (simp add: unfinished_def)

lemma others_keep_ok:
  assumes "tasks_ok s"
  shows "tasks_ok (snd (finalize_prune s))" "tasks_ok (snd (rollback_prune s))"
    "tasks_ok (snd (StagePruneDone ok s))" "tasks_ok (snd (Clear s))" "tasks_ok (s\<lparr>ts_saves := w\<rparr>)"
proof -
  obtain ts where l: "load_tasks (ts_file s) = Inr ts" "length ts \<le> maxTaskCount"
    and st: "case ts_staged s of None \<Rightarrow> True | Some us \<Rightarrow> ts_renewing s \<and> us = unfinished ts"
    using assms by (auto simp: tasks_ok_def)
  note u = unfinished_loads[OF l(1)] le_trans[OF unfinished_length l(2)]
  show "tasks_ok (snd (finalize_prune s))"
    using l st u assms by (auto simp: finalize_prune_def tasks_ok_def split: option.splits)
  show "tasks_ok (snd (rollback_prune s))"
    using l assms by (auto simp: rollback_prune_def tasks_ok_def split: option.splits)
  have "snd (StagePruneDone ok s) = s
      \<or> snd (StagePruneDone ok s) = s\<lparr>ts_renewing := True, ts_staged := Some (unfinished ts)\<rparr>"
    using l(1) by (simp add: StagePruneDone_eq)
  then show "tasks_ok (snd (StagePruneDone ok s))"
  proof
    assume "snd (StagePruneDone ok s) = s\<lparr>ts_renewing := True, ts_staged := Some (unfinished ts)\<rparr>"
    with l show ?thesis by (simp add: tasks_ok_def)
  qed (use assms in simp)
  show "tasks_ok (snd (Clear s))"
    using assms st by (auto simp: Clear_def RemoveFile_def ready_cases tasks_ok_def load_tasks_def
        split: option.splits list.splits write_result.splits)
  show "tasks_ok (s\<lparr>ts_saves := w\<rparr>)" using l st by (auto simp: tasks_ok_def split: option.splits)
qed

lemma task_step_ok: "tasks_ok s \<Longrightarrow> task_step redact render s l s' \<Longrightarrow> tasks_ok s'"
  by (erule task_step.cases)
     (simp_all add: create_keeps_ok update_keeps_ok delete_keeps_ok record_keeps_ok others_keep_ok)

interpretation task_runs: invariant_machine task_init "task_step redact render" tasks_ok
  for redact :: "string \<Rightarrow> string" and render :: "task \<Rightarrow> string"
proof
  show "tasks_ok s" if "task_init s" for s
    using that by (simp add: task_init_def tasks_ok_def load_tasks_def)
qed (rule task_step_ok)

text \<open>C28: whatever sequence of creations, updates, deletions, continuations, prunes and clears runs on a
  Thread's tasks, whichever of their writes fail, the tasks file loads: every task in it is valid,
  their ids differ and there are at most 64. While a prune is staged for a context renewal it holds
  exactly the unfinished tasks of the current file, so finalizing it drops done tasks and nothing
  else.\<close>

theorem tasks_file_always_loads:
  assumes "reach task_init (task_step redact render) s"
  shows "\<exists>ts. load_tasks (ts_file s) = Inr ts \<and> length ts \<le> 64
    \<and> list_all (\<lambda>t. validate t = None) ts \<and> distinct (map task_id ts)
    \<and> (\<forall>us. ts_staged s = Some us \<longrightarrow> us = filter (\<lambda>t. status t \<noteq> Done) ts)"
  using task_runs.reach_inv[OF assms]
  by (auto simp: tasks_ok_def load_tasks_Inr maxTaskCount_def unfinished_def list_all_iff
      split: option.splits)

definition wit_store :: task_store where
  "wit_store = \<lparr>ts_file = TasksMissing, ts_renewing = False, ts_staged = None, ts_saves = []\<rparr>"

definition wit_create :: task_create where
  "wit_create = \<lparr>cr_title = ''t'', cr_description = ''d'', cr_acceptance = [],
     cr_status = Doing, cr_status_reason = [], cr_priority = PriorityOther []\<rparr>"

definition wit_task :: "string \<Rightarrow> task" where
  "wit_task i = \<lparr>task_id = i, title = ''t'', description = ''d'', acceptance = [], status = Doing,
     status_reason = [], priority = P1, continuation_count = 0, updated_at = 5000000\<rparr>"

definition wit_one :: task_store where
  "wit_one = wit_store\<lparr>ts_file := TasksDoc 1 [wit_task ''A'']\<rparr>"

definition wit_created :: "(task_error + task) \<times> task_store" where
  "wit_created = Create (\<lambda>s. s) title ''T1'' 5000000 wit_create wit_store"

theorem tasks_file_always_loads_witness:
  "\<exists>ts. load_tasks (ts_file (snd wit_created)) = Inr ts \<and> length ts \<le> 64"
proof -
  have i: "reach task_init (task_step (\<lambda>s. s) title) wit_store"
    by (rule reach.start) (simp add: task_init_def wit_store_def)
  have "task_step (\<lambda>s. s) title wit_store (LCreate ''T1'' 5000000 wit_create) (snd wit_created)"
    unfolding wit_created_def
    by (rule task_step.step_create) (simp add: wit_store_def load_tasks_def)
  with i have "reach task_init (task_step (\<lambda>s. s) title) (snd wit_created)" by (rule reach.move)
  from tasks_file_always_loads[OF this] show ?thesis by blast
qed

section \<open>Single operations\<close>

text \<open>An update that succeeds replaces exactly the task with that id, by its updated and validated
  value, leaves every other task and their order alone, and the new list is within the capacity;
  it fails as not found exactly when the id is unknown (and the file can be read and is free).\<close>

theorem update_touches_one_task:
  assumes "load_tasks (ts_file s) = Inr ts" and "\<not> ts_renewing s"
    and "Update redact render now i u s = (r, s')"
  shows "(r = Inl (NotFound i) \<longleftrightarrow> i \<notin> task_id ` set ts)
    \<and> (\<forall>t'. r = Inr t' \<longrightarrow> (\<exists>pre t post. ts = pre @ t # post \<and> task_id t = i
         \<and> t' = apply_update redact now u t \<and> validate t' = None
         \<and> ts_file s' = TasksDoc 1 (pre @ t' # post)
         \<and> validateCapacity render (pre @ t' # post) = None))"
proof (cases "index_of i ts")
  case None
  with assms show ?thesis by (auto simp: Update_eq index_of_None)
next
  case (Some k)
  let ?t = "apply_update redact now u (ts ! k)"
  have k: "k < length ts" "task_id (ts ! k) = i" using index_of_Some[OF Some] by auto
  have mem: "i \<in> task_id ` set ts" using k by (auto intro: rev_image_eqI)
  have up: "ts[k := ?t] = take k ts @ ?t # drop (Suc k) ts" using k(1) by (rule upd_conv_take_nth_drop)
  have sp: "ts = take k ts @ ts ! k # drop (Suc k) ts" using k(1) by (rule id_take_nth_drop)
  have nf: "validate x \<noteq> Some (NotFound j)" "validateCapacity render xs \<noteq> Some (NotFound j)" for x xs j
    by (auto simp: validate_def validateCapacity_def split: status.splits priority.splits option.splits)
  have save: "fst (saveLocked xs s) \<noteq> Inl (NotFound j)" for xs j
    by (auto simp: saveLocked_def split: list.splits write_result.splits)
  have "r \<noteq> Inl (NotFound i)"
    using assms Some nf save[of "ts[k := ?t]" i]
    by (auto simp: Update_eq Let_def andThen_def split: option.splits prod.splits sum.splits)
  moreover have "t' = ?t \<and> validate ?t = None \<and> validateCapacity render (ts[k := ?t]) = None
      \<and> ts_file s' = TasksDoc 1 (ts[k := ?t])" if "r = Inr t'" for t'
    using assms Some that save_ok[of "ts[k := ?t]" s]
    by (auto simp: Update_eq Let_def andThen_def split: option.splits prod.splits sum.splits)
  ultimately show ?thesis using mem k(2) sp unfolding up by blast
qed

theorem update_touches_one_task_witness:
  "\<exists>t' s'. Update (\<lambda>s. s) title 9000000 ''A''
       \<lparr>up_title = None, up_description = None, up_acceptance = None, up_status = Done,
        up_status_reason = None, up_priority = PriorityOther []\<rparr> wit_one = (Inr t', s')
     \<and> ts_file s' = TasksDoc 1 [t'] \<and> validate t' = None"
proof -
  let ?u = "\<lparr>up_title = None, up_description = None, up_acceptance = None, up_status = Done,
        up_status_reason = None, up_priority = PriorityOther []\<rparr>"
  let ?out = "Update (\<lambda>s. s) title 9000000 ''A'' ?u wit_one"
  have l: "load_tasks (ts_file wit_one) = Inr [wit_task ''A'']" by code_simp
  have n: "\<not> ts_renewing wit_one" by code_simp
  have "case fst ?out of Inl _ \<Rightarrow> False | Inr _ \<Rightarrow> True" by code_simp
  then obtain t' where "fst ?out = Inr t'" by (auto split: sum.splits)
  then have o: "?out = (Inr t', snd ?out)" by (simp add: prod_eq_iff)
  from update_touches_one_task[OF l n o] obtain pre t post where
    "[wit_task ''A''] = pre @ t # post" "ts_file (snd ?out) = TasksDoc 1 (pre @ t' # post)"
    "validate t' = None" by blast
  then have "ts_file (snd ?out) = TasksDoc 1 [t'] \<and> validate t' = None" by (cases pre) auto
  with o show ?thesis by blast
qed

lemma selected_in: "selectedTask ts = Some t \<Longrightarrow> t \<in> set ts"
proof -
  have "foldl select_step z ts = z \<or> foldl select_step z ts \<in> set ts" for z
  proof (induction ts arbitrary: z)
    case (Cons t ts)
    have "select_step z t = z \<or> select_step z t = t" by (simp add: select_step_def)
    with Cons[of "select_step z t"] show ?case by auto
  qed simp
  from this[of zero_task] show "selectedTask ts = Some t \<Longrightarrow> t \<in> set ts"
    by (auto simp: selectedTask_def Let_def zero_task_def split: if_splits)
qed

text \<open>C29: a continuation is recorded only for the exact task value it was decided on, and at most once:
  when it is recorded, that task's count goes up by one and nothing else of the list changes, and
  recording the same decision again, at any time, is refused and changes nothing.\<close>

theorem continuation_recorded_at_most_once:
  assumes "load_tasks (ts_file s) = Inr ts" and "truncate_ms now \<noteq> 0"
    and "RecordContinuation now d s = (Inr True, s')"
  shows "selectedTask ts = Some (gd_task d)
    \<and> (\<exists>pre post. ts = pre @ gd_task d # post \<and> ts_file s' = TasksDoc 1 (pre @ continued now (gd_task d) # post))
    \<and> RecordContinuation now' d s' = (Inr False, s')"
proof -
  let ?t = "gd_task d"
  from assms(3,1) have b: "gd_block_stop d" "\<not> ts_renewing s" "selectedTask ts = Some ?t"
    and sv: "andThen (saveLocked (bump now (task_id ?t) ts)) (\<lambda>_. ret True) s = (Inr True, s')"
    by (auto simp: RecordContinuation_eq split: if_splits)
  have d: "distinct (map task_id ts)" using assms(1) by (simp add: load_tasks_Inr)
  have mem: "?t \<in> set ts" using b(3) by (rule selected_in)
  then obtain k where k: "index_of (task_id ?t) ts = Some k"
    by (cases "index_of (task_id ?t) ts") (auto simp: index_of_None)
  note ik = index_of_Some[OF k]
  have tk: "ts ! k = ?t"
    using ik mem d by (metis distinct_map in_set_conv_nth inj_on_def nth_mem)
  have up: "bump now (task_id ?t) ts = take k ts @ continued now ?t # drop (Suc k) ts"
    using k ik tk by (simp add: bump_def upd_conv_take_nth_drop)
  have sp: "ts = take k ts @ ?t # drop (Suc k) ts" using ik tk by (metis id_take_nth_drop)
  have f: "ts_file s' = TasksDoc 1 (bump now (task_id ?t) ts)" and r: "ts_renewing s' = ts_renewing s"
  proof -
    have "saveLocked (bump now (task_id ?t) ts) s = (Inr (), s')"
      using sv by (auto simp: andThen_def split: prod.splits sum.splits)
    then show "ts_file s' = TasksDoc 1 (bump now (task_id ?t) ts)" "ts_renewing s' = ts_renewing s"
      using save_ok[of "bump now (task_id ?t) ts" s] save_frame(1)[of "bump now (task_id ?t) ts" s]
      by simp_all
  qed
  have l': "load_tasks (ts_file s') = Inr (bump now (task_id ?t) ts)"
    using bump_ok[OF assms(1,2)] f by simp
  have "?t \<notin> set (bump now (task_id ?t) ts)"
  proof
    assume "?t \<in> set (bump now (task_id ?t) ts)"
    moreover have "continued now ?t \<noteq> ?t"
      by (metis continued_def task.select_convs(8) task.update_convs(8,9) task.surjective add_cancel_left_right
          zero_neq_one)
    moreover have "?t \<notin> set (take k ts) \<union> set (drop (Suc k) ts)"
      using d unfolding sp[symmetric] by (subst (asm) sp) (auto simp: rev_image_eqI)
    ultimately show False unfolding up by auto
  qed
  then have "selectedTask (bump now (task_id ?t) ts) \<noteq> Some ?t" using selected_in by blast
  then have "RecordContinuation now' d s' = (Inr False, s')"
    using l' b r by (simp add: RecordContinuation_eq)
  with b(3) sp f up show ?thesis by metis
qed

theorem continuation_recorded_at_most_once_witness:
  "let d = \<lparr>gd_task = wit_task ''A'', gd_block_stop = True, gd_prompt = [], gd_reason = []\<rparr>;
       s' = snd (RecordContinuation 6000000 d wit_one) in
   fst (RecordContinuation 6000000 d wit_one) = Inr True
   \<and> RecordContinuation 7000000 d s' = (Inr False, s')"
proof -
  let ?d = "\<lparr>gd_task = wit_task ''A'', gd_block_stop = True, gd_prompt = [], gd_reason = []\<rparr>"
  let ?out = "RecordContinuation 6000000 ?d wit_one"
  have l: "load_tasks (ts_file wit_one) = Inr [wit_task ''A'']" by code_simp
  have n: "truncate_ms 6000000 \<noteq> 0" by (simp add: truncate_ms_def)
  have f: "fst ?out = Inr True" by code_simp
  then have "?out = (Inr True, snd ?out)" by (simp add: prod_eq_iff)
  from continuation_recorded_at_most_once[OF l n this] f show ?thesis by (simp add: Let_def)
qed

text \<open>Recording a continuation never uses up room: the capacity check reserves the largest count
  and the longest time stamp, so a list that was within the capacity still is after any number of
  continuations of its tasks.\<close>

theorem continuation_keeps_capacity:
  "validateCapacity render (bump now i ts) = validateCapacity render ts"
proof -
  have r: "reserve (continued now t) = reserve t" for t by (simp add: reserve_def continued_def)
  have "map reserve (bump now i ts) = map reserve ts"
  proof (cases "index_of i ts")
    case (Some k)
    then show ?thesis
      using index_of_Some[OF Some]
      by (simp add: bump_def map_update r) (metis length_map list_update_id nth_map)
  qed (simp add: bump_def)
  moreover have "length (bump now i ts) = length ts" by (simp add: bump_def split: option.splits)
  ultimately show ?thesis by (simp add: validateCapacity_def)
qed

section \<open>Selection\<close>

definition active :: "task \<Rightarrow> bool" where
  "active t \<longleftrightarrow> status t = Doing \<or> status t = Todo"

definition priority_rank :: "priority \<Rightarrow> nat" where
  "priority_rank p = (case p of P0 \<Rightarrow> 0 | P1 \<Rightarrow> 1 | _ \<Rightarrow> 2)"

definition weight :: "task \<Rightarrow> nat" where
  "weight t = (if status t = Doing then 0 else 3) + priority_rank (priority t)"

lemma valid_priority: "validate t = None \<Longrightarrow> priority t \<in> {P0, P1, P2}"
  by (auto simp: validate_def split: if_splits status.splits priority.splits)

lemma bytes_less_priority:
  "p \<in> {P0, P1, P2} \<Longrightarrow> r \<in> {P0, P1, P2} \<Longrightarrow>
   bytes_less (priority_text p) (priority_text r) \<longleftrightarrow> priority_rank p < priority_rank r"
  by (auto simp: priority_text_def priority_rank_def)

lemma priority_rank_le: "priority_rank p \<le> 2"
  by (simp add: priority_rank_def split: priority.splits)

lemma select_step_weight:
  assumes "validate t = None" and "validate sel = None" and "active sel"
  shows "select_step sel t = (if active t \<and> weight t < weight sel then t else sel)"
  using assms(3) valid_id[OF assms(2)] priority_rank_le[of "priority t"] priority_rank_le[of "priority sel"]
    bytes_less_priority[OF valid_priority[OF assms(1)] valid_priority[OF assms(2)]]
  by (cases "status t") (auto simp: select_step_def active_def weight_def)

lemma foldl_select:
  assumes "\<forall>t \<in> set ts. validate t = None" and "validate sel = None" and "active sel"
  shows "(foldl select_step sel ts = sel \<and> (\<forall>u \<in> set ts. active u \<longrightarrow> weight sel \<le> weight u))
    \<or> (\<exists>pre t post. ts = pre @ t # post \<and> foldl select_step sel ts = t \<and> active t
        \<and> weight t < weight sel \<and> (\<forall>u \<in> set pre. active u \<longrightarrow> weight t < weight u)
        \<and> (\<forall>u \<in> set post. active u \<longrightarrow> weight t \<le> weight u))"
  using assms
proof (induction ts rule: rev_induct)
  case (snoc x xs)
  let ?s = "foldl select_step sel xs"
  have IH: "(?s = sel \<and> (\<forall>u \<in> set xs. active u \<longrightarrow> weight sel \<le> weight u))
    \<or> (\<exists>pre t post. xs = pre @ t # post \<and> ?s = t \<and> active t
        \<and> weight t < weight sel \<and> (\<forall>u \<in> set pre. active u \<longrightarrow> weight t < weight u)
        \<and> (\<forall>u \<in> set post. active u \<longrightarrow> weight t \<le> weight u))"
    using snoc by simp
  then have "?s = sel \<or> ?s \<in> set xs" and act: "active ?s"
    using snoc.prems(3) by (metis in_set_conv_decomp, metis)
  then have "validate ?s = None" using snoc.prems by auto
  then have step: "foldl select_step sel (xs @ [x])
      = (if active x \<and> weight x < weight ?s then x else ?s)"
    using snoc.prems(1) act by (simp add: select_step_weight)
  show ?case
  proof (cases "active x \<and> weight x < weight ?s")
    case True
    from IH have "weight ?s \<le> weight sel" "\<forall>u \<in> set xs. active u \<longrightarrow> weight ?s \<le> weight u" by fastforce+
    with True step show ?thesis by (intro disjI2 exI[of _ xs] exI[of _ x] exI[of _ "[]"]) fastforce
  next
    case False
    from IH show ?thesis
    proof
      assume "?s = sel \<and> (\<forall>u \<in> set xs. active u \<longrightarrow> weight sel \<le> weight u)"
      with False step show ?thesis by auto
    next
      assume "\<exists>pre t post. xs = pre @ t # post \<and> ?s = t \<and> active t
        \<and> weight t < weight sel \<and> (\<forall>u \<in> set pre. active u \<longrightarrow> weight t < weight u)
        \<and> (\<forall>u \<in> set post. active u \<longrightarrow> weight t \<le> weight u)"
      then obtain pre t post where "xs = pre @ t # post" "?s = t" "active t" "weight t < weight sel"
        "\<forall>u \<in> set pre. active u \<longrightarrow> weight t < weight u" "\<forall>u \<in> set post. active u \<longrightarrow> weight t \<le> weight u"
        by blast
      with False step show ?thesis
        by (intro disjI2 exI[of _ pre] exI[of _ t] exI[of _ "post @ [x]"]) auto
    qed
  qed
qed simp

text \<open>C30: of the tasks in a loaded list the gate selects one that is being done before one that is to
  do, then the one with the higher priority, then the one listed first; it selects none exactly
  when no task is to do or being done.\<close>

theorem selected_task_is_first_best:
  assumes "load_tasks f = Inr ts"
  shows "case selectedTask ts of
      None \<Rightarrow> \<not> list_ex active ts
    | Some t \<Rightarrow> \<exists>pre post. ts = pre @ t # post \<and> active t
        \<and> (\<forall>u \<in> set pre. active u \<longrightarrow> weight t < weight u)
        \<and> (\<forall>u \<in> set post. active u \<longrightarrow> weight t \<le> weight u)"
proof -
  have v: "\<forall>t \<in> set ts. validate t = None" using assms by (simp add: load_tasks_Inr)
  have z: "foldl select_step zero_task xs = zero_task" if "\<forall>u \<in> set xs. \<not> active u" for xs
    using that by (induction xs) (auto simp: select_step_def active_def)
  show ?thesis
  proof (cases "list_ex active ts")
    case False
    then have "selectedTask ts = None"
      using z[of ts] by (simp add: selectedTask_def zero_task_def list_ex_iff)
    with False show ?thesis by simp
  next
    case True
    then obtain xs t ys where ts: "ts = xs @ t # ys" and a: "active t" and n: "\<forall>u \<in> set xs. \<not> active u"
      using split_list_first_prop[of ts active] by (auto simp: list_ex_iff)
    have vt: "validate t = None" and vy: "\<forall>u \<in> set ys. validate u = None" using v ts by auto
    have "select_step zero_task t = t" using a by (auto simp: select_step_def active_def zero_task_def)
    then have fold: "foldl select_step zero_task ts = foldl select_step t ys"
      using z[OF n] by (simp add: ts)
    from foldl_select[OF vy vt a] show ?thesis
    proof (elim disjE exE conjE)
      assume "foldl select_step t ys = t" and "\<forall>u \<in> set ys. active u \<longrightarrow> weight t \<le> weight u"
      moreover from this(1) have "selectedTask ts = Some t"
        using fold valid_id[OF vt] by (simp add: selectedTask_def)
      moreover have "\<exists>pre post. ts = pre @ t # post \<and> active t
        \<and> (\<forall>u \<in> set pre. active u \<longrightarrow> weight t < weight u)
        \<and> (\<forall>u \<in> set post. active u \<longrightarrow> weight t \<le> weight u)"
        using ts a n calculation by blast
      ultimately show ?thesis by simp
    next
      fix pre s post
      assume s: "ys = pre @ s # post" "foldl select_step t ys = s" "active s" "weight s < weight t"
        "\<forall>u \<in> set pre. active u \<longrightarrow> weight s < weight u" "\<forall>u \<in> set post. active u \<longrightarrow> weight s \<le> weight u"
      have "selectedTask ts = Some s"
        using fold s(2) valid_id[of s] vy s(1) by (simp add: selectedTask_def)
      moreover have "\<exists>pre post. ts = pre @ s # post \<and> active s
        \<and> (\<forall>u \<in> set pre. active u \<longrightarrow> weight s < weight u)
        \<and> (\<forall>u \<in> set post. active u \<longrightarrow> weight s \<le> weight u)"
        by (rule exI[of _ "xs @ t # pre"], rule exI[of _ post]) (use s(1,3-6) ts n in auto)
      ultimately show ?thesis by simp
    qed
  qed
qed

theorem selected_task_is_first_best_witness:
  "selectedTask [(wit_task ''A'')\<lparr>status := Todo, priority := P0\<rparr>, wit_task ''B'']
     = Some (wit_task ''B'') \<and> active (wit_task ''B'')"
proof -
  let ?ts = "[(wit_task ''A'')\<lparr>status := Todo, priority := P0\<rparr>, wit_task ''B'']"
  have l: "load_tasks (TasksDoc 1 ?ts) = Inr ?ts" by code_simp
  have s: "selectedTask ?ts = Some (wit_task ''B'')" by code_simp
  from selected_task_is_first_best[OF l] have "active (wit_task ''B'')" unfolding s by auto
  with s show ?thesis by simp
qed

end
