(* ===== verification/GoStrings.thy ===== *)
theory GoStrings
  imports Prelude
begin

text \<open>
  The functions of Go's \<^verbatim>\<open>strings\<close> and \<^verbatim>\<open>path/filepath\<close> packages that several components use, on byte
  strings and for a system whose separator is the forward slash.
\<close>

section \<open>Splitting and joining\<close>

text \<open>\<^verbatim>\<open>strings.Split\<close> with a separator of one byte.\<close>

fun split_on :: "char \<Rightarrow> string \<Rightarrow> string list" where
  "split_on c [] = [[]]"
| "split_on c (x # xs) = (if x = c then [] # split_on c xs
     else case split_on c xs of [] \<Rightarrow> [[x]] | w # ws \<Rightarrow> (x # w) # ws)"

lemma split_on_not_Nil [simp]: "split_on c s \<noteq> []"
  by (induction s) (auto split: list.splits)

lemma split_on_free: "c \<notin> set s \<Longrightarrow> split_on c s = [s]"
  by (induction s) auto

lemma split_on_append: "c \<notin> set w \<Longrightarrow> split_on c (w @ c # s) = w # split_on c s"
  by (induction w) auto

lemma split_on_join:
  "ws \<noteq> [] \<Longrightarrow> list_all (\<lambda>w. c \<notin> set w) ws \<Longrightarrow> split_on c (join [c] ws) = ws"
  by (induction "[c]" ws rule: join.induct) (auto simp: split_on_free split_on_append)

lemma join_split_on: "join [c] (split_on c s) = s"
proof (induction s)
  case (Cons x s)
  show ?case
  proof (cases "split_on c s")
    case (Cons w ws)
    with \<open>join [c] (split_on c s) = s\<close> show ?thesis by (cases ws) auto
  qed simp
qed simp

lemma split_on_pieces: "list_all (\<lambda>w. c \<notin> set w) (split_on c s)"
  by (induction s) (auto split: list.splits)

section \<open>Searching\<close>

text \<open>\<^verbatim>\<open>strings.Index\<close>, \<^verbatim>\<open>strings.Count\<close> (occurrences that do not overlap, for a non-empty
  substring), \<^verbatim>\<open>strings.Replace\<close> of the first occurrence and \<^verbatim>\<open>strings.ReplaceAll\<close>.\<close>

fun str_index :: "string \<Rightarrow> string \<Rightarrow> nat option" where
  "str_index sub [] = (if sub = [] then Some 0 else None)"
| "str_index sub (x # xs) =
     (if has_prefix (x # xs) sub then Some 0 else map_option Suc (str_index sub xs))"

function str_count :: "string \<Rightarrow> string \<Rightarrow> nat" where
  "str_count sub s = (if sub = [] then Suc (length s)
     else case str_index sub s of None \<Rightarrow> 0
     | Some i \<Rightarrow> Suc (str_count sub (drop (i + length sub) s)))"
  by pat_completeness auto

lemma str_index_Some: "str_index sub s = Some i \<Longrightarrow> i + length sub \<le> length s \<and> take (length sub) (drop i s) = sub"
proof (induction s arbitrary: i)
  case (Cons x xs)
  show ?case
  proof (cases "has_prefix (x # xs) sub")
    case True
    with Cons.prems show ?thesis
      by (auto simp: has_prefix_def) (metis length_Cons length_take min.absorb_iff2)
  next
    case False
    with Cons show ?thesis by auto
  qed
qed (auto split: if_splits)

termination str_count
proof (relation "measure (\<lambda>(sub, s). length s)")
  fix sub s :: string and i
  assume "sub \<noteq> []" "str_index sub s = Some i"
  with str_index_Some[of sub s i] show "((sub, drop (i + length sub) s), sub, s) \<in> measure (\<lambda>(sub, s). length s)"
    by (cases sub) auto
qed simp

declare str_count.simps [simp del]

definition str_contains :: "string \<Rightarrow> string \<Rightarrow> bool" where
  "str_contains s sub \<longleftrightarrow> str_index sub s \<noteq> None"

definition replace_first :: "string \<Rightarrow> string \<Rightarrow> string \<Rightarrow> string" where
  "replace_first s old new = (case str_index old s of None \<Rightarrow> s
     | Some i \<Rightarrow> take i s @ new @ drop (i + length old) s)"

function replace_all :: "string \<Rightarrow> string \<Rightarrow> string \<Rightarrow> string" where
  "replace_all s old new = (if old = [] then s
     else case str_index old s of None \<Rightarrow> s
     | Some i \<Rightarrow> take i s @ new @ replace_all (drop (i + length old) s) old new)"
  by pat_completeness auto
termination
proof (relation "measure (\<lambda>(s, old, new). length s)")
  fix s old new :: string and i
  assume "old \<noteq> []" "str_index old s = Some i"
  with str_index_Some[of old s i]
  show "((drop (i + length old) s, old, new), s, old, new) \<in> measure (\<lambda>(s, old, new). length s)"
    by (cases old) auto
qed simp

declare replace_all.simps [simp del]

lemma str_index_None: "str_index sub s = None \<longleftrightarrow> (\<forall>i \<le> length s. \<not> prefix sub (drop i s))"
proof (induction s)
  case (Cons x xs)
  have "(\<forall>i \<le> length (x # xs). \<not> prefix sub (drop i (x # xs)))
      \<longleftrightarrow> \<not> prefix sub (x # xs) \<and> (\<forall>i \<le> length xs. \<not> prefix sub (drop i xs))"
    unfolding less_Suc_eq_le[symmetric] by (simp add: All_less_Suc2)
  with Cons show ?case by (simp add: has_prefix_iff)
qed auto

text \<open>The index is the first one.\<close>

lemma str_index_first: "str_index sub s = Some i \<Longrightarrow> j < i \<Longrightarrow> \<not> prefix sub (drop j s)"
proof (induction s arbitrary: i j)
  case (Cons x xs)
  then show ?case
    by (cases j) (auto simp: has_prefix_iff split: if_splits)
qed (auto split: if_splits)

lemma str_index_split:
  assumes "str_index sub s = Some i"
  shows "s = take i s @ sub @ drop (i + length sub) s"
  using str_index_Some[OF assms] by (metis append_take_drop_id drop_drop add.commute)

lemma replace_all_absent: "str_index old s = None \<Longrightarrow> replace_all s old new = s"
  by (simp add: replace_all.simps)

lemma str_index_char_absent: "c \<in> set sub \<Longrightarrow> c \<notin> set s \<Longrightarrow> str_index sub s = None"
  unfolding str_index_None by (metis in_set_dropD prefix_def set_append UnCI)

section \<open>Paths\<close>

text \<open>
  \<^verbatim>\<open>filepath.Clean\<close>: empty and dot components go, a dot-dot component takes the one before it away
  (and is dropped at the root), and the empty result is a dot. The components are kept in reverse.
\<close>

definition clean_step :: "bool \<Rightarrow> string \<Rightarrow> string list \<Rightarrow> string list" where
  "clean_step rooted c st =
     (if c = [] \<or> c = ''.'' then st
      else if c = ''..''
      then (case st of [] \<Rightarrow> (if rooted then [] else [''..'']) | x # xs \<Rightarrow> (if x = ''..'' then ''..'' # st else xs))
      else c # st)"

definition is_abs :: "string \<Rightarrow> bool" where
  "is_abs s \<longleftrightarrow> has_prefix s ''/''"

definition clean_comps :: "string \<Rightarrow> string list" where
  "clean_comps s = rev (fold (clean_step (is_abs s)) (split_on (CHR ''/'') s) [])"

definition clean_path :: "string \<Rightarrow> string" where
  "clean_path s = (if is_abs s then ''/'' @ join ''/'' (clean_comps s)
     else if clean_comps s = [] then ''.'' else join ''/'' (clean_comps s))"

fun drop_common :: "string list \<Rightarrow> string list \<Rightarrow> string list \<times> string list" where
  "drop_common (x # xs) (y # ys) = (if x = y then drop_common xs ys else (x # xs, y # ys))"
| "drop_common xs ys = (xs, ys)"

text \<open>\<^verbatim>\<open>filepath.Rel\<close> for two absolute paths.\<close>

definition rel_path :: "string \<Rightarrow> string \<Rightarrow> string" where
  "rel_path base targ = (case drop_common (clean_comps base) (clean_comps targ) of
     (up, down) \<Rightarrow> (if up = [] \<and> down = [] then ''.''
       else join ''/'' (replicate (length up) ''..'' @ down)))"

end
