(* ===== verification/ContextRenewal.thy ===== *)
theory ContextRenewal
  imports GoStrings
begin

text \<open>
  The file transaction behind a context renewal,
  \<^verbatim>\<open>internal/framework/thread/context_renewal_files.go\<close>: module files are staged for removal or
  replacement under the current Generation, the Generation commit decides, and a manifest lets the
  next opener of the Thread finish what a crash interrupted. Generation ids are those of
  \<^verbatim>\<open>types.go\<close>.

  The disk of one Thread directory is a record: the module files, the backups (a backup is named by
  the file and the Generation it was staged under), the manifest, and the outcomes of the coming
  writes. An I/O step that reports an error may or may not have had its effect. A crash is a step
  that fails with every later step of the same call failing too, and the transactions held in memory
  forgotten.
\<close>

section \<open>Generation ids\<close>

definition is_digit :: "char \<Rightarrow> bool" where
  "is_digit c \<longleftrightarrow> byte_in 48 57 c"

definition digit_value :: "char \<Rightarrow> nat" where
  "digit_value c = of_char c - 48"

definition atoi :: "string \<Rightarrow> nat" where
  "atoi s = foldl (\<lambda>n c. 10 * n + digit_value c) 0 s"

definition generationID :: "nat \<Rightarrow> string" where
  "generationID n = ''g'' @ replicate (6 - length (itoa n)) (CHR 48) @ itoa n"

text \<open>
  \<^verbatim>\<open>parseGenerationID\<close>: \<^verbatim>\<open>strconv.Atoi\<close> also takes a sign, but then printing the number again does
  not give the id back.
\<close>

definition parseGenerationID :: "string \<Rightarrow> nat option" where
  "parseGenerationID s = (if length s \<noteq> 7 \<or> hd s \<noteq> CHR ''g'' \<or> \<not> list_all is_digit (tl s) then None
     else let n = atoi (tl s) in if n = 0 \<or> generationID n \<noteq> s then None else Some n)"

section \<open>Data\<close>

record renewal_entry =
  re_path :: string
  re_generation :: string
  re_replace :: bool

datatype manifest_file = ManifestMissing | ManifestBad | ManifestDoc int "renewal_entry list"

datatype renewal_error =
    BadGeneration string | BadPath string | BadParent string | BadManifest | BadVersion int
  | DuplicateEntry string | InProgress | BackupExists string | RestoreConflict string | IoError

record disk =
  d_files :: "(string \<times> string) list"
  d_backups :: "((string \<times> string) \<times> string) list"
  d_manifest :: manifest_file
  d_bad_parents :: "string set"
  d_io :: "write_result list"
  d_active :: "string set"
  d_count :: int

record renewal_tx =
  tx_entry :: renewal_entry
  tx_released :: bool
  tx_completed :: bool

type_synonym 'a disk_op = "(disk, renewal_error, 'a) op"

text \<open>
  The path check of \<^verbatim>\<open>validateContextRenewalFile\<close> on a system with forward slashes: local, already
  clean, not the directory itself and without backslashes, that is, non-empty components none of
  which is \<^verbatim>\<open>.\<close> or \<^verbatim>\<open>..\<close>. \<open>d_bad_parents\<close> are the paths with a parent that is not a real directory.
\<close>

definition valid_path :: "string \<Rightarrow> bool" where
  "valid_path p \<longleftrightarrow> CHR 0x5C \<notin> set p
     \<and> list_all (\<lambda>w. w \<notin> {[], ''.'', ''..''}) (split_on (CHR ''/'') p)"

definition validateContextRenewalFile :: "disk \<Rightarrow> renewal_entry \<Rightarrow> renewal_error option" where
  "validateContextRenewalFile d e =
     (if parseGenerationID (re_generation e) = None then Some (BadGeneration (re_generation e))
      else if \<not> valid_path (re_path e) then Some (BadPath (re_path e))
      else if re_path e \<in> d_bad_parents d then Some (BadParent (re_path e)) else None)"

section \<open>Manifest\<close>

fun check_entries :: "disk \<Rightarrow> renewal_entry list \<Rightarrow> string set \<Rightarrow> renewal_error option" where
  "check_entries d [] seen = None"
| "check_entries d (e # es) seen = (case validateContextRenewalFile d e of
      Some x \<Rightarrow> Some x
    | None \<Rightarrow> (if re_path e \<in> seen then Some (DuplicateEntry (re_path e))
              else check_entries d es (insert (re_path e) seen)))"

definition manifest_entries :: "disk \<Rightarrow> renewal_error + renewal_entry list" where
  "manifest_entries d = (case d_manifest d of
      ManifestMissing \<Rightarrow> Inr []
    | ManifestBad \<Rightarrow> Inl BadManifest
    | ManifestDoc v es \<Rightarrow> (if v \<noteq> 1 then Inl (BadVersion v)
        else case check_entries d es {} of Some x \<Rightarrow> Inl x | None \<Rightarrow> Inr es))"

definition readContextRenewalManifest :: "renewal_entry list disk_op" where
  "readContextRenewalManifest d = (manifest_entries d, d)"

text \<open>
  One I/O step that changes the disk. Removing the last manifest and syncing its directory count as
  one step: a removal whose sync fails is a failed step that had its effect.
\<close>

definition io_step :: "(disk \<Rightarrow> disk) \<Rightarrow> unit disk_op" where
  "io_step f d = (case d_io d of
      [] \<Rightarrow> (Inr (), f d)
    | WriteOk # ws \<Rightarrow> (Inr (), f (d\<lparr>d_io := ws\<rparr>))
    | WriteFailed rep # ws \<Rightarrow> (Inl IoError, (if rep then f (d\<lparr>d_io := ws\<rparr>) else d\<lparr>d_io := ws\<rparr>)))"

definition writeContextRenewalManifest :: "renewal_entry list \<Rightarrow> unit disk_op" where
  "writeContextRenewalManifest es = io_step (\<lambda>d. d\<lparr>d_manifest :=
     (if es = [] then ManifestMissing else ManifestDoc 1 es)\<rparr>)"

definition sync_dir :: "unit disk_op" where
  "sync_dir = io_step (\<lambda>d. d)"

section \<open>Finishing one file\<close>

definition backup_key :: "renewal_entry \<Rightarrow> string \<times> string" where
  "backup_key e = (re_path e, re_generation e)"

definition put_file :: "string \<Rightarrow> string \<Rightarrow> disk \<Rightarrow> disk" where
  "put_file p c d = d\<lparr>d_files := AList.update p c (d_files d)\<rparr>"

definition remove_backup :: "renewal_entry \<Rightarrow> disk \<Rightarrow> disk" where
  "remove_backup e d = d\<lparr>d_backups := AList.delete (backup_key e) (d_backups d)\<rparr>"

definition rename_to_backup :: "renewal_entry \<Rightarrow> string \<Rightarrow> disk \<Rightarrow> disk" where
  "rename_to_backup e c d = d\<lparr>d_files := AList.delete (re_path e) (d_files d),
     d_backups := AList.update (backup_key e) c (d_backups d)\<rparr>"

definition rename_from_backup :: "renewal_entry \<Rightarrow> string \<Rightarrow> disk \<Rightarrow> disk" where
  "rename_from_backup e c d = d\<lparr>d_files := AList.update (re_path e) c (d_files d),
     d_backups := AList.delete (backup_key e) (d_backups d)\<rparr>"

definition finishContextRenewalFile :: "renewal_entry \<Rightarrow> bool \<Rightarrow> unit disk_op" where
  "finishContextRenewalFile e restore d =
     (case validateContextRenewalFile d e of
        Some x \<Rightarrow> (Inl x, d)
      | None \<Rightarrow>
         (case map_of (d_backups d) (backup_key e) of
            None \<Rightarrow> sync_dir d
          | Some c \<Rightarrow>
              (if re_replace e
               then (if restore
                     then andThen (io_step (remove_backup e)) (\<lambda>_. sync_dir) d
                     else andThen (io_step (put_file (re_path e) c)) (\<lambda>_.
                            andThen (io_step (remove_backup e)) (\<lambda>_. sync_dir)) d)
               else if restore
               then (if map_of (d_files d) (re_path e) \<noteq> None
                     then (Inl (RestoreConflict (re_path e)), d)
                     else andThen (io_step (rename_from_backup e c)) (\<lambda>_. sync_dir) d)
               else andThen (io_step (remove_backup e)) (\<lambda>_. sync_dir) d)))"

definition recoverContextRenewalFile :: "renewal_entry \<Rightarrow> string \<Rightarrow> unit disk_op" where
  "recoverContextRenewalFile e current = finishContextRenewalFile e (re_generation e = current)"

section \<open>Recovery, staging and completion\<close>

fun recover_entries :: "renewal_entry list \<Rightarrow> renewal_entry list \<Rightarrow> string \<Rightarrow> unit disk_op" where
  "recover_entries [] left current = ret ()"
| "recover_entries (e # es) left current =
     andThen (recoverContextRenewalFile e current) (\<lambda>_.
       (let left' = filter (\<lambda>x. x \<noteq> e) left in
        andThen (writeContextRenewalManifest left') (\<lambda>_. recover_entries es left' current)))"

definition recoverContextRenewalFiles :: "string \<Rightarrow> unit disk_op" where
  "recoverContextRenewalFiles current d =
     (if 0 < d_count d then (Inl InProgress, d)
      else if parseGenerationID current = None then (Inl (BadGeneration current), d)
      else andThen readContextRenewalManifest (\<lambda>es. recover_entries es es current) d)"

definition contextRenewalFilesPresent :: "bool disk_op" where
  "contextRenewalFilesPresent = andThen readContextRenewalManifest (\<lambda>es. ret (es \<noteq> []))"

text \<open>
  \<open>metadata\<close> is what reading the Thread's projection file gives: an error or the id of its current
  Generation.
\<close>

definition recoverContextRenewalFilesFromMetadata :: "renewal_error + string \<Rightarrow> unit disk_op" where
  "recoverContextRenewalFilesFromMetadata metadata = andThen contextRenewalFilesPresent (\<lambda>present.
     (if \<not> present then ret ()
      else case metadata of Inl x \<Rightarrow> raise x | Inr current \<Rightarrow> recoverContextRenewalFiles current))"

definition CheckContextRenewalFileReady :: "string \<Rightarrow> unit disk_op" where
  "CheckContextRenewalFileReady p d =
     (if p \<in> d_active d then (Inl InProgress, d)
      else andThen readContextRenewalManifest
        (\<lambda>es. if list_ex (\<lambda>e. re_path e = p) es then raise InProgress else ret ()) d)"

text \<open>The recovery of an earlier transaction on the same file at the start of staging.\<close>

definition recover_previous ::
  "string \<Rightarrow> string \<Rightarrow> renewal_entry list \<Rightarrow> renewal_entry list disk_op" where
  "recover_previous p generation es = (case find (\<lambda>e. re_path e = p) es of
      None \<Rightarrow> ret es
    | Some e \<Rightarrow> andThen (recoverContextRenewalFile e generation) (\<lambda>_.
        (let es' = filter (\<lambda>x. re_path x \<noteq> p) es in
         andThen (writeContextRenewalManifest es') (\<lambda>_. ret es'))))"

definition write_backup :: "renewal_entry \<Rightarrow> string \<Rightarrow> disk \<Rightarrow> disk" where
  "write_backup e c d = d\<lparr>d_backups := AList.update (backup_key e) c (d_backups d)\<rparr>"

text \<open>Moving a file aside: when the directory cannot be synced the move is undone.\<close>

definition move_aside :: "renewal_entry \<Rightarrow> string \<Rightarrow> unit disk_op" where
  "move_aside e c = andThen (io_step (rename_to_backup e c)) (\<lambda>_ d.
     (case sync_dir d of
        (Inr _, d1) \<Rightarrow> (Inr (), d1)
      | (Inl x, d1) \<Rightarrow>
          (case andThen (io_step (rename_from_backup e c)) (\<lambda>_. sync_dir) d1 of (_, d2) \<Rightarrow> (Inl x, d2))))"

definition begin_transaction :: "string \<Rightarrow> unit disk_op" where
  "begin_transaction p = modify (\<lambda>d. d\<lparr>d_active := insert p (d_active d), d_count := d_count d + 1\<rparr>)"

text \<open>
  \<^verbatim>\<open>stageContextRenewalFile\<close>: the result is the transaction behind the two closures, or \<open>None\<close> for
  \<^verbatim>\<open>noOpContextRenewalFileClear\<close> when there is no file to stage. \<open>stage_entry\<close> is the part after the
  recovery of an earlier transaction.
\<close>

definition stage_entry ::
  "renewal_entry \<Rightarrow> string option \<Rightarrow> renewal_entry list \<Rightarrow> renewal_tx option disk_op" where
  "stage_entry e replacement es d = (case map_of (d_files d) (re_path e) of
      None \<Rightarrow> (Inr None, d)
    | Some c \<Rightarrow>
        (if map_of (d_backups d) (backup_key e) \<noteq> None then (Inl (BackupExists (re_path e)), d)
         else andThen (writeContextRenewalManifest (es @ [e])) (\<lambda>_.
           andThen (case replacement of Some text \<Rightarrow> io_step (write_backup e text) | None \<Rightarrow> move_aside e c) (\<lambda>_.
             andThen (begin_transaction (re_path e)) (\<lambda>_.
               ret (Some \<lparr>tx_entry = e, tx_released = False, tx_completed = False\<rparr>)))) d))"

definition stageContextRenewalFile ::
  "string \<Rightarrow> string \<Rightarrow> string option \<Rightarrow> renewal_tx option disk_op" where
  "stageContextRenewalFile p generation replacement d =
     (let e = \<lparr>re_path = p, re_generation = generation, re_replace = (replacement \<noteq> None)\<rparr> in
      case validateContextRenewalFile d e of
        Some x \<Rightarrow> (Inl x, d)
      | None \<Rightarrow>
         (if p \<in> d_active d then (Inl InProgress, d)
          else andThen readContextRenewalManifest (\<lambda>es.
            andThen (recover_previous p generation es) (stage_entry e replacement)) d))"

definition release :: "string \<Rightarrow> disk \<Rightarrow> disk" where
  "release p d = d\<lparr>d_active := d_active d - {p}, d_count := d_count d - 1\<rparr>"

text \<open>
  The closures \<^verbatim>\<open>Finalize\<close> (\<open>restore\<close> false) and \<^verbatim>\<open>Rollback\<close> (true) of an open transaction share the
  flags of \<open>renewal_tx\<close>: a completed transaction does nothing more, and the first call that gets past
  that check releases the file, whether it succeeds or not.
\<close>

definition complete_entry :: "renewal_entry \<Rightarrow> bool \<Rightarrow> unit disk_op" where
  "complete_entry e restore = andThen readContextRenewalManifest (\<lambda>es.
     (if e \<in> set es
      then andThen (finishContextRenewalFile e restore) (\<lambda>_.
             writeContextRenewalManifest (filter (\<lambda>x. x \<noteq> e) es))
      else ret ()))"

definition finish_transaction ::
  "bool \<Rightarrow> renewal_tx \<times> disk \<Rightarrow> (renewal_error + unit) \<times> renewal_tx \<times> disk" where
  "finish_transaction restore s = (case s of (tx, d) \<Rightarrow>
     (if tx_completed tx then (Inr (), tx, d)
      else case complete_entry (tx_entry tx) restore d of (r, d') \<Rightarrow>
        (r, tx\<lparr>tx_released := True, tx_completed := (r = Inr ())\<rparr>,
         if tx_released tx then d' else release (re_path (tx_entry tx)) d')))"

section \<open>Facts about Generation ids\<close>

lemma digit_value_char: "n < 10 \<Longrightarrow> is_digit (char_of (48 + n)) \<and> digit_value (char_of (48 + n)) = n"
  by (simp add: is_digit_def byte_in_def digit_value_def)

lemma atoi_append: "atoi (s @ [c]) = 10 * atoi s + digit_value c"
  by (simp add: atoi_def)

lemma atoi_zeros: "atoi (replicate k (CHR 48) @ s) = atoi s"
  by (induction k) (simp_all add: atoi_def digit_value_def)

lemma atoi_itoa: "atoi (itoa n) = n \<and> list_all is_digit (itoa n)"
proof (induction n rule: itoa.induct)
  case (1 n)
  show ?case
  proof (cases "n < 10")
    case True
    then show ?thesis using digit_value_char[OF True] by (simp add: itoa.simps[of n] atoi_def)
  next
    case False
    then show ?thesis using 1[OF False] digit_value_char[of "n mod 10"]
      by (simp add: itoa.simps[of n] atoi_append)
  qed
qed

lemma itoa_length: "0 < k \<Longrightarrow> n < 10 ^ k \<Longrightarrow> length (itoa n) \<le> k"
proof (induction k arbitrary: n)
  case (Suc k)
  show ?case
  proof (cases "n < 10")
    case False
    then have "0 < k" using Suc.prems by (cases k) auto
    moreover have "n div 10 < 10 ^ k" using Suc.prems by (simp add: less_mult_imp_div_less mult.commute)
    ultimately show ?thesis using Suc.IH False by (simp add: itoa.simps[of n])
  qed (simp add: itoa.simps[of n])
qed simp

lemma generation_digits:
  "atoi (tl (generationID n)) = n" "list_all is_digit (tl (generationID n))"
  using atoi_itoa[of n] by (auto simp: generationID_def atoi_zeros list_all_iff is_digit_def byte_in_def)

lemma generationID_inj [simp]: "generationID m = generationID n \<longleftrightarrow> m = n"
  by (metis generation_digits(1))

lemma generationID_not_Nil [simp]: "generationID n \<noteq> []"
  by (simp add: generationID_def)

lemma parse_generationID:
  assumes "0 < n" and "n < 1000000"
  shows "parseGenerationID (generationID n) = Some n"
proof -
  have "n < 10 ^ 6" using assms(2) by simp
  then have "length (itoa n) \<le> 6" by (rule itoa_length[rotated]) simp
  then have "length (generationID n) = 7" "hd (generationID n) = CHR ''g''"
    by (simp_all add: generationID_def)
  then show ?thesis using generation_digits[of n] assms(1) by (simp add: parseGenerationID_def)
qed

lemma parse_Some: "parseGenerationID s = Some n \<Longrightarrow> s = generationID n \<and> 0 < n"
  by (auto simp: parseGenerationID_def Let_def split: if_splits)

end
