(* ===== verification/ContextRenewalInv.thy ===== *)
theory ContextRenewalInv
  imports ContextRenewal
begin

text \<open>
  Crash safety of the context renewal transaction. \<open>content\<close> is what a file of the Thread means on a
  given disk once the transactions in its manifest are decided by the current Generation: an
  uncommitted one counts as undone, a committed one as done. No step of staging, completion or
  recovery changes that meaning, whichever I/O steps fail and whether or not a failed step had its
  effect; a recovery that gets through leaves plain files with exactly those contents. So the
  Generation commit is the only point at which the renewal takes place, for all its files at once.
\<close>

section \<open>Triples for operations that may fail part way\<close>

text \<open>\<open>triple P m Q E\<close>: from \<open>P\<close>, \<open>m\<close> ends in \<open>Q\<close> of its result when it succeeds and in \<open>E\<close> otherwise.\<close>

definition ends :: "('a \<Rightarrow> 's \<Rightarrow> bool) \<Rightarrow> ('s \<Rightarrow> bool) \<Rightarrow> ('e + 'a) \<times> 's \<Rightarrow> bool" where
  "ends Q E r \<longleftrightarrow> (case r of (Inr x, t) \<Rightarrow> Q x t | (Inl e, t) \<Rightarrow> E t)"

definition triple ::
  "('s \<Rightarrow> bool) \<Rightarrow> ('s, 'e, 'a) op \<Rightarrow> ('a \<Rightarrow> 's \<Rightarrow> bool) \<Rightarrow> ('s \<Rightarrow> bool) \<Rightarrow> bool" where
  "triple P m Q E \<longleftrightarrow> (\<forall>s. P s \<longrightarrow> ends Q E (m s))"

lemma ends_simps [simp]: "ends Q E (Inr x, t) = Q x t" "ends Q E (Inl e, t) = E t"
  by (simp_all add: ends_def)

lemma tripleI: "(\<And>s. P s \<Longrightarrow> ends Q E (m s)) \<Longrightarrow> triple P m Q E"
  by (simp add: triple_def)

lemma tripleD: "triple P m Q E \<Longrightarrow> P s \<Longrightarrow> ends Q E (m s)"
  by (simp add: triple_def)

lemma triple_andThen:
  assumes "triple P m Q' E" and "\<And>x. triple (Q' x) (f x) Q E"
  shows "triple P (andThen m f) Q E"
proof (rule tripleI)
  fix s
  assume "P s"
  obtain r t where m: "m s = (r, t)" by fastforce
  with tripleD[OF assms(1) \<open>P s\<close>] tripleD[OF assms(2)] show "ends Q E (andThen m f s)"
    by (cases r) (auto simp: andThen_def)
qed

lemma triple_ret: "(\<And>s. P s \<Longrightarrow> Q x s) \<Longrightarrow> triple P (ret x) Q E"
  by (simp add: triple_def)

lemma triple_raise: "(\<And>s. P s \<Longrightarrow> E s) \<Longrightarrow> triple P (raise x) Q E"
  by (simp add: triple_def)

lemma triple_weaken:
  assumes "triple P m Q E" and "\<And>s. P' s \<Longrightarrow> P s"
    and "\<And>x s. Q x s \<Longrightarrow> Q' x s" and "\<And>s. E s \<Longrightarrow> E' s"
  shows "triple P' m Q' E'"
proof (rule tripleI)
  fix s
  assume "P' s"
  obtain r t where "m s = (r, t)" by fastforce
  with tripleD[OF assms(1,2)] \<open>P' s\<close> assms(3,4) show "ends Q' E' (m s)" by (cases r) fastforce+
qed

lemma triple_cases:
  assumes "triple P m Q E" and "P s"
  obtains (ok) x t where "m s = (Inr x, t)" and "Q x t" | (err) e t where "m s = (Inl e, t)" and "E t"
proof (cases "m s")
  case (Pair r t)
  with tripleD[OF assms] that show ?thesis by (cases r) auto
qed

lemma triple_both: "triple P m (\<lambda>_. Q) Q \<Longrightarrow> P s \<Longrightarrow> Q (snd (m s))"
  by (erule (1) triple_cases) simp_all

section \<open>The disk\<close>

type_synonym path_map = "string \<Rightarrow> string option"
type_synonym backup_map = "string \<times> string \<Rightarrow> string option"

definition entry_for :: "renewal_entry list \<Rightarrow> string \<Rightarrow> renewal_entry option" where
  "entry_for es p = find (\<lambda>e. re_path e = p) es"

text \<open>What file \<open>p\<close> means under Generation \<open>g\<close>, given manifest entries, files and backups.\<close>

definition meaning ::
  "string \<Rightarrow> renewal_entry list \<Rightarrow> path_map \<Rightarrow> backup_map \<Rightarrow> string \<Rightarrow> string option" where
  "meaning g es fs bs p = (case entry_for es p of
      None \<Rightarrow> fs p
    | Some e \<Rightarrow> (case bs (backup_key e) of
         None \<Rightarrow> fs p
       | Some c \<Rightarrow> (if re_generation e = g then (if re_replace e then fs p else Some c)
                   else (if re_replace e then Some c else None))))"

definition coherent :: "renewal_entry list \<Rightarrow> path_map \<Rightarrow> backup_map \<Rightarrow> bool" where
  "coherent es fs bs \<longleftrightarrow> distinct (map re_path es)
     \<and> (\<forall>e\<in>set es. \<not> re_replace e \<and> bs (backup_key e) \<noteq> None \<longrightarrow> fs (re_path e) = None)
     \<and> (\<forall>k. bs k \<noteq> None \<longrightarrow> k \<in> backup_key ` set es)"

lemma entry_for_Some: "distinct (map re_path es) \<Longrightarrow> entry_for es p = Some e \<longleftrightarrow> e \<in> set es \<and> re_path e = p"
  unfolding entry_for_def by (induction es) (auto simp: image_iff)

lemma entry_for_None: "entry_for es p = None \<longleftrightarrow> p \<notin> re_path ` set es"
  by (auto simp: entry_for_def find_None_iff)

lemma entry_unique: "distinct (map re_path es) \<Longrightarrow> e \<in> set es \<Longrightarrow> e' \<in> set es \<Longrightarrow> re_path e = re_path e' \<Longrightarrow> e = e'"
  by (induction es) (auto simp: image_iff)

lemma entry_for_filter:
  assumes "distinct (map re_path es)" and "e \<in> set es"
  shows "entry_for (filter (\<lambda>x. x \<noteq> e) es) p = (if p = re_path e then None else entry_for es p)"
proof (cases "entry_for es p")
  case None
  then have "entry_for (filter (\<lambda>x. x \<noteq> e) es) p = None" by (auto simp: entry_for_None)
  with None show ?thesis by simp
next
  case (Some x)
  have d: "distinct (map re_path (filter (\<lambda>x. x \<noteq> e) es))" using assms(1) by (simp add: distinct_map_filter)
  have x: "x \<in> set es" "re_path x = p" using Some assms(1) by (simp_all add: entry_for_Some)
  show ?thesis
  proof (cases "p = re_path e")
    case True
    then show ?thesis using assms entry_unique[OF assms(1)] by (auto simp: entry_for_None)
  next
    case False
    then have "x \<noteq> e" using x by auto
    with x d have "entry_for (filter (\<lambda>x. x \<noteq> e) es) p = Some x" by (simp add: entry_for_Some)
    with Some False show ?thesis by simp
  qed
qed

lemma entry_for_append:
  "entry_for (es @ [e]) p = (case entry_for es p of None \<Rightarrow> (if re_path e = p then Some e else None) | Some x \<Rightarrow> Some x)"
  unfolding entry_for_def by (induction es) auto

lemma backup_key_eq: "backup_key a = backup_key b \<Longrightarrow> re_path a = re_path b"
  by (simp add: backup_key_def)

lemma coherentI:
  assumes "distinct (map re_path es)"
    and "\<And>e. e \<in> set es \<Longrightarrow> \<not> re_replace e \<Longrightarrow> bs (backup_key e) \<noteq> None \<Longrightarrow> fs (re_path e) = None"
    and "\<And>k. bs k \<noteq> None \<Longrightarrow> \<exists>e\<in>set es. k = backup_key e"
  shows "coherent es fs bs"
  unfolding coherent_def using assms(1,2) assms(3)[unfolded atomize_all] by (auto simp del: split_paired_All simp: image_iff)

lemma coherent_distinct: "coherent es fs bs \<Longrightarrow> distinct (map re_path es)"
  by (simp add: coherent_def)

lemma coherent_backup:
  assumes "coherent es fs bs" and "bs k \<noteq> None"
  obtains e where "e \<in> set es" and "k = backup_key e"
  using assms unfolding coherent_def by blast

lemma coherent_cleared:
  "coherent es fs bs \<Longrightarrow> e \<in> set es \<Longrightarrow> \<not> re_replace e \<Longrightarrow> bs (backup_key e) \<noteq> None \<Longrightarrow> fs (re_path e) = None"
  by (simp add: coherent_def)

text \<open>Dropping an entry without a backup, and adding one.\<close>

lemma drop_entry:
  assumes "coherent es fs bs" and "e \<in> set es" and "bs (backup_key e) = None"
  shows "coherent (filter (\<lambda>x. x \<noteq> e) es) fs bs \<and> meaning g (filter (\<lambda>x. x \<noteq> e) es) fs bs = meaning g es fs bs"
proof
  note d = coherent_distinct[OF assms(1)]
  show "coherent (filter (\<lambda>x. x \<noteq> e) es) fs bs"
  proof (rule coherentI)
    show "distinct (map re_path (filter (\<lambda>x. x \<noteq> e) es))" using d by (simp add: distinct_map_filter)
    show "\<exists>x\<in>set (filter (\<lambda>x. x \<noteq> e) es). k = backup_key x" if k: "bs k \<noteq> None" for k
      using assms(3) k by (rule_tac coherent_backup[OF assms(1) k]) auto
  qed (use coherent_cleared[OF assms(1)] in auto)
  have "entry_for es (re_path e) = Some e" using d assms(2) by (simp add: entry_for_Some)
  then show "meaning g (filter (\<lambda>x. x \<noteq> e) es) fs bs = meaning g es fs bs"
    using assms(2,3) d by (auto simp: meaning_def fun_eq_iff entry_for_filter)
qed

lemma add_entry:
  assumes "coherent es fs bs" and "re_path e \<notin> re_path ` set es"
  shows "coherent (es @ [e]) fs bs \<and> meaning g (es @ [e]) fs bs = meaning g es fs bs"
proof
  have b: "bs (backup_key e) = None"
    by (rule ccontr, erule coherent_backup[OF assms(1)]) (use assms(2) in \<open>auto simp: backup_key_def\<close>)
  show "coherent (es @ [e]) fs bs"
  proof (rule coherentI)
    show "\<exists>x\<in>set (es @ [e]). k = backup_key x" if k: "bs k \<noteq> None" for k
      by (rule coherent_backup[OF assms(1) k]) auto
  qed (use assms b coherent_cleared[OF assms(1)] coherent_distinct[OF assms(1)] in auto)
  show "meaning g (es @ [e]) fs bs = meaning g es fs bs"
    using b by (auto simp: meaning_def fun_eq_iff entry_for_append split: option.splits)
qed

text \<open>The disk changes of completion: each keeps the meaning when \<open>e\<close> is decided the right way.\<close>

lemma change_entry:
  assumes "coherent es fs bs" and "e \<in> set es"
    and "\<And>p. p \<noteq> re_path e \<Longrightarrow> fs' p = fs p" and "\<And>k. fst k \<noteq> re_path e \<Longrightarrow> bs' k = bs k"
    and "\<And>k. fst k = re_path e \<Longrightarrow> k \<noteq> backup_key e \<Longrightarrow> bs' k = None"
    and "\<not> re_replace e \<Longrightarrow> bs' (backup_key e) \<noteq> None \<Longrightarrow> fs' (re_path e) = None"
  shows "coherent es fs' bs' \<and> (\<forall>g p. p \<noteq> re_path e \<longrightarrow> meaning g es fs' bs' p = meaning g es fs bs p)"
proof
  note d = coherent_distinct[OF assms(1)]
  have other: "bs' (backup_key x) = bs (backup_key x)" "re_path x \<noteq> re_path e"
    if "x \<in> set es" "x \<noteq> e" for x
    using that entry_unique[OF d that(1) assms(2)] by (auto simp: backup_key_def intro!: assms(4))
  have "meaning g es fs' bs' p = meaning g es fs bs p" if p: "p \<noteq> re_path e" for g p
  proof (cases "entry_for es p")
    case None
    then show ?thesis using p assms(3) by (simp add: meaning_def)
  next
    case (Some x)
    then have "x \<in> set es" "x \<noteq> e" using d p by (auto simp: entry_for_Some)
    then show ?thesis using Some assms(3)[OF p] other(1)
      by (simp add: meaning_def split: option.splits)
  qed
  then show "\<forall>g p. p \<noteq> re_path e \<longrightarrow> meaning g es fs' bs' p = meaning g es fs bs p" by blast
  show "coherent es fs' bs'"
  proof (rule coherentI[OF d])
    show "fs' (re_path x) = None" if "x \<in> set es" "\<not> re_replace x" "bs' (backup_key x) \<noteq> None" for x
    using that assms(3,6) other coherent_cleared[OF assms(1)] by (cases "x = e") auto
    show "\<exists>x\<in>set es. k = backup_key x" if k: "bs' k \<noteq> None" for k
    proof (cases "fst k = re_path e")
      case True
      then have "k = backup_key e" using k assms(5)[of k] by argo
      then show ?thesis using assms(2) by blast
    next
      case False
      with k assms(4) have "bs k \<noteq> None" by simp
      then show ?thesis by (rule coherent_backup[OF assms(1)]) blast
    qed
  qed
qed

lemma own_backup:
  assumes "coherent es fs bs" and "e \<in> set es" and "fst k = re_path e" and "k \<noteq> backup_key e"
  shows "bs k = None"
proof (rule ccontr)
  assume "bs k \<noteq> None"
  then obtain x where "x \<in> set es" "k = backup_key x" by (rule coherent_backup[OF assms(1)])
  with assms show False
    using entry_unique[of es x e] by (auto simp: coherent_def backup_key_def)
qed

lemma meaning_entry:
  "coherent es fs bs \<Longrightarrow> e \<in> set es \<Longrightarrow> meaning g es fs' bs' (re_path e) =
     (case bs' (backup_key e) of None \<Rightarrow> fs' (re_path e)
      | Some c \<Rightarrow> (if re_generation e = g then (if re_replace e then fs' (re_path e) else Some c)
                   else (if re_replace e then Some c else None)))"
  by (simp add: meaning_def coherent_def entry_for_Some[THEN iffD2])

text \<open>The state of a disk between two operations.\<close>

definition entries_on :: "disk \<Rightarrow> renewal_entry list" where
  "entries_on d = (case manifest_entries d of Inl _ \<Rightarrow> [] | Inr es \<Rightarrow> es)"

definition content :: "string \<Rightarrow> disk \<Rightarrow> string \<Rightarrow> string option" where
  "content g d = meaning g (entries_on d) (map_of (d_files d)) (map_of (d_backups d))"

definition renewal_ok :: "disk \<Rightarrow> bool" where
  "renewal_ok d \<longleftrightarrow> (\<exists>es. manifest_entries d = Inr es \<and> coherent es (map_of (d_files d)) (map_of (d_backups d)))"

text \<open>
  \<open>holds R v B es d\<close>: the disk is sound, its manifest has the entries \<open>es\<close>, and the contents are \<open>v\<close> for
  the pairs of Generation and path in \<open>R\<close>, those an operation has to leave alone. No operation here
  creates or removes directories, so the unusable parents \<open>B\<close> are fixed too.
\<close>

definition holds ::
  "(string \<times> string) set \<Rightarrow> (string \<Rightarrow> string \<Rightarrow> string option) \<Rightarrow> string set \<Rightarrow> renewal_entry list \<Rightarrow> disk \<Rightarrow> bool" where
  "holds R v B es d \<longleftrightarrow> manifest_entries d = Inr es \<and> d_bad_parents d = B \<and> coherent es (map_of (d_files d)) (map_of (d_backups d))
     \<and> (\<forall>g p. (g, p) \<in> R \<longrightarrow> meaning g es (map_of (d_files d)) (map_of (d_backups d)) p = v g p)"

definition keeps ::
  "(string \<times> string) set \<Rightarrow> (string \<Rightarrow> string \<Rightarrow> string option) \<Rightarrow> string set \<Rightarrow> disk \<Rightarrow> bool" where
  "keeps R v B d \<longleftrightarrow> renewal_ok d \<and> d_bad_parents d = B \<and> (\<forall>g p. (g, p) \<in> R \<longrightarrow> content g d p = v g p)"

lemma keeps_iff: "keeps R v B d \<longleftrightarrow> (\<exists>es. holds R v B es d)"
  by (auto simp: keeps_def renewal_ok_def content_def entries_on_def holds_def)

lemma holds_keeps: "holds R v B es d \<Longrightarrow> keeps R v B d"
  by (auto simp: keeps_iff)

lemma holds_content: "holds R v B es d \<Longrightarrow> content g d = meaning g es (map_of (d_files d)) (map_of (d_backups d))"
  by (simp add: holds_def content_def entries_on_def)

lemma holds_start: "renewal_ok d \<Longrightarrow> holds R (\<lambda>g. content g d) (d_bad_parents d) (entries_on d) d"
  by (auto simp: renewal_ok_def holds_def content_def entries_on_def)

lemma check_entries_ok:
  "check_entries d es seen = None \<longleftrightarrow> (\<forall>e\<in>set es. validateContextRenewalFile d e = None)
     \<and> distinct (map re_path es) \<and> re_path ` set es \<inter> seen = {}"
  by (induction es arbitrary: seen) (auto split: option.splits)

lemma manifest_entries_Inr:
  "manifest_entries d = Inr es \<Longrightarrow> e \<in> set es \<Longrightarrow> validateContextRenewalFile d e = None"
  by (auto simp: manifest_entries_def check_entries_ok split: manifest_file.splits if_splits option.splits)

lemma manifest_write:
  assumes "\<forall>e\<in>set es. validateContextRenewalFile d e = None" and "distinct (map re_path es)"
  shows "manifest_entries (d\<lparr>d_manifest := (if es = [] then ManifestMissing else ManifestDoc 1 es)\<rparr>) = Inr es"
proof -
  have "validateContextRenewalFile (d\<lparr>d_manifest := m\<rparr>) e = validateContextRenewalFile d e" for m e
    by (simp add: validateContextRenewalFile_def)
  then have "check_entries (d\<lparr>d_manifest := m\<rparr>) es {} = None" for m
    using assms by (simp add: check_entries_ok)
  then show ?thesis by (simp add: manifest_entries_def)
qed

text \<open>Reading the manifest looks at the manifest and the parents only.\<close>

lemma check_entries_cong:
  "d_bad_parents d = d_bad_parents d' \<Longrightarrow> check_entries d es seen = check_entries d' es seen"
  by (induction es arbitrary: seen) (simp_all add: validateContextRenewalFile_def)

lemma manifest_entries_cong:
  assumes "d_manifest d = d_manifest d'" and "d_bad_parents d = d_bad_parents d'"
  shows "manifest_entries d = manifest_entries d'"
  using assms check_entries_cong[OF assms(2)]
  by (simp add: manifest_entries_def split: manifest_file.splits option.splits)

lemma holds_cong:
  assumes "d_manifest d = d_manifest d'" "d_bad_parents d = d_bad_parents d'"
    "d_files d = d_files d'" "d_backups d = d_backups d'"
  shows "holds R v B es d = holds R v B es d'"
  using assms manifest_entries_cong[OF assms(1,2)] by (simp add: holds_def)

lemma keeps_cong:
  assumes "d_manifest d = d_manifest d'" "d_bad_parents d = d_bad_parents d'"
    "d_files d = d_files d'" "d_backups d = d_backups d'"
  shows "keeps R v B d = keeps R v B d'"
  using holds_cong[OF assms] by (simp add: keeps_iff)

text \<open>An I/O step, and the schedule of outcomes it consumes.\<close>

definition io_free :: "(disk \<Rightarrow> bool) \<Rightarrow> bool" where
  "io_free P \<longleftrightarrow> (\<forall>d ws. P (d\<lparr>d_io := ws\<rparr>) = P d)"

lemma io_free_holds [simp]: "io_free (holds R v B es)"
  unfolding io_free_def by (intro allI holds_cong) simp_all

lemma io_free_keeps [simp]: "io_free (keeps R v B)"
  unfolding io_free_def by (intro allI keeps_cong) simp_all

lemma io_freeI: "(\<And>d ws. P (d\<lparr>d_io := ws\<rparr>) = P d) \<Longrightarrow> io_free P"
  by (simp add: io_free_def)

lemma triple_io:
  assumes "io_free P" and "\<And>d. P d \<Longrightarrow> Q (f d)" and "\<And>d. P d \<Longrightarrow> E d" and "\<And>d. Q d \<Longrightarrow> E d"
  shows "triple P (io_step f) (\<lambda>_. Q) E"
proof (rule tripleI)
  fix d
  assume "P d"
  then have "P (d\<lparr>d_io := ws\<rparr>)" for ws using assms(1) by (simp add: io_free_def)
  with \<open>P d\<close> show "ends (\<lambda>_. Q) E (io_step f d)"
    using assms(2-4) by (auto simp: io_step_def split: list.splits write_result.splits)
qed

lemma triple_sync: "io_free P \<Longrightarrow> (\<And>d. P d \<Longrightarrow> E d) \<Longrightarrow> triple P sync_dir (\<lambda>_. P) E"
  unfolding sync_dir_def by (rule triple_io)

section \<open>Completion of one file\<close>

lemma holds_change:
  assumes "holds R v B es d" and "e \<in> set es"
    and "d_manifest d' = d_manifest d" and "d_bad_parents d' = d_bad_parents d"
    and "\<And>p. p \<noteq> re_path e \<Longrightarrow> map_of (d_files d') p = map_of (d_files d) p"
    and "\<And>k. k \<noteq> backup_key e \<Longrightarrow> map_of (d_backups d') k = map_of (d_backups d) k"
    and "\<not> re_replace e \<Longrightarrow> map_of (d_backups d') (backup_key e) \<noteq> None \<Longrightarrow> map_of (d_files d') (re_path e) = None"
    and "\<And>g. (g, re_path e) \<in> R \<Longrightarrow> meaning g es (map_of (d_files d')) (map_of (d_backups d')) (re_path e)
       = meaning g es (map_of (d_files d)) (map_of (d_backups d)) (re_path e)"
  shows "holds R v B es d'"
proof -
  note h = assms(1)[unfolded holds_def]
  then have c: "coherent es (map_of (d_files d)) (map_of (d_backups d))" by blast
  have *: "coherent es (map_of (d_files d')) (map_of (d_backups d')) \<and> (\<forall>g p. p \<noteq> re_path e \<longrightarrow>
      meaning g es (map_of (d_files d')) (map_of (d_backups d')) p = meaning g es (map_of (d_files d)) (map_of (d_backups d)) p)"
  proof (rule change_entry[OF c assms(2)])
    show "map_of (d_backups d') k = map_of (d_backups d) k" if "fst k \<noteq> re_path e" for k
      using that by (intro assms(6)) (auto simp: backup_key_def)
    show "map_of (d_backups d') k = None" if "fst k = re_path e" "k \<noteq> backup_key e" for k
      using assms(6)[OF that(2)] own_backup[OF c assms(2) that] by simp
  qed (use assms(5,7) in auto)
  have "meaning g es (map_of (d_files d')) (map_of (d_backups d')) p = v g p" if "(g, p) \<in> R" for g p
    using that h * assms(8) by (cases "p = re_path e") auto
  with h * show ?thesis
    using manifest_entries_cong[OF assms(3,4)] assms(4) by (simp add: holds_def)
qed

text \<open>\<open>decides R e restore\<close>: completing \<open>e\<close> this way agrees with the contents to be kept.\<close>

definition decides :: "(string \<times> string) set \<Rightarrow> renewal_entry \<Rightarrow> bool \<Rightarrow> bool" where
  "decides R e restore \<longleftrightarrow> (\<forall>g. (g, re_path e) \<in> R \<longrightarrow> (restore \<longleftrightarrow> re_generation e = g))"

definition backed ::
  "(string \<times> string) set \<Rightarrow> (string \<Rightarrow> string \<Rightarrow> string option) \<Rightarrow> string set \<Rightarrow> renewal_entry list \<Rightarrow> renewal_entry
   \<Rightarrow> string option \<Rightarrow> disk \<Rightarrow> bool" where
  "backed R v B es e c d \<longleftrightarrow> holds R v B es d \<and> map_of (d_backups d) (backup_key e) = c"

lemma io_free_backed [simp]: "io_free (backed R v B es e c)"
  using io_free_holds[of R v B es] by (simp add: io_free_def backed_def)

lemma backed_keeps: "backed R v B es e c d \<Longrightarrow> keeps R v B d"
  by (auto simp: backed_def holds_keeps)

lemma backed_meaning:
  assumes "backed R v B es e c d" and "e \<in> set es"
  shows "meaning g es fs bs (re_path e) = (case bs (backup_key e) of None \<Rightarrow> fs (re_path e)
      | Some c \<Rightarrow> (if re_generation e = g then (if re_replace e then fs (re_path e) else Some c)
                   else (if re_replace e then Some c else None)))"
  using assms by (auto simp: backed_def holds_def intro: meaning_entry)

lemma backed_cleared:
  "backed R v B es e (Some c) d \<Longrightarrow> e \<in> set es \<Longrightarrow> \<not> re_replace e \<Longrightarrow> map_of (d_files d) (re_path e) = None"
  using coherent_cleared[of es "map_of (d_files d)" "map_of (d_backups d)" e] by (simp add: backed_def holds_def)

lemma remove_backup_step:
  assumes "backed R v B es e (Some c) d" and "e \<in> set es" and "decides R e restore"
    and "restore \<longrightarrow> re_replace e"
    and "\<not> restore \<and> re_replace e \<longrightarrow> map_of (d_files d) (re_path e) = Some c"
  shows "backed R v B es e None (remove_backup e d)"
proof -
  have "holds R v B es (remove_backup e d)"
    using assms(1) unfolding backed_def
  proof (elim conjE, rule_tac holds_change[OF _ assms(2)])
    show "meaning g es (map_of (d_files (remove_backup e d))) (map_of (d_backups (remove_backup e d))) (re_path e)
      = meaning g es (map_of (d_files d)) (map_of (d_backups d)) (re_path e)" if "(g, re_path e) \<in> R" for g
      using that assms backed_cleared[OF assms(1,2)]
      unfolding backed_meaning[OF assms(1,2)]
      by (auto simp: remove_backup_def delete_conv' backed_def decides_def)
  qed (simp_all add: remove_backup_def delete_conv')
  then show ?thesis by (simp add: backed_def remove_backup_def delete_conv')
qed

lemma put_file_step:
  assumes "backed R v B es e (Some c) d" and "e \<in> set es" and "decides R e False" and "re_replace e"
  shows "backed R v B es e (Some c) (put_file (re_path e) c d) \<and> map_of (d_files (put_file (re_path e) c d)) (re_path e) = Some c"
proof -
  have "holds R v B es (put_file (re_path e) c d)"
    using assms(1) unfolding backed_def
  proof (elim conjE, rule_tac holds_change[OF _ assms(2)])
    show "meaning g es (map_of (d_files (put_file (re_path e) c d))) (map_of (d_backups (put_file (re_path e) c d))) (re_path e)
      = meaning g es (map_of (d_files d)) (map_of (d_backups d)) (re_path e)" if "(g, re_path e) \<in> R" for g
      using that assms unfolding backed_meaning[OF assms(1,2)]
      by (auto simp: put_file_def update_conv' backed_def decides_def)
  qed (use assms(4) in \<open>simp_all add: put_file_def update_conv'\<close>)
  with assms(1) show ?thesis by (simp add: backed_def put_file_def update_conv')
qed

lemma restore_step:
  assumes "backed R v B es e (Some c) d" and "e \<in> set es" and "decides R e True" and "\<not> re_replace e"
  shows "backed R v B es e None (rename_from_backup e c d)"
proof -
  have "holds R v B es (rename_from_backup e c d)"
    using assms(1) unfolding backed_def
  proof (elim conjE, rule_tac holds_change[OF _ assms(2)])
    show "meaning g es (map_of (d_files (rename_from_backup e c d))) (map_of (d_backups (rename_from_backup e c d))) (re_path e)
      = meaning g es (map_of (d_files d)) (map_of (d_backups d)) (re_path e)" if "(g, re_path e) \<in> R" for g
      using that assms unfolding backed_meaning[OF assms(1,2)]
      by (auto simp: rename_from_backup_def update_conv' delete_conv' backed_def decides_def)
  qed (simp_all add: rename_from_backup_def update_conv' delete_conv')
  then show ?thesis by (simp add: backed_def rename_from_backup_def delete_conv')
qed

text \<open>The three ways a backup goes: thrown away, installed, put back.\<close>

lemma sync_backed:
  "triple (backed R v B es e c) sync_dir (\<lambda>_. backed R v B es e c) (keeps R v B)"
  by (rule triple_sync[OF io_free_backed backed_keeps])

lemma discard_triple:
  assumes "e \<in> set es" and "decides R e restore" and "restore \<longrightarrow> re_replace e"
  shows "triple (\<lambda>d. backed R v B es e (Some c) d
      \<and> (\<not> restore \<and> re_replace e \<longrightarrow> map_of (d_files d) (re_path e) = Some c))
    (andThen (io_step (remove_backup e)) (\<lambda>_. sync_dir)) (\<lambda>_. backed R v B es e None) (keeps R v B)"
proof (rule triple_andThen[OF triple_io sync_backed])
  show "io_free (\<lambda>d. backed R v B es e (Some c) d
      \<and> (\<not> restore \<and> re_replace e \<longrightarrow> map_of (d_files d) (re_path e) = Some c))"
    using io_free_backed[of R v B es e "Some c"] by (simp add: io_free_def)
qed (use assms in \<open>blast intro: backed_keeps remove_backup_step\<close>)+

lemma install_triple:
  assumes "e \<in> set es" and "decides R e False" and "re_replace e"
  shows "triple (backed R v B es e (Some c))
    (andThen (io_step (put_file (re_path e) c)) (\<lambda>_. andThen (io_step (remove_backup e)) (\<lambda>_. sync_dir)))
    (\<lambda>_. backed R v B es e None) (keeps R v B)"
  by (rule triple_andThen, rule triple_io[OF io_free_backed _ backed_keeps], rule put_file_step)
    (use assms discard_triple[of e es R False v B c] in \<open>auto intro: backed_keeps\<close>)

lemma restore_triple:
  assumes "e \<in> set es" and "decides R e True" and "\<not> re_replace e"
  shows "triple (backed R v B es e (Some c)) (andThen (io_step (rename_from_backup e c)) (\<lambda>_. sync_dir))
    (\<lambda>_. backed R v B es e None) (keeps R v B)"
  by (rule triple_andThen, rule triple_io[OF io_free_backed _ backed_keeps], rule restore_step)
    (use assms sync_backed in \<open>auto intro: backed_keeps\<close>)

lemma finish_branches:
  assumes "backed R v B es e c d" and "e \<in> set es"
  shows "finishContextRenewalFile e restore d =
    (case c of None \<Rightarrow> sync_dir
     | Some t \<Rightarrow> (if re_replace e \<and> \<not> restore
         then andThen (io_step (put_file (re_path e) t)) (\<lambda>_. andThen (io_step (remove_backup e)) (\<lambda>_. sync_dir))
         else if \<not> re_replace e \<and> restore
         then andThen (io_step (rename_from_backup e t)) (\<lambda>_. sync_dir)
         else andThen (io_step (remove_backup e)) (\<lambda>_. sync_dir))) d"
proof -
  have "validateContextRenewalFile d e = None"
    using assms(1,2) by (auto simp: backed_def holds_def dest: manifest_entries_Inr)
  then show ?thesis
    using assms backed_cleared[of R v B es e _ d]
    by (cases c) (auto simp: finishContextRenewalFile_def backed_def)
qed

lemma finish_triple:
  assumes "e \<in> set es" and "decides R e restore"
  shows "triple (holds R v B es) (finishContextRenewalFile e restore) (\<lambda>_. backed R v B es e None) (keeps R v B)"
proof (rule tripleI)
  fix d
  assume "holds R v B es d"
  then have b: "backed R v B es e (map_of (d_backups d) (backup_key e)) d" by (simp add: backed_def)
  note branch = finish_branches[OF b assms(1), of restore]
  show "ends (\<lambda>_. backed R v B es e None) (keeps R v B) (finishContextRenewalFile e restore d)"
  proof (cases "map_of (d_backups d) (backup_key e)")
    case None
    with b branch tripleD[OF sync_backed] show ?thesis by simp
  next
    case (Some c)
    consider (install) "re_replace e" "\<not> restore" | (restore) "\<not> re_replace e" "restore"
      | (discard) "re_replace e \<longleftrightarrow> restore" by blast
    then show ?thesis
    proof cases
      case install
      with b Some branch assms tripleD[OF install_triple[OF assms(1)]] show ?thesis by simp
    next
      case restore
      with b Some branch assms tripleD[OF restore_triple[OF assms(1)]] show ?thesis by simp
    next
      case discard
      with b Some branch tripleD[OF discard_triple[OF assms]] show ?thesis by auto
    qed
  qed
qed

text \<open>Without I/O failures completion succeeds.\<close>

lemma io_step_clean: "d_io d = [] \<Longrightarrow> io_step f d = (Inr (), f d)"
  by (simp add: io_step_def)

lemma andThen_io_clean: "d_io d = [] \<Longrightarrow> andThen (io_step f) k d = k () (f d)"
  by (simp add: andThen_def io_step_clean)

lemmas clean_steps = io_step_clean andThen_io_clean sync_dir_def put_file_def remove_backup_def
  rename_from_backup_def rename_to_backup_def writeContextRenewalManifest_def

lemma finish_clean:
  assumes "holds R v B es d" and "e \<in> set es" and "d_io d = []"
  shows "fst (finishContextRenewalFile e restore d) = Inr () \<and> d_io (snd (finishContextRenewalFile e restore d)) = []"
proof -
  have b: "backed R v B es e (map_of (d_backups d) (backup_key e)) d" using assms(1) by (simp add: backed_def)
  show ?thesis unfolding finish_branches[OF b assms(2)]
    using assms(3) by (simp add: clean_steps split: option.splits)
qed

section \<open>Recovery\<close>

text \<open>Writing the manifest leaves files and backups alone.\<close>

lemma write_triple:
  assumes "\<And>d. holds R v B es d \<Longrightarrow> F (d_files d) (d_backups d) \<Longrightarrow>
      (\<forall>e\<in>set es'. validateContextRenewalFile d e = None)
      \<and> coherent es' (map_of (d_files d)) (map_of (d_backups d))
      \<and> (\<forall>g p. (g, p) \<in> R \<longrightarrow> meaning g es' (map_of (d_files d)) (map_of (d_backups d)) p
           = meaning g es (map_of (d_files d)) (map_of (d_backups d)) p)"
  shows "triple (\<lambda>d. holds R v B es d \<and> F (d_files d) (d_backups d)) (writeContextRenewalManifest es')
    (\<lambda>_ d. holds R v B es' d \<and> F (d_files d) (d_backups d)) (keeps R v B)"
  unfolding writeContextRenewalManifest_def
proof (rule triple_io)
  show "io_free (\<lambda>d. holds R v B es d \<and> F (d_files d) (d_backups d))"
    using io_free_holds[of R v B es] by (simp add: io_free_def)
  show "holds R v B es' (d\<lparr>d_manifest := if es' = [] then ManifestMissing else ManifestDoc 1 es'\<rparr>)
      \<and> F (d_files (d\<lparr>d_manifest := if es' = [] then ManifestMissing else ManifestDoc 1 es'\<rparr>))
          (d_backups (d\<lparr>d_manifest := if es' = [] then ManifestMissing else ManifestDoc 1 es'\<rparr>))"
    if "holds R v B es d \<and> F (d_files d) (d_backups d)" for d
    using that assms[of d] manifest_write[of es' d] coherent_distinct by (auto simp: holds_def)
qed (auto intro: holds_keeps)

lemma drop_triple:
  assumes "e \<in> set es"
  shows "triple (backed R v B es e None) (writeContextRenewalManifest (filter (\<lambda>x. x \<noteq> e) es))
    (\<lambda>_. holds R v B (filter (\<lambda>x. x \<noteq> e) es)) (keeps R v B)"
proof -
  have "triple (\<lambda>d. holds R v B es d \<and> map_of (d_backups d) (backup_key e) = None)
      (writeContextRenewalManifest (filter (\<lambda>x. x \<noteq> e) es))
      (\<lambda>_ d. holds R v B (filter (\<lambda>x. x \<noteq> e) es) d \<and> map_of (d_backups d) (backup_key e) = None) (keeps R v B)"
    by (rule write_triple[where F = "\<lambda>_ b. map_of b (backup_key e) = None"])
      (use assms drop_entry in \<open>auto simp: holds_def dest: manifest_entries_Inr\<close>)
  then show ?thesis by (rule triple_weaken) (auto simp: backed_def)
qed

lemma holds_distinct: "holds R v B es d \<Longrightarrow> distinct es"
  by (simp add: holds_def coherent_def distinct_map)

lemma recover_entries_triple:
  assumes "distinct es" and "\<And>e. e \<in> set es \<Longrightarrow> decides R e (re_generation e = g)"
  shows "triple (holds R v B es) (recover_entries es es g) (\<lambda>_. holds R v B []) (keeps R v B)"
  using assms
proof (induction es)
  case Nil
  then show ?case by (simp add: triple_def)
next
  case (Cons e es)
  then have f: "filter (\<lambda>x. x \<noteq> e) (e # es) = es" by (auto intro: filter_True)
  have "triple (holds R v B (e # es)) (finishContextRenewalFile e (re_generation e = g))
      (\<lambda>_. backed R v B (e # es) e None) (keeps R v B)"
    by (rule finish_triple) (use Cons.prems in auto)
  moreover have "triple (backed R v B (e # es) e None) (writeContextRenewalManifest es) (\<lambda>_. holds R v B es) (keeps R v B)"
    using drop_triple[of e "e # es" R v B] unfolding f by simp
  moreover have "triple (holds R v B es) (recover_entries es es g) (\<lambda>_. holds R v B []) (keeps R v B)"
    using Cons by simp
  ultimately show ?case
    unfolding recover_entries.simps recoverContextRenewalFile_def Let_def f by (blast intro: triple_andThen)
qed

lemma recover_entries_clean:
  assumes "holds {} v B es d" and "d_io d = []"
  shows "\<exists>d'. recover_entries es es g d = (Inr (), d') \<and> d_io d' = []"
  using assms
proof (induction es arbitrary: d)
  case (Cons e es)
  have "distinct (e # es)" using Cons.prems(1) by (rule holds_distinct)
  then have f: "filter (\<lambda>x. x \<noteq> e) (e # es) = es" by (auto intro: filter_True)
  obtain d1 where d1: "finishContextRenewalFile e (re_generation e = g) d = (Inr (), d1)" "d_io d1 = []"
    using finish_clean[OF Cons.prems(1) _ Cons.prems(2), of e "re_generation e = g"]
    by (cases "finishContextRenewalFile e (re_generation e = g) d") auto
  have "backed {} v B (e # es) e None d1"
    using triple_cases[OF finish_triple[of e "e # es" "{}" "re_generation e = g" v B] Cons.prems(1)] d1
    by (fastforce simp: decides_def)
  then obtain d2 where d2: "writeContextRenewalManifest es d1 = (Inr (), d2)" "holds {} v B es d2" "d_io d2 = []"
    using triple_cases[OF drop_triple[of e "e # es" "{}" v B], of d1] d1(2) unfolding f
    by (fastforce simp: clean_steps)
  with Cons.IH[OF d2(2,3)] d1(1) show ?case
    unfolding recover_entries.simps recoverContextRenewalFile_def Let_def f by (simp add: andThen_def)
qed simp

lemma recover_triple:
  assumes "\<And>e. decides R e (re_generation e = g)"
  shows "triple (holds R v B es) (recoverContextRenewalFiles g) (\<lambda>_. holds R v B []) (keeps R v B)"
proof (rule tripleI)
  fix d
  assume h: "holds R v B es d"
  have "triple (holds R v B es) (recover_entries es es g) (\<lambda>_. holds R v B []) (keeps R v B)"
    using recover_entries_triple[OF holds_distinct[OF h]] assms by blast
  from tripleD[OF this h] show "ends (\<lambda>_. holds R v B []) (keeps R v B) (recoverContextRenewalFiles g d)"
    using h holds_keeps[OF h]
    by (simp add: recoverContextRenewalFiles_def readContextRenewalManifest_def holds_def andThen_def)
qed

section \<open>Staging\<close>

lemma recover_previous_triple:
  assumes "\<And>g'. (g', p) \<in> R \<Longrightarrow> g' = g"
  shows "triple (holds R v B es) (recover_previous p g es)
    (\<lambda>es' d. holds R v B es' d \<and> p \<notin> re_path ` set es') (keeps R v B)"
proof (rule tripleI)
  fix d
  assume h: "holds R v B es d"
  then have dist: "distinct (map re_path es)" by (auto simp: holds_def dest: coherent_distinct)
  let ?Q = "\<lambda>es' d. holds R v B es' d \<and> p \<notin> re_path ` set es'"
  show "ends ?Q (keeps R v B) (recover_previous p g es d)"
  proof (cases "entry_for es p")
    case None
    with h show ?thesis using entry_for_None[of es p] by (simp add: recover_previous_def entry_for_def)
  next
    case (Some e)
    then have e: "e \<in> set es" "re_path e = p" using dist by (simp_all add: entry_for_Some)
    define es' where "es' = filter (\<lambda>x. x \<noteq> e) es"
    have f: "filter (\<lambda>x. re_path x \<noteq> p) es = es'"
      unfolding es'_def by (rule filter_cong[OF refl]) (use e entry_unique[OF dist _ e(1)] in metis)
    then have p: "p \<notin> re_path ` set es'" by auto
    have "decides R e (re_generation e = g)" using assms e by (auto simp: decides_def)
    note fin = finish_triple[OF e(1) this, of v B]
    have "recover_previous p g es = andThen (finishContextRenewalFile e (re_generation e = g))
        (\<lambda>_. andThen (writeContextRenewalManifest es') (\<lambda>_. ret es'))"
      using Some by (simp add: recover_previous_def entry_for_def f recoverContextRenewalFile_def)
    moreover have "triple (holds R v B es') (ret es') ?Q (keeps R v B)"
      by (rule triple_ret) (use p in simp)
    ultimately have "triple (holds R v B es) (recover_previous p g es) ?Q (keeps R v B)"
      using triple_andThen[OF fin triple_andThen[OF drop_triple[OF e(1)]]] by (simp add: es'_def)
    then show ?thesis using h by (rule tripleD)
  qed
qed

text \<open>The new entry is in the manifest and has no backup yet; \<open>c\<close> is the file.\<close>

definition listed ::
  "(string \<times> string) set \<Rightarrow> (string \<Rightarrow> string \<Rightarrow> string option) \<Rightarrow> string set \<Rightarrow> renewal_entry list \<Rightarrow> renewal_entry
   \<Rightarrow> string \<Rightarrow> disk \<Rightarrow> bool" where
  "listed R v B es e c d \<longleftrightarrow> backed R v B es e None d \<and> map_of (d_files d) (re_path e) = Some c"

lemma io_free_listed [simp]: "io_free (listed R v B es e c)"
  using io_free_backed[of R v B es e None] by (simp add: io_free_def listed_def)

lemma listed_keeps: "listed R v B es e c d \<Longrightarrow> keeps R v B d"
  by (auto simp: listed_def intro: backed_keeps)

lemma list_triple:
  assumes "re_path e \<notin> re_path ` set es" and "validateContextRenewalFile d0 e = None" and "d_bad_parents d0 = B"
  shows "triple (\<lambda>d. holds R v B es d \<and> map_of (d_files d) (re_path e) = Some c)
    (writeContextRenewalManifest (es @ [e])) (\<lambda>_. listed R v B (es @ [e]) e c) (keeps R v B)"
proof -
  have none: "map_of (d_backups d) (backup_key e) = None" if "holds R v B es' d" "re_path e \<notin> re_path ` set es'" for es' d
    using that coherent_backup[of es' "map_of (d_files d)" "map_of (d_backups d)" "backup_key e"]
    by (force simp: holds_def backup_key_def)
  have valid: "validateContextRenewalFile d e = None" if "holds R v B es d" for d
    using assms(2,3) that by (simp add: validateContextRenewalFile_def holds_def split: if_splits)
  have "triple (\<lambda>d. holds R v B es d \<and> (map_of (d_files d) (re_path e) = Some c \<and> map_of (d_backups d) (backup_key e) = None))
    (writeContextRenewalManifest (es @ [e])) (\<lambda>_ d. holds R v B (es @ [e]) d \<and> (map_of (d_files d) (re_path e) = Some c \<and> map_of (d_backups d) (backup_key e) = None)) (keeps R v B)"
    by (rule write_triple[where F = "\<lambda>f b. map_of f (re_path e) = Some c \<and> map_of b (backup_key e) = None"])
      (use assms(1) valid add_entry in \<open>auto simp: holds_def dest: manifest_entries_Inr\<close>)
  then show ?thesis by (rule triple_weaken) (use none assms(1) in \<open>auto simp: listed_def backed_def\<close>)
qed

lemma write_backup_step:
  assumes "listed R v B es e c d" and "e \<in> set es" and "re_replace e" and "\<And>g. (g, re_path e) \<in> R \<Longrightarrow> g = re_generation e"
  shows "backed R v B es e (Some t) (write_backup e t d)"
proof -
  have b: "backed R v B es e None d" using assms(1) by (simp add: listed_def)
  have "holds R v B es (write_backup e t d)"
    using b unfolding backed_def
  proof (elim conjE, rule_tac holds_change[OF _ assms(2)])
    show "meaning g es (map_of (d_files (write_backup e t d))) (map_of (d_backups (write_backup e t d))) (re_path e)
      = meaning g es (map_of (d_files d)) (map_of (d_backups d)) (re_path e)" if "(g, re_path e) \<in> R" for g
      using b assms(3) assms(4)[OF that] unfolding backed_meaning[OF b assms(2)]
      by (auto simp: write_backup_def update_conv' backed_def)
  qed (use assms(3) in \<open>simp_all add: write_backup_def update_conv'\<close>)
  then show ?thesis by (simp add: backed_def write_backup_def update_conv')
qed

lemma rename_to_backup_step:
  assumes "listed R v B es e c d" and "e \<in> set es" and "\<not> re_replace e" and "\<And>g. (g, re_path e) \<in> R \<Longrightarrow> g = re_generation e"
  shows "backed R v B es e (Some c) (rename_to_backup e c d)"
proof -
  have b: "backed R v B es e None d" using assms(1) by (simp add: listed_def)
  have "holds R v B es (rename_to_backup e c d)"
    using b unfolding backed_def
  proof (elim conjE, rule_tac holds_change[OF _ assms(2)])
    show "meaning g es (map_of (d_files (rename_to_backup e c d))) (map_of (d_backups (rename_to_backup e c d))) (re_path e)
      = meaning g es (map_of (d_files d)) (map_of (d_backups d)) (re_path e)" if "(g, re_path e) \<in> R" for g
      using assms(1,3) assms(4)[OF that] unfolding backed_meaning[OF b assms(2)]
      by (auto simp: rename_to_backup_def update_conv' backed_def listed_def)
  qed (simp_all add: rename_to_backup_def update_conv' delete_conv')
  then show ?thesis by (simp add: backed_def rename_to_backup_def update_conv')
qed

lemma move_aside_triple:
  assumes "e \<in> set es" and "\<not> re_replace e" and "\<And>g. (g, re_path e) \<in> R \<Longrightarrow> g = re_generation e"
  shows "triple (listed R v B es e c) (move_aside e c) (\<lambda>_. backed R v B es e (Some c)) (keeps R v B)"
  unfolding move_aside_def
proof (rule triple_andThen)
  show "triple (listed R v B es e c) (io_step (rename_to_backup e c)) (\<lambda>_. backed R v B es e (Some c)) (keeps R v B)"
    by (rule triple_io[OF io_free_listed]) (use assms in \<open>auto intro: rename_to_backup_step listed_keeps backed_keeps\<close>)
  define undo :: "unit disk_op" where "undo = andThen (io_step (rename_from_backup e c)) (\<lambda>_. sync_dir)"
  have dec: "decides R e True" using assms(3) by (auto simp: decides_def)
  have undo: "keeps R v B (snd (undo d))" if "backed R v B es e (Some c) d" for d
    unfolding undo_def
    by (rule triple_cases[OF restore_triple[OF assms(1) dec assms(2), of v B c] that])
      (auto intro: backed_keeps)
  show "triple (backed R v B es e (Some c)) (\<lambda>d. case sync_dir d of
        (Inr _, d1) \<Rightarrow> (Inr (), d1)
      | (Inl x, d1) \<Rightarrow> (case andThen (io_step (rename_from_backup e c)) (\<lambda>_. sync_dir) d1 of (_, d2) \<Rightarrow> (Inl x, d2)))
     (\<lambda>_. backed R v B es e (Some c)) (keeps R v B)" for u :: unit
    unfolding undo_def[symmetric]
  proof (rule tripleI)
    fix d
    assume b: "backed R v B es e (Some c) d"
    have t: "triple (backed R v B es e (Some c)) sync_dir (\<lambda>_. backed R v B es e (Some c)) (backed R v B es e (Some c))"
      by (rule triple_sync) simp_all
    show "ends (\<lambda>_. backed R v B es e (Some c)) (keeps R v B)
       (case sync_dir d of (Inr _, d1) \<Rightarrow> (Inr (), d1) | (Inl x, d1) \<Rightarrow> (case undo d1 of (_, d2) \<Rightarrow> (Inl x, d2)))"
      by (rule triple_cases[OF t b]) (auto simp: case_prod_unfold intro: undo)
  qed
qed

text \<open>
  After a successful call the contents under any other Generation are what the transaction asks for:
  nothing for a clear or a missing file, the replacement otherwise.
\<close>

definition staged_as ::
  "(string \<times> string) set \<Rightarrow> (string \<Rightarrow> string \<Rightarrow> string option) \<Rightarrow> string set \<Rightarrow> string \<Rightarrow> string
   \<Rightarrow> string option \<Rightarrow> disk \<Rightarrow> bool" where
  "staged_as R v B g p r d \<longleftrightarrow> keeps R v B d
     \<and> (\<forall>g'. g' \<noteq> g \<longrightarrow> content g' d p = (if v g p = None then None else r))"

lemma begin_triple:
  assumes "\<And>d. P d \<Longrightarrow> Q (d\<lparr>d_active := insert p (d_active d), d_count := d_count d + 1\<rparr>)"
  shows "triple P (begin_transaction p) (\<lambda>_. Q) E"
  using assms by (intro tripleI) (simp add: begin_transaction_def)

lemma content_cong:
  assumes "d_manifest d = d_manifest d'" "d_bad_parents d = d_bad_parents d'"
    "d_files d = d_files d'" "d_backups d = d_backups d'"
  shows "content g d = content g d'"
  using assms manifest_entries_cong[OF assms(1,2)] by (simp add: content_def entries_on_def)

lemma staged_begin:
  assumes "staged_as R v B g p r d"
  shows "staged_as R v B g p r (d\<lparr>d_active := A, d_count := n\<rparr>)"
proof -
  have "content g' (d\<lparr>d_active := A, d_count := n\<rparr>) = content g' d" for g' by (rule content_cong) simp_all
  moreover have "keeps R v B (d\<lparr>d_active := A, d_count := n\<rparr>) = keeps R v B d" by (rule keeps_cong) simp_all
  ultimately show ?thesis using assms by (simp add: staged_as_def)
qed

lemma backed_staged:
  assumes "backed R v B es e c d" and "e \<in> set es" and "c \<noteq> None" and "re_replace e \<longrightarrow> c = r"
    and "\<not> re_replace e \<longrightarrow> r = None" and "v (re_generation e) (re_path e) \<noteq> None"
  shows "staged_as R v B (re_generation e) (re_path e) r d"
proof -
  have "content g d (re_path e) = r" if "g \<noteq> re_generation e" for g
    using that assms holds_content[of R v B es d g] backed_meaning[OF assms(1,2), of g "map_of (d_files d)" "map_of (d_backups d)"]
    by (auto simp: backed_def)
  then show ?thesis using assms(1,6) backed_keeps[OF assms(1)] by (auto simp: staged_as_def)
qed

lemma write_stage_triple:
  assumes "e \<in> set es" and "\<And>g. (g, re_path e) \<in> R \<Longrightarrow> g = re_generation e" and "re_replace e \<longleftrightarrow> r \<noteq> None"
    and "v (re_generation e) (re_path e) \<noteq> None"
  shows "triple (listed R v B es e c) (case r of Some text \<Rightarrow> io_step (write_backup e text) | None \<Rightarrow> move_aside e c)
    (\<lambda>_. staged_as R v B (re_generation e) (re_path e) r) (keeps R v B)"
proof (cases r)
  case None
  then have nr: "\<not> re_replace e" using assms(3) by simp
  show ?thesis unfolding None option.case
    by (rule triple_weaken[OF move_aside_triple[OF assms(1) nr assms(2)]])
      (use assms(1,4) nr in \<open>auto intro!: backed_staged\<close>)
next
  case (Some t)
  then have rp: "re_replace e" using assms(3) by simp
  have "triple (listed R v B es e c) (io_step (write_backup e t)) (\<lambda>_. backed R v B es e (Some t)) (keeps R v B)"
    by (rule triple_io[OF io_free_listed])
      (use assms rp in \<open>auto intro: write_backup_step listed_keeps backed_keeps\<close>)
  then show ?thesis unfolding Some option.case
    by (rule triple_weaken) (use assms(1,4) rp in \<open>auto intro!: backed_staged\<close>)
qed

lemma stage_entry_triple:
  assumes "re_path e \<notin> re_path ` set es" and "\<And>g. (g, re_path e) \<in> R \<longleftrightarrow> g = re_generation e"
    and "re_replace e \<longleftrightarrow> r \<noteq> None" and "validateContextRenewalFile d0 e = None" and "d_bad_parents d0 = B"
  shows "triple (holds R v B es) (stage_entry e r es) (\<lambda>_. staged_as R v B (re_generation e) (re_path e) r) (keeps R v B)"
proof (rule tripleI)
  fix d
  assume h: "holds R v B es d"
  let ?S = "staged_as R v B (re_generation e) (re_path e) r"
  have plain: "content g d (re_path e) = map_of (d_files d) (re_path e)" for g
    using holds_content[OF h, of g] assms(1) by (simp add: meaning_def entry_for_None[THEN iffD2])
  have "content (re_generation e) d (re_path e) = v (re_generation e) (re_path e)"
    using h holds_content[OF h] assms(2)[of "re_generation e"] by (simp add: holds_def)
  with plain have v: "v (re_generation e) (re_path e) = map_of (d_files d) (re_path e)" by simp
  show "ends (\<lambda>_. ?S) (keeps R v B) (stage_entry e r es d)"
  proof (cases "map_of (d_files d) (re_path e)")
    case None
    with plain v holds_keeps[OF h] show ?thesis by (simp add: stage_entry_def staged_as_def)
  next
    case (Some c)
    let ?tx = "\<lparr>tx_entry = e, tx_released = False, tx_completed = False\<rparr>"
    have e: "e \<in> set (es @ [e])" by simp
    have w: "triple (listed R v B (es @ [e]) e c)
        (case r of Some text \<Rightarrow> io_step (write_backup e text) | None \<Rightarrow> move_aside e c) (\<lambda>_. ?S) (keeps R v B)"
      by (rule write_stage_triple) (use assms(2,3) v Some in auto)
    have b: "triple ?S (begin_transaction (re_path e)) (\<lambda>_. ?S) (keeps R v B)"
      by (rule begin_triple) (rule staged_begin)
    have "triple (\<lambda>d. holds R v B es d \<and> map_of (d_files d) (re_path e) = Some c)
       (andThen (writeContextRenewalManifest (es @ [e])) (\<lambda>_.
           andThen (case r of Some text \<Rightarrow> io_step (write_backup e text) | None \<Rightarrow> move_aside e c) (\<lambda>_.
             andThen (begin_transaction (re_path e)) (\<lambda>_. ret (Some ?tx))))) (\<lambda>_. ?S) (keeps R v B)"
      by (intro triple_andThen[OF list_triple[OF assms(1,4,5)]] triple_andThen[OF w] triple_andThen[OF b] triple_ret)
    from tripleD[OF this] show ?thesis using h Some holds_keeps[OF h] by (simp add: stage_entry_def)
  qed
qed

lemma stage_triple:
  assumes "\<And>g'. (g', p) \<in> R \<longleftrightarrow> g' = g"
  shows "triple (holds R v B es) (stageContextRenewalFile p g r) (\<lambda>_. staged_as R v B g p r) (keeps R v B)"
proof (rule tripleI)
  fix d
  assume h: "holds R v B es d"
  define e where "e = \<lparr>re_path = p, re_generation = g, re_replace = (r \<noteq> None)\<rparr>"
  have e: "re_path e = p" "re_generation e = g" "re_replace e = (r \<noteq> None)" by (simp_all add: e_def)
  note stage = stageContextRenewalFile_def[of p g r d, folded e_def, unfolded Let_def]
  show "ends (\<lambda>_. staged_as R v B g p r) (keeps R v B) (stageContextRenewalFile p g r d)"
  proof (cases "validateContextRenewalFile d e = None \<and> p \<notin> d_active d")
    case False
    then show ?thesis using holds_keeps[OF h] by (auto simp: stage split: option.splits)
  next
    case True
    have run: "stageContextRenewalFile p g r d = andThen (recover_previous p g es) (stage_entry e r) d"
      using True h by (simp add: stage readContextRenewalManifest_def holds_def andThen_def)
    have rest: "triple (\<lambda>d. holds R v B es' d \<and> p \<notin> re_path ` set es') (stage_entry e r es')
        (\<lambda>_. staged_as R v B g p r) (keeps R v B)" for es'
    proof (cases "p \<in> re_path ` set es'")
      case False
      have "triple (holds R v B es') (stage_entry e r es')
          (\<lambda>_. staged_as R v B (re_generation e) (re_path e) r) (keeps R v B)"
        by (rule stage_entry_triple) (use False True h assms in \<open>auto simp: e holds_def\<close>)
      then show ?thesis by (rule triple_weaken) (simp_all add: e)
    qed (simp add: triple_def)
    have "triple (holds R v B es) (andThen (recover_previous p g es) (stage_entry e r))
        (\<lambda>_. staged_as R v B g p r) (keeps R v B)"
      by (rule triple_andThen[OF recover_previous_triple rest]) (simp add: assms)
    from tripleD[OF this h] show ?thesis unfolding run .
  qed
qed

section \<open>Completion by Finalize and Rollback\<close>

lemma complete_triple:
  assumes "decides R e restore"
  shows "triple (holds R v B es) (complete_entry e restore) (\<lambda>_. keeps R v B) (keeps R v B)"
proof (rule tripleI)
  fix d
  assume h: "holds R v B es d"
  show "ends (\<lambda>_. keeps R v B) (keeps R v B) (complete_entry e restore d)"
  proof (cases "e \<in> set es")
    case True
    have "triple (holds R v B es) (andThen (finishContextRenewalFile e restore) (\<lambda>_.
        writeContextRenewalManifest (filter (\<lambda>x. x \<noteq> e) es))) (\<lambda>_. keeps R v B) (keeps R v B)"
      using triple_andThen[OF finish_triple[OF True assms] drop_triple[OF True]]
      by (rule triple_weaken) (auto intro: holds_keeps)
    from tripleD[OF this h] show ?thesis
      using True h by (simp add: complete_entry_def readContextRenewalManifest_def holds_def andThen_def)
  next
    case False
    then show ?thesis using h holds_keeps[OF h]
      by (simp add: complete_entry_def readContextRenewalManifest_def holds_def andThen_def)
  qed
qed

lemma release_keeps: "keeps R v B (release p d) = keeps R v B d"
  unfolding release_def by (rule keeps_cong) simp_all

lemma finish_transaction_keeps:
  assumes "decides R (tx_entry tx) restore" and "keeps R v B d"
  shows "keeps R v B (snd (snd (finish_transaction restore (tx, d))))"
proof -
  obtain es where h: "holds R v B es d" using assms(2) by (auto simp: keeps_iff)
  have "keeps R v B (snd (complete_entry (tx_entry tx) restore d))"
    by (rule triple_both[OF complete_triple[OF assms(1)] h])
  with assms(2) show ?thesis
    by (simp add: finish_transaction_def case_prod_unfold release_keeps)
qed

section \<open>Reopening\<close>

text \<open>
  A new process knows no open transactions; \<open>ws\<close> are the outcomes of its I/O steps. \<open>reopen\<close> is a
  series of openers of the Thread that each start a recovery and may be stopped anywhere in it.
\<close>

definition crashed :: "write_result list \<Rightarrow> disk \<Rightarrow> disk" where
  "crashed ws d = d\<lparr>d_active := {}, d_count := 0, d_io := ws\<rparr>"

fun reopen :: "string \<Rightarrow> write_result list list \<Rightarrow> disk \<Rightarrow> disk" where
  "reopen g [] d = d"
| "reopen g (ws # wss) d = reopen g wss (snd (recoverContextRenewalFiles g (crashed ws d)))"

lemma crashed_keeps [simp]: "keeps R v B (crashed ws d) = keeps R v B d"
  unfolding crashed_def by (rule keeps_cong) simp_all

definition gen_region :: "string \<Rightarrow> (string \<times> string) set" where
  "gen_region g = {g} \<times> UNIV"

lemma gen_decides: "decides (gen_region g) e (re_generation e = g)"
  by (auto simp: decides_def gen_region_def)

lemma keeps_gen: "keeps (gen_region g) v B d \<longleftrightarrow> renewal_ok d \<and> d_bad_parents d = B \<and> content g d = v g"
  by (auto simp: keeps_def gen_region_def fun_eq_iff)

lemma recover_keeps: "keeps (gen_region g) v B d \<Longrightarrow> keeps (gen_region g) v B (snd (recoverContextRenewalFiles g d))"
proof -
  assume "keeps (gen_region g) v B d"
  then obtain es where h: "holds (gen_region g) v B es d" by (auto simp: keeps_iff)
  show ?thesis
    by (rule triple_cases[OF recover_triple[OF gen_decides, of g v B es] h]) (auto intro: holds_keeps)
qed

lemma reopen_keeps: "keeps (gen_region g) v B d \<Longrightarrow> keeps (gen_region g) v B (reopen g wss d)"
  by (induction wss arbitrary: d) (simp_all add: recover_keeps)

text \<open>A recovery without failures leaves plain files with the contents under the Generation.\<close>

lemma recover_settles:
  assumes "keeps (gen_region g) v B d" and "parseGenerationID g \<noteq> None"
  shows "\<exists>d'. recoverContextRenewalFiles g (crashed [] d) = (Inr (), d') \<and> manifest_entries d' = Inr []
     \<and> map_of (d_backups d') = Map.empty \<and> map_of (d_files d') = v g"
proof -
  obtain es where h: "holds (gen_region g) v B es (crashed [] d)"
    using assms(1) crashed_keeps[of "gen_region g" v B "[]" d] unfolding keeps_iff by blast
  then have "holds {} v B es (crashed [] d)" by (simp add: holds_def)
  then obtain d' where r: "recover_entries es es g (crashed [] d) = (Inr (), d')"
    using recover_entries_clean[of v B es "crashed [] d" g] by (auto simp: crashed_def)
  have run: "recoverContextRenewalFiles g (crashed [] d) = (Inr (), d')"
    using h assms(2) r by (simp add: recoverContextRenewalFiles_def readContextRenewalManifest_def holds_def andThen_def crashed_def)
  have h': "holds (gen_region g) v B [] d'"
    by (rule triple_cases[OF recover_triple[OF gen_decides, of g v B es] h]) (use run in auto)
  have "map_of (d_backups d') k = None" for k
    using h' coherent_backup[of "[]" "map_of (d_files d')" "map_of (d_backups d')" k] by (force simp: holds_def)
  then have "map_of (d_backups d') = Map.empty" by (intro ext)
  moreover have "map_of (d_files d') = v g"
    using h' by (auto simp: holds_def meaning_def entry_for_def gen_region_def fun_eq_iff)
  ultimately show ?thesis using run h' by (auto simp: holds_def)
qed

section \<open>Staging several files\<close>

fun stage_files :: "string \<Rightarrow> (string \<times> string option) list \<Rightarrow> unit disk_op" where
  "stage_files g [] = ret ()"
| "stage_files g ((p, r) # fs) = andThen (stageContextRenewalFile p g r) (\<lambda>_. stage_files g fs)"

text \<open>What the renewal of the listed files asks for under another Generation.\<close>

definition renewed ::
  "string \<Rightarrow> string \<Rightarrow> (string \<times> string option) list \<Rightarrow> disk \<Rightarrow> string \<Rightarrow> string option" where
  "renewed g g' fs d p = (case map_of fs p of
      None \<Rightarrow> content g' d p
    | Some r \<Rightarrow> (if content g d p = None then None else r))"

definition stage_region :: "string \<Rightarrow> string \<Rightarrow> (string \<times> string) set" where
  "stage_region g p = {(g', q). g' = g \<or> q \<noteq> p}"

lemma stage_ends:
  assumes "renewal_ok d"
  shows "renewal_ok (snd (stageContextRenewalFile p g r d))"
    and "d_bad_parents (snd (stageContextRenewalFile p g r d)) = d_bad_parents d"
    and "content g (snd (stageContextRenewalFile p g r d)) = content g d"
    and "q \<noteq> p \<Longrightarrow> content g' (snd (stageContextRenewalFile p g r d)) q = content g' d q"
    and "g' \<noteq> g \<Longrightarrow> fst (stageContextRenewalFile p g r d) = Inr x \<Longrightarrow>
      content g' (snd (stageContextRenewalFile p g r d)) p = (if content g d p = None then None else r)"
proof -
  let ?R = "stage_region g p" and ?v = "\<lambda>g. content g d" and ?B = "d_bad_parents d"
  have R: "(g', p) \<in> ?R \<longleftrightarrow> g' = g" for g' by (auto simp: stage_region_def)
  note t = stage_triple[OF R, of ?v ?B "entries_on d" r] and h = holds_start[OF assms, of ?R]
  have k: "keeps ?R ?v ?B (snd (stageContextRenewalFile p g r d))"
    by (rule triple_cases[OF t h]) (auto simp: staged_as_def)
  show "renewal_ok (snd (stageContextRenewalFile p g r d))"
    and "d_bad_parents (snd (stageContextRenewalFile p g r d)) = d_bad_parents d"
    and "content g (snd (stageContextRenewalFile p g r d)) = content g d"
    and "q \<noteq> p \<Longrightarrow> content g' (snd (stageContextRenewalFile p g r d)) q = content g' d q"
    using k by (auto simp: keeps_def stage_region_def fun_eq_iff)
  show "content g' (snd (stageContextRenewalFile p g r d)) p = (if content g d p = None then None else r)"
    if "g' \<noteq> g" "fst (stageContextRenewalFile p g r d) = Inr x"
    by (rule triple_cases[OF t h]) (use that in \<open>auto simp: staged_as_def\<close>)
qed

lemma stage_files_keeps:
  "renewal_ok d \<Longrightarrow> renewal_ok (snd (stage_files g fs d)) \<and> content g (snd (stage_files g fs d)) = content g d"
proof (induction fs arbitrary: d)
  case (Cons f fs)
  obtain p r where f: "f = (p, r)" by fastforce
  obtain x d' where s: "stageContextRenewalFile p g r d = (x, d')" by fastforce
  with Cons stage_ends[OF Cons.prems, where p = p and g = g and r = r] show ?case
    by (cases x) (auto simp: f andThen_def)
qed simp

lemma stage_files_renews:
  assumes "renewal_ok d" and "distinct (map fst fs)" and "fst (stage_files g fs d) = Inr ()" and "g' \<noteq> g"
  shows "content g' (snd (stage_files g fs d)) = renewed g g' fs d"
  using assms
proof (induction fs arbitrary: d)
  case Nil
  then show ?case by (simp add: renewed_def fun_eq_iff)
next
  case (Cons f fs)
  obtain p r where f: "f = (p, r)" by fastforce
  obtain x d' where s: "stageContextRenewalFile p g r d = (Inr x, d')"
    using Cons.prems(3) by (auto simp: f andThen_def split: prod.splits sum.splits)
  note st = stage_ends[OF Cons.prems(1), where p = p and g = g and r = r, unfolded s, simplified]
  have "content g' (snd (stage_files g fs d')) = renewed g g' fs d'"
    using Cons st s by (auto simp: f andThen_def)
  moreover have "renewed g g' fs d' q = renewed g g' ((p, r) # fs) d q" for q
    using st(3) st(4)[of q g'] st(5)[OF Cons.prems(4)] Cons.prems(2)
    by (auto simp: renewed_def f map_of_eq_None_iff[THEN iffD2] split: option.splits)
  ultimately show ?case using s by (simp add: f andThen_def fun_eq_iff)
qed

end
