(* ===== verification/ContextRenewalProps.thy ===== *)
theory ContextRenewalProps
  imports ContextRenewalInv
begin

text \<open>
  The properties of the context renewal transaction: every disk the operations can leave behind
  recovers, a renewal of several files happens for all of them or for none, completion agrees with
  the Generation commit, and Generation ids read back as printed.
\<close>

section \<open>Runs\<close>

text \<open>
  What can happen to a Thread directory: staging, completion of a transaction (either way), recovery,
  a write by the owner of a file that passed the readiness check, and a new process. Each comes with
  the outcomes of its I/O steps.
\<close>

datatype renewal_call =
    Stage string string "string option"
  | Complete renewal_tx bool
  | Recover string
  | OwnerWrite string "string option"
  | Restart

definition owner_write :: "string \<Rightarrow> string option \<Rightarrow> disk \<Rightarrow> disk" where
  "owner_write p c d = (case c of
      None \<Rightarrow> d\<lparr>d_files := AList.delete p (d_files d)\<rparr>
    | Some t \<Rightarrow> put_file p t d)"

fun run_renewal :: "renewal_call \<Rightarrow> disk \<Rightarrow> disk" where
  "run_renewal (Stage p g r) d = snd (stageContextRenewalFile p g r d)"
| "run_renewal (Complete tx restore) d = snd (snd (finish_transaction restore (tx, d)))"
| "run_renewal (Recover g) d = snd (recoverContextRenewalFiles g d)"
| "run_renewal (OwnerWrite p c) d =
     (if fst (CheckContextRenewalFileReady p d) = Inr () then owner_write p c d else d)"
| "run_renewal Restart d = crashed [] d"

definition renewal_step :: "disk \<Rightarrow> write_result list \<times> renewal_call \<Rightarrow> disk \<Rightarrow> bool" where
  "renewal_step d l d' \<longleftrightarrow> d' = run_renewal (snd l) (d\<lparr>d_io := fst l\<rparr>)"

definition renewal_init :: "disk \<Rightarrow> bool" where
  "renewal_init d \<longleftrightarrow> d_manifest d = ManifestMissing \<and> d_backups d = []"

lemma renewal_ok_keeps: "renewal_ok d \<longleftrightarrow> keeps {} (\<lambda>_ _. None) (d_bad_parents d) d"
  by (simp add: keeps_def)

lemma renewal_ok_io [simp]: "renewal_ok (d\<lparr>d_io := ws\<rparr>) = renewal_ok d"
  using keeps_cong[of "d\<lparr>d_io := ws\<rparr>" d "{}" "\<lambda>_ _. None" "d_bad_parents d"] by (simp add: renewal_ok_keeps)

lemma owner_write_ok:
  assumes "renewal_ok d" and "fst (CheckContextRenewalFileReady p d) = Inr ()"
  shows "renewal_ok (owner_write p c d)"
proof -
  obtain es where es: "manifest_entries d = Inr es" "coherent es (map_of (d_files d)) (map_of (d_backups d))"
    using assms(1) by (auto simp: renewal_ok_def)
  then have p: "p \<notin> re_path ` set es"
    using assms(2) by (auto simp: CheckContextRenewalFileReady_def readContextRenewalManifest_def andThen_def
        list_ex_iff split: if_splits)
  have "coherent es (map_of (d_files (owner_write p c d))) (map_of (d_backups (owner_write p c d)))"
  proof (rule coherentI)
    show "map_of (d_files (owner_write p c d)) (re_path e) = None"
      if "e \<in> set es" "\<not> re_replace e" "map_of (d_backups (owner_write p c d)) (backup_key e) \<noteq> None" for e
      using that p coherent_cleared[OF es(2), of e]
      by (auto simp: owner_write_def put_file_def split: option.splits)
    show "\<exists>e\<in>set es. k = backup_key e" if "map_of (d_backups (owner_write p c d)) k \<noteq> None" for k
      by (rule coherent_backup[OF es(2), of k]) (use that in \<open>auto simp: owner_write_def put_file_def split: option.splits\<close>)
  qed (rule coherent_distinct[OF es(2)])
  moreover have "manifest_entries (owner_write p c d) = manifest_entries d"
    by (rule manifest_entries_cong) (simp_all add: owner_write_def put_file_def split: option.splits)
  ultimately show ?thesis using es(1) by (auto simp: renewal_ok_def)
qed

interpretation renewal_runs: invariant_machine renewal_init renewal_step renewal_ok
proof
  show "renewal_ok d" if "renewal_init d" for d
    using that by (simp add: renewal_init_def renewal_ok_def manifest_entries_def coherent_def)
  show "renewal_ok d'" if "renewal_ok d" "renewal_step d l d'" for d l d'
  proof -
    have ok: "renewal_ok (d\<lparr>d_io := fst l\<rparr>)" using that(1) by simp
    have d': "d' = run_renewal (snd l) (d\<lparr>d_io := fst l\<rparr>)" using that(2) by (simp add: renewal_step_def)
    have k: "keeps {} (\<lambda>_ _. None) (d_bad_parents d) (d\<lparr>d_io := fst l\<rparr>)" using ok by (simp add: renewal_ok_keeps)
    show ?thesis
    proof (cases "snd l")
      case (Stage p g r)
      then show ?thesis using stage_ends(1)[OF ok] by (simp add: d')
    next
      case (Complete tx restore)
      have "decides {} (tx_entry tx) restore" by (simp add: decides_def)
      from finish_transaction_keeps[OF this k] Complete show ?thesis by (simp add: d' keeps_def)
    next
      case (Recover g)
      have "keeps (gen_region g) (\<lambda>g. content g d) (d_bad_parents d) (d\<lparr>d_io := fst l\<rparr>)"
        using ok by (simp add: keeps_gen content_cong[of "d\<lparr>d_io := fst l\<rparr>" d])
      from recover_keeps[OF this] Recover show ?thesis by (simp add: d' keeps_def)
    next
      case (OwnerWrite p c)
      then show ?thesis using owner_write_ok[OF ok] ok by (simp add: d')
    next
      case Restart
      then show ?thesis using crashed_keeps[of "{}" _ "d_bad_parents d" "[]" "d\<lparr>d_io := fst l\<rparr>"] k
        by (simp add: d' keeps_def)
    qed
  qed
qed

section \<open>Properties\<close>

lemma reopened_recovers:
  assumes "renewal_ok d" and "parseGenerationID g \<noteq> None"
  shows "\<exists>d'. recoverContextRenewalFiles g (crashed [] (reopen g wss d)) = (Inr (), d')
     \<and> manifest_entries d' = Inr [] \<and> map_of (d_backups d') = Map.empty \<and> map_of (d_files d') = content g d"
proof -
  have "keeps (gen_region g) (\<lambda>g. content g d) (d_bad_parents d) d" using assms(1) by (simp add: keeps_gen)
  from recover_settles[OF reopen_keeps[OF this] assms(2)] show ?thesis by simp
qed

text \<open>C22: whatever operations ran on a Thread directory and whichever of their I/O steps failed, and
  however many openers were stopped in the middle of recovering it, a recovery that meets no failure
  succeeds. It leaves an empty manifest, no backups, and every file with the content it had before
  under the current Generation: staged transactions of that Generation undone, older ones done.\<close>

theorem reachable_renewal_recovers:
  assumes "reach renewal_init renewal_step d" and "parseGenerationID g \<noteq> None"
  shows "\<exists>d'. recoverContextRenewalFiles g (crashed [] (reopen g wss d)) = (Inr (), d')
     \<and> manifest_entries d' = Inr [] \<and> map_of (d_backups d') = Map.empty \<and> map_of (d_files d') = content g d"
  using reopened_recovers[OF renewal_runs.reach_inv[OF assms(1)] assms(2)] .

definition wit_disk :: disk where
  "wit_disk = \<lparr>d_files = [(''a'', ''1''), (''b'', ''2'')], d_backups = [], d_manifest = ManifestMissing,
     d_bad_parents = {}, d_io = [], d_active = {}, d_count = 0\<rparr>"

lemma wit_generations: "parseGenerationID ''g000001'' = Some 1" "parseGenerationID ''g000002'' = Some 2"
  by code_simp+

theorem reachable_renewal_recovers_witness:
  "\<exists>d'. recoverContextRenewalFiles ''g000001'' (crashed [] (reopen ''g000001'' [[WriteFailed True]]
       (run_renewal (Stage ''a'' ''g000001'' None) wit_disk))) = (Inr (), d')
     \<and> map_of (d_files d') ''a'' = Some ''1''"
proof -
  let ?d = "run_renewal (Stage ''a'' ''g000001'' None) wit_disk"
  have i: "reach renewal_init renewal_step wit_disk"
    by (rule reach.start) (simp add: renewal_init_def wit_disk_def)
  have "renewal_step wit_disk ([], Stage ''a'' ''g000001'' None) ?d"
    by (simp add: renewal_step_def wit_disk_def)
  with i have r: "reach renewal_init renewal_step ?d" by (rule reach.move)
  have "content ''g000001'' ?d ''a'' = Some ''1''" by code_simp
  with reachable_renewal_recovers[OF r, of "''g000001''" "[[WriteFailed True]]"] wit_generations(1)
  show ?thesis by force
qed

text \<open>C21: a renewal that staged its files takes place for all of them or for none. If the Generation it
  was staged under is still the current one when the Thread is next opened, every file comes back
  with its old content; if another Generation was committed, every staged file that existed is gone
  or replaced as asked and nothing else has changed. This holds however often the recovery itself is
  interrupted.\<close>

theorem renewal_all_or_nothing:
  assumes "renewal_ok d" and "distinct (map fst fs)" and "fst (stage_files g fs d) = Inr ()"
    and "g' \<noteq> g" and "parseGenerationID g \<noteq> None" and "parseGenerationID g' \<noteq> None"
    and "recovered = (\<lambda>h. map_of (d_files (snd (recoverContextRenewalFiles h
        (crashed [] (reopen h wss (snd (stage_files g fs d))))))))"
  shows "recovered g = content g d \<and> recovered g' = renewed g g' fs d"
proof -
  let ?d = "snd (stage_files g fs d)"
  have ok: "renewal_ok ?d" and c: "content g ?d = content g d" using stage_files_keeps[OF assms(1)] by blast+
  have c': "content g' ?d = renewed g g' fs d" by (rule stage_files_renews[OF assms(1-4)])
  show ?thesis
    using reopened_recovers[OF ok assms(5), of wss] reopened_recovers[OF ok assms(6), of wss] c c'
    by (auto simp: assms(7))
qed

theorem renewal_all_or_nothing_witness:
  "let d = snd (stage_files ''g000001'' [(''a'', None), (''b'', Some ''3'')] wit_disk);
       recovered = (\<lambda>h. map_of (d_files (snd (recoverContextRenewalFiles h (crashed [] (reopen h [[WriteFailed False]] d))))))
   in recovered ''g000001'' ''a'' = Some ''1'' \<and> recovered ''g000001'' ''b'' = Some ''2''
    \<and> recovered ''g000002'' ''a'' = None \<and> recovered ''g000002'' ''b'' = Some ''3''"
proof -
  let ?fs = "[(''a'', None), (''b'', Some ''3'')]"
  have ok: "renewal_ok wit_disk" by (rule renewal_runs.inv_init) (simp add: renewal_init_def wit_disk_def)
  have st: "fst (stage_files ''g000001'' ?fs wit_disk) = Inr ()" by code_simp
  have m: "content ''g000001'' wit_disk ''a'' = Some ''1''" "content ''g000001'' wit_disk ''b'' = Some ''2''"
    by code_simp+
  have dis: "distinct (map fst ?fs)" and ne: "''g000002'' \<noteq> ''g000001''" by simp_all
  from renewal_all_or_nothing[OF ok dis st ne _ _ refl, of "[[WriteFailed False]]"] wit_generations m
  show ?thesis by (simp add: Let_def renewed_def)
qed

text \<open>Completing a transaction the way the Generation commit decided it (rolling back while its
  Generation is current, finalizing once it is not) never changes what any file means, whichever
  I/O step fails, and a transaction that reported success is left alone by later calls.\<close>

theorem completion_keeps_contents:
  assumes "renewal_ok d" and "restore \<longleftrightarrow> re_generation (tx_entry tx) = g"
    and "finish_transaction restore (tx, d) = (r, tx', d')"
  shows "renewal_ok d' \<and> content g d' = content g d
    \<and> (r = Inr () \<longrightarrow> (\<forall>again d''. finish_transaction again (tx', d'') = (Inr (), tx', d'')))"
proof -
  have "decides (gen_region g) (tx_entry tx) restore"
    using assms(2) by (auto simp: decides_def gen_region_def)
  moreover have "keeps (gen_region g) (\<lambda>g. content g d) (d_bad_parents d) d"
    using assms(1) by (simp add: keeps_gen)
  ultimately have "keeps (gen_region g) (\<lambda>g. content g d) (d_bad_parents d) d'"
    using finish_transaction_keeps assms(3) by fastforce
  moreover have "tx_completed tx'" if "r = Inr ()"
    using that assms(3) by (auto simp: finish_transaction_def case_prod_unfold split: if_splits)
  ultimately show ?thesis by (simp add: keeps_gen finish_transaction_def)
qed

definition wit_tx :: renewal_tx where
  "wit_tx = \<lparr>tx_entry = \<lparr>re_path = ''a'', re_generation = ''g000001'', re_replace = False\<rparr>,
     tx_released = False, tx_completed = False\<rparr>"

theorem completion_keeps_contents_witness:
  "let d = snd (stageContextRenewalFile ''a'' ''g000001'' None wit_disk)
   in content ''g000001'' (snd (snd (finish_transaction True (wit_tx, d\<lparr>d_io := [WriteFailed True]\<rparr>)))) ''a'' = Some ''1''"
proof -
  let ?d = "snd (stageContextRenewalFile ''a'' ''g000001'' None wit_disk)\<lparr>d_io := [WriteFailed True]\<rparr>"
  have "renewal_ok wit_disk" by (rule renewal_runs.inv_init) (simp add: renewal_init_def wit_disk_def)
  then have ok: "renewal_ok ?d" using stage_ends(1) by simp
  have c: "content ''g000001'' ?d ''a'' = Some ''1''" by code_simp
  obtain r tx' d' where f: "finish_transaction True (wit_tx, ?d) = (r, tx', d')"
    by (metis surj_pair)
  have "content ''g000001'' d' = content ''g000001'' ?d"
    using completion_keeps_contents[OF ok _ f, of "''g000001''"] by (simp add: wit_tx_def)
  with c f show ?thesis by (simp add: Let_def)
qed

section \<open>Generation ids\<close>

text \<open>A Generation id reads back as the ordinal it was printed from, for every ordinal that six
  digits hold, and an id that is accepted is the one its ordinal prints; so ids and ordinals in
  that range correspond one to one.\<close>

theorem generation_id_round_trip:
  assumes "0 < n" and "n < 1000000"
  shows "parseGenerationID (generationID n) = Some n
    \<and> (\<forall>s. parseGenerationID s = Some n \<longrightarrow> s = generationID n)"
  using parse_generationID[OF assms] parse_Some by blast

theorem generation_id_round_trip_witness: "parseGenerationID (generationID 12) = Some 12"
  using generation_id_round_trip[of 12] by simp

end
