(* ===== verification/WorkspacePath.thy ===== *)
theory WorkspacePath
  imports GoStrings
begin

text \<open>
  Resolution of tool paths against the workspace, \<^verbatim>\<open>internal/foundation/sandbox/workspace_path.go\<close>, on
  a system with forward slashes and a case-sensitive file system (so \<^verbatim>\<open>volume\<close> is empty and
  \<^verbatim>\<open>Identity\<close> is the relative path itself). What the file system answers to \<^verbatim>\<open>os.Lstat\<close> and
  \<^verbatim>\<open>filepath.EvalSymlinks\<close> is a parameter; every theorem holds for any answers.
\<close>

section \<open>Model\<close>

datatype lstat_result = LExists | LMissing | LError

record path_world =
  pw_lstat :: "string \<Rightarrow> lstat_result"
  pw_eval :: "string \<Rightarrow> string option"
  pw_cwd :: "string option"

record workspace_path =
  wp_relative :: string
  wp_absolute :: string
  wp_identity :: string

record path_resolver =
  pr_root :: string
  pr_eval_root :: string

datatype path_error =
    UnsafePath string | RootedBackslash string | ColonPath string | EscapesWorkspace string
  | SymlinkEscapes string | BoundaryError string | NoWorkDir | RootError

definition abs_of :: "string list \<Rightarrow> string" where
  "abs_of cs = ''/'' @ join ''/'' cs"

definition NewWorkspacePathResolver :: "path_world \<Rightarrow> string \<Rightarrow> path_error + path_resolver" where
  "NewWorkspacePathResolver w workDir =
     (case (if trim_space workDir = [] then pw_cwd w else Some workDir) of
        None \<Rightarrow> Inl NoWorkDir
      | Some root \<Rightarrow>
         (case (if is_abs root then Some (clean_path root)
                else map_option (\<lambda>cwd. clean_path (cwd @ ''/'' @ root)) (pw_cwd w)) of
            None \<Rightarrow> Inl NoWorkDir
          | Some absRoot \<Rightarrow>
             (case pw_eval w (clean_path absRoot) of
                None \<Rightarrow> Inl RootError
              | Some e \<Rightarrow> Inr \<lparr>pr_root = clean_path absRoot, pr_eval_root = clean_path e\<rparr>)))"

definition escapes :: "string \<Rightarrow> bool" where
  "escapes rel \<longleftrightarrow> rel = ''..'' \<or> has_prefix rel ''../''"

definition pathWithin :: "string \<Rightarrow> string \<Rightarrow> bool" where
  "pathWithin root target \<longleftrightarrow> \<not> escapes (rel_path root target)"

text \<open>
  The loop of \<^verbatim>\<open>checkSymlinkBoundary\<close> climbs from the path to its nearest existing ancestor; the
  components are in reverse, so the parent drops the first.
\<close>

fun nearest_existing :: "path_world \<Rightarrow> string \<Rightarrow> string list \<Rightarrow> path_error + string" where
  "nearest_existing w inp cs = (case pw_lstat w (abs_of (rev cs)) of
      LExists \<Rightarrow> Inr (abs_of (rev cs))
    | LError \<Rightarrow> Inl (BoundaryError inp)
    | LMissing \<Rightarrow> (case cs of [] \<Rightarrow> Inl (EscapesWorkspace inp) | c # cs' \<Rightarrow> nearest_existing w inp cs'))"

definition checkSymlinkBoundary :: "path_world \<Rightarrow> path_resolver \<Rightarrow> string \<Rightarrow> string \<Rightarrow> path_error option" where
  "checkSymlinkBoundary w r absp inp = (case nearest_existing w inp (rev (clean_comps absp)) of
      Inl e \<Rightarrow> Some e
    | Inr p \<Rightarrow> (case pw_eval w p of
        None \<Rightarrow> Some (BoundaryError inp)
      | Some e \<Rightarrow> (if pathWithin (pr_eval_root r) e then None else Some (SymlinkEscapes inp))))"

definition resolver_identity :: "path_resolver \<Rightarrow> string \<Rightarrow> string" where
  "resolver_identity r rel = rel"

definition same_absolute :: "path_resolver \<Rightarrow> string \<Rightarrow> string \<Rightarrow> bool" where
  "same_absolute r a b \<longleftrightarrow> clean_path a = clean_path b"

definition Resolve :: "path_world \<Rightarrow> path_resolver \<Rightarrow> string \<Rightarrow> path_error + workspace_path" where
  "Resolve w r inp =
     (if trim_space inp = [] then Inl (UnsafePath inp)
      else if has_prefix inp ''//'' \<or> has_prefix inp [CHR 0x5C] then Inl (RootedBackslash inp)
      else if str_contains inp '':'' then Inl (ColonPath inp)
      else
        (let rel = clean_path inp in
         if \<not> is_abs inp \<and> (rel = ''.'' \<or> escapes rel) then Inl (EscapesWorkspace inp)
         else
           (let absp = (if is_abs inp then rel else clean_path (pr_root r @ ''/'' @ rel));
                rel' = rel_path (pr_root r) absp
            in if rel' = ''.'' \<or> escapes rel' then Inl (EscapesWorkspace inp)
               else case checkSymlinkBoundary w r absp inp of
                 Some e \<Rightarrow> Inl e
               | None \<Rightarrow> Inr \<lparr>wp_relative = rel', wp_absolute = absp, wp_identity = resolver_identity r rel'\<rparr>)))"

section \<open>Cleaned paths\<close>

definition plain_comp :: "string \<Rightarrow> bool" where
  "plain_comp c \<longleftrightarrow> c \<noteq> [] \<and> c \<noteq> ''.'' \<and> c \<noteq> ''..'' \<and> CHR ''/'' \<notin> set c"

lemma split_on_app: "split_on c (a @ c # b) = split_on c a @ split_on c b"
  by (induction a) (auto split: list.splits)

lemma fold_plain: "list_all plain_comp cs \<Longrightarrow> fold (clean_step b) cs st = rev cs @ st"
  by (induction cs arbitrary: st) (auto simp: plain_comp_def clean_step_def)

lemma clean_step_rooted: "list_all plain_comp st \<Longrightarrow> CHR ''/'' \<notin> set c \<Longrightarrow> list_all plain_comp (clean_step True c st)"
  by (auto simp: clean_step_def plain_comp_def split: list.splits)

lemma fold_rooted:
  "list_all plain_comp st \<Longrightarrow> list_all (\<lambda>c. CHR ''/'' \<notin> set c) cs \<Longrightarrow> list_all plain_comp (fold (clean_step True) cs st)"
  by (induction cs arbitrary: st) (auto simp: clean_step_rooted)

lemma clean_comps_abs: "is_abs s \<Longrightarrow> list_all plain_comp (clean_comps s)"
  unfolding clean_comps_def using fold_rooted[OF _ split_on_pieces, of "[]"] by (simp add: list_all_rev)

lemma is_abs_abs_of [simp]: "is_abs (abs_of cs)"
  by (simp add: is_abs_def abs_of_def has_prefix_def)

lemma split_join_plain: "list_all plain_comp cs \<Longrightarrow> split_on (CHR ''/'') (join ''/'' cs) = (if cs = [] then [[]] else cs)"
  using split_on_join[of cs "CHR ''/''"] by (auto simp: plain_comp_def list_all_iff)

lemma clean_comps_abs_of:
  assumes "list_all plain_comp cs"
  shows "clean_comps (abs_of cs) = cs"
proof -
  have "split_on (CHR ''/'') (abs_of cs) = [] # (if cs = [] then [[]] else cs)"
    using split_join_plain[OF assms] by (simp add: abs_of_def)
  then show ?thesis
    using fold_plain[OF assms, of True "[]"] by (simp add: clean_comps_def clean_step_def)
qed

lemma clean_path_abs: "is_abs s \<Longrightarrow> clean_path s = abs_of (clean_comps s)"
  by (simp add: clean_path_def abs_of_def)

lemma clean_path_idem_abs: "is_abs s \<Longrightarrow> clean_path (clean_path s) = clean_path s"
  by (simp add: clean_path_abs clean_comps_abs_of clean_comps_abs)

text \<open>A relative path that does not escape is a list of plain components.\<close>

lemma fold_relative:
  assumes "list_all (\<lambda>c. CHR ''/'' \<notin> set c) cs" and "st = ps @ replicate k ''..''" and "list_all plain_comp ps"
  shows "\<exists>ps k. fold (clean_step False) cs st = ps @ replicate k ''..'' \<and> list_all plain_comp ps"
  using assms
proof (induction cs arbitrary: st ps k)
  case (Cons c cs)
  have "\<exists>ps' k'. clean_step False c st = ps' @ replicate k' ''..'' \<and> list_all plain_comp ps'"
  proof (cases "c = ''..''")
    case True
    show ?thesis
    proof (cases ps)
      case Nil
      then have "clean_step False c st = [] @ replicate (Suc k) ''..''"
        using True Cons.prems(2) by (cases k) (simp_all add: clean_step_def)
      then show ?thesis by (intro exI[of _ "[]"] exI[of _ "Suc k"]) simp
    next
      case ps: (Cons x xs)
      then have "x \<noteq> ''..''" "list_all plain_comp xs" using Cons.prems(3) by (auto simp: plain_comp_def list_all_iff)
      then have "clean_step False c st = xs @ replicate k ''..'' \<and> list_all plain_comp xs"
        using True ps Cons.prems(2) by (simp add: clean_step_def)
      then show ?thesis by blast
    qed
  next
    case False
    then have "clean_step False c st = (if c = [] \<or> c = ''.'' then ps else c # ps) @ replicate k ''..''
        \<and> list_all plain_comp (if c = [] \<or> c = ''.'' then ps else c # ps)"
      using Cons.prems by (simp add: clean_step_def plain_comp_def[of c])
    then show ?thesis by blast
  qed
  then obtain ps' k' where "clean_step False c st = ps' @ replicate k' ''..''" "list_all plain_comp ps'" by blast
  with Cons.IH[of "clean_step False c st" ps' k'] Cons.prems(1) show ?case by simp
qed auto

lemma clean_comps_rel:
  assumes "\<not> is_abs s"
  obtains k ps where "clean_comps s = replicate k ''..'' @ ps" and "list_all plain_comp ps"
proof -
  obtain ps k where "fold (clean_step False) (split_on (CHR ''/'') s) [] = ps @ replicate k ''..''" "list_all plain_comp ps"
    using fold_relative[OF split_on_pieces[of "CHR ''/''" s], of "[]" "[]" 0] by auto
  then show thesis using that[of k "rev ps"] assms by (simp add: clean_comps_def list_all_rev)
qed

lemma escapes_join: "escapes (join ''/'' (''..'' # cs))"
  by (cases cs) (simp_all add: escapes_def has_prefix_def)

lemma clean_comps_inside:
  assumes "\<not> is_abs s" and "clean_path s \<noteq> ''.''" and "\<not> escapes (clean_path s)"
  shows "list_all plain_comp (clean_comps s) \<and> clean_comps s \<noteq> [] \<and> clean_path s = join ''/'' (clean_comps s)"
proof -
  obtain k ps where c: "clean_comps s = replicate k ''..'' @ ps" and p: "list_all plain_comp ps"
    by (rule clean_comps_rel[OF assms(1)])
  have ne: "clean_comps s \<noteq> []" using assms(1,2) by (auto simp: clean_path_def)
  then have path: "clean_path s = join ''/'' (clean_comps s)" using assms(1) by (simp add: clean_path_def)
  with assms(3) c have "k = 0" using escapes_join by (cases k) auto
  with c p ne path show ?thesis by simp
qed

lemma clean_join:
  assumes "is_abs root" and "list_all plain_comp cs" and "cs \<noteq> []"
  shows "clean_comps (root @ ''/'' @ join ''/'' cs) = clean_comps root @ cs"
proof -
  have "split_on (CHR ''/'') (root @ ''/'' @ join ''/'' cs) = split_on (CHR ''/'') root @ cs"
    using split_on_app[of "CHR ''/''" root "join ''/'' cs"] split_join_plain[OF assms(2)] assms(3) by simp
  moreover have "is_abs (root @ ''/'' @ join ''/'' cs)"
    using assms(1) by (auto simp: is_abs_def has_prefix_iff prefix_def)
  ultimately show ?thesis using assms(1,2) by (simp add: clean_comps_def fold_plain)
qed

section \<open>Relative paths\<close>

lemma drop_common_append: "drop_common xs (xs @ ys) = ([], ys)"
  by (induction xs) (cases ys; simp)+

lemma drop_common_Nil: "drop_common xs ys = ([], zs) \<Longrightarrow> ys = xs @ zs"
  by (induction xs ys rule: drop_common.induct) (auto split: if_splits)

lemma plain_no_escape: "list_all plain_comp cs \<Longrightarrow> cs \<noteq> [] \<Longrightarrow> join ''/'' cs \<noteq> ''.'' \<and> \<not> escapes (join ''/'' cs)"
proof (cases cs)
  case (Cons c cs')
  assume "list_all plain_comp cs"
  with Cons have c: "c \<noteq> []" "c \<noteq> ''.''" "c \<noteq> ''..''" "CHR ''/'' \<notin> set c" by (auto simp: plain_comp_def)
  have j: "join ''/'' cs = (if cs' = [] then c else c @ ''/'' @ join ''/'' cs')" using Cons by (cases cs') auto
  have "join ''/'' cs \<noteq> ''.''" "join ''/'' cs \<noteq> ''..''"
    using c unfolding j by (cases c rule: list.exhaust; cases "tl c"; auto)+
  moreover have "\<not> has_prefix (join ''/'' cs) ''../''"
  proof
    assume "has_prefix (join ''/'' cs) ''../''"
    then obtain z where z: "join ''/'' cs = ''../'' @ z" by (auto simp: has_prefix_iff prefix_def)
    then have "split_on (CHR ''/'') (join ''/'' cs) = ''..'' # split_on (CHR ''/'') z" by simp
    moreover have "split_on (CHR ''/'') (join ''/'' cs) = cs"
      using split_join_plain \<open>list_all plain_comp cs\<close> Cons by simp
    ultimately show False using Cons c by simp
  qed
  ultimately show ?thesis by (simp add: escapes_def)
qed simp

lemma rel_path_inside:
  assumes "is_abs root" and "is_abs target"
  shows "rel_path root target \<noteq> ''.'' \<and> \<not> escapes (rel_path root target)
    \<longleftrightarrow> (\<exists>cs. cs \<noteq> [] \<and> clean_comps target = clean_comps root @ cs)"
    and "clean_comps target = clean_comps root @ cs \<Longrightarrow> cs \<noteq> [] \<Longrightarrow> rel_path root target = join ''/'' cs"
proof -
  obtain up down where d: "drop_common (clean_comps root) (clean_comps target) = (up, down)" by fastforce
  show r: "rel_path root target = join ''/'' cs" if "clean_comps target = clean_comps root @ cs" "cs \<noteq> []" for cs
    using that by (simp add: rel_path_def drop_common_append)
  show "rel_path root target \<noteq> ''.'' \<and> \<not> escapes (rel_path root target)
    \<longleftrightarrow> (\<exists>cs. cs \<noteq> [] \<and> clean_comps target = clean_comps root @ cs)"
  proof
    assume *: "rel_path root target \<noteq> ''.'' \<and> \<not> escapes (rel_path root target)"
    then have "up = []" using d escapes_join by (cases up) (auto simp: rel_path_def)
    then have "clean_comps target = clean_comps root @ down" using d drop_common_Nil by simp
    moreover have "down \<noteq> []" using * d \<open>up = []\<close> by (auto simp: rel_path_def)
    ultimately show "\<exists>cs. cs \<noteq> [] \<and> clean_comps target = clean_comps root @ cs" by blast
  next
    assume "\<exists>cs. cs \<noteq> [] \<and> clean_comps target = clean_comps root @ cs"
    then obtain cs where cs: "cs \<noteq> []" "clean_comps target = clean_comps root @ cs" by blast
    then have "list_all plain_comp cs" using clean_comps_abs[OF assms(2)] by simp
    with plain_no_escape cs show "rel_path root target \<noteq> ''.'' \<and> \<not> escapes (rel_path root target)"
      by (simp add: r)
  qed
qed

section \<open>Properties\<close>

definition resolver_ok :: "path_resolver \<Rightarrow> bool" where
  "resolver_ok r \<longleftrightarrow> is_abs (pr_root r) \<and> clean_path (pr_root r) = pr_root r"

text \<open>What \<^verbatim>\<open>Resolve\<close> accepts, and the result then.\<close>

definition inside :: "path_resolver \<Rightarrow> string \<Rightarrow> string list \<Rightarrow> bool" where
  "inside r inp cs \<longleftrightarrow> cs \<noteq> [] \<and> list_all plain_comp cs
     \<and> (if is_abs inp then clean_comps inp = clean_comps (pr_root r) @ cs else clean_comps inp = cs)"

lemma Resolve_Inr:
  assumes "resolver_ok r" and "Resolve w r inp = Inr p"
  obtains cs where "inside r inp cs" and "wp_relative p = join ''/'' cs" and "wp_identity p = join ''/'' cs"
    and "wp_absolute p = abs_of (clean_comps (pr_root r) @ cs)"
    and "checkSymlinkBoundary w r (wp_absolute p) inp = None"
proof -
  note root = assms(1)[unfolded resolver_ok_def]
  define target where "target = (if is_abs inp then clean_path inp else clean_path (pr_root r @ ''/'' @ clean_path inp))"
  have t: "\<not> is_abs inp \<longrightarrow> clean_path inp \<noteq> ''.'' \<and> \<not> escapes (clean_path inp)"
    and rel: "rel_path (pr_root r) target \<noteq> ''.'' \<and> \<not> escapes (rel_path (pr_root r) target)"
    and b: "checkSymlinkBoundary w r target inp = None"
    and p: "wp_relative p = rel_path (pr_root r) target" "wp_absolute p = target"
      "wp_identity p = rel_path (pr_root r) target"
    using assms(2) by (auto simp: Resolve_def Let_def target_def resolver_identity_def split: if_splits option.splits)
  have app: "is_abs (pr_root r @ x)" for x
    using root by (auto simp: is_abs_def has_prefix_iff prefix_def)
  then have abs: "is_abs target" and ct: "clean_path target = target"
    by (simp_all add: target_def clean_path_abs clean_path_idem_abs clean_comps_abs clean_comps_abs_of)
  obtain cs where cs: "cs \<noteq> []" "clean_comps target = clean_comps (pr_root r) @ cs"
    using rel rel_path_inside(1)[of "pr_root r" target] root abs by blast
  have plain: "list_all plain_comp cs" using clean_comps_abs[OF abs] cs by simp
  have "inside r inp cs"
  proof (cases "is_abs inp")
    case True
    then have "clean_comps inp = clean_comps target"
      by (simp add: target_def clean_path_abs clean_comps_abs clean_comps_abs_of)
    with True cs plain show ?thesis by (simp add: inside_def)
  next
    case False
    with t clean_comps_inside have i: "list_all plain_comp (clean_comps inp)" "clean_comps inp \<noteq> []"
      "clean_path inp = join ''/'' (clean_comps inp)" by blast+
    then have "clean_comps target = clean_comps (pr_root r) @ clean_comps inp"
      using False root app clean_join[OF _ i(1,2), of "pr_root r"]
      by (simp add: target_def clean_path_abs clean_comps_abs_of clean_comps_abs)
    with cs False plain show ?thesis by (simp add: inside_def)
  qed
  moreover have "rel_path (pr_root r) target = join ''/'' cs" using rel_path_inside(2) root abs cs by blast
  moreover have "target = abs_of (clean_comps (pr_root r) @ cs)" using ct clean_path_abs[OF abs] cs by simp
  ultimately show thesis using that p b by simp
qed

lemma NewWorkspacePathResolver_ok: "NewWorkspacePathResolver w d = Inr r \<Longrightarrow> (\<And>c. pw_cwd w = Some c \<Longrightarrow> is_abs c) \<Longrightarrow> resolver_ok r"
proof -
  assume n: "NewWorkspacePathResolver w d = Inr r" and cwd: "\<And>c. pw_cwd w = Some c \<Longrightarrow> is_abs c"
  have app: "is_abs c \<Longrightarrow> is_abs (c @ x)" for c x by (auto simp: is_abs_def has_prefix_iff prefix_def)
  obtain a where a: "pr_root r = clean_path a" "is_abs a"
    using n cwd by (auto simp: NewWorkspacePathResolver_def clean_path_abs app split: option.splits if_splits)
  then show ?thesis by (simp add: resolver_ok_def clean_path_abs clean_comps_abs_of clean_comps_abs)
qed


definition wit_paths :: path_world where
  "wit_paths = \<lparr>pw_lstat = (\<lambda>p. if p = ''/w'' then LExists else LMissing), pw_eval = Some, pw_cwd = Some ''/''\<rparr>"


text \<open>Cleaning brings in no characters but dots.\<close>

lemma split_on_chars: "w \<in> set (split_on c s) \<Longrightarrow> set w \<subseteq> set s"
proof (induction s arbitrary: w)
  case (Cons x s)
  then show ?case by (cases "split_on c s") (fastforce split: if_splits)+
qed simp

lemma fold_clean_members: "w \<in> set (fold (clean_step b) cs st) \<Longrightarrow> w \<in> set cs \<or> w \<in> set st \<or> w = ''..''"
proof (induction cs arbitrary: st)
  case (Cons c cs)
  have "x \<in> set (clean_step b c st) \<Longrightarrow> x = c \<or> x \<in> set st \<or> x = ''..''" for x
    by (auto simp: clean_step_def split: list.splits if_splits)
  with Cons show ?case by fastforce
qed simp

lemma clean_comps_chars: "w \<in> set (clean_comps s) \<Longrightarrow> set w \<subseteq> set s \<union> {CHR ''.''}"
  using fold_clean_members[of w "is_abs s" "split_on (CHR ''/'') s" "[]"] split_on_chars[of w "CHR ''/''" s]
  by (auto simp: clean_comps_def)

lemma join_chars: "set (join sep ws) \<subseteq> set sep \<union> \<Union> (set ` set ws)"
  by (induction sep ws rule: join.induct) auto

lemma contains_char: "str_contains s [c] \<longleftrightarrow> c \<in> set s"
proof (induction s)
  case (Cons x s)
  then show ?case by (auto simp: str_contains_def has_prefix_def)
qed (simp add: str_contains_def)

lemma clean_comps_join: "list_all plain_comp cs \<Longrightarrow> cs \<noteq> [] \<Longrightarrow> \<not> is_abs (join ''/'' cs) \<and> clean_comps (join ''/'' cs) = cs"
proof (cases cs)
  case (Cons c cs')
  assume p: "list_all plain_comp cs"
  then have c: "c \<noteq> []" "CHR ''/'' \<notin> set c" using Cons by (auto simp: plain_comp_def)
  have "hd (join ''/'' cs) = hd c" using Cons c by (cases cs') auto
  then have "\<not> is_abs (join ''/'' cs)" using c
    by (auto simp: is_abs_def has_prefix_def) (metis hd_in_set list.sel(1) take_Suc hd_Cons_tl take_eq_Nil2)
  then show ?thesis using split_join_plain[OF p] fold_plain[OF p, of False "[]"] Cons by (simp add: clean_comps_def)
qed simp

lemma boundary_None:
  "checkSymlinkBoundary w r a i = None \<longleftrightarrow> (\<exists>q e. nearest_existing w i (rev (clean_comps a)) = Inr q
     \<and> pw_eval w q = Some e \<and> pathWithin (pr_eval_root r) e)"
  unfolding checkSymlinkBoundary_def by (auto simp del: nearest_existing.simps split: sum.splits option.splits if_splits)

lemma nearest_input: "nearest_existing w i cs = Inr q \<longleftrightarrow> nearest_existing w j cs = Inr q"
proof (induction cs)
  case (Cons c cs)
  then show ?case by (cases "pw_lstat w (abs_of (rev (c # cs)))") simp_all
qed (simp split: lstat_result.splits)

lemma boundary_input: "checkSymlinkBoundary w r a i = None \<longleftrightarrow> checkSymlinkBoundary w r a j = None"
  unfolding boundary_None nearest_input[of w i _ _ j] ..

text \<open>Resolving the relative form of a resolved path again, on the same file system, gives the same
  path; so the second check before a write agrees with the first. (The relative form has to be one
  the first checks accept: not blank and not starting with a backslash.)\<close>

theorem resolve_is_stable:
  assumes "resolver_ok r" and "Resolve w r inp = Inr p"
    and "trim_space (wp_relative p) \<noteq> []" and "\<not> has_prefix (wp_relative p) [CHR 0x5C]"
  shows "Resolve w r (wp_relative p) = Inr p"
proof -
  obtain cs where cs: "inside r inp cs" "wp_relative p = join ''/'' cs" "wp_identity p = join ''/'' cs"
      "wp_absolute p = abs_of (clean_comps (pr_root r) @ cs)" "checkSymlinkBoundary w r (wp_absolute p) inp = None"
    by (rule Resolve_Inr[OF assms(1,2)])
  have plain: "list_all plain_comp cs" "cs \<noteq> []" using cs(1) by (simp_all add: inside_def)
  let ?i = "join ''/'' cs"
  have i: "\<not> is_abs ?i" "clean_comps ?i = cs" using clean_comps_join[OF plain] by auto
  have "CHR '':'' \<notin> set inp" using assms(2) contains_char[of inp "CHR '':''"] by (auto simp: Resolve_def split: if_splits)
  moreover have "set cs \<subseteq> set (clean_comps inp)" using cs(1) by (auto simp: inside_def split: if_splits)
  ultimately have "CHR '':'' \<notin> set ?i"
    using clean_comps_chars[of _ inp] join_chars[of "''/''" cs] by fastforce
  then have colon: "\<not> str_contains ?i '':''" by (simp add: contains_char)
  have slash: "\<not> has_prefix ?i ''//''" using i(1) by (auto simp: is_abs_def has_prefix_iff prefix_def)
  have path: "clean_path ?i = ?i" using i plain by (simp add: clean_path_def)
  have root: "is_abs (pr_root r)" using assms(1) by (simp add: resolver_ok_def)
  then have abs: "is_abs (pr_root r @ ''/'' @ ?i)" by (auto simp: is_abs_def has_prefix_iff prefix_def)
  have a: "clean_path (pr_root r @ ''/'' @ ?i) = wp_absolute p"
    using clean_path_abs[OF abs] clean_join[OF root plain] cs(4) by simp
  have "clean_comps (wp_absolute p) = clean_comps (pr_root r) @ cs"
    unfolding cs(4) using plain clean_comps_abs[OF root] by (intro clean_comps_abs_of) simp
  then have rel: "rel_path (pr_root r) (wp_absolute p) = ?i" using plain by (simp add: rel_path_def drop_common_append)
  have "checkSymlinkBoundary w r (wp_absolute p) ?i = None" using cs(5) boundary_input by blast
  with assms(3,4) cs(2,3) colon slash path a rel i(1) plain_no_escape[OF plain] show ?thesis
    by (simp add: Resolve_def Let_def resolver_identity_def)
qed

theorem resolve_is_stable_witness:
  "Resolve wit_paths \<lparr>pr_root = ''/w'', pr_eval_root = ''/w''\<rparr> ''b'' = Resolve wit_paths \<lparr>pr_root = ''/w'', pr_eval_root = ''/w''\<rparr> ''/w/b''"
proof -
  let ?r = "\<lparr>pr_root = ''/w'', pr_eval_root = ''/w''\<rparr>"
  have r: "Resolve wit_paths ?r ''/w/b'' = Inr \<lparr>wp_relative = ''b'', wp_absolute = ''/w/b'', wp_identity = ''b''\<rparr>" by code_simp
  have ok: "resolver_ok ?r" by code_simp
  have t: "trim_space ''b'' \<noteq> []" by code_simp
  from resolve_is_stable[OF ok r] t r show ?thesis by (simp add: has_prefix_def)
qed

end
