(* ===== verification/ApplyPatch.thy ===== *)
theory ApplyPatch
  imports WorkspacePath
begin

text \<open>
  The \<^verbatim>\<open>apply_patch\<close> tool, \<^verbatim>\<open>internal/features/applypatch/apply_patch.go\<close>: the parser, the plan that
  is computed from the current files, and the writes with their rollback.

  \<open>patch_fs\<close> is what the tool sees of the file system: files with contents and permission bits,
  directories, the paths where \<^verbatim>\<open>os.Stat\<close> or reading fails, the effect of the umask on a new file, and
  the outcomes of the coming writes. A write that fails may leave a prefix of its data behind. The
  sandbox's \<^verbatim>\<open>CheckWrite\<close> is the argument \<open>guard\<close>; plan and validation get their own path world and
  guard because the file system may change in between.
\<close>

section \<open>Patches\<close>

datatype patch_kind = PatchAdd | PatchUpdate | PatchDelete

record patch_line =
  pl_kind :: char
  pl_text :: string

record patch_operation =
  po_kind :: patch_kind
  po_path :: string
  po_move_to :: string
  po_lines :: "patch_line list"

record patch_hunk =
  ph_old :: string
  ph_new :: string
  ph_additions :: nat
  ph_deletions :: nat

record patch_change =
  pc_kind :: patch_kind
  pc_rel :: string
  pc_abs :: string
  pc_move_rel :: string
  pc_move_abs :: string
  pc_content :: string
  pc_mode :: nat
  pc_additions :: nat
  pc_deletions :: nat

record patch_summary =
  ps_changes :: "patch_change list"
  ps_adds :: nat
  ps_updates :: nat
  ps_deletes :: nat
  ps_moves :: nat
  ps_additions :: nat
  ps_deletions :: nat

record patch_snapshot =
  sn_abs :: string
  sn_existed :: bool
  sn_data :: string
  sn_mode :: nat

datatype patch_error =
    MissingPatchText | BadFrame | ExpectsPlus string string | ExpectsHunkLine string string
  | UnexpectedLine string | EmptyPatch | PathProblem path_error | WriteBlocked string
  | DuplicateOperation string | MoveTargetIsSource string | AlreadyExists string | MoveTargetExists string
  | IsDirectory string | StatFailed string | NotFoundFile string | ReadFailed string | NoHunksFor string
  | HunkWithoutContext | NoHunks | ContextNotFound string | AmbiguousContext string nat
  | IdentityChanged string | Cancelled | WriteFailedAt string | RollbackFailed patch_error patch_error

definition patchHeader :: string where "patchHeader = ''*** Begin Patch''"
definition patchFooter :: string where "patchFooter = ''*** End Patch''"

section \<open>Parsing\<close>

definition trim_prefix :: "string \<Rightarrow> string \<Rightarrow> string" where
  "trim_prefix s p = (if has_prefix s p then drop (length p) s else s)"

abbreviation nl :: char where "nl \<equiv> CHR 0x0A"

text \<open>The content lines of an added file: everything up to the next directive, which must start with a plus.\<close>

fun add_lines :: "string \<Rightarrow> string list \<Rightarrow> patch_error + patch_line list \<times> string list" where
  "add_lines path [] = Inr ([], [])"
| "add_lines path (l # ls) =
     (if has_prefix l ''*** '' then Inr ([], l # ls)
      else if \<not> has_prefix l ''+'' then Inl (ExpectsPlus path l)
      else case add_lines path ls of Inl e \<Rightarrow> Inl e
      | Inr (pls, rest) \<Rightarrow> Inr (\<lparr>pl_kind = CHR ''+'', pl_text = trim_prefix l ''+''\<rparr> # pls, rest))"

definition cons_line :: "patch_line \<Rightarrow> patch_error + patch_line list \<times> string list \<Rightarrow> patch_error + patch_line list \<times> string list" where
  "cons_line pl r = (case r of Inl e \<Rightarrow> Inl e | Inr (pls, rest) \<Rightarrow> Inr (pl # pls, rest))"

text \<open>The lines of an updated file. An empty line before a directive or the end is skipped.\<close>

fun update_lines :: "string \<Rightarrow> string list \<Rightarrow> patch_error + patch_line list \<times> string list" where
  "update_lines path [] = Inr ([], [])"
| "update_lines path (l # ls) =
     (if has_prefix l ''*** '' then Inr ([], l # ls)
      else if has_prefix l ''@@'' then cons_line \<lparr>pl_kind = CHR ''@'', pl_text = []\<rparr> (update_lines path ls)
      else case l of
        [] \<Rightarrow> (if ls = [] \<or> has_prefix (hd ls) ''*** '' then update_lines path ls
               else cons_line \<lparr>pl_kind = CHR '' '', pl_text = []\<rparr> (update_lines path ls))
      | c # text \<Rightarrow>
          (if c \<noteq> CHR '' '' \<and> c \<noteq> CHR ''+'' \<and> c \<noteq> CHR ''-'' then Inl (ExpectsHunkLine path l)
           else cons_line \<lparr>pl_kind = c, pl_text = text\<rparr> (update_lines path ls)))"

lemma add_lines_rest: "add_lines p ls = Inr (pls, rest) \<Longrightarrow> length rest \<le> length ls"
  by (induction ls arbitrary: pls) (auto split: if_splits sum.splits prod.splits intro: le_SucI)

lemma update_lines_rest: "update_lines p ls = Inr (pls, rest) \<Longrightarrow> length rest \<le> length ls"
  by (induction ls arbitrary: pls)
    (auto simp: cons_line_def split: if_splits sum.splits prod.splits list.splits intro: le_SucI)

definition move_line :: "string list \<Rightarrow> string \<times> string list" where
  "move_line ls = (case ls of
      l # rest \<Rightarrow> (if has_prefix l ''*** Move to: '' then (trim_space (trim_prefix l ''*** Move to: ''), rest) else ([], ls))
    | [] \<Rightarrow> ([], []))"

function parse_ops :: "string list \<Rightarrow> patch_error + patch_operation list" where
  "parse_ops [] = Inr []"
| "parse_ops (l # ls) =
     (if has_prefix l ''*** Add File: '' then
        (let path = trim_space (trim_prefix l ''*** Add File: '') in
         case add_lines path ls of Inl e \<Rightarrow> Inl e
         | Inr (pls, rest) \<Rightarrow> (case parse_ops rest of Inl e \<Rightarrow> Inl e
           | Inr ops \<Rightarrow> Inr (\<lparr>po_kind = PatchAdd, po_path = path, po_move_to = [], po_lines = pls\<rparr> # ops)))
      else if has_prefix l ''*** Update File: '' then
        (let path = trim_space (trim_prefix l ''*** Update File: '') in
         case update_lines path (snd (move_line ls)) of Inl e \<Rightarrow> Inl e
         | Inr (pls, rest) \<Rightarrow> (case parse_ops rest of Inl e \<Rightarrow> Inl e
           | Inr ops \<Rightarrow> Inr (\<lparr>po_kind = PatchUpdate, po_path = path, po_move_to = fst (move_line ls), po_lines = pls\<rparr> # ops)))
      else if has_prefix l ''*** Delete File: '' then
        (case parse_ops ls of Inl e \<Rightarrow> Inl e
         | Inr ops \<Rightarrow> Inr (\<lparr>po_kind = PatchDelete, po_path = trim_space (trim_prefix l ''*** Delete File: ''),
             po_move_to = [], po_lines = []\<rparr> # ops))
      else Inl (UnexpectedLine l))"
  by pat_completeness auto

lemma move_line_rest: "length (snd (move_line ls)) \<le> length ls"
  by (auto simp: move_line_def split: list.splits)

termination parse_ops
  by (relation "measure length")
    (auto simp: less_Suc_eq_le dest!: add_lines_rest update_lines_rest intro: order_trans[OF _ move_line_rest])

declare parse_ops.simps [simp del]

definition parsePatch :: "string \<Rightarrow> patch_error + patch_operation list" where
  "parsePatch patchText =
     (let ls = split_on nl (trim_space (replace_all patchText [CHR 0x0D, nl] [nl])) in
      if length ls < 2 \<or> hd ls \<noteq> patchHeader \<or> last ls \<noteq> patchFooter then Inl BadFrame
      else case parse_ops (butlast (tl ls)) of Inl e \<Rightarrow> Inl e
      | Inr ops \<Rightarrow> (if ops = [] then Inl EmptyPatch else Inr ops))"

section \<open>Hunks\<close>

definition patchLinesContent :: "patch_line list \<Rightarrow> string \<times> nat" where
  "patchLinesContent ls = (concat (map (\<lambda>l. pl_text l @ [nl]) ls), length (filter (\<lambda>l. pl_kind l = CHR ''+'') ls))"

definition buildPatchHunk :: "patch_line list \<Rightarrow> patch_hunk" where
  "buildPatchHunk ls =
     \<lparr>ph_old = concat (map (\<lambda>l. pl_text l @ [nl]) (filter (\<lambda>l. pl_kind l = CHR '' '' \<or> pl_kind l = CHR ''-'') ls)),
      ph_new = concat (map (\<lambda>l. pl_text l @ [nl]) (filter (\<lambda>l. pl_kind l = CHR '' '' \<or> pl_kind l = CHR ''+'') ls)),
      ph_additions = length (filter (\<lambda>l. pl_kind l = CHR ''+'') ls),
      ph_deletions = length (filter (\<lambda>l. pl_kind l = CHR ''-'') ls)\<rparr>"

definition flush_hunk :: "patch_line list \<Rightarrow> patch_hunk list \<Rightarrow> patch_error + patch_hunk list" where
  "flush_hunk current hunks = (if current = [] then Inr hunks
     else let h = buildPatchHunk current in
       if ph_old h = [] then Inl HunkWithoutContext else Inr (hunks @ [h]))"

fun hunk_loop :: "patch_line list \<Rightarrow> patch_line list \<Rightarrow> patch_hunk list \<Rightarrow> patch_error + patch_hunk list" where
  "hunk_loop [] current hunks = flush_hunk current hunks"
| "hunk_loop (l # ls) current hunks =
     (if pl_kind l = CHR ''@''
      then (case flush_hunk current hunks of Inl e \<Rightarrow> Inl e | Inr hunks' \<Rightarrow> hunk_loop ls [] hunks')
      else hunk_loop ls (current @ [l]) hunks)"

definition patchHunks :: "patch_line list \<Rightarrow> patch_error + patch_hunk list" where
  "patchHunks ls = (case hunk_loop ls [] [] of Inl e \<Rightarrow> Inl e
     | Inr hunks \<Rightarrow> (if hunks = [] then Inl NoHunks else Inr hunks))"

fun applyPatchHunks :: "string \<Rightarrow> string \<Rightarrow> patch_hunk list \<Rightarrow> nat \<Rightarrow> nat \<Rightarrow> patch_error + string \<times> nat \<times> nat" where
  "applyPatchHunks rel content [] additions deletions = Inr (content, additions, deletions)"
| "applyPatchHunks rel content (h # hs) additions deletions =
     (let n = str_count (ph_old h) content in
      if n = 0 then Inl (ContextNotFound rel)
      else if n = 1 then applyPatchHunks rel (replace_first content (ph_old h) (ph_new h)) hs
             (additions + ph_additions h) (deletions + ph_deletions h)
      else Inl (AmbiguousContext rel n))"

section \<open>The file system\<close>

datatype patch_io = IoOk | IoFailed | IoPartial nat

record patch_fs =
  pf_files :: "(string \<times> string \<times> nat) list"
  pf_dirs :: "string list"
  pf_stat_errors :: "string list"
  pf_unreadable :: "string list"
  pf_mask :: "nat \<Rightarrow> nat"
  pf_io :: "patch_io list"

type_synonym 'a patch_op = "(patch_fs, patch_error, 'a) op"

datatype stat_result = StatFile nat | StatDir | StatMissing | StatOther

definition stat :: "patch_fs \<Rightarrow> string \<Rightarrow> stat_result" where
  "stat fs p = (if p \<in> set (pf_stat_errors fs) then StatOther
     else if p \<in> set (pf_dirs fs) then StatDir
     else case map_of (pf_files fs) p of None \<Rightarrow> StatMissing | Some (_, m) \<Rightarrow> StatFile m)"

definition read_file :: "patch_fs \<Rightarrow> string \<Rightarrow> patch_error + string" where
  "read_file fs p = (if p \<in> set (pf_unreadable fs) then Inl (ReadFailed p)
     else case map_of (pf_files fs) p of None \<Rightarrow> Inl (ReadFailed p) | Some (c, _) \<Rightarrow> Inr c)"

definition next_io :: "patch_fs \<Rightarrow> patch_io \<times> patch_fs" where
  "next_io fs = (case pf_io fs of [] \<Rightarrow> (IoOk, fs) | x # xs \<Rightarrow> (x, fs\<lparr>pf_io := xs\<rparr>))"

text \<open>The proper ancestors of an absolute path, outermost first.\<close>

definition ancestors :: "string \<Rightarrow> string list" where
  "ancestors p = map (\<lambda>i. take i p) (filter (\<lambda>i. p ! i = CHR ''/'') [1..<length p])"

definition mkdir_all :: "string \<Rightarrow> unit patch_op" where
  "mkdir_all p fs = (case next_io fs of (x, fs') \<Rightarrow>
     (case x of
        IoFailed \<Rightarrow> (Inl (WriteFailedAt p), fs')
      | IoPartial n \<Rightarrow> (Inl (WriteFailedAt p), fs'\<lparr>pf_dirs := take n (ancestors p) @ pf_dirs fs'\<rparr>)
      | IoOk \<Rightarrow> (if list_ex (\<lambda>q. map_of (pf_files fs') q \<noteq> None) (ancestors p)
                then (Inl (WriteFailedAt p), fs')
                else (Inr (), fs'\<lparr>pf_dirs := ancestors p @ pf_dirs fs'\<rparr>))))"

definition put_contents :: "string \<Rightarrow> string \<Rightarrow> nat \<Rightarrow> patch_fs \<Rightarrow> patch_fs" where
  "put_contents p c m fs = fs\<lparr>pf_files := AList.update p
     (c, case map_of (pf_files fs) p of Some (_, m') \<Rightarrow> m' | None \<Rightarrow> pf_mask fs m) (pf_files fs)\<rparr>"

definition write_file :: "string \<Rightarrow> string \<Rightarrow> nat \<Rightarrow> unit patch_op" where
  "write_file p c m fs = (case next_io fs of (x, fs') \<Rightarrow>
     (if p \<in> set (pf_dirs fs') then (Inl (WriteFailedAt p), fs')
      else case x of
        IoOk \<Rightarrow> (Inr (), put_contents p c m fs')
      | IoFailed \<Rightarrow> (Inl (WriteFailedAt p), fs')
      | IoPartial n \<Rightarrow> (Inl (WriteFailedAt p), put_contents p (take n c) m fs')))"

definition writePatchFile :: "string \<Rightarrow> string \<Rightarrow> nat \<Rightarrow> unit patch_op" where
  "writePatchFile p c m = andThen (mkdir_all p) (\<lambda>_. write_file p c (if m = 0 then 420 else m))"

text \<open>\<^verbatim>\<open>os.Remove\<close>; a directory is taken to be in use.\<close>

definition remove_file :: "string \<Rightarrow> unit patch_op" where
  "remove_file p fs = (case next_io fs of (x, fs') \<Rightarrow>
     (if map_of (pf_files fs') p = None
      then (Inl (if p \<in> set (pf_dirs fs') then WriteFailedAt p else NotFoundFile p), fs')
      else if x = IoOk then (Inr (), fs'\<lparr>pf_files := AList.delete p (pf_files fs')\<rparr>)
      else (Inl (WriteFailedAt p), fs')))"

section \<open>Planning\<close>

definition planPatchAdd :: "patch_fs \<Rightarrow> string \<Rightarrow> string \<Rightarrow> patch_operation \<Rightarrow> patch_error + patch_change" where
  "planPatchAdd fs rel absp op' = (case stat fs absp of
      StatMissing \<Rightarrow> Inr \<lparr>pc_kind = PatchAdd, pc_rel = rel, pc_abs = absp, pc_move_rel = [], pc_move_abs = [],
        pc_content = fst (patchLinesContent (po_lines op')), pc_mode = 420,
        pc_additions = snd (patchLinesContent (po_lines op')), pc_deletions = 0\<rparr>
    | StatOther \<Rightarrow> Inl (StatFailed absp)
    | _ \<Rightarrow> Inl (AlreadyExists rel))"

definition updated_content :: "string \<Rightarrow> bool \<Rightarrow> patch_line list \<Rightarrow> string \<Rightarrow> patch_error + string \<times> nat \<times> nat" where
  "updated_content rel moves ls content =
     (if ls = [] then (if \<not> moves then Inl (NoHunksFor rel) else Inr (content, 0, 0))
      else case patchHunks ls of Inl e \<Rightarrow> Inl e
      | Inr hunks \<Rightarrow> applyPatchHunks rel content hunks 0 0)"

definition planPatchUpdate ::
  "patch_fs \<Rightarrow> string \<Rightarrow> string \<Rightarrow> string \<Rightarrow> string \<Rightarrow> patch_operation \<Rightarrow> patch_error + patch_change" where
  "planPatchUpdate fs rel absp moveRel moveAbs op' = (case stat fs absp of
      StatMissing \<Rightarrow> Inl (NotFoundFile absp)
    | StatOther \<Rightarrow> Inl (StatFailed absp)
    | StatDir \<Rightarrow> Inl (IsDirectory rel)
    | StatFile m \<Rightarrow>
        (case (if moveAbs = [] then StatMissing else stat fs moveAbs) of
           StatMissing \<Rightarrow>
             (case read_file fs absp of Inl e \<Rightarrow> Inl e
              | Inr content \<Rightarrow>
                 (case updated_content rel (moveAbs \<noteq> []) (po_lines op') content of Inl e \<Rightarrow> Inl e
                  | Inr (content', additions, deletions) \<Rightarrow>
                      Inr \<lparr>pc_kind = PatchUpdate, pc_rel = rel, pc_abs = absp, pc_move_rel = moveRel,
                        pc_move_abs = moveAbs, pc_content = content', pc_mode = m,
                        pc_additions = additions, pc_deletions = deletions\<rparr>))
         | StatOther \<Rightarrow> Inl (StatFailed moveAbs)
         | _ \<Rightarrow> Inl (MoveTargetExists moveRel)))"

definition planPatchDelete :: "patch_fs \<Rightarrow> string \<Rightarrow> string \<Rightarrow> patch_error + patch_change" where
  "planPatchDelete fs rel absp = (case stat fs absp of
      StatMissing \<Rightarrow> Inl (NotFoundFile absp)
    | StatOther \<Rightarrow> Inl (StatFailed absp)
    | StatDir \<Rightarrow> Inl (IsDirectory rel)
    | StatFile _ \<Rightarrow> Inr \<lparr>pc_kind = PatchDelete, pc_rel = rel, pc_abs = absp, pc_move_rel = [], pc_move_abs = [],
        pc_content = [], pc_mode = 0, pc_additions = 0, pc_deletions = 0\<rparr>)"

definition guarded_resolve :: "path_world \<Rightarrow> path_resolver \<Rightarrow> (string \<Rightarrow> bool) \<Rightarrow> string \<Rightarrow> patch_error + workspace_path" where
  "guarded_resolve w r guard p = (case Resolve w r p of Inl e \<Rightarrow> Inl (PathProblem e)
     | Inr q \<Rightarrow> (if guard (wp_absolute q) then Inr q else Inl (WriteBlocked (wp_absolute q))))"

text \<open>One operation of the plan: the change and the path identities it touches.\<close>

definition plan_op ::
  "path_world \<Rightarrow> path_resolver \<Rightarrow> (string \<Rightarrow> bool) \<Rightarrow> patch_fs \<Rightarrow> string list \<Rightarrow> patch_operation
   \<Rightarrow> patch_error + patch_change \<times> string list" where
  "plan_op w r guard fs touched op' = (case guarded_resolve w r guard (po_path op') of
      Inl e \<Rightarrow> Inl e
    | Inr q \<Rightarrow>
       (if wp_identity q \<in> set touched then Inl (DuplicateOperation (wp_relative q))
        else let touched1 = wp_identity q # touched in
         (case po_kind op' of
            PatchAdd \<Rightarrow> (case planPatchAdd fs (wp_relative q) (wp_absolute q) op' of
              Inl e \<Rightarrow> Inl e | Inr c \<Rightarrow> Inr (c, touched1))
          | PatchDelete \<Rightarrow> (case planPatchDelete fs (wp_relative q) (wp_absolute q) of
              Inl e \<Rightarrow> Inl e | Inr c \<Rightarrow> Inr (c, touched1))
          | PatchUpdate \<Rightarrow>
             (if po_move_to op' = []
              then (case planPatchUpdate fs (wp_relative q) (wp_absolute q) [] [] op' of
                Inl e \<Rightarrow> Inl e | Inr c \<Rightarrow> Inr (c, touched1))
              else (case guarded_resolve w r guard (po_move_to op') of
                Inl e \<Rightarrow> Inl e
              | Inr mv \<Rightarrow>
                 (if wp_identity mv = wp_identity q then Inl (MoveTargetIsSource (wp_relative q))
                  else if wp_identity mv \<in> set touched1 then Inl (DuplicateOperation (wp_relative mv))
                  else (case planPatchUpdate fs (wp_relative q) (wp_absolute q) (wp_relative mv) (wp_absolute mv) op' of
                    Inl e \<Rightarrow> Inl e | Inr c \<Rightarrow> Inr (c, wp_identity mv # touched1))))))))"

definition count_change :: "patch_change \<Rightarrow> patch_summary \<Rightarrow> patch_summary" where
  "count_change c s = s\<lparr>ps_changes := ps_changes s @ [c],
     ps_adds := ps_adds s + (if pc_kind c = PatchAdd then 1 else 0),
     ps_updates := ps_updates s + (if pc_kind c = PatchUpdate then 1 else 0),
     ps_deletes := ps_deletes s + (if pc_kind c = PatchDelete then 1 else 0),
     ps_moves := ps_moves s + (if pc_kind c = PatchUpdate \<and> pc_move_rel c \<noteq> [] then 1 else 0),
     ps_additions := ps_additions s + pc_additions c,
     ps_deletions := ps_deletions s + pc_deletions c\<rparr>"

fun plan_loop ::
  "path_world \<Rightarrow> path_resolver \<Rightarrow> (string \<Rightarrow> bool) \<Rightarrow> patch_fs \<Rightarrow> patch_operation list \<Rightarrow> string list
   \<Rightarrow> patch_summary \<Rightarrow> patch_error + patch_summary" where
  "plan_loop w r guard fs [] touched s = Inr s"
| "plan_loop w r guard fs (op' # ops) touched s = (case plan_op w r guard fs touched op' of
      Inl e \<Rightarrow> Inl e
    | Inr (c, touched') \<Rightarrow> plan_loop w r guard fs ops touched' (count_change c s))"

definition empty_summary :: patch_summary where
  "empty_summary = \<lparr>ps_changes = [], ps_adds = 0, ps_updates = 0, ps_deletes = 0, ps_moves = 0,
     ps_additions = 0, ps_deletions = 0\<rparr>"

definition planPatch ::
  "path_world \<Rightarrow> path_resolver \<Rightarrow> (string \<Rightarrow> bool) \<Rightarrow> patch_fs \<Rightarrow> patch_operation list \<Rightarrow> patch_error + patch_summary" where
  "planPatch w r guard fs ops = plan_loop w r guard fs ops [] empty_summary"

definition validate_target ::
  "path_world \<Rightarrow> path_resolver \<Rightarrow> (string \<Rightarrow> bool) \<Rightarrow> string \<Rightarrow> string \<Rightarrow> patch_error option" where
  "validate_target w r guard rel absp = (if rel = [] then None
     else case Resolve w r rel of Inl e \<Rightarrow> Some (PathProblem e)
     | Inr q \<Rightarrow>
        (if wp_identity q \<noteq> resolver_identity r rel \<or> \<not> same_absolute r (wp_absolute q) absp
         then Some (IdentityChanged rel)
         else if \<not> guard (wp_absolute q) then Some (WriteBlocked (wp_absolute q)) else None))"

fun validatePatchChanges ::
  "path_world \<Rightarrow> path_resolver \<Rightarrow> (string \<Rightarrow> bool) \<Rightarrow> patch_change list \<Rightarrow> patch_error option" where
  "validatePatchChanges w r guard [] = None"
| "validatePatchChanges w r guard (c # cs) =
     (case validate_target w r guard (pc_rel c) (pc_abs c) of Some e \<Rightarrow> Some e
      | None \<Rightarrow> (case validate_target w r guard (pc_move_rel c) (pc_move_abs c) of Some e \<Rightarrow> Some e
         | None \<Rightarrow> validatePatchChanges w r guard cs))"

section \<open>Writing and rolling back\<close>

definition snapshot_path :: "patch_fs \<Rightarrow> string \<Rightarrow> patch_error + patch_snapshot" where
  "snapshot_path fs p = (case stat fs p of
      StatDir \<Rightarrow> Inl (IsDirectory p)
    | StatOther \<Rightarrow> Inl (StatFailed p)
    | StatMissing \<Rightarrow> Inr \<lparr>sn_abs = p, sn_existed = False, sn_data = [], sn_mode = 0\<rparr>
    | StatFile m \<Rightarrow> (case read_file fs p of Inl e \<Rightarrow> Inl e
        | Inr c \<Rightarrow> Inr \<lparr>sn_abs = p, sn_existed = True, sn_data = c, sn_mode = m\<rparr>))"

fun snapshot_paths :: "patch_fs \<Rightarrow> string list \<Rightarrow> string list \<Rightarrow> patch_error + patch_snapshot list" where
  "snapshot_paths fs [] seen = Inr []"
| "snapshot_paths fs (p # ps) seen =
     (if p = [] \<or> p \<in> set seen then snapshot_paths fs ps seen
      else case snapshot_path fs p of Inl e \<Rightarrow> Inl e
      | Inr s \<Rightarrow> (case snapshot_paths fs ps (p # seen) of Inl e \<Rightarrow> Inl e | Inr ss \<Rightarrow> Inr (s # ss)))"

definition snapshotPatchChanges :: "patch_fs \<Rightarrow> patch_change list \<Rightarrow> patch_error + patch_snapshot list" where
  "snapshotPatchChanges fs cs = snapshot_paths fs (concat (map (\<lambda>c. [pc_abs c, pc_move_abs c]) cs)) []"

definition write_change :: "patch_change \<Rightarrow> unit patch_op" where
  "write_change c = (case pc_kind c of
      PatchAdd \<Rightarrow> writePatchFile (pc_abs c) (pc_content c) (pc_mode c)
    | PatchUpdate \<Rightarrow>
        (if pc_move_abs c \<noteq> []
         then andThen (writePatchFile (pc_move_abs c) (pc_content c) (pc_mode c)) (\<lambda>_. remove_file (pc_abs c))
         else writePatchFile (pc_abs c) (pc_content c) (pc_mode c))
    | PatchDelete \<Rightarrow> remove_file (pc_abs c))"

fun writePatchChanges :: "patch_change list \<Rightarrow> unit patch_op" where
  "writePatchChanges [] = ret ()"
| "writePatchChanges (c # cs) = andThen (write_change c) (\<lambda>_. writePatchChanges cs)"

definition is_not_found :: "patch_error \<Rightarrow> bool" where
  "is_not_found e = (case e of NotFoundFile _ \<Rightarrow> True | _ \<Rightarrow> False)"

definition restore_snapshot :: "patch_snapshot \<Rightarrow> unit patch_op" where
  "restore_snapshot s fs = (if sn_existed s then writePatchFile (sn_abs s) (sn_data s) (sn_mode s) fs
     else case remove_file (sn_abs s) fs of
       (Inl e, fs') \<Rightarrow> ((if is_not_found e then Inr () else Inl e), fs')
     | (Inr _, fs') \<Rightarrow> (Inr (), fs'))"

text \<open>Every snapshot is restored, last one first; the first error is reported.\<close>

fun rollback_loop :: "patch_snapshot list \<Rightarrow> patch_error option \<Rightarrow> patch_fs \<Rightarrow> patch_error option \<times> patch_fs" where
  "rollback_loop [] first fs = (first, fs)"
| "rollback_loop (s # ss) first fs = (case restore_snapshot s fs of
      (Inl e, fs') \<Rightarrow> rollback_loop ss (case first of None \<Rightarrow> Some e | Some _ \<Rightarrow> first) fs'
    | (Inr _, fs') \<Rightarrow> rollback_loop ss first fs')"

definition rollbackPatchChanges :: "patch_snapshot list \<Rightarrow> patch_fs \<Rightarrow> patch_error option \<times> patch_fs" where
  "rollbackPatchChanges ss = rollback_loop (rev ss) None"

definition applyPatchChanges :: "patch_change list \<Rightarrow> unit patch_op" where
  "applyPatchChanges cs fs = (case snapshotPatchChanges fs cs of
      Inl e \<Rightarrow> (Inl e, fs)
    | Inr snapshots \<Rightarrow> (case writePatchChanges cs fs of
        (Inr _, fs') \<Rightarrow> (Inr (), fs')
      | (Inl e, fs') \<Rightarrow> (case rollbackPatchChanges snapshots fs' of
          (None, fs'') \<Rightarrow> (Inl e, fs'')
        | (Some e', fs'') \<Rightarrow> (Inl (RollbackFailed e e'), fs''))))"

record patch_context =
  px_work_dir :: string
  px_plan_world :: path_world
  px_plan_guard :: "string \<Rightarrow> bool"
  px_check_world :: path_world
  px_check_guard :: "string \<Rightarrow> bool"
  px_cancelled :: bool

definition applyPatch :: "patch_context \<Rightarrow> string \<Rightarrow> patch_summary patch_op" where
  "applyPatch x patchText fs = (case parsePatch patchText of
      Inl e \<Rightarrow> (Inl e, fs)
    | Inr ops \<Rightarrow> (case NewWorkspacePathResolver (px_plan_world x) (px_work_dir x) of
        Inl e \<Rightarrow> (Inl (PathProblem e), fs)
      | Inr r \<Rightarrow> (case planPatch (px_plan_world x) r (px_plan_guard x) fs ops of
          Inl e \<Rightarrow> (Inl e, fs)
        | Inr s \<Rightarrow>
           (if px_cancelled x then (Inl Cancelled, fs)
            else case validatePatchChanges (px_check_world x) r (px_check_guard x) (ps_changes s) of
              Some e \<Rightarrow> (Inl e, fs)
            | None \<Rightarrow> andThen (applyPatchChanges (ps_changes s)) (\<lambda>_. ret s) fs))))"

definition kind_text :: "patch_kind \<Rightarrow> string" where
  "kind_text k = (case k of PatchAdd \<Rightarrow> ''add'' | PatchUpdate \<Rightarrow> ''update'' | PatchDelete \<Rightarrow> ''delete'')"

definition change_text :: "patch_change \<Rightarrow> string" where
  "change_text c = (if pc_kind c = PatchUpdate \<and> pc_move_rel c \<noteq> []
     then [nl] @ ''- move '' @ pc_rel c @ '' -> '' @ pc_move_rel c
     else [nl] @ ''- '' @ kind_text (pc_kind c) @ '' '' @ pc_rel c)"

definition formatPatchSummary :: "patch_summary \<Rightarrow> string" where
  "formatPatchSummary s = ''applied patch: '' @ itoa (length (ps_changes s)) @ '' files changed (add='' @ itoa (ps_adds s)
     @ '' update='' @ itoa (ps_updates s) @ '' delete='' @ itoa (ps_deletes s) @ '' move='' @ itoa (ps_moves s)
     @ '', +'' @ itoa (ps_additions s) @ '' -'' @ itoa (ps_deletions s) @ '')''
     @ concat (map change_text (ps_changes s))"

definition applyPatchTool :: "patch_context \<Rightarrow> json option \<Rightarrow> string patch_op" where
  "applyPatchTool x arg = (let patchText = (case arg of Some (JStr s) \<Rightarrow> s | _ \<Rightarrow> []) in
     if trim_space patchText = [] then raise MissingPatchText
     else andThen (applyPatch x patchText) (\<lambda>s. ret (formatPatchSummary s)))"

end
