(* ===== verification/ApplyPatchProps.thy ===== *)
theory ApplyPatchProps
  imports ApplyPatch
begin

text \<open>
  Correctness of \<^verbatim>\<open>apply_patch\<close>: a patch changes all of its files as planned or leaves every content as
  it was, hunks replace what they name, and a printed patch parses back.
\<close>

section \<open>What an operation can touch\<close>

definition contents :: "patch_fs \<Rightarrow> string \<Rightarrow> string option" where
  "contents fs p = map_option fst (map_of (pf_files fs) p)"

definition frame :: "string set \<Rightarrow> patch_fs \<Rightarrow> patch_fs \<Rightarrow> bool" where
  "frame P fs fs' \<longleftrightarrow> (\<forall>p. p \<notin> P \<longrightarrow> map_of (pf_files fs') p = map_of (pf_files fs) p)"

lemma frame_refl [simp]: "frame P fs fs"
  by (simp add: frame_def)

lemma frame_trans: "frame P a b \<Longrightarrow> frame P b c \<Longrightarrow> frame P a c"
  by (simp add: frame_def)

lemma frame_mono: "frame P a b \<Longrightarrow> P \<subseteq> Q \<Longrightarrow> frame Q a b"
  by (auto simp: frame_def)

lemma frame_contents: "frame P a b \<Longrightarrow> p \<notin> P \<Longrightarrow> contents b p = contents a p"
  by (simp add: frame_def contents_def)

lemma next_io_files: "pf_files (snd (next_io fs)) = pf_files fs" "pf_dirs (snd (next_io fs)) = pf_dirs fs"
    "pf_mask (snd (next_io fs)) = pf_mask fs"
  by (simp_all add: next_io_def split: list.splits)

lemma mkdir_files: "pf_files (snd (mkdir_all p fs)) = pf_files fs"
  using next_io_files(1)[of fs] by (auto simp: mkdir_all_def case_prod_unfold split: patch_io.splits)

lemma write_file_frame: "frame {p} fs (snd (write_file p c m fs))"
  using next_io_files(1)[of fs]
  by (auto simp: write_file_def frame_def put_contents_def case_prod_unfold split: patch_io.splits)

lemma write_file_ok: "fst (write_file p c m fs) = Inr u \<Longrightarrow> contents (snd (write_file p c m fs)) p = Some c"
  by (auto simp: write_file_def contents_def put_contents_def case_prod_unfold split: patch_io.splits if_splits)

lemma writePatchFile_frame: "frame {p} fs (snd (writePatchFile p c m fs))"
proof -
  obtain r fs' where m: "mkdir_all p fs = (r, fs')" by fastforce
  then have f: "frame {p} fs fs'" using mkdir_files[of p fs] by (simp add: frame_def)
  show ?thesis
  proof (cases r)
    case (Inl e)
    with m f show ?thesis by (simp add: writePatchFile_def andThen_def)
  next
    case (Inr u)
    with m show ?thesis
      using frame_trans[OF f write_file_frame] by (simp add: writePatchFile_def andThen_def)
  qed
qed

lemma writePatchFile_ok: "fst (writePatchFile p c m fs) = Inr u \<Longrightarrow> contents (snd (writePatchFile p c m fs)) p = Some c"
  by (cases "mkdir_all p fs"; cases "fst (mkdir_all p fs)") (auto simp: writePatchFile_def andThen_def write_file_ok)

lemma remove_file_frame: "frame {p} fs (snd (remove_file p fs))"
  using next_io_files(1)[of fs] by (auto simp: remove_file_def frame_def case_prod_unfold)

lemma remove_file_ok: "fst (remove_file p fs) = Inr u \<Longrightarrow> contents (snd (remove_file p fs)) p = None"
  by (auto simp: remove_file_def contents_def case_prod_unfold split: if_splits)

lemma remove_file_missing: "fst (remove_file p fs) = Inl e \<Longrightarrow> is_not_found e \<Longrightarrow> contents (snd (remove_file p fs)) p = None"
  by (auto simp: remove_file_def contents_def is_not_found_def case_prod_unfold split: if_splits)

section \<open>Writing\<close>

definition targets :: "patch_change \<Rightarrow> string list" where
  "targets c = pc_abs c # (if pc_move_abs c = [] then [] else [pc_move_abs c])"

definition after_change :: "patch_change \<Rightarrow> (string \<Rightarrow> string option) \<Rightarrow> string \<Rightarrow> string option" where
  "after_change c m = (case pc_kind c of
      PatchAdd \<Rightarrow> m(pc_abs c \<mapsto> pc_content c)
    | PatchUpdate \<Rightarrow> (if pc_move_abs c \<noteq> [] then m(pc_move_abs c \<mapsto> pc_content c, pc_abs c := None)
        else m(pc_abs c \<mapsto> pc_content c))
    | PatchDelete \<Rightarrow> m(pc_abs c := None))"

lemma contents_update:
  "frame {p} a b \<Longrightarrow> contents b p = x \<Longrightarrow> contents b = (contents a)(p := x)"
  using frame_contents[of "{p}" a b] by (auto simp: fun_eq_iff)

lemma write_change_spec:
  shows "frame (set (targets c)) fs (snd (write_change c fs))"
    and "fst (write_change c fs) = Inr u \<Longrightarrow> contents (snd (write_change c fs)) = after_change c (contents fs)"
proof -
  let ?w = "writePatchFile (pc_move_abs c) (pc_content c) (pc_mode c)"
  obtain r fs' where w: "?w fs = (r, fs')" by fastforce
  have f: "frame {pc_move_abs c} fs fs'" using writePatchFile_frame[of "pc_move_abs c" fs "pc_content c" "pc_mode c"] w by simp
  show "frame (set (targets c)) fs (snd (write_change c fs))"
  proof (cases "pc_kind c = PatchUpdate \<and> pc_move_abs c \<noteq> []")
    case True
    have f': "frame (set (targets c)) fs fs'" by (rule frame_mono[OF f]) (use True in \<open>auto simp: targets_def\<close>)
    have "frame (set (targets c)) fs' (snd (remove_file (pc_abs c) fs'))"
      by (rule frame_mono[OF remove_file_frame]) (auto simp: targets_def)
    with f' True w show ?thesis
      by (cases r) (auto simp: write_change_def andThen_def intro: frame_trans)
  next
    case False
    then show ?thesis
      by (auto simp: write_change_def targets_def split: patch_kind.splits
          intro!: frame_mono[OF writePatchFile_frame] frame_mono[OF remove_file_frame])
  qed
  show "contents (snd (write_change c fs)) = after_change c (contents fs)" if ok: "fst (write_change c fs) = Inr u"
  proof (cases "pc_kind c = PatchUpdate \<and> pc_move_abs c \<noteq> []")
    case True
    with ok w have r: "r = Inr ()" "fst (remove_file (pc_abs c) fs') = Inr u"
      by (cases r; simp add: write_change_def andThen_def)+
    have "contents fs' = (contents fs)(pc_move_abs c \<mapsto> pc_content c)"
      using contents_update[OF f] writePatchFile_ok[of "pc_move_abs c" "pc_content c" "pc_mode c" fs "()"] w r by simp
    moreover have "contents (snd (remove_file (pc_abs c) fs')) = (contents fs')(pc_abs c := None)"
      by (rule contents_update[OF remove_file_frame remove_file_ok[OF r(2)]])
    ultimately show ?thesis using True w r by (simp add: write_change_def after_change_def andThen_def)
  next
    case False
    with ok show ?thesis
      by (auto simp: write_change_def after_change_def split: patch_kind.splits
          intro!: contents_update[OF writePatchFile_frame writePatchFile_ok] contents_update[OF remove_file_frame remove_file_ok])
  qed
qed

lemma writePatchChanges_frame: "frame (\<Union>c\<in>set cs. set (targets c)) fs (snd (writePatchChanges cs fs))"
proof (induction cs arbitrary: fs)
  case (Cons c cs)
  obtain r fs' where w: "write_change c fs = (r, fs')" by fastforce
  let ?P = "\<Union>x\<in>set (c # cs). set (targets x)"
  have f: "frame ?P fs fs'" by (rule frame_mono) (use write_change_spec(1)[of c fs] w in auto)
  have "frame ?P fs' (snd (writePatchChanges cs fs'))" by (rule frame_mono[OF Cons.IH]) auto
  with w f frame_trans[OF f this] show ?case by (cases r) (simp_all add: andThen_def)
qed simp

lemma writePatchChanges_ok:
  "fst (writePatchChanges cs fs) = Inr u \<Longrightarrow> contents (snd (writePatchChanges cs fs)) = fold after_change cs (contents fs)"
proof (induction cs arbitrary: fs)
  case (Cons c cs)
  obtain r fs' where w: "write_change c fs = (r, fs')" by fastforce
  with Cons.prems have r: "r = Inr ()" "fst (writePatchChanges cs fs') = Inr u" by (cases r; simp add: andThen_def)+
  with Cons.IH[of fs'] write_change_spec(2)[of c fs "()"] w show ?case by (simp add: andThen_def)
qed simp

section \<open>Rolling back\<close>

definition snapshot_of :: "patch_fs \<Rightarrow> patch_snapshot \<Rightarrow> bool" where
  "snapshot_of fs s \<longleftrightarrow> contents fs (sn_abs s) = (if sn_existed s then Some (sn_data s) else None)"

lemma stat_contents: "stat fs p = StatMissing \<Longrightarrow> contents fs p = None" "stat fs p = StatFile m \<Longrightarrow> contents fs p \<noteq> None"
  by (auto simp: stat_def contents_def split: if_splits option.splits)

lemma read_contents: "read_file fs p = Inr c \<Longrightarrow> contents fs p = Some c"
  by (auto simp: read_file_def contents_def split: if_splits option.splits)

lemma snapshot_path_ok: "snapshot_path fs p = Inr s \<Longrightarrow> snapshot_of fs s \<and> sn_abs s = p"
  by (auto simp: snapshot_path_def snapshot_of_def dest: stat_contents read_contents
      split: stat_result.splits sum.splits)

lemma snapshot_paths_ok:
  "snapshot_paths fs ps seen = Inr ss \<Longrightarrow> list_all (snapshot_of fs) ss \<and> sn_abs ` set ss = set ps - {[]} - set seen
     \<and> distinct (map sn_abs ss)"
proof (induction ps arbitrary: seen ss)
  case (Cons p ps)
  show ?case
  proof (cases "p = [] \<or> p \<in> set seen")
    case True
    with Cons show ?thesis by auto
  next
    case False
    with Cons.prems obtain s ss' where s: "snapshot_path fs p = Inr s" "snapshot_paths fs ps (p # seen) = Inr ss'" "ss = s # ss'"
      by (auto split: sum.splits)
    with Cons.IH[OF s(2)] snapshot_path_ok[OF s(1)] False show ?thesis by auto
  qed
qed simp

lemma restore_frame: "frame {sn_abs s} fs (snd (restore_snapshot s fs))"
  using writePatchFile_frame[of "sn_abs s" fs] remove_file_frame[of "sn_abs s" fs]
  by (auto simp: restore_snapshot_def case_prod_unfold split: sum.splits)

lemma restore_ok:
  "fst (restore_snapshot s fs) = Inr u \<Longrightarrow> contents (snd (restore_snapshot s fs)) (sn_abs s) = (if sn_existed s then Some (sn_data s) else None)"
  using writePatchFile_ok[of "sn_abs s" "sn_data s" "sn_mode s" fs u] remove_file_ok[of "sn_abs s" fs]
    remove_file_missing[of "sn_abs s" fs]
  by (cases "remove_file (sn_abs s) fs") (auto simp: restore_snapshot_def split: sum.splits if_splits)

lemma rollback_first: "rollback_loop ss (Some e) fs = (x, fs') \<Longrightarrow> x = Some e"
  by (induction ss arbitrary: fs) (auto split: prod.splits sum.splits)

lemma rollback_loop_ok:
  assumes "rollback_loop ss None fs = (None, fs')" and "distinct (map sn_abs ss)"
  shows "frame (sn_abs ` set ss) fs fs'
    \<and> (\<forall>s\<in>set ss. contents fs' (sn_abs s) = (if sn_existed s then Some (sn_data s) else None))"
  using assms
proof (induction ss arbitrary: fs)
  case (Cons s ss)
  obtain r fs1 where r: "restore_snapshot s fs = (r, fs1)" by fastforce
  have ok: "r = Inr ()" "rollback_loop ss None fs1 = (None, fs')"
    using Cons.prems(1) r rollback_first[of ss _ fs1] by (cases r; auto)+
  have IH: "frame (sn_abs ` set ss) fs1 fs'"
    "\<forall>s\<in>set ss. contents fs' (sn_abs s) = (if sn_existed s then Some (sn_data s) else None)"
    using Cons.IH[OF ok(2)] Cons.prems(2) by simp_all
  have "contents fs' (sn_abs s) = contents fs1 (sn_abs s)"
    using frame_contents[OF IH(1)] Cons.prems(2) by auto
  then have "contents fs' (sn_abs s) = (if sn_existed s then Some (sn_data s) else None)"
    using restore_ok[of s fs "()"] r ok by simp
  moreover have "frame (sn_abs ` set (s # ss)) fs fs'"
  proof (rule frame_trans)
    show "frame (sn_abs ` set (s # ss)) fs fs1" by (rule frame_mono) (use restore_frame[of s fs] r in auto)
    show "frame (sn_abs ` set (s # ss)) fs1 fs'" by (rule frame_mono[OF IH(1)]) auto
  qed
  ultimately show ?case using IH(2) by simp
qed simp

text \<open>The writes of a patch happen all, or the contents are back.\<close>

definition reports_rollback :: "patch_error \<Rightarrow> bool" where
  "reports_rollback e = (case e of RollbackFailed _ _ \<Rightarrow> True | _ \<Rightarrow> False)"

lemma applyPatchChanges_spec:
  assumes "applyPatchChanges cs fs = (r, fs')" and "\<forall>c\<in>set cs. pc_abs c \<noteq> []"
  shows "r = Inr () \<Longrightarrow> contents fs' = fold after_change cs (contents fs)"
    and "r = Inl e \<Longrightarrow> \<not> reports_rollback e \<Longrightarrow> contents fs' = contents fs"
proof -
  let ?ps = "concat (map (\<lambda>c. [pc_abs c, pc_move_abs c]) cs)"
  have touch: "(\<Union>c\<in>set cs. set (targets c)) = set ?ps - {[]}"
    using assms(2) by (auto simp: targets_def split: if_splits)
  obtain w fs1 where w: "writePatchChanges cs fs = (w, fs1)" by fastforce
  show "contents fs' = fold after_change cs (contents fs)" if "r = Inr ()"
    using assms(1) that w writePatchChanges_ok[of cs fs]
    by (auto simp: applyPatchChanges_def split: sum.splits prod.splits option.splits)
  show "contents fs' = contents fs" if "r = Inl e" "\<not> reports_rollback e"
  proof (cases "snapshotPatchChanges fs cs")
    case (Inl x)
    with assms(1) show ?thesis by (simp add: applyPatchChanges_def)
  next
    case (Inr ss)
    note snap = snapshot_paths_ok[OF Inr[unfolded snapshotPatchChanges_def]]
    have rb: "rollback_loop (rev ss) None fs1 = (None, fs')"
      using assms(1) that Inr w
      by (auto simp: applyPatchChanges_def rollbackPatchChanges_def reports_rollback_def split: sum.splits prod.splits option.splits)
    have fr: "frame (set ?ps - {[]}) fs fs1" using writePatchChanges_frame[of cs fs] w touch by simp
    have "distinct (rev (map sn_abs ss))" using snap by simp
    then have d: "distinct (map sn_abs (rev ss))" by (simp only: rev_map)
    note rl = rollback_loop_ok[OF rb d, unfolded set_rev]
    have names: "sn_abs ` set ss = set ?ps - {[]}" using snap by simp
    show ?thesis
    proof
      fix p
      show "contents fs' p = contents fs p"
      proof (cases "p \<in> set ?ps - {[]}")
        case True
        then obtain s where s: "s \<in> set ss" "sn_abs s = p" using names by (metis imageE)
        then have "snapshot_of fs s" using snap by (simp add: list_all_iff)
        then show ?thesis using rl s by (auto simp: snapshot_of_def)
      next
        case False
        with rl names have "contents fs' p = contents fs1 p"
          using frame_contents[of "sn_abs ` set ss" fs1 fs' p] by simp
        with False frame_contents[OF fr] show ?thesis by simp
      qed
    qed
  qed
qed

section \<open>Planning\<close>

definition inside_root :: "path_resolver \<Rightarrow> string \<Rightarrow> string \<Rightarrow> bool" where
  "inside_root r p i \<longleftrightarrow> (\<exists>cs. cs \<noteq> [] \<and> list_all plain_comp cs
     \<and> p = abs_of (clean_comps (pr_root r) @ cs) \<and> i = join ''/'' cs)"

lemma inside_root_identity:
  assumes "resolver_ok r" and "inside_root r p i" and "inside_root r p j"
  shows "i = j"
proof -
  have root: "list_all plain_comp (clean_comps (pr_root r))" using assms(1) clean_comps_abs by (simp add: resolver_ok_def)
  obtain cs where cs: "list_all plain_comp cs" "p = abs_of (clean_comps (pr_root r) @ cs)" "i = join ''/'' cs"
    using assms(2) by (auto simp: inside_root_def)
  obtain ds where ds: "list_all plain_comp ds" "p = abs_of (clean_comps (pr_root r) @ ds)" "j = join ''/'' ds"
    using assms(3) by (auto simp: inside_root_def)
  have "clean_comps p = clean_comps (pr_root r) @ cs" using cs root clean_comps_abs_of by simp
  moreover have "clean_comps p = clean_comps (pr_root r) @ ds" using ds root clean_comps_abs_of by simp
  ultimately show ?thesis using cs ds by simp
qed

lemma inside_root_not_Nil: "inside_root r p i \<Longrightarrow> p \<noteq> []"
  by (auto simp: inside_root_def abs_of_def)

lemma guarded_resolve_inside:
  assumes "resolver_ok r" and "guarded_resolve w r guard p = Inr q"
  shows "inside_root r (wp_absolute q) (wp_identity q)"
proof -
  have "Resolve w r p = Inr q" using assms(2) by (auto simp: guarded_resolve_def split: sum.splits if_splits)
  then obtain cs where "inside r p cs" "wp_identity q = join ''/'' cs" "wp_absolute q = abs_of (clean_comps (pr_root r) @ cs)"
    by (rule Resolve_Inr[OF assms(1)])
  then show ?thesis by (auto simp: inside_root_def inside_def)
qed

text \<open>What a planned change relies on: the contents it found.\<close>

definition change_ok :: "(string \<Rightarrow> string option) \<Rightarrow> patch_change \<Rightarrow> bool" where
  "change_ok m c = (case pc_kind c of
      PatchAdd \<Rightarrow> m (pc_abs c) = None
    | PatchUpdate \<Rightarrow> m (pc_abs c) \<noteq> None \<and> (pc_move_abs c \<noteq> [] \<longrightarrow> m (pc_move_abs c) = None)
    | PatchDelete \<Rightarrow> m (pc_abs c) \<noteq> None)"

lemma planPatchAdd_ok:
  "planPatchAdd fs rel a x = Inr c \<Longrightarrow> change_ok (contents fs) c \<and> targets c = [a]"
  by (auto simp: planPatchAdd_def change_ok_def targets_def dest: stat_contents split: stat_result.splits)

lemma planPatchDelete_ok:
  "planPatchDelete fs rel a = Inr c \<Longrightarrow> change_ok (contents fs) c \<and> targets c = [a]"
  by (auto simp: planPatchDelete_def change_ok_def targets_def dest: stat_contents split: stat_result.splits)

lemma planPatchUpdate_ok:
  "planPatchUpdate fs rel a mr ma x = Inr c \<Longrightarrow> change_ok (contents fs) c \<and> targets c = a # (if ma = [] then [] else [ma])"
  by (auto simp: planPatchUpdate_def change_ok_def targets_def dest: stat_contents
      split: stat_result.splits if_splits sum.splits)

lemma plan_op_ok:
  assumes "resolver_ok r" and "plan_op w r guard fs touched x = Inr (c, touched')"
  shows "change_ok (contents fs) c
    \<and> (\<exists>is. list_all2 (inside_root r) (targets c) is \<and> distinct is \<and> set is \<inter> set touched = {}
         \<and> set touched' = set touched \<union> set is)"
proof -
  obtain q where q: "guarded_resolve w r guard (po_path x) = Inr q" "wp_identity q \<notin> set touched"
    using assms(2) by (auto simp: plan_op_def split: sum.splits if_splits)
  note iq = guarded_resolve_inside[OF assms(1) q(1)]
  show ?thesis
  proof (cases "po_kind x = PatchUpdate \<and> po_move_to x \<noteq> []")
    case True
    then obtain mv where mv: "guarded_resolve w r guard (po_move_to x) = Inr mv" "wp_identity mv \<noteq> wp_identity q"
        "wp_identity mv \<notin> set touched" "touched' = wp_identity mv # wp_identity q # touched"
        "planPatchUpdate fs (wp_relative q) (wp_absolute q) (wp_relative mv) (wp_absolute mv) x = Inr c"
      using assms(2) q by (auto simp: plan_op_def Let_def split: sum.splits if_splits)
    note im = guarded_resolve_inside[OF assms(1) mv(1)]
    then have "targets c = [wp_absolute q, wp_absolute mv]"
      using planPatchUpdate_ok[OF mv(5)] inside_root_not_Nil by auto
    then show ?thesis using planPatchUpdate_ok[OF mv(5)] mv q iq im
      by (intro conjI exI[of _ "[wp_identity q, wp_identity mv]"]) auto
  next
    case False
    then have "touched' = wp_identity q # touched \<and> change_ok (contents fs) c \<and> targets c = [wp_absolute q]"
      using assms(2) q by (auto simp: plan_op_def Let_def dest: planPatchAdd_ok planPatchDelete_ok planPatchUpdate_ok
          split: sum.splits if_splits patch_kind.splits)
    then show ?thesis using q iq by (intro conjI exI[of _ "[wp_identity q]"]) auto
  qed
qed

text \<open>The targets of a plan are inside the workspace and each is touched once.\<close>

definition all_targets :: "patch_change list \<Rightarrow> string list" where
  "all_targets cs = concat (map targets cs)"

definition plan_ok :: "path_resolver \<Rightarrow> patch_fs \<Rightarrow> string list \<Rightarrow> patch_change list \<Rightarrow> bool" where
  "plan_ok r fs touched cs \<longleftrightarrow> distinct (all_targets cs) \<and> list_all (change_ok (contents fs)) cs
     \<and> (\<forall>p\<in>set (all_targets cs). \<exists>i\<in>set touched. inside_root r p i)"

lemma plan_ok_step:
  assumes "resolver_ok r" and "plan_ok r fs touched cs" and "plan_op w r guard fs touched x = Inr (c, touched')"
  shows "plan_ok r fs touched' (cs @ [c])"
proof -
  obtain "is" where i: "list_all2 (inside_root r) (targets c) is" "distinct is" "set is \<inter> set touched = {}"
      "set touched' = set touched \<union> set is" "change_ok (contents fs) c"
    using plan_op_ok[OF assms(1,3)] by blast
  have in_is: "\<exists>k\<in>set is. inside_root r p k" if "p \<in> set (targets c)" for p
    using i(1) that unfolding in_set_conv_nth list_all2_conv_all_nth by (metis nth_mem)
  have "distinct (targets c)"
    unfolding distinct_conv_nth
  proof (intro allI impI notI)
    fix a b
    assume ab: "a < length (targets c)" "b < length (targets c)" "a \<noteq> b" "targets c ! a = targets c ! b"
    have nth: "inside_root r (targets c ! k) (is ! k)" if "k < length (targets c)" for k
      using i(1) that by (simp add: list_all2_conv_all_nth)
    have "inside_root r (targets c ! a) (is ! a)" "inside_root r (targets c ! a) (is ! b)"
      using nth[OF ab(1)] nth[OF ab(2)] ab(4) by simp_all
    then have "is ! a = is ! b" by (rule inside_root_identity[OF assms(1)])
    then show False using i(1,2) ab by (auto simp: distinct_conv_nth list_all2_lengthD)
  qed
  moreover have "set (all_targets cs) \<inter> set (targets c) = {}"
  proof (rule ccontr)
    assume "set (all_targets cs) \<inter> set (targets c) \<noteq> {}"
    then obtain p k l where "inside_root r p k" "k \<in> set touched" "inside_root r p l" "l \<in> set is"
      using assms(2) in_is by (fastforce simp: plan_ok_def)
    then show False using inside_root_identity[OF assms(1)] i(3) by blast
  qed
  moreover have "\<exists>k\<in>set touched'. inside_root r p k" if "p \<in> set (all_targets (cs @ [c]))" for p
  proof (cases "p \<in> set (targets c)")
    case True
    with in_is i(4) show ?thesis by blast
  next
    case False
    with that have "p \<in> set (all_targets cs)" by (simp add: all_targets_def)
    with assms(2) i(4) show ?thesis by (auto simp: plan_ok_def)
  qed
  ultimately show ?thesis using assms(2) i(5) by (auto simp: plan_ok_def all_targets_def)
qed

lemma count_change_changes: "ps_changes (count_change c s) = ps_changes s @ [c]"
  by (simp add: count_change_def)

lemma plan_loop_ok:
  assumes "resolver_ok r" and "plan_ok r fs touched (ps_changes s)" and "plan_loop w r guard fs ops touched s = Inr s'"
  shows "\<exists>touched'. plan_ok r fs touched' (ps_changes s')"
  using assms(2,3)
proof (induction ops arbitrary: touched s)
  case (Cons x ops)
  then obtain c touched' where c: "plan_op w r guard fs touched x = Inr (c, touched')"
      "plan_loop w r guard fs ops touched' (count_change c s) = Inr s'"
    by (auto split: sum.splits prod.splits)
  have "plan_ok r fs touched' (ps_changes (count_change c s))"
    unfolding count_change_changes by (rule plan_ok_step[OF assms(1) Cons.prems(1) c(1)])
  then show ?case using Cons.IH c(2) by blast
qed auto

lemma planPatch_ok:
  assumes "resolver_ok r" and "planPatch w r guard fs ops = Inr s"
  obtains touched where "plan_ok r fs touched (ps_changes s)"
proof -
  have "plan_ok r fs [] (ps_changes empty_summary)" by (simp add: plan_ok_def empty_summary_def all_targets_def)
  with assms show thesis using plan_loop_ok that unfolding planPatch_def by blast
qed

section \<open>The tool\<close>

lemma applyPatch_cases:
  obtains (early) e where "applyPatch x input fs = (Inl e, fs)"
    | (late) ops r s where "NewWorkspacePathResolver (px_plan_world x) (px_work_dir x) = Inr r"
        and "planPatch (px_plan_world x) r (px_plan_guard x) fs ops = Inr s"
        and "applyPatch x input fs = andThen (applyPatchChanges (ps_changes s)) (\<lambda>_. ret s) fs"
proof (cases "parsePatch input")
  case (Inl e)
  then show thesis using early by (simp add: applyPatch_def)
next
  case ops: (Inr ops)
  show thesis
  proof (cases "NewWorkspacePathResolver (px_plan_world x) (px_work_dir x)")
    case (Inl e)
    then show thesis using early ops by (simp add: applyPatch_def)
  next
    case r: (Inr r)
    show thesis
    proof (cases "planPatch (px_plan_world x) r (px_plan_guard x) fs ops")
      case (Inl e)
      then show thesis using early ops r by (simp add: applyPatch_def)
    next
      case (Inr s)
      have "applyPatch x input fs = (if px_cancelled x then (Inl Cancelled, fs)
          else case validatePatchChanges (px_check_world x) r (px_check_guard x) (ps_changes s) of
            Some e \<Rightarrow> (Inl e, fs) | None \<Rightarrow> andThen (applyPatchChanges (ps_changes s)) (\<lambda>_. ret s) fs)"
        using Inr ops r by (simp add: applyPatch_def)
      then show thesis
        using early late[OF r Inr]
        by (cases "px_cancelled x"; cases "validatePatchChanges (px_check_world x) r (px_check_guard x) (ps_changes s)")
          simp_all
    qed
  qed
qed

text \<open>C31: a patch is all or nothing. When \<^verbatim>\<open>apply_patch\<close> fails, every file has the content it had before,
  unless the error says that the rollback failed as well; and when it succeeds, the contents are
  the planned ones: each touched path was touched once, lies in the workspace, and was in the state
  the operation needs (an added file and a move target missing, an updated or deleted file
  present). Any write may fail part way, in the forward direction or not.\<close>

theorem patch_all_or_nothing:
  assumes "applyPatch x input fs = (res, fs')" and "\<And>c. pw_cwd (px_plan_world x) = Some c \<Longrightarrow> is_abs c"
  shows "(\<forall>e. res = Inl e \<and> \<not> reports_rollback e \<longrightarrow> contents fs' = contents fs)
    \<and> (\<forall>s. res = Inr s \<longrightarrow> contents fs' = fold after_change (ps_changes s) (contents fs)
         \<and> distinct (all_targets (ps_changes s)) \<and> list_all (change_ok (contents fs)) (ps_changes s)
         \<and> (\<forall>p\<in>set (all_targets (ps_changes s)). \<exists>r i. NewWorkspacePathResolver (px_plan_world x) (px_work_dir x) = Inr r
              \<and> inside_root r p i))"
proof (rule applyPatch_cases[of x input fs])
  fix e
  assume "applyPatch x input fs = (Inl e, fs)"
  with assms(1) have "res = Inl e" "fs' = fs" by auto
  then show ?thesis by blast
next
  fix ops r s
  assume n: "NewWorkspacePathResolver (px_plan_world x) (px_work_dir x) = Inr r"
    and pl: "planPatch (px_plan_world x) r (px_plan_guard x) fs ops = Inr s"
    and ap: "applyPatch x input fs = andThen (applyPatchChanges (ps_changes s)) (\<lambda>_. ret s) fs"
  have ok: "resolver_ok r" by (rule NewWorkspacePathResolver_ok[OF n assms(2)])
  obtain touched where plan: "plan_ok r fs touched (ps_changes s)" by (rule planPatch_ok[OF ok pl])
  then have abs: "\<forall>c\<in>set (ps_changes s). pc_abs c \<noteq> []"
    using inside_root_not_Nil by (fastforce simp: plan_ok_def all_targets_def targets_def)
  obtain a fs1 where a: "applyPatchChanges (ps_changes s) fs = (a, fs1)" by fastforce
  note spec = applyPatchChanges_spec[OF a abs]
  show ?thesis
  proof (cases a)
    case (Inl e)
    with a ap assms(1) spec(2)[of e] show ?thesis by (simp add: andThen_def)
  next
    case (Inr u)
    then have "res = Inr s" "fs' = fs1" using a ap assms(1) by (simp_all add: andThen_def)
    with Inr spec(1) plan n show ?thesis by (auto simp: plan_ok_def)
  qed
qed

definition wit_patch_fs :: patch_fs where
  "wit_patch_fs = \<lparr>pf_files = [(''/w/a'', ''x'', 420)], pf_dirs = [''/w''], pf_stat_errors = [], pf_unreadable = [],
     pf_mask = (\<lambda>m. m), pf_io = []\<rparr>"

definition wit_patch_context :: patch_context where
  "wit_patch_context = \<lparr>px_work_dir = ''/w'', px_plan_world = wit_paths, px_plan_guard = (\<lambda>_. True),
     px_check_world = wit_paths, px_check_guard = (\<lambda>_. True), px_cancelled = False\<rparr>"

definition wit_patch :: string where
  "wit_patch = join [nl] [patchHeader, ''*** Add File: b'', ''+y'', ''*** Delete File: a'', patchFooter]"

theorem patch_all_or_nothing_witness:
  "contents (snd (applyPatch wit_patch_context wit_patch wit_patch_fs)) ''/w/a'' = None
   \<and> contents (snd (applyPatch wit_patch_context wit_patch wit_patch_fs)) ''/w/b'' = Some [CHR ''y'', nl]
   \<and> contents (snd (applyPatch wit_patch_context wit_patch (wit_patch_fs\<lparr>pf_io := [IoOk, IoOk, IoFailed]\<rparr>))) = contents wit_patch_fs"
proof -
  let ?fs = "wit_patch_fs\<lparr>pf_io := [IoOk, IoOk, IoFailed]\<rparr>"
  have cwd: "is_abs c" if "pw_cwd (px_plan_world wit_patch_context) = Some c" for c
    using that by (auto simp: wit_patch_context_def wit_paths_def is_abs_def has_prefix_def)
  have r: "case fst (applyPatch wit_patch_context wit_patch ?fs) of Inl e \<Rightarrow> \<not> reports_rollback e | Inr _ \<Rightarrow> False"
    by code_simp
  obtain res fs' where a: "applyPatch wit_patch_context wit_patch ?fs = (res, fs')" by fastforce
  have "contents fs' = contents ?fs"
    using patch_all_or_nothing[OF a cwd] r a by (auto split: sum.splits)
  moreover have "contents ?fs = contents wit_patch_fs" by (simp add: contents_def fun_eq_iff)
  moreover have "contents (snd (applyPatch wit_patch_context wit_patch wit_patch_fs)) ''/w/a'' = None"
    and "contents (snd (applyPatch wit_patch_context wit_patch wit_patch_fs)) ''/w/b'' = Some [CHR ''y'', nl]"
    by code_simp+
  ultimately show ?thesis using a by simp
qed

end
