(* ===== verification/ApplyPatchText.thy ===== *)
theory ApplyPatchText
  imports ApplyPatch
begin

text \<open>
  The text side of \<^verbatim>\<open>apply_patch\<close>: what a list of hunks does to a file, and that a printed patch is
  parsed back into the operations it was printed from.
\<close>

section \<open>Hunks\<close>

lemma str_index_first_at:
  assumes "\<And>j. j < i \<Longrightarrow> \<not> prefix sub (drop j s)" and "prefix sub (drop i s)" and "i \<le> length s"
  shows "str_index sub s = Some i"
proof -
  have "str_index sub s \<noteq> None" using assms(2,3) str_index_None by blast
  then obtain k where k: "str_index sub s = Some k" by blast
  have "\<not> i < k" using str_index_first[OF k] assms(2) by blast
  moreover have "prefix sub (drop k s)" using str_index_Some[OF k] by (metis take_is_prefix)
  then have "\<not> k < i" using assms(1) by blast
  ultimately show ?thesis using k by simp
qed

text \<open>
  \<open>rewritten hs s t\<close>: the hunks, one after the other, each replace the first occurrence of their old
  text, after which there is no further one; \<open>t\<close> is the result.
\<close>

inductive rewritten :: "patch_hunk list \<Rightarrow> string \<Rightarrow> string \<Rightarrow> bool" where
  finished: "rewritten [] s s"
| replaced: "s = pre @ ph_old h @ post \<Longrightarrow> \<forall>j < length pre. \<not> prefix (ph_old h) (drop j s)
    \<Longrightarrow> \<forall>j \<le> length post. \<not> prefix (ph_old h) (drop j post)
    \<Longrightarrow> rewritten hs (pre @ ph_new h @ post) t \<Longrightarrow> rewritten (h # hs) s t"

inductive_simps rewritten_Nil: "rewritten [] s t"

lemma str_count_zero: "sub \<noteq> [] \<Longrightarrow> str_count sub s = 0 \<longleftrightarrow> str_index sub s = None"
  by (simp add: str_count.simps[of sub s] split: option.splits)

lemma str_count_one:
  assumes "sub \<noteq> []"
  shows "str_count sub s = 1 \<longleftrightarrow> (\<exists>i. str_index sub s = Some i \<and> str_index sub (drop (i + length sub) s) = None)"
  using str_count_zero[OF assms] assms by (auto simp: str_count.simps[of sub s] split: option.splits)

lemma one_occurrence:
  assumes "sub \<noteq> []"
  shows "str_count sub s = 1 \<longleftrightarrow> (\<exists>pre post. s = pre @ sub @ post \<and> (\<forall>j < length pre. \<not> prefix sub (drop j s))
     \<and> (\<forall>j \<le> length post. \<not> prefix sub (drop j post)))"
    and "s = pre @ sub @ post \<Longrightarrow> \<forall>j < length pre. \<not> prefix sub (drop j s) \<Longrightarrow> replace_first s sub new = pre @ new @ post"
proof -
  have at: "str_index sub s = Some (length pre)" if "s = pre @ sub @ post" "\<forall>j < length pre. \<not> prefix sub (drop j s)" for pre post
    using that by (intro str_index_first_at) auto
  show "str_count sub s = 1 \<longleftrightarrow> (\<exists>pre post. s = pre @ sub @ post \<and> (\<forall>j < length pre. \<not> prefix sub (drop j s))
     \<and> (\<forall>j \<le> length post. \<not> prefix sub (drop j post)))"
  proof
    assume "str_count sub s = 1"
    then obtain i where i: "str_index sub s = Some i" "str_index sub (drop (i + length sub) s) = None"
      using str_count_one[OF assms] by blast
    have "length (take i s) = i" using str_index_Some[OF i(1)] by simp
    with i show "\<exists>pre post. s = pre @ sub @ post \<and> (\<forall>j < length pre. \<not> prefix sub (drop j s))
        \<and> (\<forall>j \<le> length post. \<not> prefix sub (drop j post))"
      using str_index_split[OF i(1)] str_index_first[OF i(1)] str_index_None[of sub "drop (i + length sub) s"]
      by (intro exI[of _ "take i s"] exI[of _ "drop (i + length sub) s"]) auto
  next
    assume "\<exists>pre post. s = pre @ sub @ post \<and> (\<forall>j < length pre. \<not> prefix sub (drop j s))
        \<and> (\<forall>j \<le> length post. \<not> prefix sub (drop j post))"
    then obtain pre post where p: "s = pre @ sub @ post" "\<forall>j < length pre. \<not> prefix sub (drop j s)"
        "\<forall>j \<le> length post. \<not> prefix sub (drop j post)" by blast
    have "drop (length pre + length sub) s = post" using p(1) by simp
    with at[OF p(1,2)] p(3) str_index_None[of sub post] show "str_count sub s = 1"
      unfolding str_count_one[OF assms] by auto
  qed
  show "replace_first s sub new = pre @ new @ post" if "s = pre @ sub @ post" "\<forall>j < length pre. \<not> prefix sub (drop j s)"
    using at[OF that] that(1) by (simp add: replace_first_def)
qed

lemma applyPatchHunks_rewritten:
  assumes "\<forall>h\<in>set hs. ph_old h \<noteq> []"
  shows "applyPatchHunks rel s hs a d = Inr (t, a', d') \<longleftrightarrow> rewritten hs s t
    \<and> a' = a + sum_list (map ph_additions hs) \<and> d' = d + sum_list (map ph_deletions hs)"
  using assms
proof (induction hs arbitrary: s a d)
  case Nil
  then show ?case by (auto simp: rewritten_Nil)
next
  case (Cons h hs)
  let ?u = "replace_first s (ph_old h) (ph_new h)"
  have old: "ph_old h \<noteq> []" using Cons.prems by simp
  have step: "rewritten (h # hs) s t \<longleftrightarrow> str_count (ph_old h) s = 1 \<and> rewritten hs ?u t"
  proof
    assume "rewritten (h # hs) s t"
    then obtain pre post where p: "s = pre @ ph_old h @ post" "\<forall>j < length pre. \<not> prefix (ph_old h) (drop j s)"
        "\<forall>j \<le> length post. \<not> prefix (ph_old h) (drop j post)" "rewritten hs (pre @ ph_new h @ post) t"
      by (cases rule: rewritten.cases) auto
    have "str_count (ph_old h) s = 1" unfolding one_occurrence(1)[OF old] using p(1-3) by blast
    moreover have "?u = pre @ ph_new h @ post" by (rule one_occurrence(2)[OF old p(1,2)])
    ultimately show "str_count (ph_old h) s = 1 \<and> rewritten hs ?u t" using p(4) by simp
  next
    assume r: "str_count (ph_old h) s = 1 \<and> rewritten hs ?u t"
    then obtain pre post where p: "s = pre @ ph_old h @ post" "\<forall>j < length pre. \<not> prefix (ph_old h) (drop j s)"
        "\<forall>j \<le> length post. \<not> prefix (ph_old h) (drop j post)"
      using one_occurrence(1)[OF old, of s] by blast
    moreover have "?u = pre @ ph_new h @ post" by (rule one_occurrence(2)[OF old p(1,2)])
    ultimately show "rewritten (h # hs) s t" using r by (intro replaced[OF p]) simp
  qed
  show ?case
    unfolding step using Cons.IH[of ?u] Cons.prems by (auto simp: Let_def)
qed

lemma flush_hunk_old: "flush_hunk c hs = Inr hs' \<Longrightarrow> \<forall>h\<in>set hs. ph_old h \<noteq> [] \<Longrightarrow> \<forall>h\<in>set hs'. ph_old h \<noteq> []"
  by (auto simp: flush_hunk_def Let_def split: if_splits)

lemma hunk_loop_old: "hunk_loop ls c hs = Inr hs' \<Longrightarrow> \<forall>h\<in>set hs. ph_old h \<noteq> [] \<Longrightarrow> \<forall>h\<in>set hs'. ph_old h \<noteq> []"
proof (induction ls c hs rule: hunk_loop.induct)
  case (2 l ls c hs)
  then show ?case by (auto dest: flush_hunk_old split: if_splits sum.splits)
qed (auto dest: flush_hunk_old)

lemma patchHunks_old: "patchHunks ls = Inr hs \<Longrightarrow> \<forall>h\<in>set hs. ph_old h \<noteq> []"
  using hunk_loop_old[of ls "[]" "[]" hs] by (auto simp: patchHunks_def split: sum.splits if_splits)


definition wit_lines :: "patch_line list" where
  "wit_lines = [\<lparr>pl_kind = CHR '' '', pl_text = ''a''\<rparr>, \<lparr>pl_kind = CHR ''-'', pl_text = ''b''\<rparr>, \<lparr>pl_kind = CHR ''+'', pl_text = ''c''\<rparr>]"


text \<open>The check for ambiguous context counts occurrences that do not overlap, so context that matches
  at two overlapping places is accepted and the first one is changed: here the old text matches at
  the first and at the second line of the file.\<close>

theorem overlapping_context_accepted:
  "let ls = [\<lparr>pl_kind = CHR '' '', pl_text = ''a''\<rparr>, \<lparr>pl_kind = CHR ''-'', pl_text = ''a''\<rparr>];
       s = [CHR ''a'', nl, CHR ''a'', nl, CHR ''a'', nl]; old = ph_old (buildPatchHunk ls)
   in prefix old (drop 0 s) \<and> prefix old (drop 2 s)
      \<and> updated_content ''f'' False ls s = Inr ([CHR ''a'', nl, CHR ''a'', nl], 0, 1)"
  by code_simp

section \<open>Printing and parsing\<close>

definition print_line :: "patch_line \<Rightarrow> string" where
  "print_line l = (if pl_kind l = CHR ''@'' then ''@@'' else pl_kind l # pl_text l)"

definition print_op :: "patch_operation \<Rightarrow> string list" where
  "print_op x = (case po_kind x of
      PatchAdd \<Rightarrow> (''*** Add File: '' @ po_path x) # map print_line (po_lines x)
    | PatchUpdate \<Rightarrow> (''*** Update File: '' @ po_path x)
        # (if po_move_to x = [] then [] else [''*** Move to: '' @ po_move_to x]) @ map print_line (po_lines x)
    | PatchDelete \<Rightarrow> [''*** Delete File: '' @ po_path x])"

definition print_patch :: "patch_operation list \<Rightarrow> string" where
  "print_patch ops = join [nl] (patchHeader # concat (map print_op ops) @ [patchFooter])"

text \<open>Operations that can be written down: one-line texts, trimmed paths, and the lines the kind allows.\<close>

definition one_line :: "string \<Rightarrow> bool" where
  "one_line s \<longleftrightarrow> nl \<notin> set s \<and> CHR 0x0D \<notin> set s"

definition line_ok :: "patch_kind \<Rightarrow> patch_line \<Rightarrow> bool" where
  "line_ok k l \<longleftrightarrow> one_line (pl_text l) \<and> (case k of
      PatchAdd \<Rightarrow> pl_kind l = CHR ''+''
    | PatchUpdate \<Rightarrow> pl_kind l \<in> {CHR '' '', CHR ''+'', CHR ''-'', CHR ''@''} \<and> (pl_kind l = CHR ''@'' \<longrightarrow> pl_text l = [])
    | PatchDelete \<Rightarrow> False)"

definition op_ok :: "patch_operation \<Rightarrow> bool" where
  "op_ok x \<longleftrightarrow> one_line (po_path x) \<and> trim_space (po_path x) = po_path x \<and> list_all (line_ok (po_kind x)) (po_lines x)
     \<and> one_line (po_move_to x) \<and> trim_space (po_move_to x) = po_move_to x
     \<and> (po_kind x \<noteq> PatchUpdate \<longrightarrow> po_move_to x = [])"

definition at_directive :: "string list \<Rightarrow> bool" where
  "at_directive ls \<longleftrightarrow> ls = [] \<or> has_prefix (hd ls) ''*** Add File: '' \<or> has_prefix (hd ls) ''*** Update File: ''
     \<or> has_prefix (hd ls) ''*** Delete File: ''"

lemma at_directive_Cons: "at_directive (l # ls) \<Longrightarrow> has_prefix l ''*** '' \<and> \<not> has_prefix l ''*** Move to: ''"
  by (auto simp: at_directive_def has_prefix_iff prefix_def)

lemma print_op_directive: "print_op x \<noteq> [] \<and> at_directive (print_op x @ rest)"
  by (simp add: print_op_def at_directive_def has_prefix_iff split: patch_kind.splits)

lemma print_ops_directive: "at_directive (concat (map print_op ops))"
proof (cases ops)
  case (Cons x xs)
  then show ?thesis using print_op_directive[of x "concat (map print_op xs)"] by simp
qed (simp add: at_directive_def)

lemma add_lines_print:
  "list_all (line_ok PatchAdd) ls \<Longrightarrow> at_directive rest \<Longrightarrow> add_lines p (map print_line ls @ rest) = Inr (ls, rest)"
proof (induction ls)
  case Nil
  then show ?case by (cases rest) (auto dest: at_directive_Cons)
next
  case (Cons l ls)
  then have "pl_kind l = CHR ''+''" by (simp add: line_ok_def)
  then have "print_line l = CHR ''+'' # pl_text l" "l = \<lparr>pl_kind = CHR ''+'', pl_text = pl_text l\<rparr>"
    by (simp_all add: print_line_def)
  with Cons show ?case by (simp add: has_prefix_def trim_prefix_def)
qed

lemma update_lines_print:
  "list_all (line_ok PatchUpdate) ls \<Longrightarrow> at_directive rest \<Longrightarrow> update_lines p (map print_line ls @ rest) = Inr (ls, rest)"
proof (induction ls)
  case Nil
  then show ?case by (cases rest) (auto dest: at_directive_Cons)
next
  case (Cons l ls)
  obtain k t where l: "l = \<lparr>pl_kind = k, pl_text = t\<rparr>" by (cases l) auto
  with Cons.prems have "k \<in> {CHR '' '', CHR ''+'', CHR ''-'', CHR ''@''}" "k = CHR ''@'' \<longrightarrow> t = []"
    by (simp_all add: line_ok_def)
  with Cons l show ?case by (auto simp: print_line_def has_prefix_def cons_line_def)
qed

lemma move_line_print:
  assumes "trim_space m = m" and "list_all (line_ok PatchUpdate) ls" and "at_directive rest"
  shows "move_line ((if m = [] then [] else [''*** Move to: '' @ m]) @ map print_line ls @ rest) = (m, map print_line ls @ rest)"
proof (cases "m = []")
  case True
  show ?thesis
  proof (cases "map print_line ls @ rest")
    case (Cons x xs)
    have "\<not> has_prefix x ''*** Move to: ''"
    proof (cases ls)
      case Nil
      with Cons assms(3) show ?thesis using at_directive_Cons by auto
    next
      case (Cons l ls')
      with assms(2) \<open>map print_line ls @ rest = x # xs\<close> show ?thesis
        by (auto simp: line_ok_def print_line_def has_prefix_def)
    qed
    with Cons True show ?thesis by (simp add: move_line_def)
  qed (use True in \<open>simp add: move_line_def\<close>)
next
  case False
  then show ?thesis using assms(1) by (simp add: move_line_def has_prefix_iff trim_prefix_def)
qed

lemma parse_ops_print: "list_all op_ok ops \<Longrightarrow> parse_ops (concat (map print_op ops)) = Inr ops"
proof (induction ops)
  case Nil
  then show ?case by (simp add: parse_ops.simps)
next
  case (Cons x ops)
  let ?rest = "concat (map print_op ops)"
  have rest: "at_directive ?rest" by (rule print_ops_directive)
  have ok: "op_ok x" and IH: "parse_ops ?rest = Inr ops" using Cons by simp_all
  obtain k p m ls where x: "x = \<lparr>po_kind = k, po_path = p, po_move_to = m, po_lines = ls\<rparr>" by (cases x) auto
  note f = ok[unfolded op_ok_def x, simplified]
  have sel: "po_kind x = k" "po_path x = p" "po_move_to x = m" "po_lines x = ls" by (simp_all add: x)
  show ?case
  proof (cases k)
    case PatchAdd
    then have "concat (map print_op (x # ops)) = (''*** Add File: '' @ p) # map print_line ls @ ?rest"
      using sel by (simp add: print_op_def[of x])
    moreover have "parse_ops ((''*** Add File: '' @ p) # map print_line ls @ ?rest) = Inr (x # ops)"
      unfolding parse_ops.simps using PatchAdd f x IH add_lines_print[of ls ?rest p] rest
      by (simp add: has_prefix_iff trim_prefix_def)
    ultimately show ?thesis by (simp only:)
  next
    case PatchDelete
    with f have "ls = []" by (cases ls) (auto simp: line_ok_def)
    have "concat (map print_op (x # ops)) = (''*** Delete File: '' @ p) # ?rest"
      using sel PatchDelete by (simp add: print_op_def[of x])
    moreover have "parse_ops ((''*** Delete File: '' @ p) # ?rest) = Inr (x # ops)"
      unfolding parse_ops.simps using PatchDelete f x IH \<open>ls = []\<close>
      by (simp add: has_prefix_iff trim_prefix_def)
    ultimately show ?thesis by (simp only:)
  next
    case PatchUpdate
    have m: "move_line ((if m = [] then [] else [''*** Move to: '' @ m]) @ map print_line ls @ ?rest) = (m, map print_line ls @ ?rest)"
      by (rule move_line_print) (use f PatchUpdate rest in auto)
    have u: "update_lines p (map print_line ls @ ?rest) = Inr (ls, ?rest)"
      by (rule update_lines_print) (use f PatchUpdate rest in auto)
    have "concat (map print_op (x # ops)) = (''*** Update File: '' @ p)
        # (if m = [] then [] else [''*** Move to: '' @ m]) @ map print_line ls @ ?rest"
      using sel PatchUpdate by (simp add: print_op_def[of x])
    then have "parse_ops (concat (map print_op (x # ops))) = parse_ops ((''*** Update File: '' @ p)
        # (if m = [] then [] else [''*** Move to: '' @ m]) @ map print_line ls @ ?rest)" by (simp only:)
    also have "\<dots> = Inr (x # ops)"
      unfolding parse_ops.simps m fst_conv snd_conv using f u IH x PatchUpdate
      by (simp add: has_prefix_iff trim_prefix_def)
    finally show ?thesis .
  qed
qed

text \<open>A text between the two frame lines is not trimmed.\<close>

lemma strip1_hd: "s \<noteq> [] \<Longrightarrow> hd s \<notin> hd ` set ps \<Longrightarrow> strip1 ps s = None"
  unfolding strip1_None_iff by (auto simp: prefix_def)

lemma trim_space_framed:
  assumes "s = CHR ''*'' # u" and "s = v @ [CHR ''h'']"
  shows "trim_space s = s"
proof -
  have "CHR ''*'' \<notin> hd ` set space_encodings" by code_simp
  then have "strip1 space_encodings s = None" using assms(1) by (intro strip1_hd) auto
  then have l: "trim_left s = s" by (simp add: trim_left_def strip_prefixes_id)
  have "CHR ''h'' \<notin> hd ` set (map rev space_encodings)" by code_simp
  then have "strip1 (map rev space_encodings) (rev s) = None" using assms(2) by (intro strip1_hd) auto
  then show ?thesis by (simp add: trim_space_def trim_right_def l strip_prefixes_id)
qed

lemma join_snoc: "ws \<noteq> [] \<Longrightarrow> join sep (ws @ [w]) = join sep ws @ sep @ w"
  by (induction sep ws rule: join.induct) (auto split: list.splits)

lemma join_free: "\<forall>w\<in>set ws. c \<notin> set w \<Longrightarrow> c \<notin> set sep \<Longrightarrow> c \<notin> set (join sep ws)"
  using join_chars[of sep ws] by blast

lemma print_op_lines: "op_ok x \<Longrightarrow> l \<in> set (print_op x) \<Longrightarrow> one_line l"
  by (auto simp: print_op_def op_ok_def line_ok_def one_line_def print_line_def list_all_iff
      split: patch_kind.splits if_splits)

text \<open>C34: printing a list of operations and parsing the text gives the operations back, for every
  non-empty list that can be written down (trimmed one-line paths, one-line texts, plus lines in
  added files, no lines in deleted ones).\<close>

theorem printed_patch_parses_back:
  assumes "list_all op_ok ops" and "ops \<noteq> []"
  shows "parsePatch (print_patch ops) = Inr ops"
proof -
  let ?body = "concat (map print_op ops)" and ?s = "print_patch ops"
  let ?ls = "patchHeader # ?body @ [patchFooter]"
  have frame: "one_line patchHeader" "one_line patchFooter" by code_simp+
  have lines: "\<forall>l\<in>set ?ls. one_line l"
    using frame print_op_lines assms(1) by (auto simp: list_all_iff)
  then have "CHR 0x0D \<notin> set ?s" unfolding print_patch_def one_line_def by (intro join_free) auto
  then have cr: "replace_all ?s [CHR 0x0D, nl] [nl] = ?s"
    by (intro replace_all_absent str_index_char_absent[of "CHR 0x0D"]) auto
  have "?s = join [nl] (patchHeader # ?body) @ [nl] @ patchFooter"
    using join_snoc[of "patchHeader # ?body" "[nl]" patchFooter] by (simp add: print_patch_def)
  moreover have "?s = patchHeader @ [nl] @ join [nl] (?body @ [patchFooter])"
    unfolding print_patch_def by (cases "?body @ [patchFooter]") auto
  moreover have "patchHeader = CHR ''*'' # tl patchHeader" "patchFooter = butlast patchFooter @ [CHR ''h'']" by code_simp+
  ultimately have t: "trim_space ?s = ?s"
    by (metis trim_space_framed append.assoc append_Cons)
  have "split_on nl ?s = ?ls"
    unfolding print_patch_def using lines by (intro split_on_join) (auto simp: list_all_iff one_line_def)
  with cr t parse_ops_print[OF assms(1)] assms(2) show ?thesis by (simp add: parsePatch_def Let_def)
qed

theorem printed_patch_parses_back_witness:
  "parsePatch (print_patch [\<lparr>po_kind = PatchUpdate, po_path = ''a'', po_move_to = ''b'', po_lines = wit_lines\<rparr>])
   = Inr [\<lparr>po_kind = PatchUpdate, po_path = ''a'', po_move_to = ''b'', po_lines = wit_lines\<rparr>]"
proof -
  have "list_all op_ok [\<lparr>po_kind = PatchUpdate, po_path = ''a'', po_move_to = ''b'', po_lines = wit_lines\<rparr>]" by code_simp
  then show ?thesis by (rule printed_patch_parses_back) simp
qed

end
