(* ===== verification/ThreadJournal.thy ===== *)
theory ThreadJournal
  imports LLM Events ContextRenewal Complex_Main
begin

text \<open>
  The facts a Thread records and the state they replay to: \<^verbatim>\<open>types.go\<close>, \<^verbatim>\<open>id.go\<close>, \<^verbatim>\<open>journal.go\<close>,
  \<^verbatim>\<open>usage.go\<close>, \<^verbatim>\<open>replay.go\<close>, \<^verbatim>\<open>generation_seed.go\<close> and \<^verbatim>\<open>metadata.go\<close> of
  \<^verbatim>\<open>internal/framework/thread\<close>.

  A commit is an ordered list of facts with a sequence number. \<open>applyCommit\<close> folds it into the
  replay state, whose \<open>projection\<close> is the document \<^verbatim>\<open>thread.json\<close>; \<open>validateProjectionMetadata\<close>
  is the check every reader of that document makes. Sequence numbers and revisions (\<^verbatim>\<open>uint64\<close>)
  are natural numbers and are assumed not to wrap. A percentage is the exact quotient, not its
  nearest \<^verbatim>\<open>float64\<close>. A nil pointer that Go would dereference is the error \<open>NilPointer\<close>.
\<close>

section \<open>Data\<close>

datatype fact_type =
    FactThreadCreated | FactMessageAppended | FactEventRecorded | FactTurnStarted
  | FactTurnCompleted | FactTurnFailed | FactTurnCancelled | FactThreadSettled
  | FactContextRenewed | FactContextCompacted | FactUsageRecorded | FactOther string

datatype retention_state = RetentionActive | RetentionArchived | RetentionOther string

datatype execution_state =
    ExecutionNone | ExecutionIdle | ExecutionWorking | ExecutionFailed | ExecutionOther string

record context_usage_part =
  part_key :: string
  part_label :: string
  part_tokens :: int

record context_usage =
  cu_model :: string
  cu_context_window :: int
  cu_input_tokens :: int
  cu_output_tokens :: int
  cu_cached_input_tokens :: int
  cu_total_tokens :: int
  cu_breakdown :: "context_usage_part list"

record generation_seed =
  seed_version :: int
  seed_scope_id :: string
  seed_provider_messages :: "message list"
  seed_recovery_events :: "event list"
  seed_compaction_count :: int
  seed_context_usage :: "context_usage option"

record fact =
  f_type :: fact_type
  f_thread_id :: string
  f_alias :: string
  f_parent_thread_id :: string
  f_generation_id :: string
  f_from_generation_id :: string
  f_to_generation_id :: string
  f_turn_id :: string
  f_message :: "message option"
  f_event :: "event option"
  f_summary :: "message option"
  f_automatic :: bool
  f_error :: string
  f_model_ref :: string
  f_usage :: "usage option"
  f_context_usage :: "context_usage option"
  f_seed :: "generation_seed option"

definition empty_fact :: "fact_type \<Rightarrow> fact" where
  "empty_fact ty = \<lparr>f_type = ty, f_thread_id = [], f_alias = [], f_parent_thread_id = [],
     f_generation_id = [], f_from_generation_id = [], f_to_generation_id = [], f_turn_id = [],
     f_message = None, f_event = None, f_summary = None, f_automatic = False, f_error = [],
     f_model_ref = [], f_usage = None, f_context_usage = None, f_seed = None\<rparr>"

record commit =
  c_version :: int
  c_seq :: nat
  c_at :: instant
  c_facts :: "fact list"

record scanned_commit =
  sc_commit :: commit
  sc_generation_id :: string
  sc_start :: int
  sc_end :: int

record generation_projection =
  gp_id :: string
  gp_ordinal :: nat
  gp_boundary_seq :: nat

record counts =
  generation_count :: nat
  turn_count :: int
  pending_input_count :: int

record context_projection =
  cp_context_window :: int
  cp_current_tokens :: int
  cp_percentage :: rat
  cp_calibrated_at :: "instant option"

record event_cursor =
  cur_generation_id :: string
  cur_seq :: nat
  cur_offset :: int

record usage_aggregate =
  ua_total :: usage
  ua_by_model :: "(string \<times> usage) list option"

record projection =
  p_version :: int
  p_thread_id :: string
  p_alias :: string
  p_parent_thread_id :: string
  p_created_at :: instant
  p_updated_at :: instant
  p_archived_at :: "instant option"
  p_retention_state :: retention_state
  p_execution_state :: execution_state
  p_revision :: nat
  p_current_generation :: generation_projection
  p_generations :: "generation_projection list"
  p_counts :: counts
  p_token_usage :: usage_aggregate
  p_context_usage :: "context_projection option"
  p_last_activity_at :: instant
  p_event_cursor :: event_cursor
  p_usage_aggregated_through :: event_cursor

record activity =
  act_type :: fact_type
  act_at :: instant
  act_from_generation_id :: string
  act_to_generation_id :: string
  act_summary :: "message option"
  act_automatic :: bool

record replay_state =
  rs_scope_id :: string
  rs_projection :: projection
  rs_messages :: "message list"
  rs_provider_messages :: "message list"
  rs_events :: "event list"
  rs_activities :: "activity list"
  rs_compaction_count :: int
  rs_context_usage :: "context_usage option"

definition JournalVersion :: int where "JournalVersion = 1"
definition ProjectionVersion :: int where "ProjectionVersion = 1"
definition InitialGeneration :: string where "InitialGeneration = ''g000001''"
definition MainID :: string where "MainID = ''0''"
definition MainAlias :: string where "MainAlias = ''main''"
definition maxFactsPerCommit :: nat where "maxFactsPerCommit = 64"
definition maxCommitBytes :: int where "maxCommitBytes = 16777216"

datatype thread_error =
    UnsupportedVersion int | ZeroSequence | ZeroTimestamp | FactCount nat
  | InvalidFact | InvalidTransition | InvalidMetadata | CorruptJournal
  | NilPointer | ThreadClosed | StaleHandle | InvalidID string | NegativeCount
  | CommitTooLarge | EncodeError | JournalExists | IoFailure | MetadataMissing
  | ProjectionPersistError | IndexError | AliasRequired | AliasTaken | BadMaxDepth | DepthExceeded

section \<open>Ids\<close>

definition workerAlphabet :: string where
  "workerAlphabet = ''0123456789abcdefghjkmnpqrstvwxyz''"

definition ValidID :: "string \<Rightarrow> bool" where
  "ValidID i \<longleftrightarrow> i = MainID \<or> (length i = 6 \<and> list_all (\<lambda>c. c \<in> set workerAlphabet) i)"

definition ValidWorkerID :: "string \<Rightarrow> bool" where
  "ValidWorkerID i \<longleftrightarrow> i \<noteq> MainID \<and> ValidID i"

text \<open>\<open>raw\<close> are the bytes the random source still gives; \<^verbatim>\<open>io.ReadFull\<close> fails on fewer than six.\<close>

definition newWorkerID :: "nat list \<Rightarrow> (thread_error + string) \<times> nat list" where
  "newWorkerID raw = (if length raw < 6 then (Inl IoFailure, [])
     else (Inr (map (\<lambda>b. workerAlphabet ! (b mod 32)) (take 6 raw)), drop 6 raw))"

definition DefaultWorkerAlias :: "string \<Rightarrow> string" where
  "DefaultWorkerAlias i = ''worker_#'' @ i"

section \<open>Token usage\<close>

definition model_usage :: "usage_aggregate \<Rightarrow> (string \<times> usage) list" where
  "model_usage u = (case ua_by_model u of None \<Rightarrow> [] | Some m \<Rightarrow> m)"

definition aggregate_Add :: "string \<Rightarrow> usage \<Rightarrow> usage_aggregate \<Rightarrow> usage_aggregate" where
  "aggregate_Add ref u a =
     (let m = model_usage a;
          total = (case map_of m ref of None \<Rightarrow> usage_zero | Some t \<Rightarrow> t)
      in \<lparr>ua_total = usage_Add (ua_total a) u,
          ua_by_model = Some (AList.update ref (usage_Add total u) m)\<rparr>)"

definition aggregate_Clone :: "usage_aggregate \<Rightarrow> usage_aggregate" where
  "aggregate_Clone a = \<lparr>ua_total = ua_total a, ua_by_model = Some (model_usage a)\<rparr>"

definition validateUsage :: "usage \<Rightarrow> bool" where
  "validateUsage u \<longleftrightarrow> \<not> (input_tokens u < 0 \<or> output_tokens u < 0 \<or> cached_input_tokens u < 0)
     \<and> cached_input_tokens u \<le> input_tokens u"

text \<open>\<^verbatim>\<open>strings.Cut(modelRef, ":")\<close>\<close>

definition cut_colon :: "string \<Rightarrow> (string \<times> string) option" where
  "cut_colon s = (case dropWhile (\<lambda>c. c \<noteq> CHR '':'') s of
      [] \<Rightarrow> None | _ # rest \<Rightarrow> Some (takeWhile (\<lambda>c. c \<noteq> CHR '':'') s, rest))"

definition validateModelRef :: "string \<Rightarrow> bool" where
  "validateModelRef ref = (case cut_colon ref of None \<Rightarrow> False
     | Some (provider, model) \<Rightarrow> provider \<noteq> [] \<and> model \<noteq> [] \<and> trim_space provider = provider
         \<and> trim_space model = model)"

definition usage_sum :: "(string \<times> usage) list \<Rightarrow> usage" where
  "usage_sum m = fold (\<lambda>(_, u) s. usage_Add s u) m usage_zero"

definition validateUsageAggregate :: "usage_aggregate \<Rightarrow> bool" where
  "validateUsageAggregate a \<longleftrightarrow> validateUsage (ua_total a)
     \<and> list_all (\<lambda>(ref, u). validateModelRef ref \<and> validateUsage u) (model_usage a)
     \<and> usage_sum (model_usage a) = ua_total a"

section \<open>The shape of facts and commits\<close>

definition is_boundary :: "fact_type \<Rightarrow> bool" where
  "is_boundary ty \<longleftrightarrow> ty = FactContextRenewed \<or> ty = FactContextCompacted"

definition valid_boundary_shape :: "fact \<Rightarrow> bool" where
  "valid_boundary_shape f \<longleftrightarrow> f_from_generation_id f \<noteq> [] \<and> f_to_generation_id f \<noteq> [] \<and>
     (case f_seed f of None \<Rightarrow> False | Some seed \<Rightarrow>
        seed_version seed = ProjectionVersion \<and>
        (case (parseGenerationID (seed_scope_id seed), parseGenerationID (f_from_generation_id f)) of
           (Some scope, Some from') \<Rightarrow>
             \<not> (f_type f = FactContextRenewed \<and> seed_scope_id seed \<noteq> f_to_generation_id f)
             \<and> \<not> (f_type f = FactContextCompacted \<and> from' < scope)
         | _ \<Rightarrow> False) \<and>
        (if f_type f = FactContextRenewed
         then seed_provider_messages seed = [] \<and> seed_context_usage seed = None
         else (case f_summary f of None \<Rightarrow> False
               | Some s \<Rightarrow> (case seed_provider_messages seed of [] \<Rightarrow> False | m # _ \<Rightarrow> s = m))))"

definition validateFactShape :: "string \<Rightarrow> fact \<Rightarrow> bool" where
  "validateFactShape tid f \<longleftrightarrow> f_type f \<noteq> FactOther [] \<and>
     \<not> (f_thread_id f \<noteq> [] \<and> f_thread_id f \<noteq> tid) \<and>
     (case f_type f of
        FactThreadCreated \<Rightarrow>
          \<not> (f_thread_id f \<noteq> tid \<or> f_generation_id f \<noteq> InitialGeneration \<or> f_alias f = [])
          \<and> \<not> (tid = MainID \<and> (f_alias f \<noteq> MainAlias \<or> f_parent_thread_id f \<noteq> []))
          \<and> \<not> (tid \<noteq> MainID \<and> \<not> ValidID (f_parent_thread_id f))
      | FactMessageAppended \<Rightarrow>
          (case f_message f of None \<Rightarrow> False
           | Some m \<Rightarrow> msg_role m \<noteq> RoleOther [] \<and> f_generation_id f \<noteq> [])
      | FactEventRecorded \<Rightarrow> (case f_event f of None \<Rightarrow> False | Some e \<Rightarrow> ev_type e \<noteq> [])
      | FactContextRenewed \<Rightarrow> valid_boundary_shape f
      | FactContextCompacted \<Rightarrow> valid_boundary_shape f
      | FactUsageRecorded \<Rightarrow>
          (case f_usage f of None \<Rightarrow> False
           | Some u \<Rightarrow> f_turn_id f \<noteq> [] \<and> validateModelRef (f_model_ref f) \<and> validateUsage u)
      | FactOther _ \<Rightarrow> False
      | _ \<Rightarrow> True)"

definition only_fact :: "fact_type \<Rightarrow> bool" where
  "only_fact ty \<longleftrightarrow> ty = FactThreadCreated \<or> is_boundary ty"

definition validateCommit :: "string \<Rightarrow> commit \<Rightarrow> thread_error option" where
  "validateCommit tid c =
     (if c_version c \<noteq> JournalVersion then Some (UnsupportedVersion (c_version c))
      else if c_seq c = 0 then Some ZeroSequence
      else if c_at c = 0 then Some ZeroTimestamp
      else if c_facts c = [] \<or> maxFactsPerCommit < length (c_facts c)
      then Some (FactCount (length (c_facts c)))
      else if \<not> list_all (validateFactShape tid) (c_facts c) then Some InvalidFact
      else if length (c_facts c) \<noteq> 1 \<and> list_ex (\<lambda>f. only_fact (f_type f)) (c_facts c)
      then Some InvalidFact
      else None)"

section \<open>Replay\<close>

definition empty_counts :: counts where
  "empty_counts = \<lparr>generation_count = 0, turn_count = 0, pending_input_count = 0\<rparr>"

definition empty_cursor :: event_cursor where
  "empty_cursor = \<lparr>cur_generation_id = [], cur_seq = 0, cur_offset = 0\<rparr>"

definition empty_projection :: projection where
  "empty_projection = \<lparr>p_version = 0, p_thread_id = [], p_alias = [], p_parent_thread_id = [],
     p_created_at = 0, p_updated_at = 0, p_archived_at = None, p_retention_state = RetentionOther [],
     p_execution_state = ExecutionNone, p_revision = 0,
     p_current_generation = \<lparr>gp_id = [], gp_ordinal = 0, gp_boundary_seq = 0\<rparr>,
     p_generations = [], p_counts = empty_counts,
     p_token_usage = \<lparr>ua_total = usage_zero, ua_by_model = None\<rparr>, p_context_usage = None,
     p_last_activity_at = 0, p_event_cursor = empty_cursor,
     p_usage_aggregated_through = empty_cursor\<rparr>"

definition fresh_state :: "projection \<Rightarrow> replay_state" where
  "fresh_state p = \<lparr>rs_scope_id = [], rs_projection = p, rs_messages = [], rs_provider_messages = [],
     rs_events = [], rs_activities = [], rs_compaction_count = 0, rs_context_usage = None\<rparr>"

definition contextProjection :: "context_usage option \<Rightarrow> instant \<Rightarrow> context_projection option" where
  "contextProjection cu t = (case cu of None \<Rightarrow> None | Some u \<Rightarrow>
     Some \<lparr>cp_context_window = cu_context_window u, cp_current_tokens = cu_total_tokens u,
       cp_percentage = (if 0 < cu_context_window u
          then of_int (cu_total_tokens u) * 100 / of_int (cu_context_window u) else 0),
       cp_calibrated_at = Some t\<rparr>)"

definition applyGenerationSeed :: "generation_seed \<Rightarrow> replay_state \<Rightarrow> replay_state" where
  "applyGenerationSeed seed st = st\<lparr>rs_scope_id := seed_scope_id seed, rs_messages := [],
     rs_provider_messages := seed_provider_messages seed, rs_events := seed_recovery_events seed,
     rs_compaction_count := seed_compaction_count seed, rs_context_usage := seed_context_usage seed\<rparr>"

definition boundary_activity :: "instant \<Rightarrow> fact \<Rightarrow> activity" where
  "boundary_activity t f = \<lparr>act_type = f_type f, act_at = t,
     act_from_generation_id = f_from_generation_id f, act_to_generation_id = f_to_generation_id f,
     act_summary = f_summary f, act_automatic = f_automatic f\<rparr>"

definition initial_generation :: "nat \<Rightarrow> generation_projection" where
  "initial_generation seq = \<lparr>gp_id = InitialGeneration, gp_ordinal = 1, gp_boundary_seq = seq\<rparr>"

definition created_projection :: "string \<Rightarrow> scanned_commit \<Rightarrow> fact \<Rightarrow> projection \<Rightarrow> projection" where
  "created_projection tid c f p =
     (let t = c_at (sc_commit c); g = initial_generation (c_seq (sc_commit c)) in
      p\<lparr>p_version := ProjectionVersion, p_thread_id := tid, p_alias := f_alias f,
        p_parent_thread_id := f_parent_thread_id f, p_created_at := t, p_updated_at := t,
        p_last_activity_at := t, p_retention_state := RetentionActive,
        p_execution_state := ExecutionIdle, p_current_generation := g, p_generations := [g],
        p_counts := (p_counts p)\<lparr>generation_count := 1\<rparr>,
        p_token_usage := (p_token_usage p)\<lparr>ua_by_model := Some []\<rparr>\<rparr>)"

definition append_message :: "message \<Rightarrow> replay_state \<Rightarrow> replay_state" where
  "append_message m st = st\<lparr>rs_messages := rs_messages st @ [m],
     rs_provider_messages := rs_provider_messages st @ [m]\<rparr>"

definition count_turn :: "projection \<Rightarrow> projection" where
  "count_turn p = p\<lparr>p_counts := (p_counts p)\<lparr>turn_count := turn_count (p_counts p) + 1\<rparr>\<rparr>"

definition boundary_runtime :: "instant \<Rightarrow> fact \<Rightarrow> generation_seed \<Rightarrow> replay_state \<Rightarrow> replay_state" where
  "boundary_runtime t f seed st =
     (let st1 = (applyGenerationSeed seed st)\<lparr>rs_activities := [boundary_activity t f]\<rparr> in
      if f_type f = FactContextCompacted
      then st1\<lparr>rs_compaction_count := rs_compaction_count st1 + 1\<rparr> else st1)"

definition boundary_projection ::
  "scanned_commit \<Rightarrow> fact \<Rightarrow> nat \<Rightarrow> context_usage option \<Rightarrow> projection \<Rightarrow> projection" where
  "boundary_projection c f ordinal cu p =
     (let g = \<lparr>gp_id = f_to_generation_id f, gp_ordinal = ordinal, gp_boundary_seq = c_seq (sc_commit c)\<rparr> in
      p\<lparr>p_current_generation := g, p_generations := p_generations p @ [g],
        p_counts := (p_counts p)\<lparr>generation_count := generation_count (p_counts p) + 1\<rparr>,
        p_context_usage := contextProjection cu (c_at (sc_commit c))\<rparr>)"

definition apply_boundary :: "scanned_commit \<Rightarrow> fact \<Rightarrow> replay_state \<Rightarrow> thread_error + replay_state" where
  "apply_boundary c f st =
     (let p = rs_projection st in
      if f_from_generation_id f \<noteq> gp_id (p_current_generation p) then Inl InvalidTransition
      else case parseGenerationID (f_to_generation_id f) of
        None \<Rightarrow> Inl InvalidTransition
      | Some ordinal \<Rightarrow>
          (if ordinal \<noteq> gp_ordinal (p_current_generation p) + 1 then Inl InvalidTransition
           else case f_seed f of
             None \<Rightarrow> Inl NilPointer
           | Some seed \<Rightarrow>
               (let st1 = boundary_runtime (c_at (sc_commit c)) f seed st in
                Inr (st1\<lparr>rs_projection :=
                  boundary_projection c f ordinal (rs_context_usage st1) p\<rparr>))))"

definition applyFact ::
  "string \<Rightarrow> scanned_commit \<Rightarrow> fact \<Rightarrow> replay_state \<Rightarrow> thread_error + replay_state" where
  "applyFact tid c f st =
     (let p = rs_projection st in case f_type f of
        FactThreadCreated \<Rightarrow>
          (if p_thread_id p \<noteq> [] \<or> c_seq (sc_commit c) \<noteq> 1 then Inl InvalidTransition
           else Inr (st\<lparr>rs_scope_id := InitialGeneration, rs_projection := created_projection tid c f p\<rparr>))
      | FactMessageAppended \<Rightarrow>
          (if f_generation_id f \<noteq> gp_id (p_current_generation p) then Inl InvalidTransition
           else case f_message f of None \<Rightarrow> Inl NilPointer | Some m \<Rightarrow> Inr (append_message m st))
      | FactEventRecorded \<Rightarrow>
          (case f_event f of None \<Rightarrow> Inl NilPointer | Some e \<Rightarrow> Inr (st\<lparr>rs_events := rs_events st @ [e]\<rparr>))
      | FactTurnStarted \<Rightarrow> Inr (st\<lparr>rs_projection := p\<lparr>p_execution_state := ExecutionWorking\<rparr>\<rparr>)
      | FactTurnCompleted \<Rightarrow> Inr (st\<lparr>rs_projection := count_turn p\<rparr>)
      | FactTurnFailed \<Rightarrow>
          Inr (st\<lparr>rs_projection := (count_turn p)\<lparr>p_execution_state := ExecutionFailed\<rparr>\<rparr>)
      | FactTurnCancelled \<Rightarrow> Inr (st\<lparr>rs_projection := count_turn p\<rparr>)
      | FactThreadSettled \<Rightarrow>
          Inr (if p_retention_state p = RetentionActive
               then st\<lparr>rs_projection := p\<lparr>p_execution_state := ExecutionIdle\<rparr>\<rparr> else st)
      | FactContextRenewed \<Rightarrow> apply_boundary c f st
      | FactContextCompacted \<Rightarrow> apply_boundary c f st
      | FactUsageRecorded \<Rightarrow>
          (let p1 = (case f_usage f of None \<Rightarrow> p
                     | Some u \<Rightarrow> p\<lparr>p_token_usage := aggregate_Add (f_model_ref f) u (p_token_usage p)\<rparr>)
           in Inr (case f_context_usage f of None \<Rightarrow> st\<lparr>rs_projection := p1\<rparr>
                   | Some cu \<Rightarrow> st\<lparr>rs_context_usage := Some cu,
                       rs_projection := p1\<lparr>p_context_usage :=
                         contextProjection (Some cu) (c_at (sc_commit c))\<rparr>\<rparr>))
      | FactOther _ \<Rightarrow> Inr st)"

fun apply_facts ::
  "string \<Rightarrow> scanned_commit \<Rightarrow> fact list \<Rightarrow> replay_state \<Rightarrow> thread_error + replay_state" where
  "apply_facts tid c [] st = Inr st"
| "apply_facts tid c (f # fs) st = (case applyFact tid c f st of
      Inl e \<Rightarrow> Inl e | Inr st' \<Rightarrow> apply_facts tid c fs st')"

definition validateProjectionLifecycle :: "projection \<Rightarrow> bool" where
  "validateProjectionLifecycle p = (case p_retention_state p of
      RetentionActive \<Rightarrow> p_archived_at p = None
        \<and> p_execution_state p \<in> {ExecutionIdle, ExecutionWorking, ExecutionFailed}
    | RetentionArchived \<Rightarrow> p_archived_at p \<noteq> None \<and> p_execution_state p = ExecutionNone
    | RetentionOther _ \<Rightarrow> False)"

definition commit_cursor :: "scanned_commit \<Rightarrow> event_cursor" where
  "commit_cursor c = \<lparr>cur_generation_id = sc_generation_id c, cur_seq = c_seq (sc_commit c),
     cur_offset = sc_end c\<rparr>"

definition stamp_commit :: "scanned_commit \<Rightarrow> projection \<Rightarrow> projection" where
  "stamp_commit c p = p\<lparr>p_last_activity_at := c_at (sc_commit c), p_updated_at := c_at (sc_commit c),
     p_event_cursor := commit_cursor c, p_usage_aggregated_through := commit_cursor c\<rparr>"

definition applyCommit ::
  "string \<Rightarrow> scanned_commit \<Rightarrow> replay_state \<Rightarrow> thread_error + replay_state" where
  "applyCommit tid c st = (case apply_facts tid c (c_facts (sc_commit c)) st of
      Inl e \<Rightarrow> Inl e
    | Inr st' \<Rightarrow>
        (if \<not> validateProjectionLifecycle (rs_projection st') then Inl InvalidTransition
         else Inr (st'\<lparr>rs_projection := stamp_commit c (rs_projection st')\<rparr>)))"

fun apply_commits ::
  "string \<Rightarrow> scanned_commit list \<Rightarrow> replay_state \<Rightarrow> thread_error + replay_state" where
  "apply_commits tid [] st = Inr st"
| "apply_commits tid (c # cs) st = (case applyCommit tid c st of
      Inl e \<Rightarrow> Inl CorruptJournal | Inr st' \<Rightarrow> apply_commits tid cs st')"

definition replay :: "string \<Rightarrow> scanned_commit list \<Rightarrow> thread_error + replay_state" where
  "replay tid cs = (if cs = [] then Inl CorruptJournal
     else apply_commits tid cs (fresh_state empty_projection))"

section \<open>Seeds\<close>

definition settles_turn :: "event \<Rightarrow> bool" where
  "settles_turn e \<longleftrightarrow> ev_type e \<in> {''turn.completed'', ''turn.errored'', ''turn.cancelled''}"

text \<open>The loop runs backwards and stops at the last settled Turn, which it keeps.\<close>

definition generationRecoveryEvents :: "event list \<Rightarrow> event list" where
  "generationRecoveryEvents es =
     (let after = takeWhile (\<lambda>e. \<not> settles_turn e) (rev es) in
      case dropWhile (\<lambda>e. \<not> settles_turn e) (rev es) of
        [] \<Rightarrow> es | e # _ \<Rightarrow> e # rev after)"

definition compactProviderMessages :: "message \<Rightarrow> message list \<Rightarrow> message list" where
  "compactProviderMessages summary history = summary # (case msg_compaction summary of
      None \<Rightarrow> [] | Some c \<Rightarrow> filter (\<lambda>m. msg_id m \<in> set (retained_message_ids c)) history)"

definition generationSeedFromState ::
  "replay_state \<Rightarrow> message list \<Rightarrow> context_usage option \<Rightarrow> generation_seed" where
  "generationSeedFromState st msgs cu = \<lparr>seed_version = ProjectionVersion,
     seed_scope_id = rs_scope_id st, seed_provider_messages = msgs,
     seed_recovery_events = generationRecoveryEvents (rs_events st),
     seed_compaction_count = rs_compaction_count st, seed_context_usage = cu\<rparr>"

section \<open>The metadata document\<close>

fun registry_ok :: "nat \<Rightarrow> nat \<Rightarrow> generation_projection list \<Rightarrow> bool" where
  "registry_ok index previous [] = True"
| "registry_ok index previous (g # gs) \<longleftrightarrow>
     \<not> (gp_id g \<noteq> generationID (index + 1) \<or> gp_ordinal g \<noteq> index + 1 \<or> gp_boundary_seq g = 0)
     \<and> \<not> (0 < index \<and> gp_boundary_seq g \<le> previous)
     \<and> registry_ok (index + 1) (gp_boundary_seq g) gs"

text \<open>The search for the Generation of the usage cursor, and the bounds it puts on the sequence.\<close>

fun usage_cursor_ok :: "event_cursor \<Rightarrow> generation_projection list \<Rightarrow> bool" where
  "usage_cursor_ok cur [] = False"
| "usage_cursor_ok cur (g # gs) =
     (if gp_id g \<noteq> cur_generation_id cur then usage_cursor_ok cur gs
      else gp_boundary_seq g \<le> cur_seq cur
        \<and> (case gs of [] \<Rightarrow> True | next # _ \<Rightarrow> cur_seq cur < gp_boundary_seq next))"

definition identity_ok :: "projection \<Rightarrow> string \<Rightarrow> bool" where
  "identity_ok p i \<longleftrightarrow> p_version p = ProjectionVersion \<and> p_thread_id p = i \<and> ValidID i \<and> p_alias p \<noteq> []
     \<and> (if i = MainID then p_alias p = MainAlias \<and> p_parent_thread_id p = []
        else ValidID (p_parent_thread_id p) \<and> p_parent_thread_id p \<noteq> i)"

definition times_ok :: "projection \<Rightarrow> string \<Rightarrow> bool" where
  "times_ok p i \<longleftrightarrow> p_created_at p \<noteq> 0 \<and> p_updated_at p \<noteq> 0 \<and> p_last_activity_at p \<noteq> 0
     \<and> p_created_at p \<le> p_updated_at p \<and> p_created_at p \<le> p_last_activity_at p
     \<and> p_last_activity_at p \<le> p_updated_at p
     \<and> p_revision p \<noteq> 0 \<and> validateProjectionLifecycle p
     \<and> \<not> (i = MainID \<and> p_retention_state p \<noteq> RetentionActive)
     \<and> (case p_archived_at p of None \<Rightarrow> True
        | Some a \<Rightarrow> p_created_at p \<le> a \<and> a \<le> p_updated_at p)"

definition generations_ok :: "projection \<Rightarrow> bool" where
  "generations_ok p \<longleftrightarrow> p_generations p \<noteq> []
     \<and> generation_count (p_counts p) = length (p_generations p)
     \<and> registry_ok 0 0 (p_generations p)
     \<and> p_current_generation p = last (p_generations p)
     \<and> 0 \<le> turn_count (p_counts p) \<and> 0 \<le> pending_input_count (p_counts p)"

definition usage_ok :: "projection \<Rightarrow> bool" where
  "usage_ok p \<longleftrightarrow> ua_by_model (p_token_usage p) \<noteq> None \<and> validateUsageAggregate (p_token_usage p)"

definition cursors_ok :: "projection \<Rightarrow> bool" where
  "cursors_ok p \<longleftrightarrow> (let cur = p_event_cursor p; ucur = p_usage_aggregated_through p in
     cur_generation_id cur = gp_id (p_current_generation p) \<and> cur_seq cur \<noteq> 0 \<and> 0 < cur_offset cur
     \<and> list_all (\<lambda>g. gp_boundary_seq g \<le> cur_seq cur) (p_generations p)
     \<and> cur_generation_id ucur \<noteq> [] \<and> cur_seq ucur \<noteq> 0 \<and> 0 < cur_offset ucur
     \<and> usage_cursor_ok ucur (p_generations p)
     \<and> cur_seq ucur \<le> cur_seq cur
     \<and> \<not> (cur_seq ucur = cur_seq cur \<and> ucur \<noteq> cur))"

definition validateProjectionMetadata :: "projection \<Rightarrow> string \<Rightarrow> bool" where
  "validateProjectionMetadata p i \<longleftrightarrow> identity_ok p i \<and> times_ok p i \<and> generations_ok p
     \<and> usage_ok p \<and> cursors_ok p"

definition advanceProjectionRevision :: "instant \<Rightarrow> projection \<Rightarrow> projection" where
  "advanceProjectionRevision t p = p\<lparr>p_revision := p_revision p + 1, p_updated_at := t\<rparr>"

definition cloneProjection :: "projection \<Rightarrow> projection" where
  "cloneProjection p = p\<lparr>p_token_usage := aggregate_Clone (p_token_usage p)\<rparr>"

definition cloneReplayState :: "replay_state \<Rightarrow> replay_state" where
  "cloneReplayState st = st\<lparr>rs_projection := cloneProjection (rs_projection st)\<rparr>"

end
