(* ===== verification/ThreadStore.thy ===== *)
theory ThreadStore
  imports ThreadJournal
begin

text \<open>
  A Thread and its files: \<^verbatim>\<open>thread.go\<close> and \<^verbatim>\<open>event_store.go\<close> of \<^verbatim>\<open>internal/framework/thread\<close>.

  The directory of a Thread holds the metadata document \<^verbatim>\<open>thread.json\<close> and one journal per
  Generation. A journal is the list of commits that reading it gives, each with the byte range of
  its line; a commit that went through \<^verbatim>\<open>encoding/json\<close> is the commit that was written. \<open>tf_io\<close> holds
  the outcomes of the coming file operations, so a run decides which of them fail: a failed
  replacement of \<^verbatim>\<open>thread.json\<close> may have happened already, and a failed append may have left its
  line behind when truncating it failed too. A torn part of a line is not represented:
  the handle refuses to append after one and \<^verbatim>\<open>jsonl.Open\<close> removes it. \<open>marshal\<close> is the length of the JSON encoding of a
  commit, \<open>None\<close> when it cannot be encoded. The clock and the outcome of refreshing the Agent-wide
  index (\<^verbatim>\<open>store.go\<close>), which reads the document and never changes it, are arguments.
\<close>

section \<open>Files\<close>

datatype projection_file = ProjectionMissing | ProjectionBad | ProjectionDoc projection

record thread_files =
  tf_projection :: projection_file
  tf_journals :: "(string \<times> scanned_commit list) list"
  tf_io :: "write_result list"

type_synonym marshal = "commit \<Rightarrow> nat option"

definition next_outcome :: "thread_files \<Rightarrow> write_result \<times> thread_files" where
  "next_outcome fs = (case tf_io fs of [] \<Rightarrow> (WriteOk, fs) | r # rs \<Rightarrow> (r, fs\<lparr>tf_io := rs\<rparr>))"

definition set_journal :: "string \<Rightarrow> scanned_commit list \<Rightarrow> thread_files \<Rightarrow> thread_files" where
  "set_journal g cs fs = fs\<lparr>tf_journals := AList.update g cs (tf_journals fs)\<rparr>"

definition drop_journal :: "string \<Rightarrow> thread_files \<Rightarrow> thread_files" where
  "drop_journal g fs = fs\<lparr>tf_journals := AList.delete g (tf_journals fs)\<rparr>"

definition journal_size :: "scanned_commit list \<Rightarrow> int" where
  "journal_size cs = (if cs = [] then 0 else sc_end (last cs))"

text \<open>
  The length of the line \<^verbatim>\<open>encodeBatch\<close> writes for one record of \<open>n\<close> bytes:
  \<^verbatim>\<open>{"v":1,"index":0,"count":1,"data":\<close>, the record, a closing brace and a newline.
\<close>

definition line_length :: "nat \<Rightarrow> int" where
  "line_length n = int n + 36"

definition framed :: "string \<Rightarrow> int \<Rightarrow> nat \<Rightarrow> commit \<Rightarrow> scanned_commit" where
  "framed g start n c = \<lparr>sc_commit = c, sc_generation_id = g, sc_start = start,
     sc_end = start + line_length n\<rparr>"

text \<open>\<^verbatim>\<open>jsonl.File.Append\<close> with one record, by a handle that knows the file to be \<open>known\<close> bytes long.\<close>

definition append_record ::
  "marshal \<Rightarrow> string \<Rightarrow> int \<Rightarrow> commit \<Rightarrow> (thread_files, thread_error, scanned_commit) op" where
  "append_record marshal g known c fs = (case marshal c of
      None \<Rightarrow> (Inl EncodeError, fs)
    | Some n \<Rightarrow> (case map_of (tf_journals fs) g of
        None \<Rightarrow> (Inl IoFailure, fs)
      | Some cs \<Rightarrow>
          (if journal_size cs \<noteq> known then (Inl CorruptJournal, fs)
           else let sc = framed g known n c in
             case next_outcome fs of
               (WriteOk, fs1) \<Rightarrow> (Inr sc, set_journal g (cs @ [sc]) fs1)
             | (WriteFailed True, fs1) \<Rightarrow> (Inl IoFailure, set_journal g (cs @ [sc]) fs1)
             | (WriteFailed False, fs1) \<Rightarrow> (Inl IoFailure, fs1))))"

text \<open>\<^verbatim>\<open>jsonl.Open\<close> of a path that does not exist, and the removal of a journal.\<close>

definition create_journal :: "string \<Rightarrow> (thread_files, thread_error, unit) op" where
  "create_journal g fs = (case next_outcome fs of
      (WriteOk, fs1) \<Rightarrow> (Inr (), set_journal g [] fs1)
    | (WriteFailed True, fs1) \<Rightarrow> (Inl IoFailure, set_journal g [] fs1)
    | (WriteFailed False, fs1) \<Rightarrow> (Inl IoFailure, fs1))"

definition cleanupGenerationFile :: "string \<Rightarrow> thread_files \<Rightarrow> thread_files" where
  "cleanupGenerationFile g fs = (case next_outcome fs of
      (WriteFailed False, fs1) \<Rightarrow> fs1
    | (_, fs1) \<Rightarrow> drop_journal g fs1)"

definition readProjectionFile :: "string \<Rightarrow> thread_files \<Rightarrow> thread_error + projection" where
  "readProjectionFile i fs = (case tf_projection fs of
      ProjectionMissing \<Rightarrow> Inl MetadataMissing
    | ProjectionBad \<Rightarrow> Inl InvalidMetadata
    | ProjectionDoc p \<Rightarrow> (if validateProjectionMetadata p i then Inr p else Inl InvalidMetadata))"

definition write_projection :: "projection \<Rightarrow> (thread_files, thread_error, unit) op" where
  "write_projection p fs = (case next_outcome fs of
      (WriteOk, fs1) \<Rightarrow> (Inr (), fs1\<lparr>tf_projection := ProjectionDoc p\<rparr>)
    | (WriteFailed True, fs1) \<Rightarrow> (Inl IoFailure, fs1\<lparr>tf_projection := ProjectionDoc p\<rparr>)
    | (WriteFailed False, fs1) \<Rightarrow> (Inl IoFailure, fs1))"

section \<open>The Thread handle\<close>

text \<open>
  \<^verbatim>\<open>Thread\<close> with its \<^verbatim>\<open>EventStore\<close> (\<open>es_\<close> fields). Closing the Thread closes the journal handle with
  it, so one field stands for both.
\<close>

record thread =
  th_id :: string
  th_alias :: string
  th_parent_thread_id :: string
  th_history :: "message list"
  th_token_usage :: usage_aggregate
  th_context_usage :: "context_usage option"
  th_state :: replay_state
  th_closed :: bool
  es_current_id :: string
  es_size :: int
  es_next_seq :: nat
  th_files :: thread_files

type_synonym 'a thread_op = "(thread, thread_error, 'a) op"

abbreviation th_projection :: "thread \<Rightarrow> projection" where
  "th_projection t \<equiv> rs_projection (th_state t)"

definition refreshPublicLocked :: "thread \<Rightarrow> thread" where
  "refreshPublicLocked t = t\<lparr>th_alias := p_alias (th_projection t),
     th_parent_thread_id := p_parent_thread_id (th_projection t),
     th_history := rs_provider_messages (th_state t),
     th_token_usage := aggregate_Clone (p_token_usage (th_projection t)),
     th_context_usage := rs_context_usage (th_state t)\<rparr>"

definition prepareCommit ::
  "marshal \<Rightarrow> instant \<Rightarrow> fact list \<Rightarrow> thread \<Rightarrow> thread_error + commit" where
  "prepareCommit marshal now facts t =
     (if th_closed t then Inl ThreadClosed
      else let c = \<lparr>c_version = JournalVersion, c_seq = es_next_seq t, c_at = truncate_ms now,
                   c_facts = facts\<rparr> in
        case validateCommit (th_id t) c of
          Some e \<Rightarrow> Inl e
        | None \<Rightarrow> (case marshal c of None \<Rightarrow> Inl EncodeError
            | Some n \<Rightarrow> (if maxCommitBytes < int n then Inl CommitTooLarge else Inr c)))"

definition appendCurrent :: "marshal \<Rightarrow> commit \<Rightarrow> scanned_commit thread_op" where
  "appendCurrent marshal c t =
     (if th_closed t then (Inl ThreadClosed, t)
      else if c_seq c \<noteq> es_next_seq t then (Inl CorruptJournal, t)
      else case append_record marshal (es_current_id t) (es_size t) c (th_files t) of
        (Inl e, fs) \<Rightarrow> (Inl e, t\<lparr>th_files := fs\<rparr>)
      | (Inr sc, fs) \<Rightarrow>
          (Inr sc, t\<lparr>th_files := fs, es_size := sc_end sc, es_next_seq := es_next_seq t + 1\<rparr>))"

definition ensureProjectionCurrentLocked :: "thread \<Rightarrow> thread_error option" where
  "ensureProjectionCurrentLocked t = (case readProjectionFile (th_id t) (th_files t) of
      Inl e \<Rightarrow> Some e
    | Inr p \<Rightarrow>
        (if p_revision p \<noteq> p_revision (th_projection t)
            \<or> p_event_cursor p \<noteq> p_event_cursor (th_projection t)
         then Some StaleHandle else None))"

definition persistProjectionValueLocked :: "projection \<Rightarrow> unit thread_op" where
  "persistProjectionValueLocked p t =
     (if \<not> validateProjectionMetadata p (th_id t) then (Inl InvalidMetadata, t)
      else case write_projection p (th_files t) of (r, fs) \<Rightarrow> (r, t\<lparr>th_files := fs\<rparr>))"

definition persistProjectionLocked :: "unit thread_op" where
  "persistProjectionLocked t = persistProjectionValueLocked (th_projection t) t"

definition prepareAppendLocked ::
  "marshal \<Rightarrow> instant \<Rightarrow> fact list \<Rightarrow> thread \<Rightarrow> thread_error + commit \<times> replay_state" where
  "prepareAppendLocked marshal now facts t = (case prepareCommit marshal now facts t of
      Inl e \<Rightarrow> Inl e
    | Inr c \<Rightarrow>
        (let provisional = \<lparr>sc_commit = c, sc_generation_id = es_current_id t,
               sc_start = es_size t, sc_end = es_size t + 1\<rparr> in
         case applyCommit (th_id t) provisional (cloneReplayState (th_state t)) of
           Inl e \<Rightarrow> Inl e
         | Inr st \<Rightarrow>
             (let st1 = st\<lparr>rs_projection := advanceProjectionRevision (c_at c) (rs_projection st)\<rparr> in
              if \<not> validateProjectionMetadata (rs_projection st1) (th_id t) then Inl InvalidMetadata
              else Inr (c, st1))))"

definition set_offsets :: "int \<Rightarrow> replay_state \<Rightarrow> replay_state" where
  "set_offsets n st = (let p = rs_projection st in st\<lparr>rs_projection :=
     p\<lparr>p_event_cursor := (p_event_cursor p)\<lparr>cur_offset := n\<rparr>,
       p_usage_aggregated_through := (p_usage_aggregated_through p)\<lparr>cur_offset := n\<rparr>\<rparr>\<rparr>)"

definition appendFactsStoreLocked ::
  "marshal \<Rightarrow> instant \<Rightarrow> bool \<Rightarrow> fact list \<Rightarrow> commit thread_op" where
  "appendFactsStoreLocked marshal now index_ok facts t =
     (if th_closed t then (Inl ThreadClosed, t)
      else case ensureProjectionCurrentLocked t of
        Some e \<Rightarrow> (Inl e, t)
      | None \<Rightarrow>
        (if p_retention_state (th_projection t) \<noteq> RetentionActive then (Inl InvalidTransition, t)
         else if list_ex (\<lambda>f. is_boundary (f_type f)) facts then (Inl InvalidTransition, t)
         else case prepareAppendLocked marshal now facts t of
           Inl e \<Rightarrow> (Inl e, t)
         | Inr (c, candidate) \<Rightarrow>
           (case appendCurrent marshal c t of
              (Inl e, t1) \<Rightarrow> (Inl e, t1)
            | (Inr sc, t1) \<Rightarrow>
              (let candidate' = set_offsets (sc_end sc) candidate in
               if \<not> validateProjectionMetadata (rs_projection candidate') (th_id t)
               then (Inl InvalidMetadata, t1)
               else case persistProjectionLocked (refreshPublicLocked (t1\<lparr>th_state := candidate'\<rparr>)) of
                 (Inl _, t2) \<Rightarrow> (Inl ProjectionPersistError, t2)
               | (Inr _, t2) \<Rightarrow>
                   (if index_ok then (Inr c, t2) else (Inl ProjectionPersistError, t2))))))"

definition AppendFacts :: "marshal \<Rightarrow> instant \<Rightarrow> bool \<Rightarrow> fact list \<Rightarrow> commit thread_op" where
  "AppendFacts = appendFactsStoreLocked"

section \<open>Messages, events and usage\<close>

text \<open>\<open>fresh\<close> gives the random ids.\<close>

definition prepareMessage :: "string \<Rightarrow> message \<Rightarrow> message" where
  "prepareMessage fresh m =
     (let m1 = ClassifyUserMessage m;
          m2 = (if msg_id m1 = [] then set_msg_id fresh m1 else m1)
      in if msg_blocks m2 = None then set_msg_blocks (Some []) m2 else m2)"

definition message_fact :: "string \<Rightarrow> string \<Rightarrow> message \<Rightarrow> fact" where
  "message_fact g turn m = (empty_fact FactMessageAppended)\<lparr>f_generation_id := g, f_turn_id := turn,
     f_message := Some m\<rparr>"

definition event_fact :: "event \<Rightarrow> fact" where
  "event_fact e = (empty_fact FactEventRecorded)\<lparr>f_event := Some e\<rparr>"

definition turn_fact :: "fact_type \<Rightarrow> string \<Rightarrow> fact" where
  "turn_fact ty turn = (empty_fact ty)\<lparr>f_turn_id := turn\<rparr>"

definition appendBatchAssigned ::
  "marshal \<Rightarrow> instant \<Rightarrow> bool \<Rightarrow> (nat \<Rightarrow> string) \<Rightarrow> message list \<Rightarrow> string \<Rightarrow> event list \<Rightarrow>
   message list thread_op" where
  "appendBatchAssigned marshal now index_ok fresh ms turn associated t =
     (if ms = [] then (Inr [], t)
      else if th_closed t then (Inl ThreadClosed, t)
      else
        (let g = gp_id (p_current_generation (th_projection t));
             prepared = map (\<lambda>(k, m). prepareMessage (fresh k) m) (enumerate 0 ms);
             recorded = map (\<lambda>(k, e). Normalize (fresh k) now e)
               (enumerate (length ms) (filter (\<lambda>e. \<not> ev_transient e) associated))
         in case AppendFacts marshal now index_ok (map (message_fact g turn) prepared @ map event_fact recorded) t of
              (Inl e, t1) \<Rightarrow> (Inl e, t1)
            | (Inr _, t1) \<Rightarrow> (Inr prepared, t1)))"

definition event_facts :: "event \<Rightarrow> fact list" where
  "event_facts e = event_fact e #
     (if ev_type e = ''turn.started'' then [turn_fact FactTurnStarted (ev_turn_id e)]
      else if ev_type e = ''turn.completed''
      then [turn_fact FactTurnCompleted (ev_turn_id e), turn_fact FactThreadSettled (ev_turn_id e)]
      else if ev_type e = ''turn.errored'' then [turn_fact FactTurnFailed (ev_turn_id e)]
      else if ev_type e = ''turn.cancelled''
      then [turn_fact FactTurnCancelled (ev_turn_id e), turn_fact FactThreadSettled (ev_turn_id e)]
      else [])"

definition AppendEvent ::
  "marshal \<Rightarrow> instant \<Rightarrow> bool \<Rightarrow> string \<Rightarrow> event \<Rightarrow> unit thread_op" where
  "AppendEvent marshal now index_ok fresh e t =
     (if ev_transient e then (Inr (), t)
      else let e1 = Normalize fresh now e in
        if list_ex (\<lambda>r. ev_id r = ev_id e1) (rs_events (th_state t)) then (Inr (), t)
        else case AppendFacts marshal now index_ok (event_facts e1) t of
          (Inl x, t1) \<Rightarrow> (Inl x, t1) | (Inr _, t1) \<Rightarrow> (Inr (), t1))"

definition usage_fact :: "string \<Rightarrow> string \<Rightarrow> usage \<Rightarrow> context_usage option \<Rightarrow> fact" where
  "usage_fact turn ref u cu = (empty_fact FactUsageRecorded)\<lparr>f_turn_id := turn, f_model_ref := ref,
     f_usage := Some u, f_context_usage := cu\<rparr>"

definition RecordProviderUsage ::
  "marshal \<Rightarrow> instant \<Rightarrow> bool \<Rightarrow> string \<Rightarrow> string \<Rightarrow> usage \<Rightarrow> context_usage option \<Rightarrow> usage thread_op" where
  "RecordProviderUsage marshal now index_ok turn ref u cu t =
     (if usage_IsZero u \<and> cu = None then (Inr (ua_total (th_token_usage t)), t)
      else case AppendFacts marshal now index_ok [usage_fact turn ref u cu] t of
        (Inl e, t1) \<Rightarrow> (Inl e, t1) | (Inr _, t1) \<Rightarrow> (Inr (ua_total (th_token_usage t1)), t1))"

definition HasMessageID :: "string \<Rightarrow> thread \<Rightarrow> bool" where
  "HasMessageID i t \<longleftrightarrow> list_ex (\<lambda>m. msg_id m = i) (rs_provider_messages (th_state t))"

section \<open>Generation rollover\<close>

definition stageNextGeneration :: "marshal \<Rightarrow> commit \<Rightarrow> string \<Rightarrow> scanned_commit thread_op" where
  "stageNextGeneration marshal c g t =
     (if th_closed t then (Inl ThreadClosed, t)
      else if c_seq c \<noteq> es_next_seq t then (Inl CorruptJournal, t)
      else case parseGenerationID g of
        None \<Rightarrow> (Inl InvalidFact, t)
      | Some want \<Rightarrow>
        (case parseGenerationID (es_current_id t) of
           None \<Rightarrow> (Inl InvalidTransition, t)
         | Some cur \<Rightarrow>
           (if want \<noteq> cur + 1 then (Inl InvalidTransition, t)
            else if map_of (tf_journals (th_files t)) g \<noteq> None then (Inl JournalExists, t)
            else case create_journal g (th_files t) of
              (Inl e, fs) \<Rightarrow> (Inl e, t\<lparr>th_files := fs\<rparr>)
            | (Inr _, fs) \<Rightarrow>
              (case append_record marshal g 0 c fs of
                 (Inl e, fs1) \<Rightarrow> (Inl e, t\<lparr>th_files := cleanupGenerationFile g fs1\<rparr>)
               | (Inr sc, fs1) \<Rightarrow> (Inr sc, t\<lparr>th_files := fs1\<rparr>)))))"

definition discard :: "scanned_commit \<Rightarrow> thread \<Rightarrow> thread" where
  "discard sc t = t\<lparr>th_files := cleanupGenerationFile (sc_generation_id sc) (th_files t)\<rparr>"

text \<open>\<^verbatim>\<open>activate\<close> switches to the staged journal; closing the previous one may report an error.\<close>

definition activate :: "scanned_commit \<Rightarrow> unit thread_op" where
  "activate sc t = (case next_outcome (th_files t) of (r, fs) \<Rightarrow>
     ((if r = WriteOk then Inr () else Inl IoFailure),
      t\<lparr>es_current_id := sc_generation_id sc, es_size := sc_end sc,
        es_next_seq := c_seq (sc_commit sc) + 1, th_files := fs\<rparr>))"

definition boundary_seed ::
  "bool \<Rightarrow> message \<Rightarrow> context_usage option \<Rightarrow> string \<Rightarrow> replay_state \<Rightarrow> generation_seed" where
  "boundary_seed is_compacted summary cu next_id st =
     (let msgs = (if is_compacted then compactProviderMessages summary (rs_provider_messages st) else []);
          seed = generationSeedFromState st msgs cu
      in if is_compacted then seed else seed\<lparr>seed_scope_id := next_id\<rparr>)"

definition boundary_fact ::
  "bool \<Rightarrow> message \<Rightarrow> bool \<Rightarrow> context_usage option \<Rightarrow> replay_state \<Rightarrow> fact" where
  "boundary_fact is_compacted summary automatic cu st =
     (let current = p_current_generation (rs_projection st);
          next_id = generationID (gp_ordinal current + 1)
      in (empty_fact (if is_compacted then FactContextCompacted else FactContextRenewed))
           \<lparr>f_from_generation_id := gp_id current, f_to_generation_id := next_id,
            f_summary := (if is_compacted then Some summary else None), f_automatic := automatic,
            f_seed := Some (boundary_seed is_compacted summary cu next_id st)\<rparr>)"

definition finish_rollover ::
  "bool \<Rightarrow> commit \<Rightarrow> replay_state \<Rightarrow> scanned_commit \<Rightarrow> commit thread_op" where
  "finish_rollover index_ok c candidate sc t =
     (if \<not> validateProjectionMetadata (rs_projection candidate) (th_id t)
      then (Inl InvalidMetadata, discard sc t)
      else case persistProjectionValueLocked (rs_projection candidate) t of
        (Inl e, t1) \<Rightarrow> (Inl e, discard sc t1)
      | (Inr _, t1) \<Rightarrow>
          (case activate sc (refreshPublicLocked (t1\<lparr>th_state := candidate\<rparr>)) of
             (Inl _, t2) \<Rightarrow> (Inl ProjectionPersistError, t2)
           | (Inr _, t2) \<Rightarrow>
               (if index_ok then (Inr c, t2) else (Inl ProjectionPersistError, t2))))"

definition beginGeneration ::
  "marshal \<Rightarrow> instant \<Rightarrow> bool \<Rightarrow> bool \<Rightarrow> message \<Rightarrow> bool \<Rightarrow> context_usage option \<Rightarrow> commit thread_op" where
  "beginGeneration marshal now index_ok is_compacted summary automatic cu t =
     (if th_closed t then (Inl ThreadClosed, t)
      else case ensureProjectionCurrentLocked t of
        Some e \<Rightarrow> (Inl e, t)
      | None \<Rightarrow>
        (if p_retention_state (th_projection t) \<noteq> RetentionActive then (Inl InvalidTransition, t)
         else let f = boundary_fact is_compacted summary automatic cu (th_state t);
                  next_id = f_to_generation_id f in
           case prepareCommit marshal now [f] t of
             Inl e \<Rightarrow> (Inl e, t)
           | Inr c \<Rightarrow>
             (let provisional = \<lparr>sc_commit = c, sc_generation_id = next_id, sc_start = 0, sc_end = 1\<rparr> in
              case applyCommit (th_id t) provisional (cloneReplayState (th_state t)) of
                Inl e \<Rightarrow> (Inl e, t)
              | Inr st \<Rightarrow>
                (let st1 = st\<lparr>rs_projection := advanceProjectionRevision (c_at c) (rs_projection st)\<rparr> in
                 if \<not> validateProjectionMetadata (rs_projection st1) (th_id t)
                 then (Inl InvalidMetadata, t)
                 else case stageNextGeneration marshal c next_id t of
                   (Inl e, t1) \<Rightarrow> (Inl e, t1)
                 | (Inr sc, t1) \<Rightarrow>
                     finish_rollover index_ok c (set_offsets (sc_end sc) st1) sc t1))))"

definition BeginNewGeneration :: "marshal \<Rightarrow> instant \<Rightarrow> bool \<Rightarrow> commit thread_op" where
  "BeginNewGeneration marshal now index_ok =
     beginGeneration marshal now index_ok False (Message [] (RoleOther []) None KindNone False [] None)
       False None"

definition BeginCompactedGeneration ::
  "marshal \<Rightarrow> instant \<Rightarrow> bool \<Rightarrow> string \<Rightarrow> message \<Rightarrow> bool \<Rightarrow> context_usage option \<Rightarrow> commit thread_op" where
  "BeginCompactedGeneration marshal now index_ok fresh summary automatic cu =
     beginGeneration marshal now index_ok True (prepareMessage fresh summary) automatic cu"

section \<open>Changes of the metadata alone\<close>

text \<open>\<open>change\<close> is the callback of \<^verbatim>\<open>mutateProjectionLocked\<close>, applied with the new timestamp.\<close>

definition mutateProjectionLocked :: "instant \<Rightarrow> (instant \<Rightarrow> projection \<Rightarrow> projection) \<Rightarrow> unit thread_op" where
  "mutateProjectionLocked now change t =
     (if th_closed t then (Inl ThreadClosed, t)
      else case ensureProjectionCurrentLocked t of
        Some e \<Rightarrow> (Inl e, t)
      | None \<Rightarrow>
        (let stamp = truncate_ms now;
             candidate = advanceProjectionRevision stamp (change stamp (cloneProjection (th_projection t)))
         in if \<not> validateProjectionMetadata candidate (th_id t) then (Inl InvalidMetadata, t)
            else case persistProjectionValueLocked candidate t of
              (Inl e, t1) \<Rightarrow> (Inl e, t1)
            | (Inr _, t1) \<Rightarrow>
                (Inr (), refreshPublicLocked
                   (t1\<lparr>th_state := (th_state t1)\<lparr>rs_projection := candidate\<rparr>\<rparr>))))"

definition set_pending :: "int \<Rightarrow> projection \<Rightarrow> projection" where
  "set_pending n p = p\<lparr>p_counts := (p_counts p)\<lparr>pending_input_count := n\<rparr>\<rparr>"

definition SetPendingInputCount :: "instant \<Rightarrow> bool \<Rightarrow> int \<Rightarrow> unit thread_op" where
  "SetPendingInputCount now index_ok n t =
     (if n < 0 then (Inl NegativeCount, t)
      else if th_closed t then (Inl ThreadClosed, t)
      else case ensureProjectionCurrentLocked t of
        Some e \<Rightarrow> (Inl e, t)
      | None \<Rightarrow>
        (if pending_input_count (p_counts (th_projection t)) = n
         then ((if index_ok then Inr () else Inl IndexError), t)
         else case mutateProjectionLocked now (\<lambda>_. set_pending n) t of
           (Inl e, t1) \<Rightarrow> (Inl e, t1)
         | (Inr _, t1) \<Rightarrow> ((if index_ok then Inr () else Inl IndexError), t1)))"

text \<open>\<open>available\<close> tells whether the index could be read and no other Thread has the alias.\<close>

definition ApplyAlias :: "instant \<Rightarrow> bool \<Rightarrow> bool \<Rightarrow> string \<Rightarrow> unit thread_op" where
  "ApplyAlias now available index_ok alias t =
     (if alias = [] then (Inl AliasRequired, t)
      else if \<not> available then (Inl AliasTaken, t)
      else case mutateProjectionLocked now (\<lambda>_ p. p\<lparr>p_alias := alias\<rparr>) t of
        (Inl e, t1) \<Rightarrow> (Inl e, t1)
      | (Inr _, t1) \<Rightarrow> ((if index_ok then Inr () else Inl IndexError), t1))"

definition archive_projection :: "instant \<Rightarrow> projection \<Rightarrow> projection" where
  "archive_projection t p = p\<lparr>p_retention_state := RetentionArchived,
     p_execution_state := ExecutionNone, p_archived_at := Some t\<rparr>"

definition unarchive_projection :: "projection \<Rightarrow> projection" where
  "unarchive_projection p = p\<lparr>p_retention_state := RetentionActive,
     p_execution_state := ExecutionIdle, p_archived_at := None\<rparr>"

definition Close :: "thread \<Rightarrow> thread" where
  "Close t = t\<lparr>th_closed := True\<rparr>"

section \<open>Creating a Thread\<close>

definition created_fact :: "string \<Rightarrow> string \<Rightarrow> string \<Rightarrow> fact" where
  "created_fact tid alias parent = (empty_fact FactThreadCreated)\<lparr>f_thread_id := tid, f_alias := alias,
     f_parent_thread_id := parent, f_generation_id := InitialGeneration\<rparr>"

definition new_handle :: "string \<Rightarrow> thread_files \<Rightarrow> thread" where
  "new_handle tid fs = \<lparr>th_id = tid, th_alias = [], th_parent_thread_id = [], th_history = [],
     th_token_usage = \<lparr>ua_total = usage_zero, ua_by_model = None\<rparr>, th_context_usage = None,
     th_state = fresh_state empty_projection, th_closed = False, es_current_id = InitialGeneration,
     es_size = 0, es_next_seq = 1, th_files = fs\<rparr>"

text \<open>
  \<^verbatim>\<open>createEventStore\<close> in a directory that holds neither metadata nor journals. Where it fails, what
  it created is removed with the directory by \<^verbatim>\<open>createLocked\<close>.
\<close>

definition createEventStore ::
  "marshal \<Rightarrow> instant \<Rightarrow> string \<Rightarrow> string \<Rightarrow> string \<Rightarrow> write_result list \<Rightarrow>
   thread_error + scanned_commit \<times> thread" where
  "createEventStore marshal now tid alias parent io =
     (if \<not> ValidID tid then Inl (InvalidID tid)
      else case create_journal InitialGeneration
             \<lparr>tf_projection = ProjectionMissing, tf_journals = [], tf_io = io\<rparr> of
        (Inl e, _) \<Rightarrow> Inl e
      | (Inr _, fs) \<Rightarrow>
        (let t = new_handle tid fs in
         case prepareCommit marshal now [created_fact tid alias parent] t of
           Inl e \<Rightarrow> Inl e
         | Inr c \<Rightarrow> (case appendCurrent marshal c t of
              (Inl e, _) \<Rightarrow> Inl e
            | (Inr sc, t1) \<Rightarrow> Inr (sc, t1))))"

definition createLocked ::
  "marshal \<Rightarrow> instant \<Rightarrow> bool \<Rightarrow> string \<Rightarrow> string \<Rightarrow> string \<Rightarrow> write_result list \<Rightarrow> thread_error + thread" where
  "createLocked marshal now index_ok tid alias parent io =
     (case createEventStore marshal now tid alias parent io of
        Inl e \<Rightarrow> Inl e
      | Inr (sc, t) \<Rightarrow>
        (case replay tid [sc] of
           Inl e \<Rightarrow> Inl e
         | Inr st \<Rightarrow>
           (let st1 = st\<lparr>rs_projection := (rs_projection st)\<lparr>p_revision := 1\<rparr>\<rparr> in
            case persistProjectionLocked (refreshPublicLocked (t\<lparr>th_state := st1\<rparr>)) of
              (Inl e, _) \<Rightarrow> Inl e
            | (Inr _, t1) \<Rightarrow> (if index_ok then Inr t1 else Inl IndexError))))"

section \<open>Opening a Thread\<close>

text \<open>
  \<^verbatim>\<open>recoverGenerationLayout\<close>: a journal the metadata does not know is removed when its Generation
  would come later, as a rollover that was never published leaves one, and is corruption otherwise.
\<close>

fun layout_entries ::
  "string list \<Rightarrow> nat \<Rightarrow> string list \<Rightarrow> (thread_files, thread_error, unit) op" where
  "layout_entries wanted last_ordinal [] fs = (Inr (), fs)"
| "layout_entries wanted last_ordinal (g # gs) fs =
     (if g \<in> set wanted then layout_entries wanted last_ordinal gs fs
      else case parseGenerationID g of
        None \<Rightarrow> (Inl CorruptJournal, fs)
      | Some ordinal \<Rightarrow>
          (if ordinal \<le> last_ordinal then (Inl CorruptJournal, fs)
           else case next_outcome fs of
             (WriteOk, fs1) \<Rightarrow> layout_entries wanted last_ordinal gs (drop_journal g fs1)
           | (WriteFailed True, fs1) \<Rightarrow> (Inl IoFailure, drop_journal g fs1)
           | (WriteFailed False, fs1) \<Rightarrow> (Inl IoFailure, fs1)))"

definition recoverGenerationLayout ::
  "generation_projection list \<Rightarrow> (thread_files, thread_error, unit) op" where
  "recoverGenerationLayout gens fs =
     (let wanted = map gp_id gens;
          last_ordinal = (if gens = [] then 0 else gp_ordinal (last gens))
      in case layout_entries wanted last_ordinal (map fst (tf_journals fs)) fs of
           (Inl e, fs1) \<Rightarrow> (Inl e, fs1)
         | (Inr _, fs1) \<Rightarrow>
             (if list_all (\<lambda>g. map_of (tf_journals fs) g \<noteq> None) wanted then (Inr (), fs1)
              else (Inl CorruptJournal, fs1)))"

fun check_commits :: "string \<Rightarrow> nat \<Rightarrow> scanned_commit list \<Rightarrow> bool" where
  "check_commits tid want [] = True"
| "check_commits tid want (c # cs) \<longleftrightarrow> c_seq (sc_commit c) = want
     \<and> validateCommit tid (sc_commit c) = None \<and> check_commits tid (want + 1) cs"

definition readGenerationCommits ::
  "string \<Rightarrow> generation_projection \<Rightarrow> thread_files \<Rightarrow> thread_error + scanned_commit list" where
  "readGenerationCommits tid g fs = (case map_of (tf_journals fs) (gp_id g) of
      None \<Rightarrow> Inl IoFailure
    | Some cs \<Rightarrow>
        (if \<not> check_commits tid (gp_boundary_seq g) cs \<or> cs = [] then Inl CorruptJournal else Inr cs))"

definition usageOnlyCommit :: "scanned_commit \<Rightarrow> bool" where
  "usageOnlyCommit c \<longleftrightarrow> c_facts (sc_commit c) \<noteq> []
     \<and> list_all (\<lambda>f. f_type f = FactUsageRecorded) (c_facts (sc_commit c))"

fun split_at ::
  "event_cursor \<Rightarrow> scanned_commit list \<Rightarrow> (scanned_commit list \<times> scanned_commit list) option" where
  "split_at cur [] = None"
| "split_at cur (c # cs) = (if commit_cursor c = cur then Some ([c], cs)
     else map_option (\<lambda>(xs, ys). (c # xs, ys)) (split_at cur cs))"

definition splitCommitsAtCursor ::
  "scanned_commit list \<Rightarrow> event_cursor \<Rightarrow> thread_error + scanned_commit list \<times> scanned_commit list" where
  "splitCommitsAtCursor cs cur = (case split_at cur cs of
      None \<Rightarrow> Inl InvalidMetadata
    | Some (published, rest) \<Rightarrow>
        (if 1 < length rest then Inl InvalidMetadata
         else if length rest = 1 \<and> \<not> usageOnlyCommit (hd rest) then Inl InvalidMetadata
         else Inr (published, rest)))"

definition apply_runtime_fact ::
  "string \<Rightarrow> string \<Rightarrow> scanned_commit \<Rightarrow> bool \<Rightarrow> fact \<Rightarrow> replay_state \<Rightarrow> thread_error + replay_state" where
  "apply_runtime_fact tid g c first f st = (case f_type f of
      FactThreadCreated \<Rightarrow>
        (if \<not> first \<or> g \<noteq> InitialGeneration \<or> f_thread_id f \<noteq> tid then Inl InvalidTransition
         else Inr (st\<lparr>rs_scope_id := InitialGeneration\<rparr>))
    | FactContextRenewed \<Rightarrow>
        (if \<not> first then Inl InvalidTransition else case f_seed f of None \<Rightarrow> Inl InvalidTransition
         | Some seed \<Rightarrow> Inr (boundary_runtime (c_at (sc_commit c)) f seed st))
    | FactContextCompacted \<Rightarrow>
        (if \<not> first then Inl InvalidTransition else case f_seed f of None \<Rightarrow> Inl InvalidTransition
         | Some seed \<Rightarrow> Inr (boundary_runtime (c_at (sc_commit c)) f seed st))
    | FactMessageAppended \<Rightarrow>
        (if f_generation_id f \<noteq> g then Inl InvalidTransition
         else case f_message f of None \<Rightarrow> Inl NilPointer | Some m \<Rightarrow> Inr (append_message m st))
    | FactEventRecorded \<Rightarrow>
        (case f_event f of None \<Rightarrow> Inl NilPointer | Some e \<Rightarrow> Inr (st\<lparr>rs_events := rs_events st @ [e]\<rparr>))
    | FactUsageRecorded \<Rightarrow>
        Inr (case f_context_usage f of None \<Rightarrow> st | Some cu \<Rightarrow> st\<lparr>rs_context_usage := Some cu\<rparr>)
    | _ \<Rightarrow> Inr st)"

fun applyRuntimeCommit ::
  "string \<Rightarrow> string \<Rightarrow> scanned_commit \<Rightarrow> bool \<Rightarrow> fact list \<Rightarrow> replay_state \<Rightarrow> thread_error + replay_state" where
  "applyRuntimeCommit tid g c first [] st = Inr st"
| "applyRuntimeCommit tid g c first (f # fs) st = (case apply_runtime_fact tid g c first f st of
      Inl e \<Rightarrow> Inl e | Inr st' \<Rightarrow> applyRuntimeCommit tid g c first fs st')"

fun runtime_commits ::
  "string \<Rightarrow> string \<Rightarrow> bool \<Rightarrow> scanned_commit list \<Rightarrow> replay_state \<Rightarrow> thread_error + replay_state" where
  "runtime_commits tid g first [] st = Inr st"
| "runtime_commits tid g first (c # cs) st =
     (case applyRuntimeCommit tid g c first (c_facts (sc_commit c)) st of
        Inl e \<Rightarrow> Inl CorruptJournal | Inr st' \<Rightarrow> runtime_commits tid g False cs st')"

text \<open>What the first commit of the current Generation has to be.\<close>

definition begins_generation :: "projection \<Rightarrow> scanned_commit \<Rightarrow> bool" where
  "begins_generation p c = (case c_facts (sc_commit c) of
      [f] \<Rightarrow>
        (if gp_ordinal (p_current_generation p) = 1
         then f_type f = FactThreadCreated \<and> c_seq (sc_commit c) = 1
         else is_boundary (f_type f)
           \<and> (case f_seed f of None \<Rightarrow> False | Some seed \<Rightarrow> seed_version seed = ProjectionVersion)
           \<and> f_from_generation_id f = gp_id (p_generations p ! (gp_ordinal (p_current_generation p) - 2))
           \<and> f_to_generation_id f = gp_id (p_current_generation p)
           \<and> c_seq (sc_commit c) = gp_boundary_seq (p_current_generation p))
    | _ \<Rightarrow> False)"

definition replayCurrentGeneration ::
  "string \<Rightarrow> projection \<Rightarrow> scanned_commit list \<Rightarrow> thread_error + replay_state" where
  "replayCurrentGeneration tid p cs =
     (if cs = [] then Inl CorruptJournal
      else if \<not> begins_generation p (hd cs) then Inl CorruptJournal
      else if commit_cursor (last cs) \<noteq> p_event_cursor p then Inl InvalidMetadata
      else runtime_commits tid (gp_id (p_current_generation p)) True cs (fresh_state (cloneProjection p)))"

text \<open>
  The scan that brings the usage totals up to the event cursor. \<open>read_range\<close> is \<^verbatim>\<open>ReadForwardTo\<close>:
  both ends have to be ends of lines.
\<close>

definition read_range :: "scanned_commit list \<Rightarrow> int \<Rightarrow> int \<Rightarrow> scanned_commit list option" where
  "read_range cs start stop =
     (if (start = 0 \<or> start \<in> set (map sc_end cs)) \<and> (stop = 0 \<or> stop \<in> set (map sc_end cs))
         \<and> start \<le> stop
      then Some (filter (\<lambda>c. start \<le> sc_start c \<and> sc_end c \<le> stop) cs) else None)"

definition add_usage_facts :: "scanned_commit \<Rightarrow> projection \<Rightarrow> projection" where
  "add_usage_facts c p =
     (fold (\<lambda>f q. if f_type f = FactUsageRecorded
                 then (case f_usage f of None \<Rightarrow> q
                       | Some u \<Rightarrow> q\<lparr>p_token_usage := aggregate_Add (f_model_ref f) u (p_token_usage q)\<rparr>)
                 else q) (c_facts (sc_commit c)) p)\<lparr>p_usage_aggregated_through := commit_cursor c\<rparr>"

fun visit_journals ::
  "string \<Rightarrow> thread_files \<Rightarrow> int \<Rightarrow> int \<Rightarrow> nat \<Rightarrow> generation_projection list \<Rightarrow> projection \<Rightarrow>
   thread_error + nat \<times> projection" where
  "visit_journals tid fs start through want [] p = Inr (want, p)"
| "visit_journals tid fs start through want (g # gs) p =
     (case map_of (tf_journals fs) (gp_id g) of
        None \<Rightarrow> Inl IoFailure
      | Some cs \<Rightarrow>
          (case read_range cs start (if gs = [] then through else journal_size cs) of
             None \<Rightarrow> Inl CorruptJournal
           | Some visited \<Rightarrow>
               (if \<not> check_commits tid want visited then Inl CorruptJournal
                else visit_journals tid fs 0 through (want + length visited) gs
                       (fold add_usage_facts visited p))))"

definition registry_range :: "string \<Rightarrow> string \<Rightarrow> generation_projection list \<Rightarrow> generation_projection list" where
  "registry_range from' through gens =
     (let rest = dropWhile (\<lambda>g. gp_id g \<noteq> from') gens;
          before = takeWhile (\<lambda>g. gp_id g \<noteq> through) rest
      in if length before = length rest then [] else before @ [rest ! length before])"

definition recoverUsageAggregate ::
  "string \<Rightarrow> thread_files \<Rightarrow> event_cursor \<Rightarrow> projection \<Rightarrow> thread_error + bool \<times> projection" where
  "recoverUsageAggregate tid fs through p =
     (let after = p_usage_aggregated_through p;
          selected = registry_range (cur_generation_id after) (cur_generation_id through) (p_generations p)
      in if after = through then Inr (False, p)
         else if selected = [] then Inl InvalidMetadata
         else case visit_journals tid fs (cur_offset after) (cur_offset through) (cur_seq after + 1)
                selected p of
           Inl e \<Rightarrow> Inl e
         | Inr (want, p1) \<Rightarrow>
             (if want \<noteq> cur_seq through + 1 \<or> p_usage_aggregated_through p1 \<noteq> through
              then Inl InvalidMetadata else Inr (True, p1)))"

definition opened ::
  "string \<Rightarrow> projection \<Rightarrow> scanned_commit list \<Rightarrow> replay_state \<Rightarrow> thread_files \<Rightarrow> thread" where
  "opened tid p cs st fs = \<lparr>th_id = tid, th_alias = [], th_parent_thread_id = [], th_history = [],
     th_token_usage = \<lparr>ua_total = usage_zero, ua_by_model = None\<rparr>, th_context_usage = None,
     th_state = st, th_closed = False, es_current_id = gp_id (p_current_generation p),
     es_size = journal_size cs, es_next_seq = c_seq (sc_commit (last cs)) + 1, th_files = fs\<rparr>"

definition finish_open ::
  "instant \<Rightarrow> string \<Rightarrow> scanned_commit list \<Rightarrow> bool \<Rightarrow> replay_state \<Rightarrow> thread_error + bool \<times> replay_state" where
  "finish_open now tid rest recovered st =
     (case (if rest = [] then Inr (recovered, st)
            else case applyCommit tid (hd rest) st of
              Inl _ \<Rightarrow> Inl CorruptJournal | Inr st' \<Rightarrow> Inr (True, st')) of
        Inl e \<Rightarrow> Inl e
      | Inr (rcv, st1) \<Rightarrow>
          (let p = rs_projection st1;
               p1 = (if rcv then advanceProjectionRevision (max (truncate_ms now) (p_updated_at p)) p else p)
           in if \<not> validateProjectionMetadata p1 tid then Inl InvalidMetadata
              else Inr (rcv, st1\<lparr>rs_projection := p1\<rparr>)))"

definition openEventStore ::
  "instant \<Rightarrow> string \<Rightarrow> projection \<Rightarrow> (thread_files, thread_error, thread \<times> bool) op" where
  "openEventStore now tid metadata fs = (case recoverGenerationLayout (p_generations metadata) fs of
      (Inl e, fs1) \<Rightarrow> (Inl e, fs1)
    | (Inr _, fs1) \<Rightarrow>
      (case readGenerationCommits tid (p_current_generation metadata) fs1 of
         Inl e \<Rightarrow> (Inl e, fs1)
       | Inr cs \<Rightarrow>
         (case splitCommitsAtCursor cs (p_event_cursor metadata) of
            Inl e \<Rightarrow> (Inl e, fs1)
          | Inr (published, rest) \<Rightarrow>
            (case replayCurrentGeneration tid metadata published of
               Inl e \<Rightarrow> (Inl e, fs1)
             | Inr st \<Rightarrow>
               (case recoverUsageAggregate tid fs1 (p_event_cursor metadata) (rs_projection st) of
                  Inl e \<Rightarrow> (Inl e, fs1)
                | Inr (recovered, p) \<Rightarrow>
                  (case finish_open now tid rest recovered (st\<lparr>rs_projection := p\<rparr>) of
                     Inl e \<Rightarrow> (Inl e, fs1)
                   | Inr (rcv, st1) \<Rightarrow> (Inr (opened tid metadata cs st1 fs1, rcv), fs1)))))))"

end
