(* ===== verification/ThreadDepth.thy ===== *)
theory ThreadDepth
  imports ThreadStore
begin

text \<open>
  How deep a Worker sits below Main: \<^verbatim>\<open>worker_depth.go\<close> and the inspection of \<^verbatim>\<open>inspect.go\<close> it rests
  on. A store is the metadata document found in the directory of each Thread id, in the active and
  in the archived namespace; directories that are not plain directories are left out.
\<close>

record thread_store =
  ts_active :: "(string \<times> projection_file) list"
  ts_archived :: "(string \<times> projection_file) list"

definition read_document :: "string \<Rightarrow> projection_file \<Rightarrow> thread_error + projection" where
  "read_document i d = readProjectionFile i \<lparr>tf_projection = d, tf_journals = [], tf_io = []\<rparr>"

text \<open>One round of the loop over the two namespaces: \<open>None\<close> is \<^verbatim>\<open>continue\<close>.\<close>

definition inspect_in ::
  "bool \<Rightarrow> (string \<times> projection_file) list \<Rightarrow> string \<Rightarrow> (thread_error + projection) option" where
  "inspect_in archive dirs i = (case map_of dirs i of
      None \<Rightarrow> None
    | Some ProjectionMissing \<Rightarrow> None
    | Some d \<Rightarrow> (case read_document i d of
        Inl e \<Rightarrow> Some (Inl e)
      | Inr p \<Rightarrow>
          (if (p_retention_state p = RetentionArchived) \<noteq> archive then Some (Inl InvalidMetadata)
           else Some (Inr p))))"

definition inspectLocked :: "thread_store \<Rightarrow> string \<Rightarrow> thread_error + projection" where
  "inspectLocked s i =
     (if \<not> ValidID i then Inl (InvalidID i)
      else case inspect_in False (ts_active s) i of
        Some r \<Rightarrow> r
      | None \<Rightarrow> (case inspect_in True (ts_archived s) i of Some r \<Rightarrow> r | None \<Rightarrow> Inl MetadataMissing))"

lemma inspect_known: "inspectLocked s i = Inr p \<Longrightarrow> i \<in> keys (ts_active s) \<union> keys (ts_archived s)"
  by (auto simp: inspectLocked_def inspect_in_def map_of_eq_None[symmetric]
      split: if_splits option.splits)

text \<open>The loop ends because each round marks one more Thread of the store as seen.\<close>

function depth_loop :: "thread_store \<Rightarrow> string list \<Rightarrow> nat \<Rightarrow> string \<Rightarrow> thread_error + nat" where
  "depth_loop s seen depth i =
     (if i \<in> set seen then Inl InvalidMetadata
      else case inspectLocked s i of
        Inl e \<Rightarrow> Inl e
      | Inr p \<Rightarrow> (if i = MainID then Inr depth
                 else depth_loop s (i # seen) (depth + 1) (p_parent_thread_id p)))"
  by pat_completeness auto
termination
proof (relation "measure (\<lambda>(s, seen, _, _). card ((keys (ts_active s) \<union> keys (ts_archived s)) - set seen))")
  fix s seen depth i p
  assume "i \<notin> set seen" and "inspectLocked s i = Inr p"
  then have "i \<in> (keys (ts_active s) \<union> keys (ts_archived s)) - set seen" using inspect_known by blast
  then have "card ((keys (ts_active s) \<union> keys (ts_archived s)) - set (i # seen))
      < card ((keys (ts_active s) \<union> keys (ts_archived s)) - set seen)"
    by (intro psubset_card_mono) auto
  then show "((s, i # seen, depth + 1, p_parent_thread_id p), s, seen, depth, i)
      \<in> measure (\<lambda>(s, seen, _, _). card ((keys (ts_active s) \<union> keys (ts_archived s)) - set seen))"
    by simp
qed simp

declare depth_loop.simps [simp del]

definition depthLocked :: "thread_store \<Rightarrow> string \<Rightarrow> thread_error + nat" where
  "depthLocked s i = depth_loop s [] 0 i"

definition checkWorkerDepthLocked :: "thread_store \<Rightarrow> string \<Rightarrow> int \<Rightarrow> thread_error option" where
  "checkWorkerDepthLocked s parent max_depth =
     (if max_depth < 1 then Some BadMaxDepth
      else case depthLocked s parent of
        Inl e \<Rightarrow> Some e
      | Inr depth \<Rightarrow> (if max_depth \<le> int depth then Some DepthExceeded else None))"

section \<open>Depth is the length of the parent chain\<close>

text \<open>The specification: a chain of parents, each with readable metadata, that ends in Main.\<close>

inductive below_main :: "thread_store \<Rightarrow> string \<Rightarrow> nat \<Rightarrow> bool" for s :: thread_store where
  main: "inspectLocked s MainID = Inr p \<Longrightarrow> below_main s MainID 0"
| child: "i \<noteq> MainID \<Longrightarrow> inspectLocked s i = Inr p \<Longrightarrow> below_main s (p_parent_thread_id p) n \<Longrightarrow>
    below_main s i (Suc n)"

inductive_cases below_mainE: "below_main s i n"

lemma below_main_child:
  "below_main s i n \<Longrightarrow> i \<noteq> MainID \<Longrightarrow>
   \<exists>p k. inspectLocked s i = Inr p \<and> n = Suc k \<and> below_main s (p_parent_thread_id p) k"
  by (auto elim: below_mainE)

lemma below_main_unique: "below_main s i m \<Longrightarrow> below_main s i n \<Longrightarrow> m = n"
proof (induction arbitrary: n rule: below_main.induct)
  case (main p)
  from main(2) show ?case by (cases rule: below_main.cases) simp_all
next
  case (child i p m)
  from below_main_child[OF child.prems child.hyps(1)] obtain q k where "inspectLocked s i = Inr q" "n = Suc k"
    "below_main s (p_parent_thread_id q) k" by blast
  with child.hyps(2) child.IH[of k] show ?case by simp
qed

lemma depth_loop_sound: "depth_loop s seen d i = Inr n \<Longrightarrow> \<exists>k. below_main s i k \<and> n = d + k"
proof (induction s seen d i rule: depth_loop.induct)
  case (1 s seen d i)
  from 1(2) obtain p where p: "i \<notin> set seen" "inspectLocked s i = Inr p"
    "if i = MainID then n = d else depth_loop s (i # seen) (d + 1) (p_parent_thread_id p) = Inr n"
    by (subst (asm) depth_loop.simps) (auto split: if_splits sum.splits)
  show ?case
  proof (cases "i = MainID")
    case True
    with p show ?thesis using below_main.main[of s p] by auto
  next
    case False
    with 1(1)[OF p(1,2)] p(3) obtain k where "below_main s (p_parent_thread_id p) k" "n = d + 1 + k" by auto
    with below_main.child[OF False p(2)] show ?thesis by fastforce
  qed
qed

lemma depth_loop_complete:
  "below_main s i n \<Longrightarrow> \<forall>j \<in> set seen. \<forall>m. below_main s j m \<longrightarrow> n < m \<Longrightarrow>
   depth_loop s seen d i = Inr (d + n)"
proof (induction arbitrary: seen d rule: below_main.induct)
  case (main p)
  then have "MainID \<notin> set seen" using below_main.main[of s p] by blast
  with main show ?case by (simp add: depth_loop.simps)
next
  case (child i p n)
  have path: "below_main s i (Suc n)" using child.hyps by (rule below_main.child)
  then have "i \<notin> set seen" using child.prems by blast
  moreover have "\<forall>j \<in> set (i # seen). \<forall>m. below_main s j m \<longrightarrow> n < m"
    using child.prems below_main_unique[OF path] Suc_lessD by fastforce
  ultimately show ?case using child.hyps(1,2) child.IH[of "i # seen" "d + 1"]
    by (simp add: depth_loop.simps[of s seen d i])
qed

text \<open>Registering a new active Worker leaves the chains of the others alone.\<close>

definition add_worker :: "string \<Rightarrow> projection \<Rightarrow> thread_store \<Rightarrow> thread_store" where
  "add_worker i p s = s\<lparr>ts_active := (i, ProjectionDoc p) # ts_active s\<rparr>"

lemma inspect_add:
  assumes "i \<notin> keys (ts_active s) \<union> keys (ts_archived s)" and "inspectLocked s j = Inr q"
  shows "inspectLocked (add_worker i p s) j = Inr q"
proof -
  have "j \<noteq> i" using inspect_known[OF assms(2)] assms(1) by blast
  then have "inspect_in False (ts_active (add_worker i p s)) j = inspect_in False (ts_active s) j"
    "ts_archived (add_worker i p s) = ts_archived s"
    by (simp_all add: inspect_in_def add_worker_def)
  with assms(2) show ?thesis by (auto simp: inspectLocked_def split: if_splits option.splits)
qed

lemma below_main_add:
  assumes "below_main s j n" and "i \<notin> keys (ts_active s) \<union> keys (ts_archived s)"
  shows "below_main (add_worker i p s) j n"
  using assms by (induction rule: below_main.induct) (auto intro: below_main.intros inspect_add)

text \<open>C38: \<^verbatim>\<open>depthLocked\<close> always returns, also on stores whose parents form a cycle, and it returns
  \<open>n\<close> exactly when following the parents from the Thread reaches Main in \<open>n\<close> steps over readable
  metadata; a cycle, an unknown parent or unreadable metadata is an error. A Worker created under
  a parent that passed \<^verbatim>\<open>checkWorkerDepth\<close> therefore has a depth of at most \<^verbatim>\<open>max_depth\<close>.\<close>

theorem depth_is_chain_length:
  "(depthLocked s i = Inr n \<longleftrightarrow> below_main s i n)
   \<and> (checkWorkerDepthLocked s parent max_depth = None \<and> i \<notin> keys (ts_active s) \<union> keys (ts_archived s)
      \<and> validateProjectionMetadata p i \<and> i \<noteq> MainID \<and> p_parent_thread_id p = parent
      \<and> p_retention_state p = RetentionActive
      \<longrightarrow> (\<exists>d. depthLocked (add_worker i p s) i = Inr d \<and> int d \<le> max_depth))"
proof
  have iff: "depthLocked s i = Inr n \<longleftrightarrow> below_main s i n" for s i n
    using depth_loop_sound[of s "[]" 0 i n] depth_loop_complete[of s i n "[]" 0] by (auto simp: depthLocked_def)
  then show "depthLocked s i = Inr n \<longleftrightarrow> below_main s i n" .
  show "checkWorkerDepthLocked s parent max_depth = None \<and> i \<notin> keys (ts_active s) \<union> keys (ts_archived s)
      \<and> validateProjectionMetadata p i \<and> i \<noteq> MainID \<and> p_parent_thread_id p = parent
      \<and> p_retention_state p = RetentionActive
      \<longrightarrow> (\<exists>d. depthLocked (add_worker i p s) i = Inr d \<and> int d \<le> max_depth)"
  proof
    assume a: "checkWorkerDepthLocked s parent max_depth = None \<and> i \<notin> keys (ts_active s) \<union> keys (ts_archived s)
      \<and> validateProjectionMetadata p i \<and> i \<noteq> MainID \<and> p_parent_thread_id p = parent
      \<and> p_retention_state p = RetentionActive"
    then obtain n where "depthLocked s parent = Inr n" and lt: "int n < max_depth"
      by (cases "depthLocked s parent") (auto simp: checkWorkerDepthLocked_def split: if_splits)
    then have n: "below_main s parent n" "int n < max_depth" using iff[of s parent n] by simp_all
    from a have v: "validateProjectionMetadata p i" "p_retention_state p = RetentionActive" by blast+
    moreover from v(1) have "ValidID i" by (simp add: validateProjectionMetadata_def identity_ok_def)
    ultimately have "inspectLocked (add_worker i p s) i = Inr p"
      by (simp add: inspectLocked_def inspect_in_def add_worker_def read_document_def readProjectionFile_def)
    then have "below_main (add_worker i p s) i (Suc n)"
      using a below_main_add[OF n(1)] by (intro below_main.child) auto
    then show "\<exists>d. depthLocked (add_worker i p s) i = Inr d \<and> int d \<le> max_depth" using iff n(2) by auto
  qed
qed

text \<open>Main with one Worker, and a second one to be created below it.\<close>

definition wit_projection :: "string \<Rightarrow> string \<Rightarrow> string \<Rightarrow> projection" where
  "wit_projection i alias parent = empty_projection\<lparr>p_version := 1, p_thread_id := i, p_alias := alias,
     p_parent_thread_id := parent, p_created_at := 5, p_updated_at := 5, p_last_activity_at := 5,
     p_retention_state := RetentionActive, p_execution_state := ExecutionIdle, p_revision := 1,
     p_current_generation := initial_generation 1, p_generations := [initial_generation 1],
     p_counts := empty_counts\<lparr>generation_count := 1\<rparr>,
     p_token_usage := \<lparr>ua_total = usage_zero, ua_by_model = Some []\<rparr>,
     p_event_cursor := \<lparr>cur_generation_id = InitialGeneration, cur_seq = 1, cur_offset = 9\<rparr>,
     p_usage_aggregated_through := \<lparr>cur_generation_id = InitialGeneration, cur_seq = 1, cur_offset = 9\<rparr>\<rparr>"

definition wit_store :: thread_store where
  "wit_store = \<lparr>ts_active = [(''0'', ProjectionDoc (wit_projection ''0'' ''main'' [])),
     (''aaaaaa'', ProjectionDoc (wit_projection ''aaaaaa'' ''a'' ''0''))], ts_archived = []\<rparr>"

theorem depth_is_chain_length_witness:
  "\<exists>d. depthLocked (add_worker ''bbbbbb'' (wit_projection ''bbbbbb'' ''b'' ''aaaaaa'') wit_store) ''bbbbbb'' = Inr d \<and> int d \<le> 2"
proof -
  let ?p = "wit_projection ''bbbbbb'' ''b'' ''aaaaaa''"
  have "checkWorkerDepthLocked wit_store ''aaaaaa'' 2 = None" "validateProjectionMetadata ?p ''bbbbbb''" by code_simp+
  moreover have "''bbbbbb'' \<notin> keys (ts_active wit_store) \<union> keys (ts_archived wit_store)" "''bbbbbb'' \<noteq> MainID"
    by (simp_all add: wit_store_def MainID_def)
  moreover have "p_parent_thread_id ?p = ''aaaaaa''" "p_retention_state ?p = RetentionActive"
    by (simp_all add: wit_projection_def)
  ultimately show ?thesis
    using depth_is_chain_length[of wit_store "''bbbbbb''" 0 "''aaaaaa''" 2 ?p] by blast
qed

end
