(* ===== verification/ToolEvents.thy ===== *)
theory ToolEvents
  imports LLM Events
begin

text \<open>
  The payloads of the tool events (\<^verbatim>\<open>internal/foundation/toolevents\<close>) and their decoding by
  \<^verbatim>\<open>encoding/json\<close>, as \<^verbatim>\<open>decodePayload\<close> of \<^verbatim>\<open>protocol_repair.go\<close> uses it: a payload with a field of the
  wrong type is not decoded at all.
\<close>

section \<open>Decoding\<close>

definition dec_int :: "json option \<Rightarrow> int \<times> bool" where
  "dec_int j = (case j of None \<Rightarrow> (0, False) | Some JNull \<Rightarrow> (0, False)
     | Some (JNum n) \<Rightarrow> (n, False) | Some _ \<Rightarrow> (0, True))"

definition dec_bool :: "json option \<Rightarrow> bool \<times> bool" where
  "dec_bool j = (case j of None \<Rightarrow> (False, False) | Some JNull \<Rightarrow> (False, False)
     | Some (JBool b) \<Rightarrow> (b, False) | Some _ \<Rightarrow> (False, True))"

definition dec_object :: "json option \<Rightarrow> tool_input option \<times> bool" where
  "dec_object j = (case j of None \<Rightarrow> (None, False) | Some JNull \<Rightarrow> (None, False)
     | Some (JObj obj) \<Rightarrow> (Some obj, False) | Some _ \<Rightarrow> (None, True))"

text \<open>A field of pointer type.\<close>

definition dec_pointer :: "(json \<Rightarrow> 'a \<times> bool) \<Rightarrow> json option \<Rightarrow> 'a option \<times> bool" where
  "dec_pointer f j = (case j of None \<Rightarrow> (None, False) | Some JNull \<Rightarrow> (None, False)
     | Some v \<Rightarrow> (case f v of (x, bad) \<Rightarrow> (Some x, bad \<or> dec_struct_error v)))"

definition block_type_of :: "string \<Rightarrow> block_type" where
  "block_type_of s =
     (if s = ''text'' then BlockText else if s = ''image'' then BlockImage
      else if s = ''tool_use'' then BlockToolUse else if s = ''tool_result'' then BlockToolResult
      else if s = ''reasoning'' then BlockReasoning else BlockOther s)"

definition dec_media :: "json \<Rightarrow> media_ref \<times> bool" where
  "dec_media j = (let path = dec_string (field j ''artifact_path''); ty = dec_string (field j ''media_type'');
      sha = dec_string (field j ''sha256''); bytes = dec_int (field j ''original_bytes'');
      w = dec_int (field j ''width''); h = dec_int (field j ''height'')
    in (\<lparr>artifact_path = fst path, media_type = fst ty, media_sha256 = fst sha,
         media_original_bytes = fst bytes, media_width = fst w, media_height = fst h\<rparr>,
        snd path \<or> snd ty \<or> snd sha \<or> snd bytes \<or> snd w \<or> snd h))"

definition dec_artifact :: "json \<Rightarrow> context_artifact \<times> bool" where
  "dec_artifact j = (let kind = dec_string (field j ''source_kind''); m = dec_string (field j ''message_id'');
      use = dec_string (field j ''tool_use_id''); name = dec_string (field j ''tool_name'');
      bytes = dec_int (field j ''original_bytes''); path = dec_string (field j ''stored_path'');
      sha = dec_string (field j ''sha256''); hd' = dec_int (field j ''head_bytes'');
      tl' = dec_int (field j ''tail_bytes''); trunc = dec_bool (field j ''truncated'')
    in (\<lparr>source_kind = fst kind, ca_message_id = fst m, ca_tool_use_id = fst use,
         ca_tool_name = fst name, ca_original_bytes = fst bytes, stored_path = fst path,
         ca_sha256 = fst sha, head_bytes = fst hd', tail_bytes = fst tl', ca_truncated = fst trunc\<rparr>,
        snd kind \<or> snd m \<or> snd use \<or> snd name \<or> snd bytes \<or> snd path \<or> snd sha \<or> snd hd' \<or> snd tl'
          \<or> snd trunc))"

text \<open>\<^verbatim>\<open>json.RawMessage\<close> keeps any value, also \<^verbatim>\<open>null\<close>.\<close>

definition dec_result_fact :: "json \<Rightarrow> result_fact \<times> bool" where
  "dec_result_fact j = (let owner = dec_string (field j ''owner'')
    in (\<lparr>fact_owner = fst owner, fact_data = field j ''data''\<rparr>, snd owner))"

definition dec_block :: "json \<Rightarrow> block \<times> bool" where
  "dec_block j = (let ty = dec_string (field j ''type''); txt = dec_string (field j ''text'');
      med = dec_pointer dec_media (field j ''media''); use = dec_string (field j ''tool_use_id'');
      name = dec_string (field j ''tool_name''); inp = dec_object (field j ''input'');
      timeout = dec_int (field j ''timeout_seconds''); cont = dec_string (field j ''content'');
      err = dec_bool (field j ''is_error''); sig = dec_string (field j ''signature'');
      red = dec_bool (field j ''redacted''); art = dec_pointer dec_artifact (field j ''artifact'');
      rf = dec_pointer dec_result_fact (field j ''result_fact'')
    in (\<lparr>block_type = block_type_of (fst ty), block_text = fst txt, media = fst med,
         tool_use_id = fst use, tool_name = fst name, tool_input = fst inp,
         timeout_seconds = fst timeout, block_content = fst cont, is_error = fst err,
         signature = fst sig, redacted = fst red, artifact = fst art, block_result_fact = fst rf\<rparr>,
        snd ty \<or> snd txt \<or> snd med \<or> snd use \<or> snd name \<or> snd inp \<or> snd timeout \<or> snd cont \<or> snd err
          \<or> snd sig \<or> snd red \<or> snd art \<or> snd rf))"

section \<open>Payloads\<close>

record tool_call_payload =
  tc_tool_use_id :: string
  tc_name :: string
  tc_input :: "tool_input option"
  tc_timeout_seconds :: int
  tc_iter :: int
  tc_call_index :: int
  tc_message_id :: string

record recorded_outcome =
  ro_message_id :: string
  ro_block :: block

definition dec_outcome :: "json \<Rightarrow> recorded_outcome \<times> bool" where
  "dec_outcome j = (let m = dec_string (field j ''message_id'');
      b = (case field j ''block'' of None \<Rightarrow> dec_block JNull
           | Some v \<Rightarrow> (fst (dec_block v), snd (dec_block v) \<or> dec_struct_error v))
    in (\<lparr>ro_message_id = fst m, ro_block = fst b\<rparr>, snd m \<or> snd b))"

text \<open>The fields every payload of a tool event has, the timeout apart.\<close>

definition dec_call :: "json \<Rightarrow> tool_call_payload \<times> bool" where
  "dec_call j = (let use = dec_string (field j ''tool_use_id''); name = dec_string (field j ''name'');
      iter = dec_int (field j ''iter''); idx = dec_int (field j ''call_index'');
      m = dec_string (field j ''message_id'')
    in (\<lparr>tc_tool_use_id = fst use, tc_name = fst name, tc_input = None, tc_timeout_seconds = 0,
         tc_iter = fst iter, tc_call_index = fst idx, tc_message_id = fst m\<rparr>,
        dec_struct_error j \<or> snd use \<or> snd name \<or> snd iter \<or> snd idx \<or> snd m))"

definition checked :: "'a \<times> bool \<Rightarrow> 'a option" where
  "checked r = (if snd r then None else Some (fst r))"

text \<open>\<^verbatim>\<open>RequestedPayload\<close>, and the anonymous struct that reads \<^verbatim>\<open>tool.running\<close> and \<^verbatim>\<open>tool.input_resolved\<close>.\<close>

definition dec_requested :: "json \<Rightarrow> tool_call_payload option" where
  "dec_requested j = (let c = dec_call j; inp = dec_object (field j ''input'');
      timeout = dec_int (field j ''timeout_seconds'')
    in checked ((fst c)\<lparr>tc_input := fst inp, tc_timeout_seconds := fst timeout\<rparr>,
         snd c \<or> snd inp \<or> snd timeout))"

definition dec_started :: "json \<Rightarrow> tool_call_payload option" where
  "dec_started j = (let c = dec_call j; inp = dec_object (field j ''input'')
    in checked ((fst c)\<lparr>tc_input := fst inp\<rparr>, snd c \<or> snd inp))"

text \<open>
  The fields \<^verbatim>\<open>CompletedPayload\<close> and \<^verbatim>\<open>ErroredPayload\<close> share; \<^verbatim>\<open>result\<close> has type \<^verbatim>\<open>any\<close> and takes every value.
\<close>

definition outcome_fields_bad :: "json \<Rightarrow> bool" where
  "outcome_fields_bad j \<longleftrightarrow> snd (dec_int (field j ''timeout_seconds'')) \<or> snd (dec_int (field j ''len''))
     \<or> snd (dec_string (field j ''preview'')) \<or> snd (dec_pointer dec_media (field j ''media''))
     \<or> snd (dec_string (field j ''content''))"

definition dec_completed :: "json \<Rightarrow> (tool_call_payload \<times> recorded_outcome option) option" where
  "dec_completed j = (let c = dec_call j; outcome = dec_pointer dec_outcome (field j ''outcome'')
    in checked ((fst c, fst outcome), snd c \<or> snd outcome \<or> outcome_fields_bad j))"

definition dec_errored :: "json \<Rightarrow> (tool_call_payload \<times> recorded_outcome option) option" where
  "dec_errored j = (let c = dec_call j; outcome = dec_pointer dec_outcome (field j ''outcome'')
    in checked ((fst c, fst outcome), snd c \<or> snd outcome \<or> outcome_fields_bad j
         \<or> snd (dec_string (field j ''error'')) \<or> snd (dec_string (field j ''error_kind''))
         \<or> snd (dec_string (field j ''raw_cause'')) \<or> snd (dec_bool (field j ''timed_out''))
         \<or> snd (dec_int (field j ''exit_code''))))"

definition dec_unknown :: "json \<Rightarrow> tool_call_payload option" where
  "dec_unknown j = (let c = dec_call j; inp = dec_object (field j ''input'')
    in checked ((fst c)\<lparr>tc_input := fst inp\<rparr>, snd c \<or> snd inp \<or> snd (dec_string (field j ''error''))))"

text \<open>\<^verbatim>\<open>OutcomeUnknown\<close>, encoded: an input that is nil or empty is left out.\<close>

definition OutcomeUnknown :: "tool_call_payload \<Rightarrow> string \<Rightarrow> json" where
  "OutcomeUnknown c msg = JObj ([(''name'', JStr (tc_name c))]
     @ (case tc_input c of None \<Rightarrow> [] | Some [] \<Rightarrow> [] | Some inp \<Rightarrow> [(''input'', JObj inp)])
     @ [(''tool_use_id'', JStr (tc_tool_use_id c)), (''iter'', JNum (tc_iter c)),
        (''call_index'', JNum (tc_call_index c)), (''message_id'', JStr (tc_message_id c)),
        (''error'', JStr msg)])"

lemma dec_unknown_encoded:
  "map_option tc_tool_use_id (dec_unknown (OutcomeUnknown c msg)) = Some (tc_tool_use_id c)"
  by (cases "tc_input c")
    (auto simp: dec_unknown_def OutcomeUnknown_def checked_def dec_call_def field_def dec_struct_error_def
      dec_int_def dec_object_def Let_def split: list.splits)

end
