(* ===== verification/ThreadJournalInv.thy ===== *)
theory ThreadJournalInv
  imports ThreadJournal
begin

text \<open>
  What a commit keeps of the metadata document: the checks of \<^verbatim>\<open>validateProjectionMetadata\<close> hold of
  the projection a validated commit leads to, so the code's second validation never rejects what
  the first accepted.
\<close>

section \<open>The Generation registry\<close>

lemma registry_snoc:
  "registry_ok k prev (gs @ [g]) \<longleftrightarrow> registry_ok k prev gs
     \<and> gp_id g = generationID (k + length gs + 1) \<and> gp_ordinal g = k + length gs + 1
     \<and> gp_boundary_seq g \<noteq> 0
     \<and> (0 < k + length gs \<longrightarrow> (if gs = [] then prev else gp_boundary_seq (last gs)) < gp_boundary_seq g)"
  by (induction gs arbitrary: k prev) (auto simp: not_le)

lemma registry_nth:
  "registry_ok k prev gs \<Longrightarrow> i < length gs \<Longrightarrow>
   gp_id (gs ! i) = generationID (k + i + 1) \<and> gp_ordinal (gs ! i) = k + i + 1"
proof (induction gs arbitrary: k prev i)
  case (Cons g gs)
  then show ?case by (cases i) fastforce+
qed simp

lemma registry_last:
  assumes "registry_ok 0 0 gs" and "gs \<noteq> []"
  shows "gp_id (last gs) = generationID (length gs)" and "gp_ordinal (last gs) = length gs"
  using registry_nth[OF assms(1), of "length gs - 1"] assms(2) by (auto simp: last_conv_nth)

lemma registry_boundary_pos:
  "registry_ok k prev gs \<Longrightarrow> g \<in> set gs \<Longrightarrow> 0 < gp_boundary_seq g"
  by (induction gs arbitrary: k prev) auto

lemma registry_id_mem:
  assumes "registry_ok 0 0 gs" and "g \<in> set gs"
  shows "\<exists>n. 0 < n \<and> n \<le> length gs \<and> gp_id g = generationID n"
proof -
  from assms(2) obtain i where i: "i < length gs" "gs ! i = g" by (auto simp: in_set_conv_nth)
  with registry_nth[OF assms(1) i(1)] show ?thesis by (intro exI[of _ "i + 1"]) simp
qed

lemma usage_cursor_snoc:
  assumes "list_all (\<lambda>x. gp_id x \<noteq> gp_id g) gs" and "cur_generation_id cur = gp_id g"
  shows "usage_cursor_ok cur (gs @ [g]) \<longleftrightarrow> gp_boundary_seq g \<le> cur_seq cur"
  using assms by (induction gs) auto

lemma registry_last_fresh:
  assumes "registry_ok 0 0 (gs @ [g])"
  shows "list_all (\<lambda>x. gp_id x \<noteq> gp_id g) gs"
  using assms registry_id_mem[of gs] by (fastforce simp: registry_snoc list_all_iff)

lemma usage_cursor_last:
  assumes "registry_ok 0 0 gs" and "gs \<noteq> []" and "cur_generation_id cur = gp_id (last gs)"
  shows "usage_cursor_ok cur gs \<longleftrightarrow> gp_boundary_seq (last gs) \<le> cur_seq cur"
proof -
  have gs: "gs = butlast gs @ [last gs]" using assms(2) by simp
  with assms(1) have "registry_ok 0 0 (butlast gs @ [last gs])" by simp
  then have "list_all (\<lambda>x. gp_id x \<noteq> gp_id (last gs)) (butlast gs)" by (rule registry_last_fresh)
  from usage_cursor_snoc[OF this assms(3)] show ?thesis using gs by simp
qed

section \<open>Usage totals\<close>

lemma usage_fold:
  "fold (\<lambda>(_, u) s. usage_Add s u) m (usage_Add s t) = usage_Add s (fold (\<lambda>(_, u) s. usage_Add s u) m t)"
  by (induction m arbitrary: t) (auto simp: usage_Add_assoc)

lemma usage_sum_Nil [simp]: "usage_sum [] = usage_zero"
  by (simp add: usage_sum_def)

lemma usage_sum_Cons [simp]: "usage_sum ((k, u) # m) = usage_Add u (usage_sum m)"
  using usage_fold[of m u usage_zero] by (simp add: usage_sum_def)

lemma usage_sum_update:
  "usage_sum (AList.update ref (usage_Add (case map_of m ref of None \<Rightarrow> usage_zero | Some t \<Rightarrow> t) u) m)
   = usage_Add (usage_sum m) u"
  by (induction m) (auto simp: usage_Add_assoc usage_Add_commute usage_Add_left_commute)

lemma set_update: "set (AList.update k v m) \<subseteq> insert (k, v) (set m)"
  by (induction m) auto

lemma validateUsage_Add: "validateUsage u \<Longrightarrow> validateUsage v \<Longrightarrow> validateUsage (usage_Add u v)"
  by (auto simp: validateUsage_def usage_Add_def)

lemma validateUsage_zero [simp]: "validateUsage usage_zero"
  by (simp add: validateUsage_def usage_zero_def)

lemma aggregate_Add_valid:
  assumes "validateUsageAggregate a" and "validateModelRef ref" and "validateUsage u"
  shows "validateUsageAggregate (aggregate_Add ref u a)"
proof -
  let ?m = "model_usage a"
  let ?old = "case map_of ?m ref of None \<Rightarrow> usage_zero | Some t \<Rightarrow> t"
  have all: "\<forall>x \<in> set ?m. validateModelRef (fst x) \<and> validateUsage (snd x)"
    using assms(1) by (auto simp: validateUsageAggregate_def list_all_iff)
  have "validateUsage ?old" using all by (fastforce split: option.splits dest: map_of_SomeD)
  then have new: "validateUsage (usage_Add ?old u)" using assms(3) by (rule validateUsage_Add)
  have m: "model_usage (aggregate_Add ref u a) = AList.update ref (usage_Add ?old u) ?m"
    "ua_total (aggregate_Add ref u a) = usage_Add (ua_total a) u"
    by (simp_all add: aggregate_Add_def model_usage_def Let_def)
  have "\<forall>x \<in> set (model_usage (aggregate_Add ref u a)). validateModelRef (fst x) \<and> validateUsage (snd x)"
    using set_update[of ref "usage_Add ?old u" ?m] all new assms(2) unfolding m by fastforce
  moreover have "usage_sum (model_usage (aggregate_Add ref u a)) = usage_Add (ua_total a) u"
    using assms(1) unfolding m by (simp add: usage_sum_update validateUsageAggregate_def)
  ultimately show ?thesis using assms m(2)
    by (auto simp: validateUsageAggregate_def list_all_iff intro: validateUsage_Add)
qed

lemma aggregate_Add_Some [simp]: "\<exists>m. ua_by_model (aggregate_Add ref u a) = Some m"
  by (simp add: aggregate_Add_def Let_def)

lemma aggregate_Clone_id: "ua_by_model a \<noteq> None \<Longrightarrow> aggregate_Clone a = a"
  by (cases a) (auto simp: aggregate_Clone_def model_usage_def)

lemma cloneReplayState_id: "usage_ok (rs_projection st) \<Longrightarrow> cloneReplayState st = st"
  by (simp add: cloneReplayState_def cloneProjection_def aggregate_Clone_id usage_ok_def)

lemma cloneProjection_id: "usage_ok p \<Longrightarrow> cloneProjection p = p"
  by (simp add: cloneProjection_def aggregate_Clone_id usage_ok_def)

section \<open>What facts leave alone\<close>

text \<open>A fact that neither creates the Thread nor starts a Generation.\<close>

definition ordinary :: "fact \<Rightarrow> bool" where
  "ordinary f \<longleftrightarrow> \<not> only_fact (f_type f)"

definition same_frame :: "projection \<Rightarrow> projection \<Rightarrow> bool" where
  "same_frame p q \<longleftrightarrow> p_version q = p_version p \<and> p_thread_id q = p_thread_id p \<and> p_alias q = p_alias p
     \<and> p_parent_thread_id q = p_parent_thread_id p \<and> p_created_at q = p_created_at p
     \<and> p_archived_at q = p_archived_at p \<and> p_retention_state q = p_retention_state p
     \<and> p_revision q = p_revision p \<and> p_current_generation q = p_current_generation p
     \<and> p_generations q = p_generations p
     \<and> generation_count (p_counts q) = generation_count (p_counts p)
     \<and> pending_input_count (p_counts q) = pending_input_count (p_counts p)
     \<and> turn_count (p_counts p) \<le> turn_count (p_counts q)
     \<and> p_event_cursor q = p_event_cursor p
     \<and> p_usage_aggregated_through q = p_usage_aggregated_through p
     \<and> p_updated_at q = p_updated_at p \<and> p_last_activity_at q = p_last_activity_at p"

lemma same_frame_refl [simp]: "same_frame p p"
  by (simp add: same_frame_def)

lemma same_frame_trans: "same_frame p q \<Longrightarrow> same_frame q r \<Longrightarrow> same_frame p r"
  by (auto simp: same_frame_def)

lemma applyFact_frame:
  assumes "ordinary f" and "applyFact tid c f st = Inr st'"
  shows "same_frame (rs_projection st) (rs_projection st')"
  using assms by (auto simp: applyFact_def ordinary_def only_fact_def is_boundary_def same_frame_def
      count_turn_def append_message_def Let_def split: fact_type.splits if_splits option.splits)

lemma applyFact_usage:
  assumes "validateFactShape tid f" and "usage_ok (rs_projection st)" and "ordinary f"
    and "applyFact tid c f st = Inr st'"
  shows "usage_ok (rs_projection st')"
  using assms by (auto simp: applyFact_def ordinary_def only_fact_def is_boundary_def usage_ok_def
      count_turn_def append_message_def Let_def validateFactShape_def aggregate_Add_valid
      split: fact_type.splits if_splits option.splits)

lemma apply_facts_frame:
  "list_all ordinary fs \<Longrightarrow> apply_facts tid c fs st = Inr st' \<Longrightarrow>
   same_frame (rs_projection st) (rs_projection st')"
proof (induction fs arbitrary: st)
  case (Cons f fs)
  then obtain st1 where "applyFact tid c f st = Inr st1" "apply_facts tid c fs st1 = Inr st'"
    by (auto split: sum.splits)
  with Cons show ?case using same_frame_trans[OF applyFact_frame[of f tid c st st1]] by simp
qed simp

lemma apply_facts_usage:
  "list_all ordinary fs \<Longrightarrow> list_all (validateFactShape tid) fs \<Longrightarrow> usage_ok (rs_projection st) \<Longrightarrow>
   apply_facts tid c fs st = Inr st' \<Longrightarrow> usage_ok (rs_projection st')"
proof (induction fs arbitrary: st)
  case (Cons f fs)
  then obtain st1 where s: "applyFact tid c f st = Inr st1" "apply_facts tid c fs st1 = Inr st'"
    by (auto split: sum.splits)
  with Cons.prems have "usage_ok (rs_projection st1)" by (auto intro: applyFact_usage)
  with Cons s show ?case by simp
qed simp

section \<open>A commit keeps the document valid\<close>

lemma validateCommit_facts:
  assumes "validateCommit tid c = None"
  shows "list_all (validateFactShape tid) (c_facts c)" and "c_at c \<noteq> 0" and "c_seq c \<noteq> 0"
    and "c_facts c \<noteq> []"
    and "list_all ordinary (c_facts c) \<or> (\<exists>f. c_facts c = [f] \<and> \<not> ordinary f)"
  using assms by (auto simp: validateCommit_def list_all_iff list_ex_iff ordinary_def length_Suc_conv
      split: if_splits)

lemma applyCommit_Inr:
  assumes "applyCommit tid c st = Inr st'"
  obtains st1 where "apply_facts tid c (c_facts (sc_commit c)) st = Inr st1"
    "validateProjectionLifecycle (rs_projection st1)"
    "st' = st1\<lparr>rs_projection := stamp_commit c (rs_projection st1)\<rparr>"
  using assms by (auto simp: applyCommit_def split: sum.splits if_splits)

text \<open>The conditions on a projection that a commit does not restore by its own stamp.\<close>

definition settled :: "projection \<Rightarrow> string \<Rightarrow> bool" where
  "settled p i \<longleftrightarrow> identity_ok p i \<and> generations_ok p \<and> usage_ok p \<and> p_revision p \<noteq> 0
     \<and> p_created_at p \<noteq> 0 \<and> p_retention_state p = RetentionActive"

lemma valid_settled:
  "validateProjectionMetadata p i \<Longrightarrow> p_retention_state p = RetentionActive \<Longrightarrow> settled p i"
  by (simp add: validateProjectionMetadata_def settled_def times_ok_def)

lemma stamped_valid:
  assumes "settled p i" and "validateProjectionLifecycle p"
    and "p_created_at p \<le> c_at (sc_commit c)" and "c_at (sc_commit c) \<noteq> 0"
    and "sc_generation_id c = gp_id (p_current_generation p)" and "0 < sc_end c"
    and "list_all (\<lambda>g. gp_boundary_seq g \<le> c_seq (sc_commit c)) (p_generations p)"
  shows "validateProjectionMetadata (stamp_commit c p) i"
proof -
  let ?q = "stamp_commit c p"
  have g: "registry_ok 0 0 (p_generations p)" "p_generations p \<noteq> []"
    "p_current_generation p = last (p_generations p)"
    using assms(1) by (auto simp: settled_def generations_ok_def)
  have "0 < gp_boundary_seq (last (p_generations p))"
    using registry_boundary_pos[OF g(1)] g(2) by auto
  moreover have b: "gp_boundary_seq (last (p_generations p)) \<le> c_seq (sc_commit c)"
    using assms(7) g(2) by (auto simp: list_all_iff)
  ultimately have seq: "c_seq (sc_commit c) \<noteq> 0" by linarith
  have "usage_cursor_ok (commit_cursor c) (p_generations p)"
    using usage_cursor_last[OF g(1,2)] b assms(5) g(3) by (simp add: commit_cursor_def)
  moreover have "gp_id (last (p_generations p)) \<noteq> []" using registry_last(1)[OF g(1,2)] by simp
  ultimately have "cursors_ok ?q"
    using assms(5,6,7) seq g(3) by (simp add: cursors_ok_def stamp_commit_def commit_cursor_def Let_def)
  moreover have "times_ok ?q i"
    using assms(1-4) by (auto simp: times_ok_def stamp_commit_def settled_def validateProjectionLifecycle_def)
  ultimately show ?thesis using assms(1)
    by (simp add: validateProjectionMetadata_def settled_def identity_ok_def generations_ok_def
        usage_ok_def stamp_commit_def)
qed

lemma frame_settled:
  assumes "settled p i" and "same_frame p q" and "usage_ok q"
  shows "settled q i"
  using assms by (auto simp: settled_def same_frame_def identity_ok_def generations_ok_def)

lemma boundary_settled:
  assumes "settled (rs_projection st) i" and "apply_boundary c f st = Inr st'"
    and "list_all (\<lambda>g. gp_boundary_seq g < c_seq (sc_commit c)) (p_generations (rs_projection st))"
  shows "settled (rs_projection st') i"
    and "p_current_generation (rs_projection st') = \<lparr>gp_id = f_to_generation_id f,
      gp_ordinal = gp_ordinal (p_current_generation (rs_projection st)) + 1,
      gp_boundary_seq = c_seq (sc_commit c)\<rparr>"
    and "p_generations (rs_projection st') = p_generations (rs_projection st)
      @ [p_current_generation (rs_projection st')]"
    and "p_created_at (rs_projection st') = p_created_at (rs_projection st)"
    and "p_revision (rs_projection st') = p_revision (rs_projection st)"
    and "f_to_generation_id f = generationID (gp_ordinal (p_current_generation (rs_projection st)) + 1)"
proof -
  let ?p = "rs_projection st"
  obtain n seed where n: "parseGenerationID (f_to_generation_id f) = Some n"
    "n = gp_ordinal (p_current_generation ?p) + 1" "f_seed f = Some seed"
    and st': "rs_projection st' = boundary_projection c f n
      (rs_context_usage (boundary_runtime (c_at (sc_commit c)) f seed st)) ?p"
    using assms(2) by (auto simp: apply_boundary_def Let_def split: if_splits option.splits)
  show to: "f_to_generation_id f = generationID (gp_ordinal (p_current_generation ?p) + 1)"
    using parse_Some[OF n(1)] n(2) by simp
  have g: "registry_ok 0 0 (p_generations ?p)" "p_generations ?p \<noteq> []"
    "p_current_generation ?p = last (p_generations ?p)"
    using assms(1) by (auto simp: settled_def generations_ok_def)
  have "gp_boundary_seq (last (p_generations ?p)) < c_seq (sc_commit c)"
    using assms(3) g(2) by (auto simp: list_all_iff)
  with g registry_last[OF g(1,2)] to n(2) assms(1) show "settled (rs_projection st') i"
    unfolding st' by (auto simp: settled_def identity_ok_def generations_ok_def usage_ok_def
        boundary_projection_def Let_def registry_snoc)
qed (use assms(2) in \<open>auto simp: apply_boundary_def boundary_projection_def Let_def
      split: if_splits option.splits\<close>)

lemma applyFact_boundary:
  "is_boundary (f_type f) \<Longrightarrow> applyFact tid c f st = apply_boundary c f st"
  by (auto simp: applyFact_def is_boundary_def)

lemma apply_facts_single: "apply_facts tid c [f] st = applyFact tid c f st"
  by (simp split: sum.splits)

lemma commit_settled:
  assumes valid: "validateProjectionMetadata (rs_projection st) i"
    and active: "p_retention_state (rs_projection st) = RetentionActive"
    and commit: "validateCommit i (sc_commit c) = None" and run: "applyCommit i c st = Inr st'"
    and later: "cur_seq (p_event_cursor (rs_projection st)) < c_seq (sc_commit c)"
    and clock: "p_created_at (rs_projection st) \<le> c_at (sc_commit c)"
    and gen: "sc_generation_id c = gp_id (p_current_generation (rs_projection st'))" "0 < sc_end c"
  shows "validateProjectionMetadata (rs_projection st') i"
proof -
  let ?p = "rs_projection st"
  obtain st1 where s: "apply_facts i c (c_facts (sc_commit c)) st = Inr st1"
    "validateProjectionLifecycle (rs_projection st1)"
    "rs_projection st' = stamp_commit c (rs_projection st1)"
    using applyCommit_Inr[OF run] by (metis replay_state.select_convs(2) replay_state.update_convs(2)
        replay_state.surjective)
  have set: "settled ?p i" using valid active by (rule valid_settled)
  have bnd: "list_all (\<lambda>g. gp_boundary_seq g < c_seq (sc_commit c)) (p_generations ?p)"
    using valid later by (auto simp: validateProjectionMetadata_def cursors_ok_def Let_def list_all_iff
        intro: le_less_trans)
  note cf = validateCommit_facts[OF commit]
  have "settled (rs_projection st1) i
      \<and> list_all (\<lambda>g. gp_boundary_seq g \<le> c_seq (sc_commit c)) (p_generations (rs_projection st1))
      \<and> p_created_at (rs_projection st1) = p_created_at ?p"
    using cf(5)
  proof
    assume ord: "list_all ordinary (c_facts (sc_commit c))"
    have fr: "same_frame ?p (rs_projection st1)" using ord s(1) by (rule apply_facts_frame)
    moreover have "usage_ok (rs_projection st1)"
      using apply_facts_usage[OF ord cf(1) _ s(1)] set by (simp add: settled_def)
    ultimately show ?thesis using frame_settled[OF set fr] bnd
      by (auto simp: same_frame_def list_all_iff intro: less_imp_le)
  next
    assume "\<exists>f. c_facts (sc_commit c) = [f] \<and> \<not> ordinary f"
    then obtain f where f: "c_facts (sc_commit c) = [f]" "\<not> ordinary f" by blast
    have "f_type f \<noteq> FactThreadCreated"
      using s(1) f valid later by (auto simp: applyFact_def apply_facts_single validateProjectionMetadata_def
          cursors_ok_def Let_def)
    then have "apply_boundary c f st = Inr st1"
      using s(1) f applyFact_boundary[of f]
      by (auto simp: ordinary_def only_fact_def split: sum.splits)
    from boundary_settled[OF set this bnd] bnd show ?thesis
      by (auto simp: list_all_iff intro: less_imp_le)
  qed
  then show ?thesis using stamped_valid[OF _ s(2)] clock cf(2) gen s(3) by (simp add: stamp_commit_def)
qed

lemma lifecycle_advance [simp]:
  "validateProjectionLifecycle (advanceProjectionRevision t p) = validateProjectionLifecycle p"
  by (cases "p_retention_state p") (simp_all add: validateProjectionLifecycle_def advanceProjectionRevision_def)

lemma advance_sel [simp]:
  "p_retention_state (advanceProjectionRevision t p) = p_retention_state p"
  "p_archived_at (advanceProjectionRevision t p) = p_archived_at p"
  "p_created_at (advanceProjectionRevision t p) = p_created_at p"
  "p_last_activity_at (advanceProjectionRevision t p) = p_last_activity_at p"
  "p_updated_at (advanceProjectionRevision t p) = t"
  "p_revision (advanceProjectionRevision t p) = p_revision p + 1"
  "p_event_cursor (advanceProjectionRevision t p) = p_event_cursor p"
  "p_usage_aggregated_through (advanceProjectionRevision t p) = p_usage_aggregated_through p"
  "p_generations (advanceProjectionRevision t p) = p_generations p"
  "p_current_generation (advanceProjectionRevision t p) = p_current_generation p"
  "p_token_usage (advanceProjectionRevision t p) = p_token_usage p"
  by (simp_all add: advanceProjectionRevision_def)

lemma advance_identity [simp]: "identity_ok (advanceProjectionRevision t p) i = identity_ok p i"
  by (simp add: identity_ok_def advanceProjectionRevision_def)

text \<open>Advancing the revision with the commit's own time keeps the document valid.\<close>

lemma advance_valid:
  assumes "validateProjectionMetadata p i" and "p_last_activity_at p \<le> t" and "p_created_at p \<le> t"
    and "t \<noteq> 0" and "case p_archived_at p of None \<Rightarrow> True | Some a \<Rightarrow> a \<le> t"
  shows "validateProjectionMetadata (advanceProjectionRevision t p) i"
proof -
  have "generations_ok (advanceProjectionRevision t p) = generations_ok p"
    by (simp add: generations_ok_def advanceProjectionRevision_def)
  moreover have "usage_ok (advanceProjectionRevision t p) = usage_ok p" by (simp add: usage_ok_def)
  moreover have "cursors_ok (advanceProjectionRevision t p) = cursors_ok p" by (simp add: cursors_ok_def)
  moreover have "times_ok (advanceProjectionRevision t p) i"
    using assms by (auto simp: validateProjectionMetadata_def times_ok_def split: option.splits)
  ultimately show ?thesis using assms(1) by (simp add: validateProjectionMetadata_def)
qed

end
