(* ===== verification/ThreadStoreInv.thy ===== *)
theory ThreadStoreInv
  imports ThreadJournalInv ThreadStore
begin

text \<open>
  What ties a Thread handle to its files. \<open>runtime_commits\<close>, the replay of the current Generation
  that opening a Thread performs, follows \<open>applyCommit\<close>, the transition the live handle takes; so
  the state of a handle that is current can be read back from the files at any time.
\<close>

section \<open>Opening replays what the handle applied\<close>

lemma runtime_follows_fact:
  assumes "ordinary f" and "applyFact tid c f st = Inr st'"
    and "g = gp_id (p_current_generation (rs_projection st))"
  shows "apply_runtime_fact tid g c' first f (st\<lparr>rs_projection := q\<rparr>) = Inr (st'\<lparr>rs_projection := q\<rparr>)"
  using assms
  by (cases "f_type f") (auto simp: applyFact_def apply_runtime_fact_def ordinary_def only_fact_def
      is_boundary_def append_message_def Let_def split: if_splits option.splits)

lemma runtime_follows_facts:
  "list_all ordinary fs \<Longrightarrow> apply_facts tid c fs st = Inr st' \<Longrightarrow>
   g = gp_id (p_current_generation (rs_projection st)) \<Longrightarrow>
   applyRuntimeCommit tid g c' first fs (st\<lparr>rs_projection := q\<rparr>) = Inr (st'\<lparr>rs_projection := q\<rparr>)"
proof (induction fs arbitrary: st)
  case (Cons f fs)
  then obtain st1 where s: "applyFact tid c f st = Inr st1" "apply_facts tid c fs st1 = Inr st'"
    by (auto split: sum.splits)
  have "same_frame (rs_projection st) (rs_projection st1)" using Cons.prems(1) s(1) by (auto intro: applyFact_frame)
  then have "g = gp_id (p_current_generation (rs_projection st1))"
    using Cons.prems(3) by (simp add: same_frame_def)
  with Cons.IH[OF _ s(2)] Cons.prems s runtime_follows_fact[OF _ s(1), of g c' first q] show ?case by simp
qed simp

lemma runtime_snoc:
  assumes "runtime_commits tid g b cs st = Inr st1" and "cs \<noteq> []"
    and "applyRuntimeCommit tid g c False (c_facts (sc_commit c)) st1 = Inr st2"
  shows "runtime_commits tid g b (cs @ [c]) st = Inr st2"
  using assms
proof (induction cs arbitrary: b st)
  case (Cons d ds)
  then show ?case by (cases "ds = []") (auto split: sum.splits)
qed simp

text \<open>Replay reads the projection it is given nowhere and never changes it.\<close>

lemma runtime_fact_projection:
  "apply_runtime_fact tid g c first f (st\<lparr>rs_projection := q\<rparr>) =
   map_sum id (\<lambda>s. s\<lparr>rs_projection := q\<rparr>) (apply_runtime_fact tid g c first f st)"
  by (auto simp: apply_runtime_fact_def append_message_def boundary_runtime_def applyGenerationSeed_def Let_def
      split: fact_type.splits option.splits)

lemma runtime_commit_projection:
  "applyRuntimeCommit tid g c first fs (st\<lparr>rs_projection := q\<rparr>) =
   map_sum id (\<lambda>s. s\<lparr>rs_projection := q\<rparr>) (applyRuntimeCommit tid g c first fs st)"
proof (induction fs arbitrary: st)
  case (Cons f fs)
  then show ?case
    by (cases "apply_runtime_fact tid g c first f st") (simp_all add: runtime_fact_projection)
qed simp

lemma runtime_commits_projection:
  "runtime_commits tid g b cs (st\<lparr>rs_projection := q\<rparr>) =
   map_sum id (\<lambda>s. s\<lparr>rs_projection := q\<rparr>) (runtime_commits tid g b cs st)"
proof (induction cs arbitrary: b st)
  case (Cons c cs)
  then show ?case
    by (cases "applyRuntimeCommit tid g c b (c_facts (sc_commit c)) st")
      (simp_all add: runtime_commit_projection)
qed simp

lemma fresh_state_projection: "fresh_state q = (fresh_state p)\<lparr>rs_projection := q\<rparr>"
  by (simp add: fresh_state_def)

section \<open>What commits depend on\<close>

lemma applyFact_cong: "sc_commit c = sc_commit d \<Longrightarrow> applyFact tid c f st = applyFact tid d f st"
  by (auto simp: applyFact_def apply_boundary_def created_projection_def boundary_projection_def Let_def
      split: fact_type.splits option.splits)

lemma apply_facts_cong: "sc_commit c = sc_commit d \<Longrightarrow> apply_facts tid c fs st = apply_facts tid d fs st"
proof (induction fs arbitrary: st)
  case (Cons f fs)
  then show ?case using applyFact_cong[of c d tid f st] by (auto split: sum.splits)
qed simp

text \<open>Correcting the offset of the provisional commit gives what the real one would have given.\<close>

definition committed :: "instant \<Rightarrow> replay_state \<Rightarrow> replay_state" where
  "committed t st = st\<lparr>rs_projection := advanceProjectionRevision t (rs_projection st)\<rparr>"

lemma applyCommit_cong:
  assumes "applyCommit tid c st = Inr st'" and "sc_commit d = sc_commit c"
    and "sc_generation_id d = sc_generation_id c"
  shows "\<exists>s. applyCommit tid d st = Inr s \<and> set_offsets (sc_end d) (committed t st') = committed t s"
proof -
  obtain st1 where s: "apply_facts tid c (c_facts (sc_commit c)) st = Inr st1"
    "validateProjectionLifecycle (rs_projection st1)"
    "st' = st1\<lparr>rs_projection := stamp_commit c (rs_projection st1)\<rparr>"
    by (rule applyCommit_Inr[OF assms(1)])
  have "applyCommit tid d st = Inr (st1\<lparr>rs_projection := stamp_commit d (rs_projection st1)\<rparr>)"
    using s apply_facts_cong[OF assms(2), of tid "c_facts (sc_commit c)" st] assms(2)
    by (simp add: applyCommit_def)
  moreover have "set_offsets (sc_end d) (committed t st') =
      committed t (st1\<lparr>rs_projection := stamp_commit d (rs_projection st1)\<rparr>)"
    using assms(2,3) s(3) by (simp add: committed_def set_offsets_def stamp_commit_def commit_cursor_def
        advanceProjectionRevision_def Let_def)
  ultimately show ?thesis by blast
qed

section \<open>The invariant\<close>

text \<open>
  Every registered Generation has a journal, and a journal that is not registered belongs to a
  Generation still to come.
\<close>

definition layout_ok :: "projection \<Rightarrow> thread_files \<Rightarrow> bool" where
  "layout_ok p fs \<longleftrightarrow> list_all (\<lambda>g. map_of (tf_journals fs) (gp_id g) \<noteq> None) (p_generations p)
     \<and> (\<forall>k \<in> keys (tf_journals fs). k \<in> gp_id ` set (p_generations p)
          \<or> (\<exists>n. parseGenerationID k = Some n \<and> length (p_generations p) < n))"

text \<open>
  \<open>published\<close> is the part of the current journal the metadata knows; \<open>rest\<close> is a line a failed append
  could not take back.
\<close>

definition journal_ok ::
  "string \<Rightarrow> replay_state \<Rightarrow> scanned_commit list \<Rightarrow> scanned_commit list \<Rightarrow> bool" where
  "journal_ok tid st published rest \<longleftrightarrow>
     replayCurrentGeneration tid (rs_projection st) published = Inr st
     \<and> check_commits tid (gp_boundary_seq (p_current_generation (rs_projection st))) (published @ rest)
     \<and> (rest = [] \<or> (\<exists>r. rest = [r] \<and> sc_end (last published) < sc_end r))"

definition handle_ok :: "thread \<Rightarrow> bool" where
  "handle_ok t \<longleftrightarrow> (let p = th_projection t in
     validateProjectionMetadata p (th_id t) \<and> p_usage_aggregated_through p = p_event_cursor p
     \<and> es_current_id t = gp_id (p_current_generation p) \<and> es_next_seq t = cur_seq (p_event_cursor p) + 1
     \<and> es_size t = cur_offset (p_event_cursor p))"

definition synced :: "thread \<Rightarrow> bool" where
  "synced t \<longleftrightarrow> handle_ok t \<and> tf_projection (th_files t) = ProjectionDoc (th_projection t)
     \<and> layout_ok (th_projection t) (th_files t)
     \<and> (\<exists>published rest. map_of (tf_journals (th_files t)) (es_current_id t) = Some (published @ rest)
          \<and> journal_ok (th_id t) (th_state t) published rest)"

definition thread_ok :: "thread \<Rightarrow> bool" where
  "thread_ok t \<longleftrightarrow> (ensureProjectionCurrentLocked t = None \<longrightarrow> synced t)"

lemma thread_ok_synced: "synced t \<Longrightarrow> thread_ok t"
  by (simp add: thread_ok_def)

lemma stale_ok: "ensureProjectionCurrentLocked t = Some e \<Longrightarrow> thread_ok t"
  by (simp add: thread_ok_def)

lemma synced_current: "synced t \<Longrightarrow> ensureProjectionCurrentLocked t = None"
  by (simp add: synced_def handle_ok_def ensureProjectionCurrentLocked_def readProjectionFile_def Let_def)

lemma replay_last:
  assumes "replayCurrentGeneration tid p cs = Inr st"
  shows "cs \<noteq> []" and "commit_cursor (last cs) = p_event_cursor p"
  using assms by (auto simp: replayCurrentGeneration_def split: if_splits)

lemma next_outcome_files [simp]:
  "tf_projection (snd (next_outcome fs)) = tf_projection fs"
  "tf_journals (snd (next_outcome fs)) = tf_journals fs"
  by (auto simp: next_outcome_def split: list.splits)

text \<open>What the invariant sees of the handle and of the files.\<close>

lemma synced_cong:
  assumes "synced t" and "th_id u = th_id t" "th_state u = th_state t" "es_current_id u = es_current_id t"
    "es_size u = es_size t" "es_next_seq u = es_next_seq t"
    "tf_projection (th_files u) = tf_projection (th_files t)"
    "tf_journals (th_files u) = tf_journals (th_files t)"
  shows "synced u"
  using assms by (simp add: synced_def handle_ok_def layout_ok_def)

section \<open>Appending\<close>

lemma check_commits_snoc:
  "check_commits tid n (cs @ [c]) \<longleftrightarrow> check_commits tid n cs \<and> c_seq (sc_commit c) = n + length cs
     \<and> validateCommit tid (sc_commit c) = None"
  by (induction cs arbitrary: n) auto

lemma check_commits_last:
  "check_commits tid n cs \<Longrightarrow> cs \<noteq> [] \<Longrightarrow> c_seq (sc_commit (last cs)) + 1 = n + length cs"
  by (induction cs rule: rev_induct) (auto simp: check_commits_snoc)

lemma check_commits_prefix: "check_commits tid n (xs @ ys) \<Longrightarrow> check_commits tid n xs"
  by (induction xs arbitrary: n) auto

lemma line_length_pos [simp]: "0 < line_length n"
  by (simp add: line_length_def)

text \<open>The outcomes of an append by a handle that knows the size of the file.\<close>

lemma append_record_cases:
  assumes "append_record marshal g known c fs = (r, fs')"
  obtains (error) "\<exists>e. r = Inl e" "tf_projection fs' = tf_projection fs" "tf_journals fs' = tf_journals fs"
  | (left) cs n where "r = Inl IoFailure" "map_of (tf_journals fs) g = Some cs" "journal_size cs = known"
      "marshal c = Some n" "tf_projection fs' = tf_projection fs"
      "tf_journals fs' = AList.update g (cs @ [framed g known n c]) (tf_journals fs)"
  | (ok) cs n where "r = Inr (framed g known n c)" "map_of (tf_journals fs) g = Some cs"
      "journal_size cs = known" "marshal c = Some n" "tf_projection fs' = tf_projection fs"
      "tf_journals fs' = AList.update g (cs @ [framed g known n c]) (tf_journals fs)"
proof (cases "marshal c = None \<or> map_of (tf_journals fs) g = None \<or>
    journal_size (the (map_of (tf_journals fs) g)) \<noteq> known")
  case True
  with assms error show ?thesis by (auto simp: append_record_def split: option.splits if_splits)
next
  case False
  then obtain n cs where n: "marshal c = Some n" "map_of (tf_journals fs) g = Some cs" "journal_size cs = known"
    by auto
  obtain o1 fs1 where o: "next_outcome fs = (o1, fs1)" by fastforce
  then have fs1: "tf_projection fs1 = tf_projection fs" "tf_journals fs1 = tf_journals fs"
    using next_outcome_files[of fs] by simp_all
  let ?fs = "fs1\<lparr>tf_journals := AList.update g (cs @ [framed g known n c]) (tf_journals fs1)\<rparr>"
  have a: "append_record marshal g known c fs = (case o1 of WriteOk \<Rightarrow> (Inr (framed g known n c), ?fs)
      | WriteFailed True \<Rightarrow> (Inl IoFailure, ?fs) | WriteFailed False \<Rightarrow> (Inl IoFailure, fs1))"
    using n o by (simp add: append_record_def set_journal_def Let_def split: write_result.splits bool.splits)
  show ?thesis
  proof (cases o1)
    case WriteOk
    with a assms have "r = Inr (framed g known n c)" "fs' = ?fs" by simp_all
    with fs1 show ?thesis by (intro ok[OF _ n(2,3,1)]) simp_all
  next
    case (WriteFailed b)
    show ?thesis
    proof (cases b)
      case True
      with WriteFailed a assms have "r = Inl IoFailure" "fs' = ?fs" by simp_all
      with fs1 show ?thesis by (intro left[OF _ n(2,3,1)]) simp_all
    next
      case False
      with WriteFailed a assms have "r = Inl IoFailure" "fs' = fs1" by simp_all
      with fs1 show ?thesis by (intro error) simp_all
    qed
  qed
qed

lemma layout_update:
  assumes "layout_ok p fs" and "g \<in> keys (tf_journals fs)"
    and "tf_journals fs' = AList.update g cs (tf_journals fs)"
  shows "layout_ok p fs'"
  using assms by (auto simp: layout_ok_def list_all_iff insert_absorb)

lemma journal_size_published:
  assumes "journal_ok tid st published rest"
  shows "journal_size (published @ rest) = cur_offset (p_event_cursor (rs_projection st)) \<longleftrightarrow> rest = []"
proof -
  note r = replay_last[of tid "rs_projection st" published st]
  have "published \<noteq> []" "commit_cursor (last published) = p_event_cursor (rs_projection st)"
    using r assms by (auto simp: journal_ok_def)
  then have "published \<noteq> []" "sc_end (last published) = cur_offset (p_event_cursor (rs_projection st))"
    by (auto simp: commit_cursor_def dest: arg_cong[where f = cur_offset])
  then show ?thesis using assms by (auto simp: journal_ok_def journal_size_def)
qed

lemma begins_generation_cong:
  "p_current_generation q = p_current_generation p \<Longrightarrow> p_generations q = p_generations p \<Longrightarrow>
   begins_generation q c = begins_generation p c"
  by (simp add: begins_generation_def split: list.splits)

lemma journal_append:
  assumes ok: "journal_ok tid st published []" and valid: "usage_ok (rs_projection st)"
    and run: "applyCommit tid sc st = Inr s" and st': "st' = committed t s"
    and facts: "list_all ordinary (c_facts (sc_commit sc))"
    and seq: "c_seq (sc_commit sc) = cur_seq (p_event_cursor (rs_projection st)) + 1"
    and shape: "validateCommit tid (sc_commit sc) = None"
    and usage: "usage_ok (rs_projection st')"
  shows "journal_ok tid st' (published @ [sc]) []"
proof -
  let ?p = "rs_projection st" and ?q = "rs_projection st'"
  obtain st1 where s1: "apply_facts tid sc (c_facts (sc_commit sc)) st = Inr st1"
    and s: "s = st1\<lparr>rs_projection := stamp_commit sc (rs_projection st1)\<rparr>"
    by (rule applyCommit_Inr[OF run])
  have fr: "same_frame ?p (rs_projection st1)" using facts s1 by (rule apply_facts_frame)
  have gens: "p_current_generation ?q = p_current_generation ?p" "p_generations ?q = p_generations ?p"
    using fr st' s by (simp_all add: committed_def same_frame_def stamp_commit_def)
  have cur: "p_event_cursor ?q = commit_cursor sc" using st' s by (simp add: committed_def stamp_commit_def)
  have rp: "published \<noteq> []" "begins_generation ?p (hd published)"
    "commit_cursor (last published) = p_event_cursor ?p"
    "runtime_commits tid (gp_id (p_current_generation ?p)) True published (fresh_state ?p) = Inr st"
    using ok valid by (auto simp: journal_ok_def replayCurrentGeneration_def cloneProjection_id split: if_splits)
  have r1: "runtime_commits tid (gp_id (p_current_generation ?p)) True published (fresh_state ?q)
      = Inr (st\<lparr>rs_projection := ?q\<rparr>)"
    unfolding fresh_state_projection[of ?q ?p] runtime_commits_projection rp(4) by simp
  have r2: "applyRuntimeCommit tid (gp_id (p_current_generation ?p)) sc False (c_facts (sc_commit sc))
      (st\<lparr>rs_projection := ?q\<rparr>) = Inr (st1\<lparr>rs_projection := ?q\<rparr>)"
    using facts s1 by (rule runtime_follows_facts) simp
  have "st1\<lparr>rs_projection := ?q\<rparr> = st'" using st' s by (simp add: committed_def)
  with runtime_snoc[OF r1 rp(1) r2]
  have "runtime_commits tid (gp_id (p_current_generation ?p)) True (published @ [sc]) (fresh_state ?q)
      = Inr st'" by simp
  moreover have "begins_generation ?q (hd (published @ [sc]))"
    using rp(1,2) begins_generation_cong[OF gens] by simp
  ultimately have "replayCurrentGeneration tid ?q (published @ [sc]) = Inr st'"
    using gens cur usage rp(1) by (simp add: replayCurrentGeneration_def cloneProjection_id)
  moreover have "check_commits tid (gp_boundary_seq (p_current_generation ?p)) published"
    using ok by (simp add: journal_ok_def)
  moreover have "c_seq (sc_commit sc) = gp_boundary_seq (p_current_generation ?p) + length published"
    using check_commits_last[OF calculation(2) rp(1)] seq arg_cong[OF rp(3), of cur_seq]
    by (simp add: commit_cursor_def)
  ultimately show ?thesis using shape gens by (simp add: journal_ok_def check_commits_snoc)
qed

text \<open>What a prepared append consists of.\<close>

lemma prepareCommit_Inr:
  assumes "prepareCommit marshal now facts t = Inr c"
  shows "c = \<lparr>c_version = JournalVersion, c_seq = es_next_seq t, c_at = truncate_ms now, c_facts = facts\<rparr>"
    and "validateCommit (th_id t) c = None" and "\<exists>n. marshal c = Some n"
  using assms by (auto simp: prepareCommit_def Let_def split: if_splits option.splits)

definition provisional_commit :: "string \<Rightarrow> int \<Rightarrow> commit \<Rightarrow> scanned_commit" where
  "provisional_commit g start c = \<lparr>sc_commit = c, sc_generation_id = g, sc_start = start, sc_end = start + 1\<rparr>"

lemma prepareAppend_Inr:
  assumes "prepareAppendLocked marshal now facts t = Inr (c, cand)"
  obtains st where "prepareCommit marshal now facts t = Inr c"
    "applyCommit (th_id t) (provisional_commit (es_current_id t) (es_size t) c) (cloneReplayState (th_state t)) = Inr st"
    "cand = committed (c_at c) st" "validateProjectionMetadata (rs_projection cand) (th_id t)"
  using assms by (auto simp: prepareAppendLocked_def committed_def provisional_commit_def Let_def
      split: sum.splits if_splits)

lemma ValidID_not_Nil: "ValidID i \<Longrightarrow> i \<noteq> []"
  by (auto simp: ValidID_def MainID_def)

lemma applied_facts_ordinary:
  assumes "validateCommit tid (sc_commit c) = None" and "applyCommit tid c st = Inr st'"
    and "\<not> list_ex (\<lambda>f. is_boundary (f_type f)) (c_facts (sc_commit c))"
    and "p_thread_id (rs_projection st) \<noteq> []"
  shows "list_all ordinary (c_facts (sc_commit c))"
proof (rule ccontr)
  assume "\<not> list_all ordinary (c_facts (sc_commit c))"
  then obtain f where f: "c_facts (sc_commit c) = [f]" "\<not> ordinary f"
    using validateCommit_facts(5)[OF assms(1)] by blast
  then have "f_type f = FactThreadCreated" using assms(3) by (auto simp: ordinary_def only_fact_def)
  then show False using assms(2,4) f by (simp add: applyCommit_def applyFact_def)
qed

lemma applyCommit_sel:
  assumes "applyCommit tid c st = Inr st'"
  shows "p_event_cursor (rs_projection st') = commit_cursor c"
    and "p_usage_aggregated_through (rs_projection st') = commit_cursor c"
    and "p_last_activity_at (rs_projection st') = c_at (sc_commit c)"
proof -
  obtain st1 where "st' = st1\<lparr>rs_projection := stamp_commit c (rs_projection st1)\<rparr>"
    by (rule applyCommit_Inr[OF assms])
  then show "p_event_cursor (rs_projection st') = commit_cursor c"
    "p_usage_aggregated_through (rs_projection st') = commit_cursor c"
    "p_last_activity_at (rs_projection st') = c_at (sc_commit c)" by (simp_all add: stamp_commit_def)
qed

lemma committed_sel [simp]:
  "rs_projection (committed t st) = advanceProjectionRevision t (rs_projection st)"
  "rs_provider_messages (committed t st) = rs_provider_messages st"
  by (simp_all add: committed_def)

lemma applyCommit_frame:
  assumes "applyCommit tid c st = Inr st'" and "list_all ordinary (c_facts (sc_commit c))"
  shows "same_frame (rs_projection st)
    ((rs_projection st')\<lparr>p_last_activity_at := p_last_activity_at (rs_projection st),
       p_updated_at := p_updated_at (rs_projection st), p_event_cursor := p_event_cursor (rs_projection st),
       p_usage_aggregated_through := p_usage_aggregated_through (rs_projection st)\<rparr>)"
proof -
  obtain st1 where "apply_facts tid c (c_facts (sc_commit c)) st = Inr st1"
    and st': "st' = st1\<lparr>rs_projection := stamp_commit c (rs_projection st1)\<rparr>"
    by (rule applyCommit_Inr[OF assms(1)])
  then have "same_frame (rs_projection st) (rs_projection st1)" using apply_facts_frame[OF assms(2)] by blast
  with st' show ?thesis by (simp add: same_frame_def stamp_commit_def)
qed

end
