(* ===== verification/ThreadStoreSteps.thy ===== *)
theory ThreadStoreSteps
  imports ThreadStoreInv
begin

text \<open>
  Every operation of a Thread keeps the invariant of \<open>ThreadStoreInv\<close>, whichever of its file
  operations fail.
\<close>

section \<open>Appending\<close>

lemma usage_cursor_offset [simp]: "usage_cursor_ok (cur\<lparr>cur_offset := n\<rparr>) gs = usage_cursor_ok cur gs"
  by (induction gs) (auto split: list.splits)

lemma valid_set_offsets:
  assumes "validateProjectionMetadata (rs_projection st) i" and "0 < n"
    and "p_usage_aggregated_through (rs_projection st) = p_event_cursor (rs_projection st)"
  shows "validateProjectionMetadata (rs_projection (set_offsets n st)) i"
proof -
  let ?p = "rs_projection st" and ?q = "rs_projection (set_offsets n st)"
  have "identity_ok ?q i = identity_ok ?p i" "generations_ok ?q = generations_ok ?p" "usage_ok ?q = usage_ok ?p"
    by (simp_all add: set_offsets_def Let_def identity_ok_def generations_ok_def usage_ok_def)
  moreover have "times_ok ?q i = times_ok ?p i"
    by (cases "p_retention_state ?p"; cases "p_archived_at ?p")
      (simp_all add: set_offsets_def Let_def times_ok_def validateProjectionLifecycle_def)
  moreover have "cursors_ok ?p \<Longrightarrow> cursors_ok ?q"
    using assms(2,3) by (auto simp: set_offsets_def Let_def cursors_ok_def)
  ultimately show ?thesis using assms(1) by (simp add: validateProjectionMetadata_def)
qed

lemma layout_cong: "p_generations q = p_generations p \<Longrightarrow> layout_ok q fs = layout_ok p fs"
  by (simp add: layout_ok_def)

lemma framed_sel [simp]:
  "sc_commit (framed g s n c) = c" "sc_generation_id (framed g s n c) = g" "sc_start (framed g s n c) = s"
  "sc_end (framed g s n c) = s + line_length n"
  by (simp_all add: framed_def)

lemma synced_valid:
  assumes "synced t"
  shows "validateProjectionMetadata (th_projection t) (th_id t)" and "cloneReplayState (th_state t) = th_state t"
    and "p_thread_id (th_projection t) \<noteq> []" and "0 < es_size t"
proof -
  show v: "validateProjectionMetadata (th_projection t) (th_id t)"
    using assms by (simp add: synced_def handle_ok_def Let_def)
  then show "cloneReplayState (th_state t) = th_state t"
    by (intro cloneReplayState_id) (simp add: validateProjectionMetadata_def)
  from v show "p_thread_id (th_projection t) \<noteq> []"
    by (auto simp: validateProjectionMetadata_def identity_ok_def dest: ValidID_not_Nil)
  from v assms show "0 < es_size t"
    by (simp add: validateProjectionMetadata_def cursors_ok_def synced_def handle_ok_def Let_def)
qed

lemma syncedI:
  assumes "handle_ok t" and "tf_projection (th_files t) = ProjectionDoc (th_projection t)"
    and "layout_ok (th_projection t) (th_files t)"
    and "map_of (tf_journals (th_files t)) (es_current_id t) = Some (published @ rest)"
    and "journal_ok (th_id t) (th_state t) published rest"
  shows "synced t"
  using assms by (auto simp: synced_def)

text \<open>The handle and files after a commit that was appended and published.\<close>

lemma append_candidate:
  assumes "synced t" and prep: "prepareAppendLocked marshal now facts t = Inr (c, cand)"
    and nb: "\<not> list_ex (\<lambda>f. is_boundary (f_type f)) facts" and sc: "sc = framed (es_current_id t) (es_size t) n c"
  obtains s where "applyCommit (th_id t) sc (th_state t) = Inr s" "list_all ordinary (c_facts c)"
    "set_offsets (sc_end sc) cand = committed (c_at c) s"
    "validateProjectionMetadata (rs_projection (set_offsets (sc_end sc) cand)) (th_id t)"
    "validateCommit (th_id t) c = None" "c_seq c = es_next_seq t" "c_facts c = facts"
proof -
  let ?prov = "provisional_commit (es_current_id t) (es_size t) c"
  obtain st where st: "prepareCommit marshal now facts t = Inr c"
    "applyCommit (th_id t) ?prov (th_state t) = Inr st" "cand = committed (c_at c) st"
    "validateProjectionMetadata (rs_projection cand) (th_id t)"
    using prepareAppend_Inr[OF prep] synced_valid(2)[OF assms(1)] by metis
  have c: "c_facts c = facts" "c_seq c = es_next_seq t" "validateCommit (th_id t) c = None"
    using prepareCommit_Inr[OF st(1)] by simp_all
  have ord: "list_all ordinary (c_facts c)"
    using applied_facts_ordinary[OF _ st(2)] c nb synced_valid(3)[OF assms(1)]
    by (simp add: provisional_commit_def)
  have "\<exists>s. applyCommit (th_id t) sc (th_state t) = Inr s
      \<and> set_offsets (sc_end sc) (committed (c_at c) st) = committed (c_at c) s"
    by (rule applyCommit_cong[OF st(2)]) (simp_all add: sc provisional_commit_def)
  then obtain s where s: "applyCommit (th_id t) sc (th_state t) = Inr s"
    "set_offsets (sc_end sc) cand = committed (c_at c) s" using st(3) by blast
  have "p_usage_aggregated_through (rs_projection cand) = p_event_cursor (rs_projection cand)"
    using applyCommit_sel[OF st(2)] st(3) by simp
  moreover have "0 < sc_end sc" using sc synced_valid(4)[OF assms(1)] by (simp add: add_pos_pos)
  ultimately have "validateProjectionMetadata (rs_projection (set_offsets (sc_end sc) cand)) (th_id t)"
    using valid_set_offsets[OF st(4)] by simp
  with s ord c that show ?thesis by blast
qed

lemma appended_synced:
  assumes syn: "synced t" and j: "map_of (tf_journals (th_files t)) (es_current_id t) = Some published"
    "journal_ok (th_id t) (th_state t) published []"
    and prep: "prepareAppendLocked marshal now facts t = Inr (c, cand)"
    and nb: "\<not> list_ex (\<lambda>f. is_boundary (f_type f)) facts" and sc: "sc = framed (es_current_id t) (es_size t) n c"
    and u: "th_id u = th_id t" "th_state u = set_offsets (sc_end sc) cand" "es_current_id u = es_current_id t"
    "es_size u = sc_end sc" "es_next_seq u = es_next_seq t + 1"
    "tf_projection (th_files u) = ProjectionDoc (th_projection u)"
    "tf_journals (th_files u) = AList.update (es_current_id t) (published @ [sc]) (tf_journals (th_files t))"
  shows "synced u"
proof -
  obtain s where s: "applyCommit (th_id t) sc (th_state t) = Inr s" "list_all ordinary (c_facts c)"
    "set_offsets (sc_end sc) cand = committed (c_at c) s"
    "validateProjectionMetadata (rs_projection (set_offsets (sc_end sc) cand)) (th_id t)"
    "validateCommit (th_id t) c = None" "c_seq c = es_next_seq t"
    by (rule append_candidate[OF syn prep nb sc])
  have scc: "sc_commit sc = c" "sc_generation_id sc = es_current_id t" using sc by simp_all
  have fr: "p_current_generation (th_projection u) = p_current_generation (th_projection t)"
    "p_generations (th_projection u) = p_generations (th_projection t)"
    using applyCommit_frame[OF s(1)] s(2,3) u(2) scc by (simp_all add: same_frame_def)
  have cur: "p_event_cursor (th_projection u) = commit_cursor sc"
    "p_usage_aggregated_through (th_projection u) = commit_cursor sc"
    using applyCommit_sel[OF s(1)] s(3) u(2) by simp_all
  have h: "es_current_id t = gp_id (p_current_generation (th_projection t))"
    "es_next_seq t = cur_seq (p_event_cursor (th_projection t)) + 1" "layout_ok (th_projection t) (th_files t)"
    using syn by (auto simp: synced_def handle_ok_def Let_def)
  have "handle_ok u"
    using s(4,6) u fr cur h scc by (simp add: handle_ok_def commit_cursor_def)
  moreover have "journal_ok (th_id t) (th_state u) (published @ [sc]) []"
  proof (rule journal_append[OF j(2) _ s(1)])
    show "usage_ok (th_projection t)" using synced_valid(1)[OF syn] by (simp add: validateProjectionMetadata_def)
    show "usage_ok (rs_projection (th_state u))" using s(4) u(2) by (simp add: validateProjectionMetadata_def)
  qed (use s u(2) scc h in auto)
  moreover have "layout_ok (th_projection u) (th_files u)"
    using layout_update[OF h(3) _ u(7)] layout_cong[OF fr(2)] j(1) by (force dest: map_of_SomeD)
  ultimately show ?thesis using u by (intro syncedI[of u "published @ [sc]" "[]"]) simp_all
qed

lemma refresh_sel [simp]:
  "th_id (refreshPublicLocked t) = th_id t" "th_state (refreshPublicLocked t) = th_state t"
  "th_closed (refreshPublicLocked t) = th_closed t" "es_current_id (refreshPublicLocked t) = es_current_id t"
  "es_size (refreshPublicLocked t) = es_size t" "es_next_seq (refreshPublicLocked t) = es_next_seq t"
  "th_files (refreshPublicLocked t) = th_files t"
  by (simp_all add: refreshPublicLocked_def)

text \<open>Writing the metadata document: it is replaced, or an error is reported, or both.\<close>

lemma persist_cases:
  assumes "persistProjectionValueLocked p t = (r, t')" and "validateProjectionMetadata p (th_id t)"
  obtains (ok) io where "r = Inr ()"
      "t' = t\<lparr>th_files := (th_files t)\<lparr>tf_projection := ProjectionDoc p, tf_io := io\<rparr>\<rparr>"
  | (replaced) e io where "r = Inl e"
      "t' = t\<lparr>th_files := (th_files t)\<lparr>tf_projection := ProjectionDoc p, tf_io := io\<rparr>\<rparr>"
  | (kept) e io where "r = Inl e" "t' = t\<lparr>th_files := (th_files t)\<lparr>tf_io := io\<rparr>\<rparr>"
proof -
  obtain o1 io where o: "next_outcome (th_files t) = (o1, (th_files t)\<lparr>tf_io := io\<rparr>)"
    by (cases "tf_io (th_files t)") (auto simp: next_outcome_def intro: that[of _ "[]"])
  let ?new = "(th_files t)\<lparr>tf_projection := ProjectionDoc p, tf_io := io\<rparr>"
  have w: "persistProjectionValueLocked p t = (case o1 of WriteOk \<Rightarrow> (Inr (), t\<lparr>th_files := ?new\<rparr>)
      | WriteFailed True \<Rightarrow> (Inl IoFailure, t\<lparr>th_files := ?new\<rparr>)
      | WriteFailed False \<Rightarrow> (Inl IoFailure, t\<lparr>th_files := (th_files t)\<lparr>tf_io := io\<rparr>\<rparr>))"
    using assms(2) o by (simp add: persistProjectionValueLocked_def write_projection_def
        split: write_result.splits bool.splits)
  show ?thesis
  proof (cases o1)
    case WriteOk
    with w assms(1) show ?thesis by (intro ok[of io]) simp_all
  next
    case (WriteFailed b)
    show ?thesis
    proof (cases b)
      case True
      with w assms(1) WriteFailed show ?thesis by (intro replaced[of IoFailure io]) simp_all
    next
      case False
      with w assms(1) WriteFailed show ?thesis by (intro kept[of IoFailure io]) simp_all
    qed
  qed
qed

text \<open>A handle whose revision is not the one on disk is stale.\<close>

lemma stale_revision:
  assumes "tf_projection (th_files t) = ProjectionDoc p" and "p_revision p \<noteq> p_revision (th_projection t)"
  shows "thread_ok t"
  using assms by (simp add: thread_ok_def ensureProjectionCurrentLocked_def readProjectionFile_def)

lemma appendCurrent_files:
  assumes "synced t" and "appendCurrent marshal c t = (Inl e, t')" and "validateCommit (th_id t) c = None"
  shows "synced t'"
proof -
  obtain published rest where j: "map_of (tf_journals (th_files t)) (es_current_id t) = Some (published @ rest)"
    "journal_ok (th_id t) (th_state t) published rest"
    using assms(1) by (auto simp: synced_def)
  have "t' = t \<or> (\<exists>fs. append_record marshal (es_current_id t) (es_size t) c (th_files t) = (Inl e, fs)
      \<and> t' = t\<lparr>th_files := fs\<rparr> \<and> c_seq c = es_next_seq t)"
    using assms(2) by (auto simp: appendCurrent_def split: if_splits prod.splits sum.splits)
  then consider "t' = t" | fs where "append_record marshal (es_current_id t) (es_size t) c (th_files t) = (Inl e, fs)"
      "t' = t\<lparr>th_files := fs\<rparr>" "c_seq c = es_next_seq t" by blast
  then show ?thesis
  proof cases
    case 2
    from 2(1) show ?thesis
    proof (cases rule: append_record_cases)
      case error
      with 2 show ?thesis by (intro synced_cong[OF assms(1)]) simp_all
    next
      case (left cs n)
      let ?sc = "framed (es_current_id t) (es_size t) n c"
      have h: "es_size t = cur_offset (p_event_cursor (th_projection t))"
        "es_next_seq t = cur_seq (p_event_cursor (th_projection t)) + 1"
        using assms(1) by (simp_all add: synced_def handle_ok_def Let_def)
      have cs: "cs = published" "rest = []"
        using left(2,3) j h journal_size_published[OF j(2)] by auto
      note rl = replay_last[of "th_id t" "th_projection t" published "th_state t"]
      have rl: "published \<noteq> []" "commit_cursor (last published) = p_event_cursor (th_projection t)"
        using rl j(2) by (auto simp: journal_ok_def)
      have ck: "check_commits (th_id t) (gp_boundary_seq (p_current_generation (th_projection t))) published"
        using j(2) cs by (simp add: journal_ok_def)
      have "c_seq c = gp_boundary_seq (p_current_generation (th_projection t)) + length published"
        using check_commits_last[OF ck rl(1)] 2(3) h(2) arg_cong[OF rl(2), of cur_seq]
        by (simp add: commit_cursor_def)
      with ck assms(3) arg_cong[OF rl(2), of cur_offset] j(2) h(1)
      have "journal_ok (th_id t) (th_state t) published [?sc]"
        by (simp add: journal_ok_def check_commits_snoc commit_cursor_def)
      moreover have "es_current_id t \<in> keys (tf_journals (th_files t))"
        using j(1) by (force dest: map_of_SomeD)
      ultimately show ?thesis using assms(1) 2(2) left cs
        by (intro syncedI[of t' published "[?sc]"])
          (auto simp: synced_def handle_ok_def intro: layout_update[of _ "th_files t"])
    next
      case (ok cs n)
      then show ?thesis by simp
    qed
  qed (use assms(1) in simp)
qed

lemma appendCurrent_Inr:
  assumes "appendCurrent marshal c t = (Inr sc, t')"
  obtains n cs fs where "sc = framed (es_current_id t) (es_size t) n c"
    "map_of (tf_journals (th_files t)) (es_current_id t) = Some cs" "journal_size cs = es_size t"
    "t' = t\<lparr>th_files := fs, es_size := sc_end sc, es_next_seq := es_next_seq t + 1\<rparr>"
    "tf_projection fs = tf_projection (th_files t)"
    "tf_journals fs = AList.update (es_current_id t) (cs @ [sc]) (tf_journals (th_files t))"
proof -
  obtain fs where fs: "append_record marshal (es_current_id t) (es_size t) c (th_files t) = (Inr sc, fs)"
    "t' = t\<lparr>th_files := fs, es_size := sc_end sc, es_next_seq := es_next_seq t + 1\<rparr>"
    using assms by (auto simp: appendCurrent_def split: if_splits prod.splits sum.splits)
  from fs(1) show ?thesis
  proof (cases rule: append_record_cases)
    case (ok cs n)
    with fs(2) show ?thesis by (intro that[of n cs fs]) simp_all
  qed simp_all
qed

text \<open>The end of an append: the handle takes the new state before the document is written.\<close>

definition publish :: "replay_state \<Rightarrow> thread \<Rightarrow> (thread_error + unit) \<times> thread" where
  "publish st t = persistProjectionLocked (refreshPublicLocked (t\<lparr>th_state := st\<rparr>))"

definition append_outcome :: "marshal \<Rightarrow> commit \<Rightarrow> replay_state \<Rightarrow> thread \<Rightarrow> thread" where
  "append_outcome marshal c cand t = (case appendCurrent marshal c t of (Inl e, t1) \<Rightarrow> t1
     | (Inr sc, t1) \<Rightarrow>
         (if validateProjectionMetadata (rs_projection (set_offsets (sc_end sc) cand)) (th_id t)
          then snd (publish (set_offsets (sc_end sc) cand) t1) else t1))"

lemma append_reaches:
  assumes "appendFactsStoreLocked marshal now index_ok facts t = (r, t')"
  shows "t' = t \<or> (\<not> th_closed t \<and> p_retention_state (th_projection t) = RetentionActive
      \<and> (\<exists>c cand. \<not> list_ex (\<lambda>f. is_boundary (f_type f)) facts
      \<and> prepareAppendLocked marshal now facts t = Inr (c, cand)
      \<and> t' = append_outcome marshal c cand t))"
proof (cases "th_closed t \<or> ensureProjectionCurrentLocked t \<noteq> None
    \<or> p_retention_state (th_projection t) \<noteq> RetentionActive \<or> list_ex (\<lambda>f. is_boundary (f_type f)) facts
    \<or> isl (prepareAppendLocked marshal now facts t)")
  case True
  then show ?thesis using assms
    by (auto simp: appendFactsStoreLocked_def isl_def split: if_splits option.splits)
next
  case False
  then obtain c cand where p: "prepareAppendLocked marshal now facts t = Inr (c, cand)"
    by (metis isl_def obj_sumE prod.collapse)
  obtain ra t1 where ra: "appendCurrent marshal c t = (ra, t1)" by fastforce
  show ?thesis
  proof (cases ra)
    case (Inl e)
    with False p ra assms show ?thesis by (simp add: appendFactsStoreLocked_def append_outcome_def)
  next
    case (Inr sc)
    with False p ra assms show ?thesis
      by (auto simp: appendFactsStoreLocked_def append_outcome_def publish_def Let_def split: if_splits sum.splits prod.splits)
  qed
qed

lemma append_step:
  assumes syn: "synced t" and run: "appendFactsStoreLocked marshal now index_ok facts t = (r, t')"
  shows "thread_ok t'"
  using append_reaches[OF run]
proof
  assume "\<not> th_closed t \<and> p_retention_state (th_projection t) = RetentionActive
      \<and> (\<exists>c cand. \<not> list_ex (\<lambda>f. is_boundary (f_type f)) facts
      \<and> prepareAppendLocked marshal now facts t = Inr (c, cand)
      \<and> t' = append_outcome marshal c cand t)"
  then obtain c cand where nb: "\<not> list_ex (\<lambda>f. is_boundary (f_type f)) facts"
    and prep: "prepareAppendLocked marshal now facts t = Inr (c, cand)"
    and t': "t' = append_outcome marshal c cand t" by blast
  obtain ra t1 where ra: "appendCurrent marshal c t = (ra, t1)" by fastforce
  show ?thesis
  proof (cases ra)
    case (Inl e)
    have "validateCommit (th_id t) c = None"
      using prepareAppend_Inr[OF prep] prepareCommit_Inr(2) by metis
    with ra Inl t' show ?thesis using appendCurrent_files[OF syn] by (simp add: append_outcome_def thread_ok_synced)
  next
    case (Inr sc)
    obtain n cs fs where a: "sc = framed (es_current_id t) (es_size t) n c"
      "map_of (tf_journals (th_files t)) (es_current_id t) = Some cs" "journal_size cs = es_size t"
      "t1 = t\<lparr>th_files := fs, es_size := sc_end sc, es_next_seq := es_next_seq t + 1\<rparr>"
      "tf_projection fs = tf_projection (th_files t)"
      "tf_journals fs = AList.update (es_current_id t) (cs @ [sc]) (tf_journals (th_files t))"
      by (rule appendCurrent_Inr[OF ra[unfolded Inr]])
    let ?st = "set_offsets (sc_end sc) cand"
    let ?u = "refreshPublicLocked (t1\<lparr>th_state := ?st\<rparr>)"
    obtain s where s: "applyCommit (th_id t) sc (th_state t) = Inr s" "list_all ordinary (c_facts c)"
      "?st = committed (c_at c) s" "validateProjectionMetadata (rs_projection ?st) (th_id t)"
      by (rule append_candidate[OF syn prep nb a(1)])
    obtain published rest where p: "cs = published @ rest" "journal_ok (th_id t) (th_state t) published rest"
      using syn a(2) by (auto simp: synced_def)
    have "rest = []"
      using journal_size_published[OF p(2)] p(1) a(3) syn by (simp add: synced_def handle_ok_def Let_def)
    with p have j: "journal_ok (th_id t) (th_state t) cs []" by simp
    have "t' = snd (publish ?st t1)" using t' ra Inr s(4) by (simp add: append_outcome_def)
    then obtain rp where rp: "persistProjectionValueLocked (rs_projection ?st) ?u = (rp, t')"
      by (metis persistProjectionLocked_def publish_def prod.collapse refresh_sel(2) thread.select_convs(7)
          thread.surjective thread.update_convs(7))
    have u: "validateProjectionMetadata (rs_projection ?st) (th_id ?u)" using a(4) s(4) by simp
    have new: "thread_ok t'" if "t' = ?u\<lparr>th_files := (th_files ?u)\<lparr>tf_projection := ProjectionDoc (rs_projection ?st),
        tf_io := io\<rparr>\<rparr>" for io
      by (rule thread_ok_synced, rule appended_synced[OF syn a(2) j prep nb a(1)]) (simp_all add: that a(4,6))
    from rp u show ?thesis
    proof (cases rule: persist_cases)
      case (kept e io)
      have "p_revision (rs_projection ?st) = p_revision (th_projection t) + 1"
        using applyCommit_frame[OF s(1)] s(2,3) a(1) by (simp add: same_frame_def)
      moreover have "tf_projection (th_files t) = ProjectionDoc (th_projection t)"
        using syn by (simp add: synced_def)
      ultimately show ?thesis
        using kept(2) a(4,5) by (intro stale_revision[where p = "th_projection t"]) simp_all
    qed (use new in auto)
  qed
qed (use syn thread_ok_synced in simp)

section \<open>Rollover\<close>

text \<open>File operations that touch the journal of the Generation to come and nothing else.\<close>

definition only_journal :: "string \<Rightarrow> thread_files \<Rightarrow> thread_files \<Rightarrow> bool" where
  "only_journal g fs fs' \<longleftrightarrow> tf_projection fs' = tf_projection fs
     \<and> (\<forall>k. k \<noteq> g \<longrightarrow> map_of (tf_journals fs') k = map_of (tf_journals fs) k)"

lemma only_journal_keys:
  assumes "only_journal g fs fs'"
  shows "keys (tf_journals fs') \<subseteq> insert g (keys (tf_journals fs))"
proof
  fix k
  assume "k \<in> keys (tf_journals fs')"
  then have "map_of (tf_journals fs') k \<noteq> None" by (simp add: map_of_eq_None)
  then show "k \<in> insert g (keys (tf_journals fs))"
    using assms by (metis insertCI insertI1 map_of_eq_None only_journal_def)
qed

lemma only_journal_refl: "only_journal g fs fs"
  by (auto simp: only_journal_def)

lemma only_journal_trans: "only_journal g fs fs1 \<Longrightarrow> only_journal g fs1 fs2 \<Longrightarrow> only_journal g fs fs2"
  by (auto simp: only_journal_def)

lemma only_journal_ops:
  "only_journal g fs (snd (next_outcome fs))" "only_journal g fs (set_journal g cs fs)"
  "only_journal g fs (drop_journal g fs)"
  using next_outcome_files[of fs] by (auto simp: only_journal_def set_journal_def drop_journal_def)

lemma only_journal_create: "only_journal g fs (snd (create_journal g fs))"
proof -
  obtain o1 fs1 where o: "next_outcome fs = (o1, fs1)" by fastforce
  then have "only_journal g fs fs1" using only_journal_ops(1)[of g fs] by simp
  with o show ?thesis using only_journal_trans[OF _ only_journal_ops(2)]
    by (auto simp: create_journal_def split: write_result.splits bool.splits)
qed

lemma only_journal_append: "only_journal g fs (snd (append_record marshal g n c fs))"
proof -
  obtain r fs' where a: "append_record marshal g n c fs = (r, fs')" by fastforce
  from a show ?thesis
    by (cases rule: append_record_cases) (auto simp: a only_journal_def)
qed

lemma only_journal_cleanup: "only_journal g fs (cleanupGenerationFile g fs)"
proof -
  obtain o1 fs1 where o: "next_outcome fs = (o1, fs1)" by fastforce
  then have "only_journal g fs fs1" using only_journal_ops(1)[of g fs] by simp
  with o show ?thesis using only_journal_trans[OF _ only_journal_ops(3)]
    by (auto simp: cleanupGenerationFile_def split: write_result.splits bool.splits)
qed

lemma synced_generations:
  assumes "synced t"
  shows "registry_ok 0 0 (p_generations (th_projection t))" and "p_generations (th_projection t) \<noteq> []"
    and "p_current_generation (th_projection t) = last (p_generations (th_projection t))"
    and "gp_ordinal (p_current_generation (th_projection t)) = length (p_generations (th_projection t))"
    and "es_current_id t = generationID (length (p_generations (th_projection t)))"
  using synced_valid(1)[OF assms] assms registry_last[of "p_generations (th_projection t)"]
  by (auto simp: validateProjectionMetadata_def generations_ok_def synced_def handle_ok_def Let_def)

abbreviation next_generation :: "thread \<Rightarrow> string" where
  "next_generation t \<equiv> generationID (length (p_generations (th_projection t)) + 1)"

lemma next_unregistered:
  assumes "synced t"
  shows "next_generation t \<notin> gp_id ` set (p_generations (th_projection t))"
    and "next_generation t \<noteq> es_current_id t"
  using registry_id_mem[OF synced_generations(1)[OF assms]] synced_generations(5)[OF assms] by fastforce+

lemma synced_only_journal:
  assumes syn: "synced t" and fs: "only_journal (next_generation t) (th_files t) fs"
    and g: "parseGenerationID (next_generation t) \<noteq> None"
  shows "synced (t\<lparr>th_files := fs\<rparr>)"
proof -
  obtain published rest where j: "map_of (tf_journals (th_files t)) (es_current_id t) = Some (published @ rest)"
    "journal_ok (th_id t) (th_state t) published rest"
    and l: "layout_ok (th_projection t) (th_files t)"
    using syn by (auto simp: synced_def)
  obtain n where "parseGenerationID (next_generation t) = Some n" using g by blast
  moreover from this have "n = length (p_generations (th_projection t)) + 1" using parse_Some by fastforce
  ultimately have n: "\<exists>m. parseGenerationID (next_generation t) = Some m \<and> length (p_generations (th_projection t)) < m"
    by simp
  have "layout_ok (th_projection t) fs"
    unfolding layout_ok_def
  proof
    show "list_all (\<lambda>g. map_of (tf_journals fs) (gp_id g) \<noteq> None) (p_generations (th_projection t))"
      unfolding list_all_iff
    proof
      fix g
      assume "g \<in> set (p_generations (th_projection t))"
      moreover from this have "gp_id g \<noteq> next_generation t" using next_unregistered(1)[OF syn] by (metis imageI)
      ultimately show "map_of (tf_journals fs) (gp_id g) \<noteq> None"
        using l fs by (auto simp: layout_ok_def only_journal_def list_all_iff)
    qed
    show "\<forall>k \<in> keys (tf_journals fs). k \<in> gp_id ` set (p_generations (th_projection t))
        \<or> (\<exists>n. parseGenerationID k = Some n \<and> length (p_generations (th_projection t)) < n)"
    proof
      fix k
      assume "k \<in> keys (tf_journals fs)"
      then consider "k = next_generation t" | "k \<in> keys (tf_journals (th_files t))"
        using only_journal_keys[OF fs] by auto
      then show "k \<in> gp_id ` set (p_generations (th_projection t))
          \<or> (\<exists>n. parseGenerationID k = Some n \<and> length (p_generations (th_projection t)) < n)"
        using l n by cases (simp_all only: layout_ok_def, simp)
    qed
  qed
  then show ?thesis
    using syn j fs next_unregistered(2)[OF syn]
    by (intro syncedI[of _ published rest]) (simp_all add: synced_def handle_ok_def only_journal_def)
qed

text \<open>The journal a rollover starts with.\<close>

lemma boundary_runtime_fresh:
  "boundary_runtime t f seed (fresh_state p) = (boundary_runtime t f seed st)\<lparr>rs_projection := p\<rparr>"
  by (simp add: boundary_runtime_def fresh_state_def applyGenerationSeed_def Let_def)

lemma boundary_fact_sel:
  "is_boundary (f_type (boundary_fact b m a cu st))"
  "f_from_generation_id (boundary_fact b m a cu st) = gp_id (p_current_generation (rs_projection st))"
  "f_to_generation_id (boundary_fact b m a cu st) = generationID (gp_ordinal (p_current_generation (rs_projection st)) + 1)"
  "\<exists>seed. f_seed (boundary_fact b m a cu st) = Some seed \<and> seed_version seed = ProjectionVersion"
  by (simp_all add: boundary_fact_def is_boundary_def empty_fact_def boundary_seed_def
      generationSeedFromState_def Let_def)

lemma applyCommit_single_boundary:
  assumes "applyCommit tid sc st = Inr s" and "c_facts (sc_commit sc) = [f]" and "is_boundary (f_type f)"
  obtains st1 where "apply_boundary sc f st = Inr st1"
    "s = st1\<lparr>rs_projection := stamp_commit sc (rs_projection st1)\<rparr>"
proof -
  obtain st1 where "apply_facts tid sc [f] st = Inr st1"
    "s = st1\<lparr>rs_projection := stamp_commit sc (rs_projection st1)\<rparr>"
    using applyCommit_Inr[OF assms(1)] assms(2) by metis
  then show ?thesis using that applyFact_boundary[OF assms(3)] by (simp split: sum.splits)
qed

lemma apply_boundary_runtime:
  assumes "apply_boundary c f st = Inr st1" and "f_seed f = Some seed"
  shows "st1 = (boundary_runtime (c_at (sc_commit c)) f seed st)\<lparr>rs_projection := rs_projection st1\<rparr>"
  using assms by (auto simp: apply_boundary_def Let_def split: if_splits option.splits)

lemma rollover_journal:
  assumes syn: "synced t" and f: "f = boundary_fact b m a cu (th_state t)" "c_facts (sc_commit sc) = [f]"
    and run: "applyCommit (th_id t) sc (th_state t) = Inr s"
    and commit: "validateCommit (th_id t) (sc_commit sc) = None" "c_seq (sc_commit sc) = es_next_seq t"
    and st': "st' = committed tm s" and usage: "usage_ok (rs_projection st')"
  shows "journal_ok (th_id t) st' [sc] []"
    and "p_current_generation (rs_projection st') = \<lparr>gp_id = next_generation t,
      gp_ordinal = length (p_generations (th_projection t)) + 1, gp_boundary_seq = es_next_seq t\<rparr>"
    and "p_generations (rs_projection st') = p_generations (th_projection t) @ [p_current_generation (rs_projection st')]"
    and "p_revision (rs_projection st') = p_revision (th_projection t) + 1"
proof -
  let ?p = "th_projection t" and ?q = "rs_projection st'"
  note bf = boundary_fact_sel[of b m a cu "th_state t", folded f(1)]
  note g = synced_generations[OF syn]
  obtain st1 where s1: "apply_boundary sc f (th_state t) = Inr st1"
    "s = st1\<lparr>rs_projection := stamp_commit sc (rs_projection st1)\<rparr>"
    by (rule applyCommit_single_boundary[OF run f(2) bf(1)])
  obtain seed where seed: "f_seed f = Some seed" "seed_version seed = ProjectionVersion" using bf(4) by blast
  have ord: "gp_ordinal (p_current_generation ?p) = length (p_generations ?p)" by (rule g(4))
  have pr: "rs_projection st1 = boundary_projection sc f (length (p_generations ?p) + 1)
      (rs_context_usage (boundary_runtime (c_at (sc_commit sc)) f seed (th_state t))) ?p"
    using s1(1) seed ord by (auto simp: apply_boundary_def Let_def split: if_splits option.splits)
  have to: "f_to_generation_id f = next_generation t" using bf(3) ord by simp
  show cg: "p_current_generation ?q = \<lparr>gp_id = next_generation t,
      gp_ordinal = length (p_generations ?p) + 1, gp_boundary_seq = es_next_seq t\<rparr>"
    using st' s1(2) pr to commit(2) by (simp add: stamp_commit_def boundary_projection_def Let_def)
  show gs: "p_generations ?q = p_generations ?p @ [p_current_generation ?q]"
    using st' s1(2) pr by (simp add: stamp_commit_def boundary_projection_def Let_def)
  show "p_revision ?q = p_revision ?p + 1"
    using st' s1(2) pr by (simp add: stamp_commit_def boundary_projection_def Let_def)
  have cur: "p_event_cursor ?q = commit_cursor sc" using st' s1(2) by (simp add: stamp_commit_def)
  have "gp_id (p_generations ?q ! (gp_ordinal (p_current_generation ?q) - 2)) = gp_id (p_current_generation ?p)"
    using gs cg g(2,3) by (simp add: nth_append last_conv_nth)
  then have "begins_generation ?q sc"
    using f(2) bf(1,2) to seed cg commit(2) g(2) by (simp add: begins_generation_def)
  moreover have "apply_runtime_fact (th_id t) (next_generation t) sc True f (fresh_state ?q) = Inr st'"
  proof -
    have "apply_runtime_fact (th_id t) (next_generation t) sc True f (fresh_state ?q)
        = Inr (boundary_runtime (c_at (sc_commit sc)) f seed (fresh_state ?q))"
      using bf(1) seed(1) by (auto simp: apply_runtime_fact_def is_boundary_def)
    also have "boundary_runtime (c_at (sc_commit sc)) f seed (fresh_state ?q) = st1\<lparr>rs_projection := ?q\<rparr>"
      by (subst boundary_runtime_fresh[where st = "th_state t"], subst apply_boundary_runtime[OF s1(1) seed(1)]) simp
    also have "\<dots> = st'" using st' s1(2) by (simp add: committed_def)
    finally show ?thesis .
  qed
  ultimately have "replayCurrentGeneration (th_id t) ?q [sc] = Inr st'"
    using f(2) cg cur usage by (simp add: replayCurrentGeneration_def cloneProjection_id)
  with commit cg show "journal_ok (th_id t) st' [sc] []" by (simp add: journal_ok_def)
qed

lemma layout_rollover:
  assumes syn: "synced t" and gens: "p_generations q = p_generations (th_projection t) @ [g]"
    and g: "gp_id g = next_generation t" "map_of (tf_journals fs) (next_generation t) \<noteq> None"
    and fs: "only_journal (next_generation t) (th_files t) fs"
    and absent: "map_of (tf_journals (th_files t)) (next_generation t) = None"
  shows "layout_ok q fs"
  unfolding layout_ok_def
proof
  have l: "layout_ok (th_projection t) (th_files t)" using syn by (simp add: synced_def)
  show "list_all (\<lambda>g. map_of (tf_journals fs) (gp_id g) \<noteq> None) (p_generations q)"
    unfolding list_all_iff
  proof
    fix x
    assume "x \<in> set (p_generations q)"
    then consider "x = g" | "x \<in> set (p_generations (th_projection t))" using gens by auto
    then show "map_of (tf_journals fs) (gp_id x) \<noteq> None"
    proof cases
      case 2
      moreover from this have "gp_id x \<noteq> next_generation t" using next_unregistered(1)[OF syn] by (metis imageI)
      ultimately show ?thesis using l fs by (auto simp: layout_ok_def only_journal_def list_all_iff)
    qed (use g in simp)
  qed
  show "\<forall>k \<in> keys (tf_journals fs). k \<in> gp_id ` set (p_generations q)
      \<or> (\<exists>n. parseGenerationID k = Some n \<and> length (p_generations q) < n)"
  proof
    fix k
    assume k: "k \<in> keys (tf_journals fs)"
    show "k \<in> gp_id ` set (p_generations q) \<or> (\<exists>n. parseGenerationID k = Some n \<and> length (p_generations q) < n)"
    proof (cases "k = next_generation t")
      case False
      then have "k \<in> keys (tf_journals (th_files t))" using k only_journal_keys[OF fs] by auto
      then have "k \<in> gp_id ` set (p_generations (th_projection t))
          \<or> (\<exists>n. parseGenerationID k = Some n \<and> length (p_generations (th_projection t)) < n)"
        using l by (simp only: layout_ok_def)
      moreover have "length (p_generations (th_projection t)) + 1 < n"
        if "parseGenerationID k = Some n" "length (p_generations (th_projection t)) < n" for n
        using that False parse_Some[OF that(1)] by (cases "n = length (p_generations (th_projection t)) + 1") auto
      ultimately show ?thesis using gens by auto
    qed (use gens g in auto)
  qed
qed

lemma stage_spec:
  assumes "stageNextGeneration marshal c g t = (r, t')"
  shows "\<exists>fs. t' = t\<lparr>th_files := fs\<rparr> \<and> only_journal g (th_files t) fs
    \<and> (t' = t \<or> parseGenerationID g \<noteq> None)
    \<and> (\<forall>sc. r = Inr sc \<longrightarrow> parseGenerationID g \<noteq> None \<and> map_of (tf_journals (th_files t)) g = None
        \<and> map_of (tf_journals fs) g = Some [sc] \<and> (\<exists>n. sc = framed g 0 n c))"
proof (cases "th_closed t \<or> c_seq c \<noteq> es_next_seq t \<or> parseGenerationID g = None
    \<or> parseGenerationID (es_current_id t) = None
    \<or> the (parseGenerationID g) \<noteq> the (parseGenerationID (es_current_id t)) + 1
    \<or> map_of (tf_journals (th_files t)) g \<noteq> None")
  case True
  then have "t' = t \<and> isl r" using assms
    by (auto simp: stageNextGeneration_def split: if_splits option.splits)
  then show ?thesis by (intro exI[of _ "th_files t"]) (auto simp: only_journal_refl)
next
  case False
  then have g: "parseGenerationID g \<noteq> None" "map_of (tf_journals (th_files t)) g = None" by auto
  obtain rc fs1 where c1: "create_journal g (th_files t) = (rc, fs1)" by fastforce
  have o1: "only_journal g (th_files t) fs1" using only_journal_create[of g "th_files t"] c1 by simp
  have stage: "stageNextGeneration marshal c g t = (case rc of
      Inl e \<Rightarrow> (Inl e, t\<lparr>th_files := fs1\<rparr>)
    | Inr _ \<Rightarrow> (case append_record marshal g 0 c fs1 of
          (Inl e, fs2) \<Rightarrow> (Inl e, t\<lparr>th_files := cleanupGenerationFile g fs2\<rparr>)
        | (Inr sc, fs2) \<Rightarrow> (Inr sc, t\<lparr>th_files := fs2\<rparr>)))"
    using False c1 by (auto simp: stageNextGeneration_def split: sum.splits prod.splits)
  show ?thesis
  proof (cases rc)
    case (Inl e)
    with stage assms o1 g show ?thesis by auto
  next
    case (Inr x)
    have emp: "map_of (tf_journals fs1) g = Some []"
      using c1 Inr by (auto simp: create_journal_def set_journal_def split: prod.splits write_result.splits bool.splits)
    obtain ra fs2 where a: "append_record marshal g 0 c fs1 = (ra, fs2)" by fastforce
    have o2: "only_journal g (th_files t) fs2"
      using only_journal_trans[OF o1] only_journal_append[of g fs1 marshal 0 c] a by simp
    show ?thesis
    proof (cases ra)
      case (Inl e)
      with stage Inr a assms have "r = Inl e" "t' = t\<lparr>th_files := cleanupGenerationFile g fs2\<rparr>" by simp_all
      then show ?thesis using only_journal_trans[OF o2 only_journal_cleanup] g by auto
    next
      case (Inr sc)
      with stage \<open>rc = Inr x\<close> a assms have r: "r = Inr sc" "t' = t\<lparr>th_files := fs2\<rparr>" by simp_all
      from a[unfolded Inr] have "map_of (tf_journals fs2) g = Some [sc] \<and> (\<exists>n. sc = framed g 0 n c)"
        by (cases rule: append_record_cases) (auto simp: emp)
      with r o2 g show ?thesis by auto
    qed
  qed
qed

definition rollover_outcome :: "marshal \<Rightarrow> bool \<Rightarrow> commit \<Rightarrow> replay_state \<Rightarrow> string \<Rightarrow> thread \<Rightarrow> thread" where
  "rollover_outcome marshal index_ok c cand g t = (case stageNextGeneration marshal c g t of
      (Inl e, t1) \<Rightarrow> t1
    | (Inr sc, t1) \<Rightarrow> snd (finish_rollover index_ok c (set_offsets (sc_end sc) cand) sc t1))"

lemma begin_reaches:
  assumes "beginGeneration marshal now index_ok b m a cu t = (r, t')" and f: "f = boundary_fact b m a cu (th_state t)"
  shows "t' = t \<or> (\<exists>c st. prepareCommit marshal now [f] t = Inr c
    \<and> applyCommit (th_id t) (provisional_commit (f_to_generation_id f) 0 c) (cloneReplayState (th_state t)) = Inr st
    \<and> validateProjectionMetadata (rs_projection (committed (c_at c) st)) (th_id t)
    \<and> t' = rollover_outcome marshal index_ok c (committed (c_at c) st) (f_to_generation_id f) t)"
proof (cases "th_closed t \<or> ensureProjectionCurrentLocked t \<noteq> None
    \<or> p_retention_state (th_projection t) \<noteq> RetentionActive \<or> isl (prepareCommit marshal now [f] t)")
  case True
  then show ?thesis using assms
    by (auto simp: beginGeneration_def isl_def Let_def split: if_splits option.splits)
next
  case False
  then obtain c where c: "prepareCommit marshal now [f] t = Inr c" by (metis isl_def obj_sumE)
  let ?prov = "provisional_commit (f_to_generation_id f) 0 c"
  show ?thesis
  proof (cases "applyCommit (th_id t) ?prov (cloneReplayState (th_state t))")
    case (Inl e)
    with False c assms show ?thesis by (simp add: beginGeneration_def provisional_commit_def Let_def)
  next
    case (Inr st)
    have "t' = (if \<not> validateProjectionMetadata (rs_projection (committed (c_at c) st)) (th_id t) then t
        else rollover_outcome marshal index_ok c (committed (c_at c) st) (f_to_generation_id f) t)"
      using False c assms Inr
      by (auto simp: beginGeneration_def provisional_commit_def Let_def committed_def rollover_outcome_def
          split: if_splits sum.splits prod.splits)
    with c Inr show ?thesis by (cases "validateProjectionMetadata (rs_projection (committed (c_at c) st)) (th_id t)") auto
  qed
qed

lemma rollover_synced:
  assumes syn: "synced t" and f: "f = boundary_fact b m a cu (th_state t)" "c_facts c = [f]"
    and sc: "sc = framed (next_generation t) 0 n c"
    and run: "applyCommit (th_id t) sc (th_state t) = Inr s"
    and commit: "validateCommit (th_id t) c = None" "c_seq c = es_next_seq t"
    and valid: "validateProjectionMetadata (rs_projection (committed (c_at c) s)) (th_id t)"
    and fs: "only_journal (next_generation t) (th_files t) fs"
      "map_of (tf_journals (th_files t)) (next_generation t) = None"
      "map_of (tf_journals fs) (next_generation t) = Some [sc]"
    and u: "th_id u = th_id t" "th_state u = committed (c_at c) s" "es_current_id u = next_generation t"
      "es_size u = sc_end sc" "es_next_seq u = c_seq c + 1"
      "tf_projection (th_files u) = ProjectionDoc (th_projection u)" "tf_journals (th_files u) = tf_journals fs"
  shows "synced u"
proof -
  have us: "usage_ok (rs_projection (committed (c_at c) s))" using valid by (simp add: validateProjectionMetadata_def)
  have scc: "sc_commit sc = c" "sc_generation_id sc = next_generation t" using sc by simp_all
  note rj = rollover_journal[OF syn f(1) _ run _ _ refl us, unfolded scc(1), OF f(2) commit]
  have cur: "p_event_cursor (th_projection u) = commit_cursor sc"
    "p_usage_aggregated_through (th_projection u) = commit_cursor sc"
    using applyCommit_sel[OF run] u(2) by simp_all
  have "handle_ok u" using valid u cur rj(2) scc by (simp add: handle_ok_def commit_cursor_def)
  moreover have "layout_ok (th_projection u) fs"
    using layout_rollover[OF syn rj(3)] rj(2) fs u(2) by simp
  then have "layout_ok (th_projection u) (th_files u)" using u(7) by (simp add: layout_ok_def)
  ultimately show ?thesis using u rj(1) fs(3) by (intro syncedI[of u "[sc]" "[]"]) simp_all
qed

lemma discard_ok:
  assumes "synced t" and "only_journal (next_generation t) (th_files t) fs"
    and "parseGenerationID (next_generation t) \<noteq> None"
    and "t1 = t\<lparr>th_files := fs\<lparr>tf_io := io\<rparr>\<rparr>" and "sc_generation_id sc = next_generation t"
  shows "thread_ok (discard sc t1)"
proof -
  have "only_journal (next_generation t) (th_files t) (fs\<lparr>tf_io := io\<rparr>)"
    using assms(2) by (simp add: only_journal_def)
  from only_journal_trans[OF this only_journal_cleanup] assms show ?thesis
    by (intro thread_ok_synced) (simp add: discard_def synced_only_journal)
qed

text \<open>The end of a rollover, once the journal of the next Generation holds its first commit.\<close>

lemma finish_rollover_ok:
  assumes syn: "synced t" and t1: "t1 = t\<lparr>th_files := fs\<rparr>" and fs: "only_journal (next_generation t) (th_files t) fs"
    and g: "parseGenerationID (next_generation t) \<noteq> None" "sc_generation_id sc = next_generation t"
    and rev: "p_revision (rs_projection cand) \<noteq> p_revision (th_projection t)"
    and new: "\<And>u. th_id u = th_id t \<Longrightarrow> th_state u = cand \<Longrightarrow> es_current_id u = next_generation t \<Longrightarrow>
      es_size u = sc_end sc \<Longrightarrow> es_next_seq u = c_seq (sc_commit sc) + 1 \<Longrightarrow>
      tf_projection (th_files u) = ProjectionDoc (th_projection u) \<Longrightarrow>
      tf_journals (th_files u) = tf_journals fs \<Longrightarrow> synced u"
  shows "thread_ok (snd (finish_rollover index_ok c cand sc t1))"
proof (cases "validateProjectionMetadata (rs_projection cand) (th_id t1)")
  case False
  have "t1 = t\<lparr>th_files := fs\<lparr>tf_io := tf_io fs\<rparr>\<rparr>" using t1 by simp
  from discard_ok[OF syn fs g(1) this g(2)] False show ?thesis by (simp add: finish_rollover_def)
next
  case True
  obtain rp t2 where rp: "persistProjectionValueLocked (rs_projection cand) t1 = (rp, t2)" by fastforce
  from rp True show ?thesis
  proof (cases rule: persist_cases)
    case (ok io)
    obtain ra t3 where a: "activate sc (refreshPublicLocked (t2\<lparr>th_state := cand\<rparr>)) = (ra, t3)" by fastforce
    have "snd (finish_rollover index_ok c cand sc t1) = t3"
      using True rp ok a by (simp add: finish_rollover_def split: sum.splits)
    moreover have "synced t3"
    proof -
      let ?fs = "fs\<lparr>tf_projection := ProjectionDoc (rs_projection cand), tf_io := io\<rparr>"
      obtain o1 fs1 where o: "next_outcome ?fs = (o1, fs1)" by fastforce
      then have "tf_projection fs1 = ProjectionDoc (rs_projection cand)" "tf_journals fs1 = tf_journals fs"
        using next_outcome_files[of ?fs] by simp_all
      with a ok(2) t1 g(2) o show ?thesis by (intro new) (auto simp: activate_def)
    qed
    ultimately show ?thesis by (simp add: thread_ok_synced)
  next
    case (replaced e io)
    have "thread_ok (discard sc t2)"
      using replaced(2) t1 rev only_journal_cleanup[of "sc_generation_id sc" "th_files t2"]
      by (intro stale_revision[where p = "rs_projection cand"]) (simp_all add: discard_def only_journal_def)
    then show ?thesis using True rp replaced(1) by (simp add: finish_rollover_def)
  next
    case (kept e io)
    from kept(2) t1 have "t2 = t\<lparr>th_files := fs\<lparr>tf_io := io\<rparr>\<rparr>" by simp
    from discard_ok[OF syn fs g(1) this g(2)] True rp kept(1) show ?thesis by (simp add: finish_rollover_def)
  qed
qed

lemma begin_step:
  assumes syn: "synced t" and run: "beginGeneration marshal now index_ok b m a cu t = (r, t')"
  shows "thread_ok t'"
proof -
  define f where "f = boundary_fact b m a cu (th_state t)"
  have to: "f_to_generation_id f = next_generation t"
    using boundary_fact_sel(3)[of b m a cu "th_state t"] synced_generations(4)[OF syn] by (simp add: f_def)
  have "t' = t \<or> (\<exists>c st. prepareCommit marshal now [f] t = Inr c
      \<and> applyCommit (th_id t) (provisional_commit (next_generation t) 0 c) (th_state t) = Inr st
      \<and> validateProjectionMetadata (rs_projection (committed (c_at c) st)) (th_id t)
      \<and> t' = rollover_outcome marshal index_ok c (committed (c_at c) st) (next_generation t) t)"
    using begin_reaches[OF run f_def] synced_valid(2)[OF syn] to by simp
  then consider "t' = t" | c st where "prepareCommit marshal now [f] t = Inr c"
      "applyCommit (th_id t) (provisional_commit (next_generation t) 0 c) (th_state t) = Inr st"
      "validateProjectionMetadata (rs_projection (committed (c_at c) st)) (th_id t)"
      "t' = rollover_outcome marshal index_ok c (committed (c_at c) st) (next_generation t) t" by blast
  then show ?thesis
  proof cases
    case 2
    note c = prepareCommit_Inr[OF 2(1)]
    obtain rs t1 where stage: "stageNextGeneration marshal c (next_generation t) t = (rs, t1)" by fastforce
    obtain fs where fs: "t1 = t\<lparr>th_files := fs\<rparr>" "only_journal (next_generation t) (th_files t) fs"
      "t1 = t \<or> parseGenerationID (next_generation t) \<noteq> None"
      "\<forall>sc. rs = Inr sc \<longrightarrow> parseGenerationID (next_generation t) \<noteq> None
        \<and> map_of (tf_journals (th_files t)) (next_generation t) = None
        \<and> map_of (tf_journals fs) (next_generation t) = Some [sc] \<and> (\<exists>n. sc = framed (next_generation t) 0 n c)"
      using stage_spec[OF stage] by blast
    show ?thesis
    proof (cases rs)
      case (Inl e)
      then have "t' = t1" using 2(4) stage by (simp add: rollover_outcome_def)
      with fs synced_only_journal[OF syn fs(2)] syn show ?thesis by (auto intro: thread_ok_synced)
    next
      case (Inr sc)
      then obtain n where sc: "parseGenerationID (next_generation t) \<noteq> None"
        "map_of (tf_journals (th_files t)) (next_generation t) = None"
        "map_of (tf_journals fs) (next_generation t) = Some [sc]" "sc = framed (next_generation t) 0 n c"
        using fs(4) by blast
      have "\<exists>s. applyCommit (th_id t) sc (th_state t) = Inr s
          \<and> set_offsets (sc_end sc) (committed (c_at c) st) = committed (c_at c) s"
        by (rule applyCommit_cong[OF 2(2)]) (simp_all add: sc(4) provisional_commit_def)
      then obtain s where s: "applyCommit (th_id t) sc (th_state t) = Inr s"
        "set_offsets (sc_end sc) (committed (c_at c) st) = committed (c_at c) s" by blast
      have valid: "validateProjectionMetadata (rs_projection (committed (c_at c) s)) (th_id t)"
        using valid_set_offsets[OF 2(3), of "sc_end sc"] applyCommit_sel[OF 2(2)] s(2) sc(4)
        by (simp add: line_length_def)
      have us: "usage_ok (rs_projection (committed (c_at c) s))" using valid by (simp add: validateProjectionMetadata_def)
      have cf: "c_facts c = [f]" "c_seq c = es_next_seq t" using c(1) by simp_all
      have rev: "p_revision (rs_projection (committed (c_at c) s)) \<noteq> p_revision (th_projection t)"
        using rollover_journal(4)[OF syn f_def _ s(1) _ _ refl us] sc(4) cf c(2) by simp
      have gen: "sc_generation_id sc = next_generation t" "sc_commit sc = c" using sc(4) by simp_all
      have "thread_ok (snd (finish_rollover index_ok c (committed (c_at c) s) sc t1))"
      proof (rule finish_rollover_ok[OF syn fs(1,2) sc(1) gen(1) rev])
        fix u
        assume "th_id u = th_id t" "th_state u = committed (c_at c) s" "es_current_id u = next_generation t"
          "es_size u = sc_end sc" "es_next_seq u = c_seq (sc_commit sc) + 1"
          "tf_projection (th_files u) = ProjectionDoc (th_projection u)" "tf_journals (th_files u) = tf_journals fs"
        then show "synced u"
          using rollover_synced[OF syn f_def cf(1) sc(4) s(1) c(2) cf(2) valid fs(2) sc(2,3)] gen(2) by metis
      qed
      moreover have "t' = snd (finish_rollover index_ok c (committed (c_at c) s) sc t1)"
        using 2(4) stage Inr s(2) by (simp add: rollover_outcome_def)
      ultimately show ?thesis by simp
    qed
  qed (use syn thread_ok_synced in simp)
qed

end
