(* ===== verification/ThreadStoreProps.thy ===== *)
theory ThreadStoreProps
  imports ThreadStoreSteps
begin

text \<open>
  Threads as a state machine: every call, with any file operation failing, keeps handle and files
  together (\<open>thread_ok\<close>), so that opening the files gives the live state back.
\<close>

section \<open>Changes of the metadata alone\<close>

definition keeps_runtime :: "(instant \<Rightarrow> projection \<Rightarrow> projection) \<Rightarrow> bool" where
  "keeps_runtime change \<longleftrightarrow> (\<forall>t p. p_current_generation (change t p) = p_current_generation p
     \<and> p_generations (change t p) = p_generations p \<and> p_event_cursor (change t p) = p_event_cursor p
     \<and> p_usage_aggregated_through (change t p) = p_usage_aggregated_through p
     \<and> p_revision (change t p) = p_revision p)"

lemma changes_keep_runtime [simp]:
  "keeps_runtime (\<lambda>_. set_pending n)" "keeps_runtime (\<lambda>_ p. p\<lparr>p_alias := a\<rparr>)"
  "keeps_runtime archive_projection" "keeps_runtime (\<lambda>_. unarchive_projection)"
  by (simp_all add: keeps_runtime_def set_pending_def archive_projection_def unarchive_projection_def)

lemma replay_other_projection:
  assumes "replayCurrentGeneration tid p cs = Inr st" and "usage_ok p" and "usage_ok q"
    and "p_current_generation q = p_current_generation p" and "p_generations q = p_generations p"
    and "p_event_cursor q = p_event_cursor p"
  shows "replayCurrentGeneration tid q cs = Inr (st\<lparr>rs_projection := q\<rparr>)"
proof -
  have r: "cs \<noteq> []" "begins_generation p (hd cs)" "commit_cursor (last cs) = p_event_cursor p"
    "runtime_commits tid (gp_id (p_current_generation p)) True cs (fresh_state p) = Inr st"
    using assms(1,2) by (auto simp: replayCurrentGeneration_def cloneProjection_id split: if_splits)
  have "runtime_commits tid (gp_id (p_current_generation p)) True cs (fresh_state q) = Inr (st\<lparr>rs_projection := q\<rparr>)"
    unfolding fresh_state_projection[of q p] runtime_commits_projection r(4) by simp
  with r assms(3-6) begins_generation_cong[OF assms(4,5)] show ?thesis
    by (simp add: replayCurrentGeneration_def cloneProjection_id)
qed

lemma mutate_step:
  assumes syn: "synced t" and keep: "keeps_runtime change" and run: "mutateProjectionLocked now change t = (r, t')"
  shows "thread_ok t'"
proof -
  define q where "q = advanceProjectionRevision (truncate_ms now) (change (truncate_ms now) (th_projection t))"
  have us: "usage_ok (th_projection t)" using synced_valid(1)[OF syn] by (simp add: validateProjectionMetadata_def)
  have q: "p_current_generation q = p_current_generation (th_projection t)"
    "p_generations q = p_generations (th_projection t)" "p_event_cursor q = p_event_cursor (th_projection t)"
    "p_usage_aggregated_through q = p_usage_aggregated_through (th_projection t)"
    "p_revision q = p_revision (th_projection t) + 1"
    using keep by (simp_all add: q_def keeps_runtime_def)
  have t': "t' = t \<or> (validateProjectionMetadata q (th_id t) \<and> (\<exists>rp t1. persistProjectionValueLocked q t = (rp, t1)
      \<and> t' = (case rp of Inl e \<Rightarrow> t1 | Inr _ \<Rightarrow>
          refreshPublicLocked (t1\<lparr>th_state := (th_state t1)\<lparr>rs_projection := q\<rparr>\<rparr>))))"
    using run synced_current[OF syn] us
    by (auto simp: mutateProjectionLocked_def q_def cloneProjection_id Let_def split: if_splits sum.splits prod.splits)
  then consider "t' = t" | rp t1 where "validateProjectionMetadata q (th_id t)"
      "persistProjectionValueLocked q t = (rp, t1)"
      "t' = (case rp of Inl e \<Rightarrow> t1 | Inr _ \<Rightarrow>
          refreshPublicLocked (t1\<lparr>th_state := (th_state t1)\<lparr>rs_projection := q\<rparr>\<rparr>))" by blast
  then show ?thesis
  proof cases
    case 2
    from 2(2,1) show ?thesis
    proof (cases rule: persist_cases)
      case (ok io)
      obtain published rest where j: "map_of (tf_journals (th_files t)) (es_current_id t) = Some (published @ rest)"
        "journal_ok (th_id t) (th_state t) published rest"
        using syn by (auto simp: synced_def)
      have uq: "usage_ok q" using 2(1) by (simp add: validateProjectionMetadata_def)
      have "journal_ok (th_id t) ((th_state t)\<lparr>rs_projection := q\<rparr>) published rest"
        using j(2) replay_other_projection[OF _ us uq q(1,2,3)] q(1) by (simp add: journal_ok_def)
      then have "synced t'" using 2(1,3) ok j(1) q syn
        by (intro syncedI[of t' published rest])
          (auto simp: synced_def handle_ok_def Let_def layout_ok_def)
      then show ?thesis by (rule thread_ok_synced)
    next
      case (replaced e io)
      then show ?thesis using 2(3) q(5) by (intro stale_revision[where p = q]) simp_all
    next
      case (kept e io)
      then have "t' = t\<lparr>th_files := (th_files t)\<lparr>tf_io := io\<rparr>\<rparr>" using 2(3) by simp
      then show ?thesis by (intro thread_ok_synced synced_cong[OF syn]) simp_all
    qed
  qed (use syn thread_ok_synced in simp)
qed

section \<open>Creation\<close>

lemma createEventStore_Inr:
  assumes "createEventStore marshal now tid alias parent io = Inr (sc, t)"
  obtains n fs where "sc = framed InitialGeneration 0 n (sc_commit sc)"
    "c_seq (sc_commit sc) = 1" "c_facts (sc_commit sc) = [created_fact tid alias parent]"
    "validateCommit tid (sc_commit sc) = None"
    "t = (new_handle tid fs)\<lparr>es_size := sc_end sc, es_next_seq := 2\<rparr>"
    "tf_journals fs = [(InitialGeneration, [sc])]"
proof -
  let ?fs0 = "\<lparr>tf_projection = ProjectionMissing, tf_journals = [], tf_io = io\<rparr>"
  obtain fs1 c where c1: "create_journal InitialGeneration ?fs0 = (Inr (), fs1)"
    and c2: "prepareCommit marshal now [created_fact tid alias parent] (new_handle tid fs1) = Inr c"
    and c3: "appendCurrent marshal c (new_handle tid fs1) = (Inr sc, t)"
    using assms by (auto simp: createEventStore_def Let_def split: if_splits sum.splits prod.splits)
  obtain o1 fs2 where o: "next_outcome ?fs0 = (o1, fs2)" by fastforce
  then have j: "tf_journals fs2 = []" using next_outcome_files[of ?fs0] by simp
  have fs1: "tf_journals fs1 = [(InitialGeneration, [])]"
    using c1 o j by (auto simp: create_journal_def set_journal_def split: write_result.splits bool.splits)
  let ?t = "new_handle tid fs1"
  obtain n cs fs where a: "sc = framed (es_current_id ?t) (es_size ?t) n c"
    "map_of (tf_journals (th_files ?t)) (es_current_id ?t) = Some cs"
    "t = ?t\<lparr>th_files := fs, es_size := sc_end sc, es_next_seq := es_next_seq ?t + 1\<rparr>"
    "tf_journals fs = AList.update (es_current_id ?t) (cs @ [sc]) (tf_journals (th_files ?t))"
    by (rule appendCurrent_Inr[OF c3])
  have "t = (new_handle tid fs)\<lparr>es_size := sc_end sc, es_next_seq := 2\<rparr>" using a(3) by (simp add: new_handle_def)
  moreover have "tf_journals fs = [(InitialGeneration, [sc])]" using a(2,4) fs1 by (simp add: new_handle_def)
  ultimately show ?thesis using that[of n fs] a(1) prepareCommit_Inr[OF c2] by (simp add: new_handle_def)
qed

lemma InitialGeneration_id: "InitialGeneration = generationID 1"
  by code_simp

lemma replay_created:
  assumes "replay tid [sc] = Inr st" and "c_facts (sc_commit sc) = [created_fact tid alias parent]"
    and "c_seq (sc_commit sc) = 1"
  shows "st = (fresh_state (rs_projection st))\<lparr>rs_scope_id := InitialGeneration\<rparr>"
    and "p_event_cursor (rs_projection st) = commit_cursor sc"
    and "p_usage_aggregated_through (rs_projection st) = commit_cursor sc"
    and "p_current_generation (rs_projection st) = initial_generation 1"
    and "p_generations (rs_projection st) = [initial_generation 1]"
  using assms by (auto simp: replay_def applyCommit_def applyFact_def created_fact_def empty_fact_def Let_def
      stamp_commit_def created_projection_def fresh_state_def split: if_splits)

lemma created_synced:
  assumes "createLocked marshal now index_ok tid alias parent io = Inr t"
  shows "synced t"
proof -
  obtain sc t0 st t1 where c: "createEventStore marshal now tid alias parent io = Inr (sc, t0)"
    "replay tid [sc] = Inr st"
    and p: "persistProjectionLocked (refreshPublicLocked
      (t0\<lparr>th_state := st\<lparr>rs_projection := (rs_projection st)\<lparr>p_revision := 1\<rparr>\<rparr>\<rparr>)) = (Inr (), t)"
    using assms by (auto simp: createLocked_def Let_def split: if_splits sum.splits prod.splits)
  let ?p = "(rs_projection st)\<lparr>p_revision := 1\<rparr>"
  let ?st = "st\<lparr>rs_projection := ?p\<rparr>"
  obtain n fs where e: "sc = framed InitialGeneration 0 n (sc_commit sc)"
    "c_seq (sc_commit sc) = 1" "c_facts (sc_commit sc) = [created_fact tid alias parent]"
    "validateCommit tid (sc_commit sc) = None"
    "t0 = (new_handle tid fs)\<lparr>es_size := sc_end sc, es_next_seq := 2\<rparr>"
    "tf_journals fs = [(InitialGeneration, [sc])]"
    by (rule createEventStore_Inr[OF c(1)])
  note rc = replay_created[OF c(2) e(3,2)]
  have gen: "sc_generation_id sc = InitialGeneration" by (subst e(1)) simp
  from p have valid: "validateProjectionMetadata ?p tid"
    by (auto simp: persistProjectionLocked_def persistProjectionValueLocked_def e(5) new_handle_def split: if_splits)
  let ?u = "refreshPublicLocked (t0\<lparr>th_state := ?st\<rparr>)"
  have "persistProjectionValueLocked ?p ?u = (Inr (), t)" "validateProjectionMetadata ?p (th_id ?u)"
    using p valid e(5) by (simp_all add: persistProjectionLocked_def new_handle_def)
  then have "\<exists>io'. t = ?u\<lparr>th_files := fs\<lparr>tf_projection := ProjectionDoc ?p, tf_io := io'\<rparr>\<rparr>"
  proof (cases rule: persist_cases)
    case (ok io')
    then show ?thesis using e(5) by (intro exI[of _ io']) (simp add: new_handle_def)
  qed simp_all
  then obtain io' where t: "t = ?u\<lparr>th_files := fs\<lparr>tf_projection := ProjectionDoc ?p, tf_io := io'\<rparr>\<rparr>" by blast
  have us: "usage_ok ?p" using valid by (simp add: validateProjectionMetadata_def)
  have st: "?st = (fresh_state ?p)\<lparr>rs_scope_id := InitialGeneration\<rparr>"
    by (subst rc(1)) (simp add: fresh_state_def)
  have "replayCurrentGeneration tid ?p [sc] = Inr ((fresh_state ?p)\<lparr>rs_scope_id := InitialGeneration\<rparr>)"
    using rc(2,4) e(2,3) us
    by (simp add: replayCurrentGeneration_def cloneProjection_id begins_generation_def
        initial_generation_def apply_runtime_fact_def created_fact_def empty_fact_def)
  then have "replayCurrentGeneration tid ?p [sc] = Inr ?st" using st by simp
  then have "journal_ok tid ?st [sc] []"
    using rc(4) e(2,4) by (simp add: journal_ok_def initial_generation_def)
  moreover have "handle_ok t"
    using valid t e(5) rc(2-4) gen e(2) by (simp add: handle_ok_def new_handle_def commit_cursor_def initial_generation_def)
  moreover have "layout_ok ?p (th_files t)"
    using rc(5) t e(6) by (simp add: layout_ok_def initial_generation_def)
  ultimately show ?thesis using t e(5,6) by (intro syncedI[of t "[sc]" "[]"]) (simp_all add: new_handle_def)
qed

section \<open>The machine\<close>

text \<open>
  The calls on a Thread. \<open>Schedule\<close> fixes the outcomes of the file operations to come, so a run can
  let any of them fail.
\<close>

datatype thread_call =
    CallAppendFacts instant bool "fact list"
  | CallAppendMessages instant bool "nat \<Rightarrow> string" "message list" string "event list"
  | CallAppendEvent instant bool string event
  | CallRecordUsage instant bool string string usage "context_usage option"
  | CallNewGeneration instant bool
  | CallCompact instant bool string message bool "context_usage option"
  | CallSetPending instant bool int
  | CallAlias instant bool bool string
  | CallArchive instant
  | CallUnarchive instant
  | CallClose
  | Schedule "write_result list"

fun run_call :: "marshal \<Rightarrow> thread_call \<Rightarrow> thread \<Rightarrow> thread" where
  "run_call marshal (CallAppendFacts now ix facts) t = snd (AppendFacts marshal now ix facts t)"
| "run_call marshal (CallAppendMessages now ix fresh ms turn es) t =
     snd (appendBatchAssigned marshal now ix fresh ms turn es t)"
| "run_call marshal (CallAppendEvent now ix fresh e) t = snd (AppendEvent marshal now ix fresh e t)"
| "run_call marshal (CallRecordUsage now ix turn ref u cu) t =
     snd (RecordProviderUsage marshal now ix turn ref u cu t)"
| "run_call marshal (CallNewGeneration now ix) t = snd (BeginNewGeneration marshal now ix t)"
| "run_call marshal (CallCompact now ix fresh m a cu) t =
     snd (BeginCompactedGeneration marshal now ix fresh m a cu t)"
| "run_call marshal (CallSetPending now ix n) t = snd (SetPendingInputCount now ix n t)"
| "run_call marshal (CallAlias now av ix a) t = snd (ApplyAlias now av ix a t)"
| "run_call marshal (CallArchive now) t = snd (mutateProjectionLocked now archive_projection t)"
| "run_call marshal (CallUnarchive now) t = snd (mutateProjectionLocked now (\<lambda>_. unarchive_projection) t)"
| "run_call marshal CallClose t = Close t"
| "run_call marshal (Schedule io) t = t\<lparr>th_files := (th_files t)\<lparr>tf_io := io\<rparr>\<rparr>"

definition thread_init :: "marshal \<Rightarrow> thread \<Rightarrow> bool" where
  "thread_init marshal t \<longleftrightarrow>
     (\<exists>now ix tid alias parent io. createLocked marshal now ix tid alias parent io = Inr t)"

definition thread_step :: "marshal \<Rightarrow> thread \<Rightarrow> thread_call \<Rightarrow> thread \<Rightarrow> bool" where
  "thread_step marshal t c t' \<longleftrightarrow> t' = run_call marshal c t"

text \<open>A call on a handle that is not current changes nothing.\<close>

lemma append_ok: "thread_ok t \<Longrightarrow> thread_ok (snd (AppendFacts marshal now ix facts t))"
proof (cases "ensureProjectionCurrentLocked t")
  case (Some e)
  assume "thread_ok t"
  with Some show ?thesis by (simp add: AppendFacts_def appendFactsStoreLocked_def)
next
  case None
  assume "thread_ok t"
  with None have "synced t" by (simp add: thread_ok_def)
  then show ?thesis using append_step[OF _ prod.collapse[symmetric]] by (simp add: AppendFacts_def)
qed

lemma begin_ok: "thread_ok t \<Longrightarrow> thread_ok (snd (beginGeneration marshal now ix b m a cu t))"
proof (cases "ensureProjectionCurrentLocked t")
  case (Some e)
  assume "thread_ok t"
  with Some show ?thesis by (simp add: beginGeneration_def)
next
  case None
  assume "thread_ok t"
  with None have "synced t" by (simp add: thread_ok_def)
  then show ?thesis using begin_step[OF _ prod.collapse[symmetric]] by simp
qed

lemma mutate_ok: "keeps_runtime change \<Longrightarrow> thread_ok t \<Longrightarrow> thread_ok (snd (mutateProjectionLocked now change t))"
proof (cases "ensureProjectionCurrentLocked t")
  case (Some e)
  assume "thread_ok t"
  with Some show ?thesis by (simp add: mutateProjectionLocked_def)
next
  case None
  assume "thread_ok t" "keeps_runtime change"
  with None have "synced t" "keeps_runtime change" by (simp_all add: thread_ok_def)
  then show ?thesis using mutate_step[OF _ _ prod.collapse[symmetric]] by simp
qed

lemma frame_ok:
  assumes "thread_ok t" and "th_id u = th_id t" "th_state u = th_state t" "es_current_id u = es_current_id t"
    "es_size u = es_size t" "es_next_seq u = es_next_seq t"
    "tf_projection (th_files u) = tf_projection (th_files t)"
    "tf_journals (th_files u) = tf_journals (th_files t)"
  shows "thread_ok u"
proof -
  have "ensureProjectionCurrentLocked u = ensureProjectionCurrentLocked t"
    using assms by (simp add: ensureProjectionCurrentLocked_def readProjectionFile_def split: sum.splits)
  then show ?thesis using assms(1) synced_cong[OF _ assms(2-)] by (simp add: thread_ok_def)
qed

lemma run_call_ok:
  assumes "thread_ok t"
  shows "thread_ok (run_call marshal c t)"
proof (cases c)
  case (CallAppendMessages now ix fresh ms turn es)
  then show ?thesis using assms append_ok[OF assms]
    by (auto simp: appendBatchAssigned_def Let_def split: prod.splits sum.splits) (metis snd_conv)+
next
  case (CallAppendEvent now ix fresh e)
  then show ?thesis using assms append_ok[OF assms]
    by (auto simp: AppendEvent_def Let_def split: prod.splits sum.splits) (metis snd_conv)+
next
  case (CallRecordUsage now ix turn ref u cu)
  then show ?thesis using assms append_ok[OF assms]
    by (auto simp: RecordProviderUsage_def split: prod.splits sum.splits) (metis snd_conv)+
next
  case (CallSetPending now ix n)
  then show ?thesis using assms mutate_ok[OF changes_keep_runtime(1)[of n] assms, of now]
    by (auto simp: SetPendingInputCount_def split: prod.splits sum.splits option.splits)
next
  case (CallAlias now av ix a)
  then show ?thesis using assms mutate_ok[OF changes_keep_runtime(2)[of a] assms, of now]
    by (auto simp: ApplyAlias_def split: prod.splits sum.splits)
next
  case (CallArchive now)
  then show ?thesis using mutate_ok[OF changes_keep_runtime(3) assms, of now] by simp
next
  case (CallUnarchive now)
  then show ?thesis using mutate_ok[OF changes_keep_runtime(4) assms, of now] by simp
next
  case CallClose
  then show ?thesis using frame_ok[OF assms] by (simp add: Close_def)
next
  case (Schedule io)
  then show ?thesis using frame_ok[OF assms] by simp
qed (use append_ok[OF assms] begin_ok[OF assms] in
    \<open>simp_all add: BeginNewGeneration_def BeginCompactedGeneration_def\<close>)

interpretation thread_runs: invariant_machine "thread_init marshal" "thread_step marshal" thread_ok
  by unfold_locales (auto simp: thread_init_def thread_step_def intro: thread_ok_synced created_synced run_call_ok)

section \<open>Opening\<close>

lemma layout_entries_ok:
  assumes "\<forall>k \<in> set ks. k \<in> set wanted \<or> (\<exists>n. parseGenerationID k = Some n \<and> bound < n)" and "tf_io fs = []"
  shows "\<exists>fs1. layout_entries wanted bound ks fs = (Inr (), fs1) \<and> tf_io fs1 = []
    \<and> tf_projection fs1 = tf_projection fs
    \<and> (\<forall>k \<in> set wanted. map_of (tf_journals fs1) k = map_of (tf_journals fs) k)"
  using assms
proof (induction ks arbitrary: fs)
  case (Cons k ks)
  show ?case
  proof (cases "k \<in> set wanted")
    case True
    with Cons show ?thesis by simp
  next
    case False
    then obtain n where n: "parseGenerationID k = Some n" "bound < n" using Cons.prems(1) by auto
    obtain fs1 where "layout_entries wanted bound ks (drop_journal k fs) = (Inr (), fs1)" "tf_io fs1 = []"
      "tf_projection fs1 = tf_projection fs"
      "\<forall>x \<in> set wanted. map_of (tf_journals fs1) x = map_of (tf_journals (drop_journal k fs)) x"
      using Cons.IH[of "drop_journal k fs"] Cons.prems by (auto simp: drop_journal_def)
    then show ?thesis using False n Cons.prems(2) by (auto simp: next_outcome_def drop_journal_def)
  qed
qed simp

lemma recover_layout_ok:
  assumes "layout_ok p fs" and "generations_ok p" and "tf_io fs = []"
  shows "\<exists>fs1. recoverGenerationLayout (p_generations p) fs = (Inr (), fs1) \<and> tf_io fs1 = []
    \<and> tf_projection fs1 = tf_projection fs
    \<and> (\<forall>g \<in> set (p_generations p). map_of (tf_journals fs1) (gp_id g) = map_of (tf_journals fs) (gp_id g))"
proof -
  have g: "p_generations p \<noteq> []" "gp_ordinal (last (p_generations p)) = length (p_generations p)"
    using assms(2) registry_last(2) by (auto simp: generations_ok_def)
  have "\<forall>k \<in> set (map fst (tf_journals fs)). k \<in> set (map gp_id (p_generations p))
      \<or> (\<exists>n. parseGenerationID k = Some n \<and> length (p_generations p) < n)"
    using assms(1) by (simp add: layout_ok_def)
  from layout_entries_ok[OF this assms(3)] obtain fs1 where
    "layout_entries (map gp_id (p_generations p)) (length (p_generations p)) (map fst (tf_journals fs)) fs = (Inr (), fs1)"
    "tf_io fs1 = []" "tf_projection fs1 = tf_projection fs"
    "\<forall>k \<in> set (map gp_id (p_generations p)). map_of (tf_journals fs1) k = map_of (tf_journals fs) k"
    by blast
  with g assms(1) show ?thesis
    by (auto simp: recoverGenerationLayout_def layout_ok_def list_all_iff)
qed

lemma split_at_published:
  "check_commits tid n cs \<Longrightarrow> cs \<noteq> [] \<Longrightarrow> split_at (commit_cursor (last cs)) (cs @ rest) = Some (cs, rest)"
proof (induction cs arbitrary: n)
  case (Cons c cs)
  show ?case
  proof (cases "cs = []")
    case False
    have ck: "check_commits tid (n + 1) cs" "c_seq (sc_commit c) = n" using Cons.prems(1) by simp_all
    have "c_seq (sc_commit (last cs)) + 1 = n + 1 + length cs" using check_commits_last[OF ck(1) False] .
    moreover have "0 < length cs" using False by simp
    ultimately have "commit_cursor c \<noteq> commit_cursor (last cs)" using ck(2) by (auto simp: commit_cursor_def)
    then show ?thesis using Cons.IH[OF ck(1) False] False by simp
  qed simp
qed simp

text \<open>Opening files whose journal holds the published commits and perhaps one more.\<close>

definition openable ::
  "string \<Rightarrow> projection \<Rightarrow> thread_files \<Rightarrow> replay_state \<Rightarrow> scanned_commit list \<Rightarrow> scanned_commit list \<Rightarrow> bool" where
  "openable tid p fs st published rest \<longleftrightarrow> validateProjectionMetadata p tid
     \<and> p_usage_aggregated_through p = p_event_cursor p \<and> layout_ok p fs \<and> tf_io fs = [] \<and> rs_projection st = p
     \<and> map_of (tf_journals fs) (gp_id (p_current_generation p)) = Some (published @ rest)
     \<and> journal_ok tid st published rest"

lemma open_files:
  assumes "openable tid p fs st published rest"
  shows "\<exists>fs1. openEventStore now tid p fs =
    (if rest = [] \<or> usageOnlyCommit (hd rest)
     then (case finish_open now tid rest False st of Inl e \<Rightarrow> Inl e
           | Inr (rcv, st1) \<Rightarrow> Inr (opened tid p (published @ rest) st1 fs1, rcv))
     else Inl InvalidMetadata, fs1)"
proof -
  have o: "validateProjectionMetadata p tid" "p_usage_aggregated_through p = p_event_cursor p" "layout_ok p fs"
    "tf_io fs = []" "rs_projection st = p" "map_of (tf_journals fs) (gp_id (p_current_generation p)) = Some (published @ rest)"
    and j: "journal_ok tid st published rest"
    using assms by (auto simp: openable_def)
  have rp: "replayCurrentGeneration tid p published = Inr st"
    and ck: "check_commits tid (gp_boundary_seq (p_current_generation p)) (published @ rest)"
    and short: "length rest \<le> 1" using j o(5) by (auto simp: journal_ok_def)
  have gok: "generations_ok p" using o(1) by (simp add: validateProjectionMetadata_def)
  obtain fs1 where fs1: "recoverGenerationLayout (p_generations p) fs = (Inr (), fs1)"
    "\<forall>g \<in> set (p_generations p). map_of (tf_journals fs1) (gp_id g) = map_of (tf_journals fs) (gp_id g)"
    using recover_layout_ok[OF o(3) gok o(4)] by blast
  have "p_current_generation p \<in> set (p_generations p)" using gok by (simp add: generations_ok_def)
  then have "map_of (tf_journals fs1) (gp_id (p_current_generation p)) = Some (published @ rest)"
    using fs1(2) o(6) by simp
  then have rd: "readGenerationCommits tid (p_current_generation p) fs1 = Inr (published @ rest)"
    using ck replay_last(1)[OF rp] by (simp add: readGenerationCommits_def)
  have "split_at (p_event_cursor p) (published @ rest) = Some (published, rest)"
    using split_at_published[OF check_commits_prefix[OF ck] replay_last(1)[OF rp], of rest] replay_last(2)[OF rp] by simp
  moreover have "length rest = 1 \<longleftrightarrow> rest \<noteq> []" using short by (cases rest) auto
  ultimately have sp: "splitCommitsAtCursor (published @ rest) (p_event_cursor p) =
      (if rest = [] \<or> usageOnlyCommit (hd rest) then Inr (published, rest) else Inl InvalidMetadata)"
    using short by (simp add: splitCommitsAtCursor_def)
  have "recoverUsageAggregate tid fs1 (p_event_cursor p) (rs_projection st) = Inr (False, rs_projection st)"
    using o(2,5) by (simp add: recoverUsageAggregate_def)
  with fs1(1) rd sp rp show ?thesis
    by (intro exI[of _ fs1]) (simp add: openEventStore_def split: sum.splits)
qed

lemma synced_openable:
  assumes "synced t" and "map_of (tf_journals (th_files t)) (es_current_id t) = Some cs"
    and "journal_size cs = es_size t" and "tf_io (th_files t) = []"
  shows "openable (th_id t) (th_projection t) (th_files t) (th_state t) cs []"
proof -
  obtain published rest where j: "cs = published @ rest" "journal_ok (th_id t) (th_state t) published rest"
    using assms(1,2) by (auto simp: synced_def)
  have "rest = []" using journal_size_published[OF j(2)] j(1) assms(1,3) by (simp add: synced_def handle_ok_def Let_def)
  with j assms show ?thesis by (auto simp: openable_def synced_def handle_ok_def Let_def)
qed


lemma reach_calls:
  "reach (thread_init marshal) (thread_step marshal) t \<Longrightarrow>
   reach (thread_init marshal) (thread_step marshal) (fold (run_call marshal) cs t)"
proof (induction cs arbitrary: t)
  case (Cons c cs)
  have "reach (thread_init marshal) (thread_step marshal) (run_call marshal c t)"
    by (rule reach.move[OF Cons.prems, of c]) (simp add: thread_step_def)
  then show ?case by (simp add: Cons.IH)
qed simp

text \<open>A Thread with one Turn started, after a rollover whose last step reported an error.\<close>

definition wit_marshal :: marshal where
  "wit_marshal c = Some 100"

definition wit_created :: thread where
  "wit_created = (case createLocked wit_marshal 5000000 True ''0'' ''main'' [] [] of
     Inr t \<Rightarrow> t | Inl _ \<Rightarrow> new_handle [] \<lparr>tf_projection = ProjectionMissing, tf_journals = [], tf_io = []\<rparr>)"

definition wit_thread :: thread where
  "wit_thread = fold (run_call wit_marshal)
     [CallAppendEvent 6000000 True ''e1'' (new_event ''turn.started'' ''t1'' JNull),
      Schedule [WriteOk, WriteOk, WriteOk, WriteFailed True], CallNewGeneration 7000000 True,
      CallRecordUsage 8000000 True ''t1'' ''a:b'' \<lparr>input_tokens = 3, output_tokens = 2, cached_input_tokens = 1\<rparr> None]
     wit_created"

lemma wit_reach: "reach (thread_init wit_marshal) (thread_step wit_marshal) wit_thread"
proof -
  have "isl (createLocked wit_marshal 5000000 True ''0'' ''main'' [] []) = False" by code_simp
  then obtain t where t: "createLocked wit_marshal 5000000 True ''0'' ''main'' [] [] = Inr t"
    by (cases "createLocked wit_marshal 5000000 True ''0'' ''main'' [] []") simp_all
  then have "wit_created = t" by (simp add: wit_created_def)
  with t have "thread_init wit_marshal wit_created" unfolding thread_init_def by blast
  then have "reach (thread_init wit_marshal) (thread_step wit_marshal) wit_created" by (rule reach.start)
  then show ?thesis unfolding wit_thread_def by (rule reach_calls)
qed

lemma wit_evaluated:
  "let t = wit_thread; p = th_projection t in ensureProjectionCurrentLocked t = None \<and> tf_io (th_files t) = []
   \<and> map_option journal_size (map_of (tf_journals (th_files t)) (es_current_id t)) = Some (es_size t)
   \<and> th_id t = ''0'' \<and> es_current_id t = ''g000002'' \<and> es_next_seq t = 5 \<and> \<not> th_closed t
   \<and> p_retention_state p = RetentionActive \<and> p_created_at p = 5000000
   \<and> validateProjectionMetadata p ''0'' \<and> cur_seq (p_event_cursor p) = 4 \<and> 0 < es_size t"
  by code_simp

lemma wit_current:
  "ensureProjectionCurrentLocked wit_thread = None" "tf_io (th_files wit_thread) = []"
  "map_option journal_size (map_of (tf_journals (th_files wit_thread)) (es_current_id wit_thread))
   = Some (es_size wit_thread)"
  "th_id wit_thread = ''0''" "es_current_id wit_thread = ''g000002''" "es_next_seq wit_thread = 5"
  "\<not> th_closed wit_thread" "p_retention_state (th_projection wit_thread) = RetentionActive"
  "p_created_at (th_projection wit_thread) = 5000000" "validateProjectionMetadata (th_projection wit_thread) ''0''"
  "cur_seq (p_event_cursor (th_projection wit_thread)) = 4" "0 < es_size wit_thread"
  using wit_evaluated unfolding Let_def by blast+


section \<open>A commit that was not published\<close>

lemma append_record_io: "append_record marshal g k c fs = (Inr sc, fs') \<Longrightarrow> tf_io fs' = tl (tf_io fs)"
  by (auto simp: append_record_def next_outcome_def set_journal_def Let_def
      split: option.splits if_splits list.splits write_result.splits bool.splits)

lemma appendCurrent_io:
  assumes "appendCurrent marshal c t = (r, t')"
  shows "isl r \<Longrightarrow> es_next_seq t' = es_next_seq t" and "\<not> isl r \<Longrightarrow> tf_io (th_files t') = tl (tf_io (th_files t))"
  using assms append_record_io[of marshal "es_current_id t" "es_size t" c "th_files t"]
  by (auto simp: appendCurrent_def split: if_splits prod.splits sum.splits)

lemma later_update_valid:
  assumes "validateProjectionMetadata (advanceProjectionRevision a q) i" and "a \<le> b" and "b \<noteq> 0"
  shows "validateProjectionMetadata (advanceProjectionRevision b q) i"
proof -
  have "times_ok (advanceProjectionRevision b q) i"
    using assms by (auto simp: validateProjectionMetadata_def times_ok_def split: option.splits)
  moreover have "generations_ok (advanceProjectionRevision b q) = generations_ok (advanceProjectionRevision a q)"
    by (simp add: generations_ok_def advanceProjectionRevision_def)
  moreover have "usage_ok (advanceProjectionRevision b q) = usage_ok (advanceProjectionRevision a q)"
    "cursors_ok (advanceProjectionRevision b q) = cursors_ok (advanceProjectionRevision a q)"
    by (simp_all add: usage_ok_def cursors_ok_def)
  ultimately show ?thesis using assms(1) by (simp add: validateProjectionMetadata_def)
qed

text \<open>What an append leaves behind when it reaches the journal and the document is not replaced.\<close>

lemma unpublished_append:
  assumes syn: "synced t" and cs: "map_of (tf_journals (th_files t)) (es_current_id t) = Some cs" "journal_size cs = es_size t"
    and io: "tf_io (th_files t) = [WriteOk, WriteFailed False]"
    and run: "AppendFacts marshal now ix facts t = (r, t')" and written: "es_next_seq t' \<noteq> es_next_seq t"
  obtains sc s where "r = Inl ProjectionPersistError" "tf_projection (th_files t') = ProjectionDoc (th_projection t)"
    "tf_io (th_files t') = []" "th_id t' = th_id t"
    "tf_journals (th_files t') = AList.update (es_current_id t) (cs @ [sc]) (tf_journals (th_files t))"
    "applyCommit (th_id t) sc (th_state t) = Inr s" "c_facts (sc_commit sc) = facts" "c_at (sc_commit sc) = truncate_ms now"
    "th_state t' = committed (truncate_ms now) s"
    "validateProjectionMetadata (rs_projection (committed (truncate_ms now) s)) (th_id t)"
    "validateCommit (th_id t) (sc_commit sc) = None" "c_seq (sc_commit sc) = es_next_seq t" "sc_end (last cs) < sc_end sc"
proof -
  have "t' \<noteq> t" using written by blast
  then obtain c cand where al: "\<not> th_closed t" "p_retention_state (th_projection t) = RetentionActive"
    and nb: "\<not> list_ex (\<lambda>f. is_boundary (f_type f)) facts"
    and prep: "prepareAppendLocked marshal now facts t = Inr (c, cand)" and t': "t' = append_outcome marshal c cand t"
    using append_reaches[of marshal now ix facts t r t'] run by (auto simp: AppendFacts_def)
  obtain ra t1 where ra: "appendCurrent marshal c t = (ra, t1)" by fastforce
  have "\<not> isl ra"
    using appendCurrent_io(1)[OF ra] t' ra written by (auto simp: append_outcome_def isl_def)
  then obtain sc where sc: "ra = Inr sc" by (cases ra) auto
  obtain n ds fs where a: "sc = framed (es_current_id t) (es_size t) n c"
    "map_of (tf_journals (th_files t)) (es_current_id t) = Some ds"
    "t1 = t\<lparr>th_files := fs, es_size := sc_end sc, es_next_seq := es_next_seq t + 1\<rparr>"
    "tf_projection fs = tf_projection (th_files t)"
    "tf_journals fs = AList.update (es_current_id t) (ds @ [sc]) (tf_journals (th_files t))"
    by (rule appendCurrent_Inr[OF ra[unfolded sc]])
  have fio: "tf_io fs = [WriteFailed False]" using appendCurrent_io(2)[OF ra] a(3) io sc by simp
  obtain s where s: "applyCommit (th_id t) sc (th_state t) = Inr s"
    "set_offsets (sc_end sc) cand = committed (c_at c) s"
    "validateProjectionMetadata (rs_projection (set_offsets (sc_end sc) cand)) (th_id t)"
    "validateCommit (th_id t) c = None" "c_seq c = es_next_seq t" "c_facts c = facts"
    by (rule append_candidate[OF syn prep nb a(1)])
  obtain st0 where "prepareCommit marshal now facts t = Inr c" using prepareAppend_Inr[OF prep] by metis
  from prepareCommit_Inr(1)[OF this] have at': "c_at c = truncate_ms now" by simp
  let ?u = "refreshPublicLocked (t1\<lparr>th_state := committed (c_at c) s\<rparr>)"
  have pub: "publish (set_offsets (sc_end sc) cand) t1 = (Inl IoFailure, ?u\<lparr>th_files := fs\<lparr>tf_io := []\<rparr>\<rparr>)"
    using s(2,3) a(3) fio
    by (simp add: publish_def persistProjectionLocked_def persistProjectionValueLocked_def write_projection_def next_outcome_def)
  then have u: "t' = ?u\<lparr>th_files := fs\<lparr>tf_io := []\<rparr>\<rparr>" using t' ra sc s(3) by (simp add: append_outcome_def)
  have "r = Inl ProjectionPersistError"
    using run al nb prep ra sc s(3) pub synced_current[OF syn]
    by (simp add: AppendFacts_def appendFactsStoreLocked_def publish_def Let_def)
  moreover have "sc_end (last cs) < sc_end sc" if "cs \<noteq> []"
    using that cs(2) a(1) by (simp add: journal_size_def)
  moreover have "cs \<noteq> []" using cs syn synced_valid(4)[OF syn] by (auto simp: journal_size_def)
  moreover have "tf_projection (th_files t) = ProjectionDoc (th_projection t)" using syn by (simp add: synced_def)
  ultimately show ?thesis using that[of sc s] u a cs(1) s at' by simp
qed

text \<open>C36: when a commit reaches the journal and writing \<^verbatim>\<open>thread.json\<close> then fails, the call reports
  \<^verbatim>\<open>ProjectionPersistError\<close>, and what opening the Thread does depends on the commit. A commit of usage
  facts alone is taken in: the opened Thread has the state the failed call had built, with a later
  update time at most, so no recorded usage is lost or counted twice. Any other commit is refused as
  invalid metadata.\<close>

theorem unpublished_commit_recovery:
  assumes "reach (thread_init marshal) (thread_step marshal) t" and "ensureProjectionCurrentLocked t = None"
    and "map_of (tf_journals (th_files t)) (es_current_id t) = Some cs" and "journal_size cs = es_size t"
    and run: "AppendFacts marshal now ix facts (t\<lparr>th_files := (th_files t)\<lparr>tf_io := [WriteOk, WriteFailed False]\<rparr>\<rparr>) = (r, t')"
    and written: "es_next_seq t' \<noteq> es_next_seq t" and clock: "0 < truncate_ms later"
  shows "r = Inl ProjectionPersistError \<and> readProjectionFile (th_id t) (th_files t') = Inr (th_projection t)
    \<and> (\<exists>fs. if list_all (\<lambda>f. f_type f = FactUsageRecorded) facts
         then \<exists>u. openEventStore later (th_id t) (th_projection t) (th_files t') = (Inr (u, True), fs)
           \<and> th_state u = (th_state t')\<lparr>rs_projection :=
               (th_projection t')\<lparr>p_updated_at := max (truncate_ms later) (truncate_ms now)\<rparr>\<rparr>
         else openEventStore later (th_id t) (th_projection t) (th_files t') = (Inl InvalidMetadata, fs))"
proof -
  let ?t = "t\<lparr>th_files := (th_files t)\<lparr>tf_io := [WriteOk, WriteFailed False]\<rparr>\<rparr>"
  let ?p = "th_projection t" and ?T = "max (truncate_ms later) (truncate_ms now)"
  have syn0: "synced t" using thread_runs.reach_inv[OF assms(1)] assms(2) by (simp add: thread_ok_def)
  then have syn: "synced ?t" by (rule synced_cong) simp_all
  have pre: "map_of (tf_journals (th_files ?t)) (es_current_id ?t) = Some cs" "journal_size cs = es_size ?t"
    "tf_io (th_files ?t) = [WriteOk, WriteFailed False]" "es_next_seq t' \<noteq> es_next_seq ?t"
    using assms(3,4) written by simp_all
  obtain sc s where a: "r = Inl ProjectionPersistError" "tf_projection (th_files t') = ProjectionDoc (th_projection ?t)"
    "tf_io (th_files t') = []" "th_id t' = th_id ?t"
    "tf_journals (th_files t') = AList.update (es_current_id ?t) (cs @ [sc]) (tf_journals (th_files ?t))"
    "applyCommit (th_id ?t) sc (th_state ?t) = Inr s" "c_facts (sc_commit sc) = facts" "c_at (sc_commit sc) = truncate_ms now"
    "th_state t' = committed (truncate_ms now) s"
    "validateProjectionMetadata (rs_projection (committed (truncate_ms now) s)) (th_id ?t)"
    "validateCommit (th_id ?t) (sc_commit sc) = None" "c_seq (sc_commit sc) = es_next_seq ?t" "sc_end (last cs) < sc_end sc"
    by (rule unpublished_append[OF syn pre(1-3) run pre(4)])
  have base: "openable (th_id t) ?p ((th_files t)\<lparr>tf_io := []\<rparr>) (th_state t) cs []"
    using synced_openable[of "t\<lparr>th_files := (th_files t)\<lparr>tf_io := []\<rparr>\<rparr>" cs] synced_cong[OF syn0] assms(3,4) by simp
  then have j: "journal_ok (th_id t) (th_state t) cs []" by (simp add: openable_def)
  have h: "es_current_id t = gp_id (p_current_generation ?p)" "es_next_seq t = cur_seq (p_event_cursor ?p) + 1"
    "layout_ok ?p (th_files t)" "validateProjectionMetadata ?p (th_id t)"
    using syn0 by (auto simp: synced_def handle_ok_def Let_def)
  have ck: "check_commits (th_id t) (gp_boundary_seq (p_current_generation ?p)) cs" and ne: "cs \<noteq> []"
    and cur: "commit_cursor (last cs) = p_event_cursor ?p"
    using j replay_last[of "th_id t" ?p cs "th_state t"] by (auto simp: journal_ok_def)
  have "c_seq (sc_commit sc) = gp_boundary_seq (p_current_generation ?p) + length cs"
    using check_commits_last[OF ck ne] a(12) h(2) arg_cong[OF cur, of cur_seq] by (simp add: commit_cursor_def)
  then have "journal_ok (th_id t) (th_state t) cs [sc]"
    using j ck a(11,13) by (simp add: journal_ok_def check_commits_snoc)
  moreover have "layout_ok ?p (th_files t')"
    using layout_update[OF h(3), of "es_current_id t" "th_files t'"] assms(3) a(5) by (force dest: map_of_SomeD)
  ultimately have o: "openable (th_id t) ?p (th_files t') (th_state t) cs [sc]"
    using base a(3,5) h(1) by (simp add: openable_def)
  have us: "usageOnlyCommit sc \<longleftrightarrow> list_all (\<lambda>f. f_type f = FactUsageRecorded) facts"
    using a(7) validateCommit_facts(4)[OF a(11)] by (simp add: usageOnlyCommit_def)
  have upd: "p_updated_at (rs_projection s) = truncate_ms now"
    using applyCommit_Inr[OF a(6)] a(8) by (metis stamp_commit_def projection.select_convs(6) projection.surjective
        projection.update_convs replay_state.select_convs(2) replay_state.surjective replay_state.update_convs(2))
  have "finish_open later (th_id t) [sc] False (th_state t) = Inr (True, committed ?T s)"
    using a(6,10) upd clock later_update_valid[of "truncate_ms now" "rs_projection s" "th_id t" ?T]
    by (simp add: finish_open_def committed_def Let_def)
  moreover have "committed ?T s = (th_state t')\<lparr>rs_projection := (th_projection t')\<lparr>p_updated_at := ?T\<rparr>\<rparr>"
    using a(9) by (simp add: committed_def advanceProjectionRevision_def)
  ultimately show ?thesis using open_files[OF o, of later] us a(1,2) h(4)
    by (auto simp: readProjectionFile_def opened_def)
qed

definition wit_failing :: thread where
  "wit_failing = wit_thread\<lparr>th_files := (th_files wit_thread)\<lparr>tf_io := [WriteOk, WriteFailed False]\<rparr>\<rparr>"

definition wit_usage :: "fact list" where
  "wit_usage = [usage_fact ''t1'' ''a:b'' \<lparr>input_tokens = 7, output_tokens = 1, cached_input_tokens = 0\<rparr> None]"

theorem unpublished_commit_recovery_witness:
  "let t' = snd (AppendFacts wit_marshal 9000000 True wit_usage wit_failing) in
   \<exists>u fs. openEventStore 10000000 ''0'' (th_projection wit_thread) (th_files t') = (Inr (u, True), fs)
     \<and> p_token_usage (th_projection u) = p_token_usage (th_projection t')"
proof -
  obtain r t' where run: "AppendFacts wit_marshal 9000000 True wit_usage wit_failing = (r, t')" by fastforce
  obtain cs where cs: "map_of (tf_journals (th_files wit_thread)) (es_current_id wit_thread) = Some cs"
    "journal_size cs = es_size wit_thread" using wit_current(3) by auto
  have seq: "es_next_seq (snd (AppendFacts wit_marshal 9000000 True wit_usage wit_failing)) = 6"
    by code_simp
  have us: "list_all (\<lambda>f. f_type f = FactUsageRecorded) wit_usage" by code_simp
  have "es_next_seq t' \<noteq> es_next_seq wit_thread" using seq run wit_current(6) by simp
  moreover have "0 < truncate_ms 10000000" by code_simp
  ultimately show ?thesis
    using unpublished_commit_recovery[OF wit_reach wit_current(1) cs run[unfolded wit_failing_def], of 10000000] us run wit_current(4)
    by auto
qed

end
