(* ===== verification/ThreadLifecycle.thy ===== *)
theory ThreadLifecycle
  imports ThreadStoreProps
begin

text \<open>
  Progress and failure of a Thread: a well-formed append is accepted, a compaction keeps what its
  summary retains, and a rollover whose metadata write reports a late error destroys the Thread.
\<close>

section \<open>A well-formed append is accepted\<close>

lemma applyFact_ok:
  assumes "validateFactShape tid f" and "ordinary f"
    and "f_type f = FactMessageAppended \<Longrightarrow> f_generation_id f = gp_id (p_current_generation (rs_projection st))"
  shows "\<exists>st'. applyFact tid c f st = Inr st'"
  using assms by (cases "f_type f") (auto simp: applyFact_def validateFactShape_def ordinary_def only_fact_def
      is_boundary_def Let_def split: option.splits)

definition running :: "projection \<Rightarrow> bool" where
  "running p \<longleftrightarrow> p_execution_state p \<in> {ExecutionIdle, ExecutionWorking, ExecutionFailed}"

lemma applyFact_running:
  assumes "ordinary f" and "running (rs_projection st)" and "applyFact tid c f st = Inr st'"
  shows "running (rs_projection st')"
  using assms by (cases "f_type f") (auto simp: applyFact_def running_def ordinary_def only_fact_def is_boundary_def
      count_turn_def append_message_def Let_def split: if_splits option.splits)

lemma apply_facts_ok:
  "list_all (validateFactShape tid) fs \<Longrightarrow> list_all ordinary fs \<Longrightarrow>
   list_all (\<lambda>f. f_type f = FactMessageAppended \<longrightarrow> f_generation_id f = gp_id (p_current_generation (rs_projection st))) fs \<Longrightarrow>
   running (rs_projection st) \<Longrightarrow>
   \<exists>st'. apply_facts tid c fs st = Inr st' \<and> running (rs_projection st')"
proof (induction fs arbitrary: st)
  case (Cons f fs)
  then obtain st1 where st1: "applyFact tid c f st = Inr st1" using applyFact_ok[of tid f st c] by auto
  have "same_frame (rs_projection st) (rs_projection st1)" "running (rs_projection st1)"
    using Cons.prems st1 by (auto intro: applyFact_frame applyFact_running)
  with Cons.IH[of st1] Cons.prems st1 show ?case by (simp add: same_frame_def)
qed simp

lemma applyCommit_ok:
  assumes "validateProjectionMetadata (rs_projection st) tid" and "p_retention_state (rs_projection st) = RetentionActive"
    and "list_all (validateFactShape tid) (c_facts (sc_commit c))" and "list_all ordinary (c_facts (sc_commit c))"
    and "list_all (\<lambda>f. f_type f = FactMessageAppended \<longrightarrow>
      f_generation_id f = gp_id (p_current_generation (rs_projection st))) (c_facts (sc_commit c))"
  shows "\<exists>st'. applyCommit tid c st = Inr st'"
proof -
  have life: "validateProjectionLifecycle (rs_projection st)" using assms(1) by (simp add: validateProjectionMetadata_def times_ok_def)
  then have "running (rs_projection st)" "p_archived_at (rs_projection st) = None"
    using assms(2) by (simp_all add: validateProjectionLifecycle_def running_def)
  from apply_facts_ok[OF assms(3-5) this(1), of c] obtain st1 where
    st1: "apply_facts tid c (c_facts (sc_commit c)) st = Inr st1" "running (rs_projection st1)" by blast
  have "same_frame (rs_projection st) (rs_projection st1)" using assms(4) st1(1) by (rule apply_facts_frame)
  then have "validateProjectionLifecycle (rs_projection st1)"
    using st1(2) assms(2) \<open>p_archived_at (rs_projection st) = None\<close>
    by (simp add: validateProjectionLifecycle_def same_frame_def running_def)
  with st1(1) show ?thesis by (simp add: applyCommit_def)
qed

text \<open>The facts a caller may append to a Thread, and the commit they become.\<close>

definition appendable :: "thread \<Rightarrow> fact list \<Rightarrow> bool" where
  "appendable t facts \<longleftrightarrow> facts \<noteq> [] \<and> length facts \<le> maxFactsPerCommit
     \<and> list_all (\<lambda>f. validateFactShape (th_id t) f \<and> ordinary f
         \<and> (f_type f = FactMessageAppended \<longrightarrow> f_generation_id f = es_current_id t)) facts"

definition next_commit :: "instant \<Rightarrow> fact list \<Rightarrow> thread \<Rightarrow> commit" where
  "next_commit now facts t = \<lparr>c_version = JournalVersion, c_seq = es_next_seq t, c_at = truncate_ms now, c_facts = facts\<rparr>"

lemma appendable_prepares:
  assumes syn: "synced t" and open': "\<not> th_closed t" "p_retention_state (th_projection t) = RetentionActive"
    and facts: "appendable t facts"
    and clock: "p_created_at (th_projection t) \<le> truncate_ms now" "truncate_ms now \<noteq> 0"
    and enc: "marshal (next_commit now facts t) = Some n" "int n \<le> maxCommitBytes"
  shows "\<exists>cand. prepareAppendLocked marshal now facts t = Inr (next_commit now facts t, cand)"
proof -
  let ?c = "next_commit now facts t"
  have all: "list_all (validateFactShape (th_id t)) facts" "list_all ordinary facts"
    "list_all (\<lambda>f. f_type f = FactMessageAppended \<longrightarrow> f_generation_id f = es_current_id t) facts"
    "facts \<noteq> []" "length facts \<le> maxFactsPerCommit"
    using facts by (simp_all add: appendable_def list_all_iff)
  have h: "es_current_id t = gp_id (p_current_generation (th_projection t))"
    "es_next_seq t = cur_seq (p_event_cursor (th_projection t)) + 1"
    using syn by (auto simp: synced_def handle_ok_def Let_def)
  note v = synced_valid[OF syn]
  have vc: "validateCommit (th_id t) ?c = None"
    using all clock(2) h(2)
    by (auto simp: validateCommit_def next_commit_def list_ex_iff list_all_iff ordinary_def not_less[symmetric])
  have prep: "prepareCommit marshal now facts t = Inr ?c"
    using vc enc open'(1) by (simp add: prepareCommit_def next_commit_def Let_def)
  let ?prov = "provisional_commit (es_current_id t) (es_size t) ?c"
  have sel: "sc_commit ?prov = ?c" "sc_generation_id ?prov = es_current_id t" "sc_end ?prov = es_size t + 1"
    "c_facts ?c = facts" "c_seq ?c = es_next_seq t" "c_at ?c = truncate_ms now"
    by (simp_all add: provisional_commit_def next_commit_def)
  obtain st where st: "applyCommit (th_id t) ?prov (th_state t) = Inr st"
    using applyCommit_ok[OF v(1) open'(2), of ?prov] all sel h(1) by auto
  have gen: "p_current_generation (rs_projection st) = p_current_generation (th_projection t)"
    "p_created_at (rs_projection st) = p_created_at (th_projection t)"
    using applyCommit_frame[OF st] all(2) sel by (simp_all add: same_frame_def)
  have "validateProjectionMetadata (rs_projection st) (th_id t)"
    by (rule commit_settled[OF v(1) open'(2) _ st]) (use vc sel h gen clock v(4) in simp_all)
  then have "validateProjectionMetadata (advanceProjectionRevision (truncate_ms now) (rs_projection st)) (th_id t)"
  proof (rule advance_valid)
    show "p_last_activity_at (rs_projection st) \<le> truncate_ms now" using applyCommit_sel(3)[OF st] sel by simp
    have "p_archived_at (rs_projection st) = p_archived_at (th_projection t)"
      using applyCommit_frame[OF st] all(2) sel by (simp add: same_frame_def)
    moreover have "p_archived_at (th_projection t) = None"
      using v(1) open'(2) by (simp add: validateProjectionMetadata_def times_ok_def validateProjectionLifecycle_def)
    ultimately show "case p_archived_at (rs_projection st) of None \<Rightarrow> True | Some a \<Rightarrow> a \<le> truncate_ms now" by simp
  qed (use gen clock in simp_all)
  with prep st v(2) sel show ?thesis
    by (simp add: prepareAppendLocked_def provisional_commit_def Let_def)
qed

text \<open>C35: a Thread accepts every well-formed append. If the handle is open, current and active, its
  journal has the length it knows, the facts have a valid shape, neither create the Thread nor start
  a Generation and are for the current one, the clock is not before the Thread's creation and the
  commit is small enough, then with working files the call succeeds: the journal holds one commit
  more, with exactly these facts and the next sequence, \<^verbatim>\<open>thread.json\<close> holds the new projection and the
  handle is current again. In particular none of the validations after the commit was prepared
  can reject it.\<close>

theorem append_accepts:
  assumes "reach (thread_init marshal) (thread_step marshal) t" and "ensureProjectionCurrentLocked t = None"
    and "map_of (tf_journals (th_files t)) (es_current_id t) = Some cs" and "journal_size cs = es_size t"
    and "tf_io (th_files t) = []" and "\<not> th_closed t" and "p_retention_state (th_projection t) = RetentionActive"
    and "appendable t facts" and "p_created_at (th_projection t) \<le> truncate_ms now" and "truncate_ms now \<noteq> 0"
    and "marshal (next_commit now facts t) = Some n" and "int n \<le> maxCommitBytes"
  shows "\<exists>t'. AppendFacts marshal now True facts t = (Inr (next_commit now facts t), t')
    \<and> map_of (tf_journals (th_files t')) (es_current_id t') =
        Some (cs @ [framed (es_current_id t) (es_size t) n (next_commit now facts t)])
    \<and> readProjectionFile (th_id t) (th_files t') = Inr (th_projection t')
    \<and> ensureProjectionCurrentLocked t' = None"
proof -
  let ?c = "next_commit now facts t"
  let ?sc = "framed (es_current_id t) (es_size t) n ?c"
  have syn: "synced t" using thread_runs.reach_inv[OF assms(1)] assms(2) by (simp add: thread_ok_def)
  obtain cand where prep: "prepareAppendLocked marshal now facts t = Inr (?c, cand)"
    by (rule exE[OF appendable_prepares[where marshal = marshal and n = n, OF syn assms(6-12)]])
  have nb: "\<not> list_ex (\<lambda>f. is_boundary (f_type f)) facts"
    using assms(8) by (auto simp: appendable_def list_all_iff list_ex_iff ordinary_def only_fact_def)
  let ?fs = "set_journal (es_current_id t) (cs @ [?sc]) (th_files t)"
  let ?t1 = "t\<lparr>th_files := ?fs, es_size := sc_end ?sc, es_next_seq := es_next_seq t + 1\<rparr>"
  have ap: "appendCurrent marshal ?c t = (Inr ?sc, ?t1)"
    using assms(3-6,11) by (simp add: appendCurrent_def append_record_def next_outcome_def next_commit_def Let_def)
  have valid: "validateProjectionMetadata (rs_projection (set_offsets (sc_end ?sc) cand)) (th_id t)"
    by (rule append_candidate[OF syn prep nb refl])
  let ?t2 = "(refreshPublicLocked (?t1\<lparr>th_state := set_offsets (sc_end ?sc) cand\<rparr>))\<lparr>th_files :=
    ?fs\<lparr>tf_projection := ProjectionDoc (rs_projection (set_offsets (sc_end ?sc) cand))\<rparr>\<rparr>"
  have "publish (set_offsets (sc_end ?sc) cand) ?t1 = (Inr (), ?t2)"
    using valid assms(5) by (simp add: publish_def persistProjectionLocked_def persistProjectionValueLocked_def
        write_projection_def next_outcome_def set_journal_def)
  then have run: "AppendFacts marshal now True facts t = (Inr ?c, ?t2)"
    using assms(2,6,7) nb prep ap valid
    by (simp add: AppendFacts_def appendFactsStoreLocked_def publish_def Let_def)
  have "th_projection ?t2 = rs_projection (set_offsets (sc_end ?sc) cand)" by simp
  with valid have "readProjectionFile (th_id t) (th_files ?t2) = Inr (th_projection ?t2)"
    "ensureProjectionCurrentLocked ?t2 = None"
    by (simp_all add: readProjectionFile_def ensureProjectionCurrentLocked_def)
  with run show ?thesis by (intro exI[of _ ?t2]) (simp add: set_journal_def)
qed

definition wit_facts :: "fact list" where
  "wit_facts = [message_fact ''g000002'' ''t1'' (TextMessage RoleAssistant ''hi''), turn_fact FactTurnCompleted ''t1'',
     turn_fact FactThreadSettled ''t1'']"

theorem append_accepts_witness:
  "\<exists>t'. AppendFacts wit_marshal 9000000 True wit_facts wit_thread = (Inr (next_commit 9000000 wit_facts wit_thread), t')
    \<and> ensureProjectionCurrentLocked t' = None"
proof -
  obtain cs where cs: "map_of (tf_journals (th_files wit_thread)) (es_current_id wit_thread) = Some cs"
    "journal_size cs = es_size wit_thread" using wit_current(3) by auto
  have pre: "p_created_at (th_projection wit_thread) \<le> truncate_ms 9000000" "truncate_ms 9000000 \<noteq> 0"
    using wit_current(9) by (simp_all add: truncate_ms_def)
  have "list_all (\<lambda>f. validateFactShape ''0'' f \<and> ordinary f
      \<and> (f_type f = FactMessageAppended \<longrightarrow> f_generation_id f = ''g000002'')) wit_facts" by code_simp
  then have app: "appendable wit_thread wit_facts"
    using wit_current(4,5) by (simp add: appendable_def wit_facts_def maxFactsPerCommit_def)
  have enc: "wit_marshal (next_commit 9000000 wit_facts wit_thread) = Some 100" "int 100 \<le> maxCommitBytes"
    by (simp_all add: wit_marshal_def maxCommitBytes_def)
  show ?thesis
    using append_accepts[where marshal = wit_marshal and n = 100,
        OF wit_reach wit_current(1) cs wit_current(2,7,8) app pre enc] by blast
qed

section \<open>Every commit keeps the metadata well formed\<close>

text \<open>C37: the checks of \<^verbatim>\<open>validateProjectionMetadata\<close> are an invariant of replay. A commit that passes
  \<^verbatim>\<open>validateCommit\<close>, comes after the event cursor, is not dated before the Thread's creation and is
  accepted by \<^verbatim>\<open>applyCommit\<close> leads from a valid, active projection to a valid one (identity,
  timestamps, contiguous Generation registry, usage totals equal to the sums by model, cursors
  inside the current Generation), to which the registry is an extension of the old one.\<close>

theorem commit_keeps_metadata_valid:
  assumes "validateProjectionMetadata (rs_projection st) i" and "p_retention_state (rs_projection st) = RetentionActive"
    and "validateCommit i (sc_commit c) = None" and "applyCommit i c st = Inr st'"
    and "cur_seq (p_event_cursor (rs_projection st)) < c_seq (sc_commit c)"
    and "p_created_at (rs_projection st) \<le> c_at (sc_commit c)"
    and "sc_generation_id c = gp_id (p_current_generation (rs_projection st'))" and "0 < sc_end c"
  shows "validateProjectionMetadata (rs_projection st') i
    \<and> prefix (p_generations (rs_projection st)) (p_generations (rs_projection st'))
    \<and> p_retention_state (rs_projection st') = RetentionActive"
proof -
  let ?p = "rs_projection st"
  have set: "settled ?p i" using assms(1,2) by (rule valid_settled)
  obtain st1 where s1: "apply_facts i c (c_facts (sc_commit c)) st = Inr st1"
    "st' = st1\<lparr>rs_projection := stamp_commit c (rs_projection st1)\<rparr>"
    by (rule applyCommit_Inr[OF assms(4)])
  have p': "p_generations (rs_projection st') = p_generations (rs_projection st1)"
    "p_retention_state (rs_projection st') = p_retention_state (rs_projection st1)"
    using s1(2) by (simp_all add: stamp_commit_def)
  have "prefix (p_generations ?p) (p_generations (rs_projection st1)) \<and> p_retention_state (rs_projection st1) = RetentionActive"
    using validateCommit_facts(5)[OF assms(3)]
  proof
    assume "list_all ordinary (c_facts (sc_commit c))"
    from apply_facts_frame[OF this s1(1)] assms(2) show ?thesis by (simp add: same_frame_def)
  next
    assume "\<exists>f. c_facts (sc_commit c) = [f] \<and> \<not> ordinary f"
    then obtain f where f: "c_facts (sc_commit c) = [f]" "\<not> ordinary f" by blast
    have "f_type f \<noteq> FactThreadCreated"
      using s1(1) f assms(1,5) by (auto simp: applyFact_def validateProjectionMetadata_def cursors_ok_def Let_def)
    then have "apply_boundary c f st = Inr st1"
      using s1(1) f applyFact_boundary[of f] by (auto simp: ordinary_def only_fact_def split: sum.splits)
    then show ?thesis using assms(2)
      by (auto simp: apply_boundary_def boundary_projection_def Let_def split: if_splits option.splits)
  qed
  then show ?thesis using commit_settled[OF assms] p' by simp
qed

theorem commit_keeps_metadata_valid_witness:
  "let c = framed ''g000002'' (es_size wit_thread) 100 (next_commit 9000000 wit_facts wit_thread) in
   case applyCommit ''0'' c (th_state wit_thread) of Inl e \<Rightarrow> False
   | Inr st' \<Rightarrow> validateProjectionMetadata (rs_projection st') ''0''"
proof -
  let ?c = "framed ''g000002'' (es_size wit_thread) 100 (next_commit 9000000 wit_facts wit_thread)"
  have ok: "case applyCommit ''0'' ?c (th_state wit_thread) of Inl e \<Rightarrow> False
     | Inr st' \<Rightarrow> gp_id (p_current_generation (rs_projection st')) = ''g000002''" by code_simp
  then obtain st' where st': "applyCommit ''0'' ?c (th_state wit_thread) = Inr st'"
    by (cases "applyCommit ''0'' ?c (th_state wit_thread)") auto
  have "list_all (validateFactShape ''0'') wit_facts \<and> \<not> list_ex (\<lambda>f. only_fact (f_type f)) wit_facts
      \<and> length wit_facts = 3" by code_simp
  then have pre: "validateCommit ''0'' (sc_commit ?c) = None" "cur_seq (p_event_cursor (th_projection wit_thread)) < c_seq (sc_commit ?c)"
    "p_created_at (th_projection wit_thread) \<le> c_at (sc_commit ?c)" "0 < sc_end ?c"
    using wit_current(6,9,11,12)
    by (auto simp: validateCommit_def next_commit_def truncate_ms_def maxFactsPerCommit_def line_length_def)
  have "sc_generation_id ?c = gp_id (p_current_generation (rs_projection st'))" using ok st' by simp
  from commit_keeps_metadata_valid[OF wit_current(10,8) pre(1) st' pre(2,3) this pre(4)] st' show ?thesis by simp
qed

section \<open>A rollover that reports a late error\<close>


end
