(* ===== verification/ProtocolRepair.thy ===== *)
theory ProtocolRepair
  imports ToolEvents ThreadLifecycle
begin

text \<open>
  The repair of a transcript whose last tool calls have no result (\<^verbatim>\<open>protocol_repair.go\<close> of
  \<^verbatim>\<open>internal/framework/thread\<close>). After a crash the history may end with tool calls; the events in the
  journal tell which of them had started and which had an outcome. Maps are association lists.
  \<open>encode_input\<close> is \<^verbatim>\<open>json.Marshal\<close> on the input of a call, \<open>None\<close> when it fails.
\<close>

section \<open>Calls as the events show them\<close>

record recoverable_tool_call = tool_call_payload +
  declared_input :: "tool_input option"
  started :: bool
  rc_turn_id :: string
  rc_outcome :: "recorded_outcome option"

definition zero_call :: recoverable_tool_call where
  "zero_call = \<lparr>tc_tool_use_id = [], tc_name = [], tc_input = None, tc_timeout_seconds = 0,
     tc_iter = 0, tc_call_index = 0, tc_message_id = [], declared_input = None, started = False,
     rc_turn_id = [], rc_outcome = None\<rparr>"

type_synonym calls = "(string \<times> recoverable_tool_call) list"

definition call_of :: "calls \<Rightarrow> string \<Rightarrow> recoverable_tool_call" where
  "call_of cs i = (case map_of cs i of None \<Rightarrow> zero_call | Some c \<Rightarrow> c)"

definition requested_call :: "tool_call_payload \<Rightarrow> recoverable_tool_call" where
  "requested_call p = tool_call_payload.extend p
     \<lparr>declared_input = tc_input p, started = False, rc_turn_id = [], rc_outcome = None\<rparr>"

definition started_call :: "string \<Rightarrow> tool_call_payload \<Rightarrow> recoverable_tool_call \<Rightarrow> recoverable_tool_call" where
  "started_call turn p c = c\<lparr>tc_tool_use_id := tc_tool_use_id p,
     tc_name := (if tc_name p \<noteq> [] then tc_name p else tc_name c),
     tc_input := (if tc_input p \<noteq> None then tc_input p else tc_input c),
     tc_iter := tc_iter p, tc_call_index := tc_call_index p, tc_message_id := tc_message_id p,
     rc_turn_id := turn, started := True\<rparr>"

definition finished_call ::
  "string \<Rightarrow> tool_call_payload \<Rightarrow> recorded_outcome option \<Rightarrow> recoverable_tool_call \<Rightarrow> recoverable_tool_call" where
  "finished_call turn p outcome c = c\<lparr>tc_tool_use_id := tc_tool_use_id p, tc_name := tc_name p,
     tc_iter := tc_iter p, tc_call_index := tc_call_index p, tc_message_id := tc_message_id p,
     rc_turn_id := turn, rc_outcome := outcome\<rparr>"

definition project_event :: "event \<Rightarrow> calls \<Rightarrow> calls" where
  "project_event e cs =
     (if ev_type e = ''tool.requested'' then
        (case dec_requested (ev_payload e) of None \<Rightarrow> cs
         | Some p \<Rightarrow> if tc_tool_use_id p = [] then cs
             else AList.update (tc_tool_use_id p) (requested_call p) cs)
      else if ev_type e = ''tool.running'' \<or> ev_type e = ''tool.input_resolved'' then
        (case dec_started (ev_payload e) of None \<Rightarrow> cs
         | Some p \<Rightarrow> if tc_tool_use_id p = [] then cs
             else AList.update (tc_tool_use_id p)
                    (started_call (ev_turn_id e) p (call_of cs (tc_tool_use_id p))) cs)
      else if ev_type e = ''tool.completed'' then
        (case dec_completed (ev_payload e) of None \<Rightarrow> cs
         | Some (p, outcome) \<Rightarrow> if tc_tool_use_id p = [] then cs
             else AList.update (tc_tool_use_id p)
                    (finished_call (ev_turn_id e) p outcome (call_of cs (tc_tool_use_id p))) cs)
      else if ev_type e = ''tool.errored'' then
        (case dec_errored (ev_payload e) of None \<Rightarrow> cs
         | Some (p, outcome) \<Rightarrow> if tc_tool_use_id p = [] then cs
             else AList.update (tc_tool_use_id p)
                    (finished_call (ev_turn_id e) p outcome (call_of cs (tc_tool_use_id p))) cs)
      else if ev_type e = ''tool.outcome_unknown'' then
        (case dec_unknown (ev_payload e) of None \<Rightarrow> cs | Some p \<Rightarrow> AList.delete (tc_tool_use_id p) cs)
      else cs)"

definition projectRecoverableToolCalls :: "event list \<Rightarrow> calls" where
  "projectRecoverableToolCalls journal = fold project_event journal []"

section \<open>Calls without a result\<close>

text \<open>What the history adds to a call the events may know.\<close>

definition history_call :: "string \<Rightarrow> block \<Rightarrow> recoverable_tool_call \<Rightarrow> recoverable_tool_call" where
  "history_call message_id b c = c\<lparr>tc_tool_use_id := tool_use_id b,
     tc_name := (if tc_name c = [] then tool_name b else tc_name c),
     tc_input := (if tc_input c = None then tool_input b else tc_input c),
     declared_input := (if declared_input c = None then tool_input b else declared_input c),
     tc_message_id := (if tc_message_id c = [] then message_id else tc_message_id c)\<rparr>"

type_synonym open_calls = "calls \<times> string list"

definition scan_block :: "calls \<Rightarrow> string \<Rightarrow> block \<Rightarrow> open_calls \<Rightarrow> open_calls" where
  "scan_block executions message_id b s =
     (let i = tool_use_id b;
          s1 = (if block_type b = BlockToolUse \<and> i \<noteq> []
                then (AList.update i (history_call message_id b (call_of executions i)) (fst s),
                      if map_of (fst s) i = None then snd s @ [i] else snd s)
                else s)
      in if block_type b = BlockToolResult \<and> i \<noteq> [] then (AList.delete i (fst s1), snd s1) else s1)"

definition scan_message :: "calls \<Rightarrow> message \<Rightarrow> open_calls \<Rightarrow> open_calls" where
  "scan_message executions m s = fold (scan_block executions (msg_id m)) (blocks_of m) s"

definition scan_history :: "calls \<Rightarrow> message list \<Rightarrow> open_calls" where
  "scan_history executions history = fold (scan_message executions) history ([], [])"

section \<open>The repair\<close>

record protocol_repair =
  pr_tool_use_id :: string
  pr_tool_name :: string
  pr_repair_message_id :: string
  pr_reason :: string
  pr_turn_id :: string
  pr_provider_iteration :: int
  pr_call_index :: int
  pr_assistant_message_id :: string
  pr_effective_input :: "tool_input option"
  pr_recovery_code :: string

definition toolNotStartedContent :: string where
  "toolNotStartedContent = ''TOOL_NOT_STARTED: JueX recovered this tool call before execution started. No tool or pre-tool policy was invoked; issue a new tool call if it is still needed.''"

definition toolOutcomeUnknownContent :: string where
  "toolOutcomeUnknownContent = ''TOOL_OUTCOME_UNKNOWN: JueX recorded that this tool call started, but no durable outcome was recorded. It may already have produced external side effects. Do not retry it until the external state has been checked.''"

text \<open>\<^verbatim>\<open>reflect.DeepEqual\<close> on two inputs: nil equals only nil, maps have the same entries.\<close>

definition same_input :: "tool_input option \<Rightarrow> tool_input option \<Rightarrow> bool" where
  "same_input a b = (case (a, b) of (None, None) \<Rightarrow> True
     | (Some x, Some y) \<Rightarrow> list_all (\<lambda>k. map_of x k = map_of y k) (map fst x @ map fst y)
     | _ \<Rightarrow> False)"

type_synonym encode_input = "tool_input \<Rightarrow> string option"

definition recoveredToolResult :: "encode_input \<Rightarrow> recoverable_tool_call \<Rightarrow> block \<times> string" where
  "recoveredToolResult encode_input c = (case rc_outcome c of
      Some outcome \<Rightarrow> ((ro_block outcome)\<lparr>block_type := BlockToolResult\<rparr>, ''OUTCOME_RECORDED'')
    | None \<Rightarrow>
        (let content = (if \<not> started c then toolNotStartedContent
               else toolOutcomeUnknownContent @ (case tc_input c of None \<Rightarrow> []
                 | Some inp \<Rightarrow> if same_input (declared_input c) (Some inp) then []
                     else (case encode_input inp of None \<Rightarrow> []
                       | Some encoded \<Rightarrow> CHR 0x0A # ''Effective input at execution: '' @ encoded)))
         in (empty_block\<lparr>block_type := BlockToolResult, tool_use_id := tc_tool_use_id c,
               tool_name := tc_name c, block_content := content, is_error := True\<rparr>,
             if started c then ''TOOL_OUTCOME_UNKNOWN'' else ''TOOL_NOT_STARTED'')))"

definition repair_block :: "encode_input \<Rightarrow> string \<times> recoverable_tool_call \<Rightarrow> block" where
  "repair_block encode_input ic = (let b = fst (recoveredToolResult encode_input (snd ic)) in
     b\<lparr>tool_use_id := fst ic, tool_name := (if tool_name b = [] then tc_name (snd ic) else tool_name b)\<rparr>)"

definition repair_entry :: "encode_input \<Rightarrow> string \<Rightarrow> string \<Rightarrow> string \<times> recoverable_tool_call \<Rightarrow> protocol_repair" where
  "repair_entry encode_input message_id reason ic = (let c = snd ic in
     \<lparr>pr_tool_use_id = fst ic, pr_tool_name = tc_name c, pr_repair_message_id = message_id,
      pr_reason = reason, pr_turn_id = rc_turn_id c, pr_provider_iteration = tc_iter c,
      pr_call_index = tc_call_index c, pr_assistant_message_id = tc_message_id c,
      pr_effective_input = tc_input c, pr_recovery_code = snd (recoveredToolResult encode_input c)\<rparr>)"

text \<open>The calls without a result, in the order in which they were declared.\<close>

definition unanswered :: "open_calls \<Rightarrow> (string \<times> recoverable_tool_call) list" where
  "unanswered s = concat (map (\<lambda>i. case map_of (fst s) i of None \<Rightarrow> [] | Some c \<Rightarrow> [(i, c)]) (snd s))"

fun recorded_message_id :: "(string \<times> recoverable_tool_call) list \<Rightarrow> string" where
  "recorded_message_id [] = []"
| "recorded_message_id ((i, c) # cs) = (case rc_outcome c of
      None \<Rightarrow> recorded_message_id cs
    | Some outcome \<Rightarrow> (if ro_message_id outcome = [] then recorded_message_id cs else ro_message_id outcome))"

definition repair_message :: "encode_input \<Rightarrow> (string \<times> recoverable_tool_call) list \<Rightarrow> message" where
  "repair_message encode_input ics = Message (recorded_message_id ics) RoleUser
     (Some (map (repair_block encode_input) ics)) KindToolResult False [] None"

definition RepairProtocolTail ::
  "marshal \<Rightarrow> encode_input \<Rightarrow> instant \<Rightarrow> bool \<Rightarrow> (nat \<Rightarrow> string) \<Rightarrow> string \<Rightarrow> protocol_repair list thread_op" where
  "RepairProtocolTail marshal encode_input now index_ok fresh reason t =
     (let s = scan_history (projectRecoverableToolCalls (rs_events (th_state t))) (th_history t);
          ics = unanswered s
      in if fst s = [] then (Inr [], t)
         else case appendBatchAssigned marshal now index_ok fresh [repair_message encode_input ics] [] [] t of
           (Inl e, t1) \<Rightarrow> (Inl e, t1)
         | (Inr ms, t1) \<Rightarrow> (Inr (map (repair_entry encode_input (msg_id (hd ms)) reason) ics), t1))"

text \<open>The payload of \<^verbatim>\<open>transcript.repaired\<close>, with the \<^verbatim>\<open>omitempty\<close> fields left out when empty.\<close>

definition opt_string :: "string \<Rightarrow> string \<Rightarrow> (string \<times> json) list" where
  "opt_string k s = (if s = [] then [] else [(k, JStr s)])"

definition repair_json :: "protocol_repair \<Rightarrow> json" where
  "repair_json r = JObj ([(''tool_use_id'', JStr (pr_tool_use_id r))] @ opt_string ''tool_name'' (pr_tool_name r)
     @ [(''repair_message_id'', JStr (pr_repair_message_id r))] @ opt_string ''reason'' (pr_reason r)
     @ opt_string ''turn_id'' (pr_turn_id r)
     @ [(''provider_iteration'', JNum (pr_provider_iteration r)), (''call_index'', JNum (pr_call_index r))]
     @ opt_string ''assistant_message_id'' (pr_assistant_message_id r)
     @ (case pr_effective_input r of None \<Rightarrow> [] | Some [] \<Rightarrow> [] | Some inp \<Rightarrow> [(''effective_input'', JObj inp)])
     @ [(''recovery_code'', JStr (pr_recovery_code r))])"

definition repaired_call :: "protocol_repair \<Rightarrow> tool_call_payload" where
  "repaired_call r = \<lparr>tc_tool_use_id = pr_tool_use_id r, tc_name = pr_tool_name r,
     tc_input = pr_effective_input r, tc_timeout_seconds = 0, tc_iter = pr_provider_iteration r,
     tc_call_index = pr_call_index r, tc_message_id = pr_assistant_message_id r\<rparr>"

definition ProjectProtocolRepairEvents :: "string \<Rightarrow> string \<Rightarrow> protocol_repair list \<Rightarrow> event list" where
  "ProjectProtocolRepairEvents turn reason repairs =
     (if repairs = [] then []
      else map (\<lambda>r. new_event ''tool.outcome_unknown'' (pr_turn_id r)
                 (OutcomeUnknown (repaired_call r) toolOutcomeUnknownContent))
             (filter (\<lambda>r. pr_recovery_code r = ''TOOL_OUTCOME_UNKNOWN'') repairs)
           @ [new_event ''transcript.repaired'' turn
                (JObj (opt_string ''reason'' reason @ [(''repairs'', JArr (map repair_json repairs))]))])"

end
