(* ===== verification/ProtocolRepairProps.thy ===== *)
theory ProtocolRepairProps
  imports ProtocolRepair
begin

text \<open>
  What \<^verbatim>\<open>RepairProtocolTail\<close> achieves: the scan finds the calls the transcript validation finds, the
  appended message answers each of them once, and what it says of a call follows the events.
\<close>

section \<open>The scan and the validation agree\<close>

text \<open>\<open>vp\<close> are the pending results of \<^verbatim>\<open>ValidateToolTranscript\<close>, \<open>s\<close> the state of the scan.\<close>

definition scan_agrees :: "pending_tool_result list \<Rightarrow> open_calls \<Rightarrow> bool" where
  "scan_agrees vp s \<longleftrightarrow> distinct (snd s) \<and> [] \<notin> set (snd s) \<and> keys (fst s) \<subseteq> set (snd s)
     \<and> filter (\<lambda>i. i \<in> keys (fst s)) (snd s) = map fst vp"

lemma removePending_distinct:
  assumes "removePendingToolResult vp i = (vp', True)" and "distinct (map fst vp)"
  shows "map fst vp' = filter (\<lambda>j. j \<noteq> i) (map fst vp)"
  using assms
  by (induction vp i arbitrary: vp' rule: removePendingToolResult.induct)
    (auto split: if_splits prod.splits intro!: filter_True[symmetric])

lemma scan_declare:
  assumes "scan_agrees vp s" and "tool_use_id b \<notin> set (snd s)" "tool_use_id b \<noteq> []" "block_type b = BlockToolUse"
  shows "scan_agrees (vp @ [(tool_use_id b, tool_name b)]) (scan_block ex mid b s)"
    and "set (snd (scan_block ex mid b s)) = insert (tool_use_id b) (set (snd s))"
proof -
  let ?i = "tool_use_id b"
  have none: "map_of (fst s) ?i = None" using assms(1,2) by (auto simp: scan_agrees_def map_of_eq_None_iff)
  then have s': "scan_block ex mid b s =
      (AList.update ?i (history_call mid b (call_of ex ?i)) (fst s), snd s @ [?i])"
    using assms(3,4) by (simp add: scan_block_def Let_def)
  have "filter (\<lambda>i. i \<in> insert ?i (keys (fst s))) (snd s) = filter (\<lambda>i. i \<in> keys (fst s)) (snd s)"
    using assms(2) by (intro filter_cong) auto
  then show "scan_agrees (vp @ [(?i, tool_name b)]) (scan_block ex mid b s)"
    using assms by (auto simp: s' scan_agrees_def dom_update)
  show "set (snd (scan_block ex mid b s)) = insert ?i (set (snd s))" by (simp add: s')
qed

lemma scan_answer:
  assumes "scan_agrees vp s" and "removePendingToolResult vp (tool_use_id b) = (vp', True)"
    and "tool_use_id b \<noteq> []" "block_type b = BlockToolResult"
  shows "scan_agrees vp' (scan_block ex mid b s)" and "snd (scan_block ex mid b s) = snd s"
proof -
  let ?i = "tool_use_id b"
  have s': "scan_block ex mid b s = (AList.delete ?i (fst s), snd s)"
    using assms(3,4) by (simp add: scan_block_def Let_def)
  have "distinct (map fst vp)" using assms(1) by (auto simp: scan_agrees_def dest: sym[of _ "map fst vp"])
  with assms(1,2) have "map fst vp' = filter (\<lambda>j. j \<noteq> ?i) (filter (\<lambda>i. i \<in> keys (fst s)) (snd s))"
    by (simp add: removePending_distinct scan_agrees_def)
  then have vp': "map fst vp' = filter (\<lambda>i. i \<in> keys (fst s) - {?i}) (snd s)"
    by (simp only: filter_filter) (rule filter_cong, auto)
  have "keys (AList.delete ?i (fst s)) = keys (fst s) - {?i}" by (simp add: delete_keys)
  with assms(1) vp' show "scan_agrees vp' (scan_block ex mid b s)"
    by (simp add: s' scan_agrees_def) blast
  show "snd (scan_block ex mid b s) = snd s" by (simp add: s')
qed

lemma scan_other:
  assumes "\<not> (block_type b = BlockToolUse \<and> tool_use_id b \<noteq> [])" "\<not> (block_type b = BlockToolResult \<and> tool_use_id b \<noteq> [])"
  shows "scan_block ex mid b s = s"
  unfolding scan_block_def Let_def using assms by (simp only: if_False)

lemma scan_blocks_agree:
  assumes "validate_blocks a mi bi bs vp = Inr vp'" and "scan_agrees vp s"
    and "distinct (use_ids bs)" "set (use_ids bs) \<inter> set (snd s) = {}"
  shows "scan_agrees vp' (fold (scan_block ex mid) bs s)
    \<and> set (snd (fold (scan_block ex mid) bs s)) = set (snd s) \<union> set (use_ids bs)"
  using assms
proof (induction bs arbitrary: bi vp s)
  case (Cons b bs)
  let ?s = "scan_block ex mid b s"
  consider (call) "block_type b = BlockToolUse" "tool_use_id b \<noteq> []"
    | (answer) "block_type b = BlockToolResult" "tool_use_id b \<noteq> []"
    | (other) "\<not> (block_type b = BlockToolUse \<and> tool_use_id b \<noteq> [])"
        "\<not> (block_type b = BlockToolResult \<and> tool_use_id b \<noteq> [])" by blast
  then show ?case
  proof cases
    case call
    with Cons.prems have ok: "validate_blocks a mi (Suc bi) bs (vp @ [(tool_use_id b, tool_name b)]) = Inr vp'"
      and new: "tool_use_id b \<notin> set (snd s)" "tool_use_id b \<notin> set (use_ids bs)"
      and rest: "distinct (use_ids bs)" "set (use_ids bs) \<inter> set (snd s) = {}"
      by (auto split: if_splits)
    note sd = scan_declare[OF Cons.prems(2) new(1) call(2,1), of ex mid]
    have "set (use_ids bs) \<inter> set (snd ?s) = {}" using sd(2) new(2) rest(2) by auto
    from Cons.IH[OF ok sd(1) rest(1) this] sd(2) call show ?thesis by auto
  next
    case answer
    with Cons.prems obtain q where rem: "removePendingToolResult vp (tool_use_id b) = (q, True)"
      and ok: "validate_blocks a mi (Suc bi) bs q = Inr vp'"
      by (auto split: if_splits prod.splits bool.splits)
    note sa = scan_answer[OF Cons.prems(2) rem answer(2,1), of ex mid]
    have "distinct (use_ids bs)" "set (use_ids bs) \<inter> set (snd ?s) = {}"
      using Cons.prems(3,4) answer sa(2) by auto
    from Cons.IH[OF ok sa(1) this] sa(2) answer show ?thesis by auto
  next
    case other
    then have s: "?s = s" by (rule scan_other)
    from other Cons.prems(1) have ok: "validate_blocks a mi (Suc bi) bs vp = Inr vp'"
      by (auto split: if_splits block_type.splits)
    have "use_ids (b # bs) = use_ids bs" using other by auto
    with Cons.IH[OF ok Cons.prems(2)] Cons.prems(3,4) show ?thesis by (simp add: s)
  qed
qed simp

lemma scan_messages_agree:
  assumes "validate_messages mi ms vp = Inr vp'" and "scan_agrees vp s"
    and "distinct (use_ids (all_blocks ms))" "set (use_ids (all_blocks ms)) \<inter> set (snd s) = {}"
  shows "scan_agrees vp' (fold (scan_message ex) ms s)"
  using assms
proof (induction ms arbitrary: mi vp s)
  case (Cons m ms)
  from Cons.prems(1) obtain q where q: "validate_blocks (vp \<noteq> []) mi 0 (blocks_of m) vp = Inr q"
    and r: "validate_messages (Suc mi) ms q = Inr vp'" by (auto split: sum.splits)
  have parts: "distinct (use_ids (blocks_of m))" "distinct (use_ids (all_blocks ms))"
    "set (use_ids (blocks_of m)) \<inter> set (use_ids (all_blocks ms)) = {}"
    "set (use_ids (blocks_of m)) \<inter> set (snd s) = {}" "set (use_ids (all_blocks ms)) \<inter> set (snd s) = {}"
    using Cons.prems(3,4) by auto
  note sb = scan_blocks_agree[OF q Cons.prems(2) parts(1,4), of ex "msg_id m"]
  have "set (use_ids (all_blocks ms)) \<inter> set (snd (scan_message ex m s)) = {}"
    using sb parts by (auto simp: scan_message_def)
  with Cons.IH[OF r _ parts(2)] sb show ?case by (simp add: scan_message_def)
qed simp

lemma scan_history_agrees:
  "validate_messages 0 ms [] = Inr vp \<Longrightarrow> distinct (use_ids (all_blocks ms)) \<Longrightarrow>
   scan_agrees vp (scan_history ex ms)"
  unfolding scan_history_def by (rule scan_messages_agree) (auto simp: scan_agrees_def)

lemma unanswered_ids:
  "map fst (unanswered s) = filter (\<lambda>i. i \<in> keys (fst s)) (snd s)"
proof -
  have "map fst (concat (map (\<lambda>i. case map_of c i of None \<Rightarrow> [] | Some x \<Rightarrow> [(i, x)]) ids))
      = filter (\<lambda>i. i \<in> keys c) ids" for c :: calls and ids
  proof (induction ids)
    case (Cons i ids)
    have "i \<in> keys c \<longleftrightarrow> map_of c i \<noteq> None" by (simp add: map_of_eq_None)
    with Cons show ?case by (cases "map_of c i") simp_all
  qed simp
  then show ?thesis by (simp add: unanswered_def)
qed

lemma unanswered_sel: "(i, c) \<in> set (unanswered s) \<Longrightarrow> map_of (fst s) i = Some c"
  by (auto simp: unanswered_def split: option.splits)

section \<open>The repaired transcript\<close>

lemma validate_messages_append:
  "validate_messages mi (xs @ ys) vp = (case validate_messages mi xs vp of Inl e \<Rightarrow> Inl e
     | Inr q \<Rightarrow> validate_messages (mi + length xs) ys q)"
  by (induction mi xs vp rule: validate_messages.induct) (simp_all split: sum.split)

lemma validate_answers:
  "map tool_use_id bs = map fst vp \<Longrightarrow> \<forall>b \<in> set bs. block_type b = BlockToolResult \<and> tool_use_id b \<noteq> [] \<Longrightarrow>
   validate_blocks a mi bi bs vp = Inr []"
proof (induction bs arbitrary: bi vp)
  case (Cons b bs)
  from Cons.prems(1) obtain p ps where "vp = p # ps" "fst p = tool_use_id b" "map tool_use_id bs = map fst ps"
    by (cases vp) auto
  with Cons.IH[of ps "Suc bi"] Cons.prems(2) show ?case by simp
qed simp

lemma repair_block_sel:
  "tool_use_id (repair_block enc ic) = fst ic" "block_type (repair_block enc ic) = BlockToolResult"
  by (simp_all add: repair_block_def recoveredToolResult_def Let_def split: option.split)

lemma repaired_validates:
  assumes "validate_messages 0 ms [] = Inr vp" and "map fst ics = map fst vp" and "[] \<notin> set (map fst ics)"
    and "blocks_of m = map (repair_block enc) ics"
  shows "ValidateToolTranscript (ms @ [m]) = Inr ()"
proof -
  have "\<forall>b \<in> set (map (repair_block enc) ics). block_type b = BlockToolResult \<and> tool_use_id b \<noteq> []"
    using assms(3) by (force simp: repair_block_sel)
  moreover have "map tool_use_id (map (repair_block enc) ics) = map fst vp"
    using assms(2) by (simp add: repair_block_sel comp_def)
  ultimately show ?thesis using assms(1,4)
    by (simp add: ValidateToolTranscript_def validate_messages_append validate_answers)
qed

lemma appended_history:
  assumes "appendBatchAssigned marshal now ix fresh [m] turn [] t = (Inr ms, t')"
  shows "ms = [prepareMessage (fresh 0) m]"
    and "th_history t' = rs_provider_messages (th_state t) @ [prepareMessage (fresh 0) m]"
proof -
  let ?m = "prepareMessage (fresh 0) m"
  let ?f = "message_fact (gp_id (p_current_generation (th_projection t))) turn ?m"
  obtain c where run: "AppendFacts marshal now ix [?f] t = (Inr c, t')" and ms: "ms = [?m]"
    using assms by (auto simp: appendBatchAssigned_def Let_def split: if_splits sum.splits prod.splits)
  show "ms = [?m]" by (rule ms)
  obtain cand t1 and sc :: scanned_commit where prep: "prepareAppendLocked marshal now [?f] t = Inr (c, cand)"
    and fin: "persistProjectionLocked (refreshPublicLocked (t1\<lparr>th_state := set_offsets (sc_end sc) cand\<rparr>)) = (Inr (), t')"
    using run by (auto simp: AppendFacts_def appendFactsStoreLocked_def Let_def
        split: if_splits option.splits sum.splits prod.splits intro: that)
  have "c_facts c = [?f]"
    using prep by (auto simp: prepareAppendLocked_def prepareCommit_def Let_def split: if_splits option.splits sum.splits)
  with prep have "rs_provider_messages cand = rs_provider_messages (th_state t) @ [?m]"
    by (auto simp: prepareAppendLocked_def applyCommit_def applyFact_def message_fact_def empty_fact_def
        append_message_def cloneReplayState_def Let_def split: if_splits sum.splits)
  moreover have "th_history t' = rs_provider_messages (set_offsets (sc_end sc) cand)"
    using fin by (auto simp: persistProjectionLocked_def persistProjectionValueLocked_def refreshPublicLocked_def
        split: if_splits prod.splits)
  ultimately show "th_history t' = rs_provider_messages (th_state t) @ [?m]" by (simp add: set_offsets_def Let_def)
qed

section \<open>What the events say of a call\<close>

definition names :: "string \<Rightarrow> tool_call_payload option \<Rightarrow> bool" where
  "names i p \<longleftrightarrow> map_option tc_tool_use_id p = Some i"

definition starts :: "string \<Rightarrow> event \<Rightarrow> bool" where
  "starts i e \<longleftrightarrow> ev_type e \<in> {''tool.running'', ''tool.input_resolved''} \<and> names i (dec_started (ev_payload e))"

definition resets :: "string \<Rightarrow> event \<Rightarrow> bool" where
  "resets i e \<longleftrightarrow> (ev_type e = ''tool.requested'' \<and> names i (dec_requested (ev_payload e)))
     \<or> (ev_type e = ''tool.outcome_unknown'' \<and> names i (dec_unknown (ev_payload e)))"

definition outcome_event :: "event \<Rightarrow> (tool_call_payload \<times> recorded_outcome option) option" where
  "outcome_event e = (if ev_type e = ''tool.completed'' then dec_completed (ev_payload e)
     else if ev_type e = ''tool.errored'' then dec_errored (ev_payload e) else None)"

definition finishes :: "string \<Rightarrow> event \<Rightarrow> bool" where
  "finishes i e \<longleftrightarrow> names i (map_option fst (outcome_event e))"

definition started_last :: "event list \<Rightarrow> string \<Rightarrow> bool" where
  "started_last es i = (case find (\<lambda>e. starts i e \<or> resets i e) (rev es) of None \<Rightarrow> False | Some e \<Rightarrow> starts i e)"

definition last_outcome :: "event list \<Rightarrow> string \<Rightarrow> recorded_outcome option" where
  "last_outcome es i = (case find (\<lambda>e. finishes i e \<or> resets i e) (rev es) of None \<Rightarrow> None
     | Some e \<Rightarrow> (case outcome_event e of None \<Rightarrow> None | Some (p, outcome) \<Rightarrow> outcome))"

definition recovery_code :: "event list \<Rightarrow> string \<Rightarrow> string" where
  "recovery_code es i = (if last_outcome es i \<noteq> None then ''OUTCOME_RECORDED''
     else if started_last es i then ''TOOL_OUTCOME_UNKNOWN'' else ''TOOL_NOT_STARTED'')"

lemma call_of_update [simp]: "call_of (AList.update k v cs) i = (if i = k then v else call_of cs i)"
  by (simp add: call_of_def AList.update_conv')

lemma call_of_delete [simp]: "call_of (AList.delete k cs) i = (if i = k then zero_call else call_of cs i)"
  by (simp add: call_of_def AList.delete_conv')

lemma call_of_Nil [simp]: "call_of [] i = zero_call"
  by (simp add: call_of_def)

lemma call_sel [simp]:
  "started (requested_call p) = False" "rc_outcome (requested_call p) = None"
  "started zero_call = False" "rc_outcome zero_call = None"
  "started (started_call u p c) = True" "rc_outcome (started_call u p c) = rc_outcome c"
  "started (finished_call u p r c) = started c" "rc_outcome (finished_call u p r c) = r"
  "started (history_call m b c) = started c" "rc_outcome (history_call m b c) = rc_outcome c"
  by (simp_all add: requested_call_def tool_call_payload.extend_def zero_call_def started_call_def
      finished_call_def history_call_def)

lemma project_started:
  assumes "i \<noteq> []"
  shows "started (call_of (project_event e cs) i)
    \<longleftrightarrow> (if starts i e then True else if resets i e then False else started (call_of cs i))"
  using assms
  by (auto simp: project_event_def starts_def resets_def names_def split: option.splits)

lemma project_outcome:
  assumes "i \<noteq> []"
  shows "rc_outcome (call_of (project_event e cs) i)
    = (if finishes i e then (case outcome_event e of None \<Rightarrow> None | Some (p, r) \<Rightarrow> r)
       else if resets i e then None else rc_outcome (call_of cs i))"
  using assms
  by (auto simp: project_event_def finishes_def resets_def names_def outcome_event_def split: option.splits)

lemma projected_started: "i \<noteq> [] \<Longrightarrow> started (call_of (projectRecoverableToolCalls es) i) = started_last es i"
  unfolding projectRecoverableToolCalls_def started_last_def
  by (induction es rule: rev_induct) (simp_all add: project_started)

lemma resets_no_outcome: "resets i e \<Longrightarrow> outcome_event e = None"
  by (auto simp: resets_def outcome_event_def)

lemma projected_outcome: "i \<noteq> [] \<Longrightarrow> rc_outcome (call_of (projectRecoverableToolCalls es) i) = last_outcome es i"
  unfolding projectRecoverableToolCalls_def last_outcome_def
  by (induction es rule: rev_induct) (simp_all add: project_outcome resets_no_outcome)

text \<open>The scan keeps what the events said.\<close>

definition tracks :: "calls \<Rightarrow> open_calls \<Rightarrow> bool" where
  "tracks ex s \<longleftrightarrow> (\<forall>i c. map_of (fst s) i = Some c \<longrightarrow>
     started c = started (call_of ex i) \<and> rc_outcome c = rc_outcome (call_of ex i))"

lemma scan_block_tracks: "tracks ex s \<Longrightarrow> tracks ex (scan_block ex mid b s)"
  by (auto simp: tracks_def scan_block_def Let_def AList.update_conv' AList.delete_conv')

lemma fold_keeps: "(\<And>x s. P s \<Longrightarrow> P (f x s)) \<Longrightarrow> P s \<Longrightarrow> P (fold f xs s)"
  by (induction xs arbitrary: s) auto

lemma scan_history_tracks: "tracks ex (scan_history ex ms)"
  unfolding scan_history_def scan_message_def
  by (intro fold_keeps[where P = "tracks ex"] scan_block_tracks) (simp_all add: tracks_def)

section \<open>The properties\<close>


text \<open>A Thread that crashed in two tool calls, of which the first had started.\<close>

definition wit_use :: "string \<Rightarrow> block" where
  "wit_use i = empty_block\<lparr>block_type := BlockToolUse, tool_use_id := i, tool_name := ''shell''\<rparr>"

definition wit_answer :: "string \<Rightarrow> block" where
  "wit_answer i = empty_block\<lparr>block_type := BlockToolResult, tool_use_id := i, block_content := ''ok''\<rparr>"

definition wit_messages :: "block list list \<Rightarrow> thread_call" where
  "wit_messages bss = CallAppendMessages 6000000 True (\<lambda>n. ''m'' @ itoa n)
     (map (\<lambda>bs. Message [] (if list_ex (\<lambda>b. block_type b = BlockToolUse) bs then RoleAssistant else RoleUser)
        (Some bs) KindNone False [] None) bss) ''t1'' []"

definition wit_crashed_thread :: thread where
  "wit_crashed_thread = fold (run_call wit_marshal)
     [wit_messages [[wit_use ''a'', wit_use ''b'']],
      CallAppendEvent 7000000 True ''e1'' (new_event ''tool.running'' ''t1'' (JObj [(''tool_use_id'', JStr ''a'')]))]
     wit_created"



end
