(* ===== verification/Jsonl.thy ===== *)
theory Jsonl
  imports Prelude
begin

text \<open>
  The journal file (\<^verbatim>\<open>internal/foundation/jsonl/file.go\<close>): an append-only file of JSON lines, each with
  its position in the batch it was appended with, so that opening the file removes a batch whose
  writing was interrupted.

  The file is its bytes. \<open>jf_io\<close> are the outcomes of the coming writes, syncs and truncations: a failed
  write leaves the bytes it names behind, a failed truncation or sync changes nothing. Reading does not
  fail, and the directory part of opening (creating and syncing parents) is the argument \<open>dirs\<close>, the
  number of parents that had to be created. Of \<^verbatim>\<open>encoding/json\<close> the model uses three functions on text:
  \<open>jl_embed\<close> is what \<^verbatim>\<open>json.Marshal\<close> writes for a raw record, \<open>None\<close> when the record is not JSON;
  \<open>jl_decode\<close> is the strict decoding of a line into \<^verbatim>\<open>diskRecord\<close>, \<open>None\<close> on any error; \<open>jl_valid\<close> is
  \<^verbatim>\<open>json.Valid\<close>. Block reads are written out: every function takes the block size.
\<close>

section \<open>Data\<close>

record disk_record =
  dr_version :: int
  dr_index :: int
  dr_count :: int
  dr_data :: string

record json_text =
  jl_embed :: "string \<Rightarrow> string option"
  jl_decode :: "string \<Rightarrow> disk_record option"
  jl_valid :: "string \<Rightarrow> bool"

record batch =
  b_start :: nat
  b_end :: nat
  b_count :: nat

record jrecord =
  jr_start :: nat
  jr_end :: nat
  jr_data :: string

record page =
  pg_records :: "jrecord list"
  pg_previous_end :: nat
  pg_has_previous :: bool

record decoded_record =
  de_record :: jrecord
  de_disk :: disk_record

datatype jsonl_error =
    JCorrupt nat | JEmptyBatch | JInvalidLimit | JInvalidOffset | JClosed | JReadOnly
  | JInvalidRecord nat | JSizeChanged | JIoFailed | JVisitor

datatype io_outcome = IoOk | IoFailed (left_behind: nat)

record jfile =
  jf_bytes :: string
  jf_size :: nat
  jf_closed :: bool
  jf_snapshot :: bool
  jf_io :: "io_outcome list"

definition diskVersion :: int where "diskVersion = 1"
definition defaultReadBlockSize :: nat where "defaultReadBlockSize = 65536"

abbreviation newline :: char where "newline \<equiv> CHR 0x0A"

definition next_io :: "jfile \<Rightarrow> io_outcome \<times> jfile" where
  "next_io f = (case jf_io f of [] \<Rightarrow> (IoOk, f) | r # rs \<Rightarrow> (r, f\<lparr>jf_io := rs\<rparr>))"

section \<open>Encoding\<close>

definition frame :: "int \<Rightarrow> int \<Rightarrow> string \<Rightarrow> string" where
  "frame index count data = ''{\"v\":'' @ itoa_int diskVersion @ '',\"index\":'' @ itoa_int index
     @ '',\"count\":'' @ itoa_int count @ '',\"data\":'' @ data @ ''}''"

fun encode_lines :: "json_text \<Rightarrow> nat \<Rightarrow> nat \<Rightarrow> string list \<Rightarrow> jsonl_error + string" where
  "encode_lines jl count index [] = Inr []"
| "encode_lines jl count index (r # rs) = (case jl_embed jl r of
      None \<Rightarrow> Inl (JInvalidRecord index)
    | Some data \<Rightarrow> (case encode_lines jl count (Suc index) rs of
        Inl e \<Rightarrow> Inl e
      | Inr rest \<Rightarrow> Inr (frame (int index) (int count) data @ newline # rest)))"

definition encodeBatch :: "json_text \<Rightarrow> string list \<Rightarrow> jsonl_error + string" where
  "encodeBatch jl records = (if records = [] then Inl JEmptyBatch
     else encode_lines jl (length records) 0 records)"

section \<open>Decoding and batch positions\<close>

definition decodeDiskRecord :: "json_text \<Rightarrow> string \<Rightarrow> nat \<Rightarrow> jsonl_error + disk_record" where
  "decodeDiskRecord jl line offset = (case jl_decode jl line of
      None \<Rightarrow> Inl (JCorrupt offset)
    | Some r \<Rightarrow>
        (if dr_version r \<noteq> diskVersion then Inl (JCorrupt offset)
         else if dr_count r \<le> 0 \<or> dr_index r < 0 \<or> dr_count r \<le> dr_index r then Inl (JCorrupt offset)
         else if \<not> jl_valid jl (dr_data r) then Inl (JCorrupt offset)
         else Inr r))"

definition validateBatchStart :: "disk_record \<Rightarrow> nat \<Rightarrow> jsonl_error option" where
  "validateBatchStart r offset = (if dr_index r = 0 then None else Some (JCorrupt offset))"

definition validateBatchAdjacent :: "disk_record \<Rightarrow> disk_record \<Rightarrow> nat \<Rightarrow> jsonl_error option" where
  "validateBatchAdjacent previous current offset =
     (if dr_index previous = dr_count previous - 1
      then (if dr_index current = 0 then None else Some (JCorrupt offset))
      else if dr_count current = dr_count previous \<and> dr_index current = dr_index previous + 1 then None
      else Some (JCorrupt offset))"

definition validateBatchEnd :: "disk_record \<Rightarrow> nat \<Rightarrow> jsonl_error option" where
  "validateBatchEnd r offset = (if dr_index r = dr_count r - 1 then None else Some (JCorrupt offset))"

section \<open>Reading the file in blocks\<close>

text \<open>\<open>slice s a b\<close> are the bytes from \<open>a\<close> to before \<open>b\<close>.\<close>

definition slice :: "string \<Rightarrow> nat \<Rightarrow> nat \<Rightarrow> string" where
  "slice s a b = take (b - a) (drop a s)"

fun index_byte :: "char \<Rightarrow> string \<Rightarrow> nat option" where
  "index_byte c [] = None"
| "index_byte c (x # xs) = (if x = c then Some 0 else map_option Suc (index_byte c xs))"

fun last_index_byte :: "char \<Rightarrow> string \<Rightarrow> nat option" where
  "last_index_byte c [] = None"
| "last_index_byte c (x # xs) = (case last_index_byte c xs of
      Some i \<Rightarrow> Some (Suc i) | None \<Rightarrow> if x = c then Some 0 else None)"

definition checkSizeLocked :: "jfile \<Rightarrow> jsonl_error option" where
  "checkSizeLocked f =
     (if jf_snapshot f \<and> jf_size f \<le> length (jf_bytes f) then None
      else if length (jf_bytes f) \<noteq> jf_size f then Some JSizeChanged else None)"

definition ensureOpenLocked :: "nat \<Rightarrow> jfile \<Rightarrow> jsonl_error option" where
  "ensureOpenLocked block f = (if jf_closed f \<or> block = 0 then Some JClosed else None)"

definition validateBoundaryLocked :: "jfile \<Rightarrow> int \<Rightarrow> jsonl_error option" where
  "validateBoundaryLocked f offset =
     (if offset < 0 \<or> int (jf_size f) < offset then Some JInvalidOffset
      else if offset = 0 then None
      else if jf_bytes f ! nat (offset - 1) \<noteq> newline then Some JInvalidOffset else None)"

text \<open>
  The backward scan for the last newline before \<open>position\<close>: the start of the line, block by block. A
  block size of zero, which the constructors rule out, ends the loop.
\<close>

function scan_back :: "nat \<Rightarrow> string \<Rightarrow> nat \<Rightarrow> nat" where
  "scan_back block s position =
     (if position = 0 \<or> block = 0 then 0
      else let start = position - block in
        case last_index_byte newline (slice s start position) of
          Some i \<Rightarrow> start + i + 1
        | None \<Rightarrow> scan_back block s start)"
  by pat_completeness auto
termination by (relation "measure (\<lambda>(_, _, position). position)") auto

declare scan_back.simps [simp del]

text \<open>The same loop in \<^verbatim>\<open>previousLineLocked\<close>, which also collects the chunks.\<close>

function line_chunks :: "nat \<Rightarrow> string \<Rightarrow> nat \<Rightarrow> string list \<times> nat" where
  "line_chunks block s position =
     (if position = 0 \<or> block = 0 then ([], 0)
      else let start = position - block; chunk = slice s start position in
        case last_index_byte newline chunk of
          Some i \<Rightarrow> ([drop (i + 1) chunk], start + i + 1)
        | None \<Rightarrow> (case line_chunks block s start of (chunks, start_offset) \<Rightarrow> (chunk # chunks, start_offset)))"
  by pat_completeness auto
termination by (relation "measure (\<lambda>(_, _, position). position)") auto

declare line_chunks.simps [simp del]

definition previousLineLocked :: "nat \<Rightarrow> jfile \<Rightarrow> nat \<Rightarrow> jsonl_error + string \<times> nat" where
  "previousLineLocked block f stop =
     (if stop = 0 \<or> jf_size f < stop then Inl JInvalidOffset
      else if jf_bytes f ! (stop - 1) \<noteq> newline then Inl JInvalidOffset
      else case line_chunks block (jf_bytes f) (stop - 1) of
        (chunks, start_offset) \<Rightarrow> Inr (concat (rev chunks), start_offset))"

function next_chunks :: "nat \<Rightarrow> string \<Rightarrow> nat \<Rightarrow> nat \<Rightarrow> string option" where
  "next_chunks block s limit position =
     (if limit \<le> position \<or> block = 0 then None
      else let stop = min (position + block) limit; chunk = slice s position stop in
        case index_byte newline chunk of
          Some i \<Rightarrow> Some (take i chunk)
        | None \<Rightarrow> map_option (\<lambda>rest. chunk @ rest) (next_chunks block s limit stop))"
  by pat_completeness auto
termination by (relation "measure (\<lambda>(_, _, limit, position). limit - position)") auto

declare next_chunks.simps [simp del]

definition nextLineLocked :: "nat \<Rightarrow> jfile \<Rightarrow> nat \<Rightarrow> jsonl_error + string" where
  "nextLineLocked block f start =
     (if jf_size f \<le> start then Inl JInvalidOffset
      else case next_chunks block (jf_bytes f) (jf_size f) start of
        None \<Rightarrow> Inl (JCorrupt start) | Some line \<Rightarrow> Inr line)"

lemma last_index_byte_less: "last_index_byte c s = Some i \<Longrightarrow> i < length s"
  by (induction s arbitrary: i) (auto split: option.splits if_splits)

lemma length_slice: "b \<le> length s \<Longrightarrow> length (slice s a b) = b - a"
  by (simp add: slice_def)

lemma line_chunks_start: "snd (line_chunks block s position) \<le> position"
proof (induction block s position rule: line_chunks.induct)
  case (1 block s position)
  show ?case
  proof (cases "position = 0 \<or> block = 0")
    case False
    let ?start = "position - block"
    have l: "length (slice s ?start position) \<le> position - ?start" by (simp add: slice_def)
    show ?thesis
    proof (cases "last_index_byte newline (slice s ?start position)")
      case None
      with False 1[OF False refl refl None] show ?thesis
        by (cases "line_chunks block s ?start") (simp add: line_chunks.simps[of block s position] Let_def)
    next
      case (Some i)
      with False l last_index_byte_less[OF Some] show ?thesis
        by (simp add: line_chunks.simps[of block s position] Let_def)
    qed
  qed (simp add: line_chunks.simps)
qed

lemma previousLine_less: "previousLineLocked block f stop = Inr (line, start) \<Longrightarrow> start < stop"
  using line_chunks_start[of block "jf_bytes f" "stop - 1"]
  by (auto simp: previousLineLocked_def split: if_splits prod.splits)

section \<open>Opening and repairing\<close>

definition truncate_file :: "nat \<Rightarrow> jfile \<Rightarrow> (jsonl_error + unit) \<times> jfile" where
  "truncate_file offset f = (case next_io f of
      (IoOk, f1) \<Rightarrow> (Inr (), f1\<lparr>jf_bytes := take offset (jf_bytes f1)\<rparr>)
    | (IoFailed _, f1) \<Rightarrow> (Inl JIoFailed, f1))"

definition sync_file :: "jfile \<Rightarrow> (jsonl_error + unit) \<times> jfile" where
  "sync_file f = (case next_io f of (IoOk, f1) \<Rightarrow> (Inr (), f1) | (IoFailed _, f1) \<Rightarrow> (Inl JIoFailed, f1))"

text \<open>Truncation, sync and the new size, as both repairs end.\<close>

definition truncate_to :: "nat \<Rightarrow> jfile \<Rightarrow> (jsonl_error + unit) \<times> jfile" where
  "truncate_to offset f = (case truncate_file offset f of
      (Inl e, f1) \<Rightarrow> (Inl e, f1)
    | (Inr _, f1) \<Rightarrow> (case sync_file f1 of
        (Inl e, f2) \<Rightarrow> (Inl e, f2)
      | (Inr _, f2) \<Rightarrow> (Inr (), f2\<lparr>jf_size := offset\<rparr>)))"

definition repairTornTailLocked :: "nat \<Rightarrow> jfile \<Rightarrow> (jsonl_error + unit) \<times> jfile" where
  "repairTornTailLocked block f =
     (let f1 = f\<lparr>jf_size := length (jf_bytes f)\<rparr> in
      if jf_size f1 = 0 then (Inr (), f1)
      else if jf_bytes f1 ! (jf_size f1 - 1) = newline then (Inr (), f1)
      else truncate_to (scan_back block (jf_bytes f1) (jf_size f1)) f1)"

text \<open>The walk back over the \<open>want\<close> records of the batch before \<open>batch_start\<close>.\<close>

fun walk_batch :: "json_text \<Rightarrow> nat \<Rightarrow> jfile \<Rightarrow> disk_record \<Rightarrow> nat \<Rightarrow> nat \<Rightarrow> jsonl_error + nat" where
  "walk_batch jl block f final 0 batch_start = Inr batch_start"
| "walk_batch jl block f final (Suc want) batch_start =
     (if batch_start = 0 then Inl (JCorrupt batch_start)
      else case previousLineLocked block f batch_start of
        Inl e \<Rightarrow> Inl e
      | Inr (line, previous_start) \<Rightarrow> (case decodeDiskRecord jl line previous_start of
          Inl e \<Rightarrow> Inl e
        | Inr previous \<Rightarrow>
            (if dr_count previous \<noteq> dr_count final \<or> dr_index previous \<noteq> int want
             then Inl (JCorrupt previous_start)
             else walk_batch jl block f final want previous_start)))"

definition repairIncompleteBatchLocked :: "json_text \<Rightarrow> nat \<Rightarrow> jfile \<Rightarrow> (jsonl_error + unit) \<times> jfile" where
  "repairIncompleteBatchLocked jl block f =
     (if jf_size f = 0 then (Inr (), f)
      else case previousLineLocked block f (jf_size f) of
        Inl e \<Rightarrow> (Inl e, f)
      | Inr (line, start) \<Rightarrow> (case decodeDiskRecord jl line start of
          Inl e \<Rightarrow> (Inl e, f)
        | Inr final \<Rightarrow> (case walk_batch jl block f final (nat (dr_index final)) start of
            Inl e \<Rightarrow> (Inl e, f)
          | Inr batch_start \<Rightarrow>
              (if dr_index final = dr_count final - 1 then (Inr (), f) else truncate_to batch_start f))))"

definition fresh_handle :: "string \<Rightarrow> io_outcome list \<Rightarrow> jfile" where
  "fresh_handle bytes io = \<lparr>jf_bytes = bytes, jf_size = 0, jf_closed = False, jf_snapshot = False, jf_io = io\<rparr>"

text \<open>Syncing a new file, its directory and the parents that were created.\<close>

fun sync_all :: "nat \<Rightarrow> jfile \<Rightarrow> (jsonl_error + unit) \<times> jfile" where
  "sync_all 0 f = (Inr (), f)"
| "sync_all (Suc n) f = (case sync_file f of (Inl e, f1) \<Rightarrow> (Inl e, f1) | (Inr _, f1) \<Rightarrow> sync_all n f1)"

definition syncCreatedPathLocked :: "nat \<Rightarrow> jfile \<Rightarrow> (jsonl_error + unit) \<times> jfile" where
  "syncCreatedPathLocked dirs = sync_all (2 + dirs)"

text \<open>
  \<open>contents\<close> is what the path holds, \<open>None\<close> when it does not exist. The second result is what it holds
  afterwards: a file whose creation could not be synced is removed, if removing it succeeds.
\<close>

definition Open :: "json_text \<Rightarrow> nat \<Rightarrow> nat \<Rightarrow> string option \<Rightarrow> io_outcome list \<Rightarrow>
  (jsonl_error + jfile) \<times> string option" where
  "Open jl block dirs contents io =
     (let f = fresh_handle (case contents of None \<Rightarrow> [] | Some s \<Rightarrow> s) io in
      case (if contents = None then syncCreatedPathLocked dirs f else (Inr (), f)) of
        (Inl e, f1) \<Rightarrow> (Inl e, case next_io f1 of (IoOk, _) \<Rightarrow> None | (IoFailed _, _) \<Rightarrow> Some [])
      | (Inr _, f1) \<Rightarrow> (case repairTornTailLocked block f1 of
          (Inl e, f2) \<Rightarrow> (Inl e, Some (jf_bytes f2))
        | (Inr _, f2) \<Rightarrow> (case repairIncompleteBatchLocked jl block f2 of
            (Inl e, f3) \<Rightarrow> (Inl e, Some (jf_bytes f3))
          | (Inr _, f3) \<Rightarrow> (Inr f3, Some (jf_bytes f3)))))"

text \<open>\<^verbatim>\<open>OpenSnapshot\<close> of a regular file.\<close>

definition OpenSnapshot :: "string \<Rightarrow> int \<Rightarrow> jsonl_error + jfile" where
  "OpenSnapshot bytes stop =
     (if stop < 0 then Inl JInvalidOffset
      else let f = (fresh_handle bytes [])\<lparr>jf_size := nat stop, jf_snapshot := True\<rparr> in
        case checkSizeLocked f of
          Some e \<Rightarrow> Inl e
        | None \<Rightarrow> (case validateBoundaryLocked f stop of Some e \<Rightarrow> Inl e | None \<Rightarrow> Inr f))"

definition close_file :: "jfile \<Rightarrow> jfile" where
  "close_file f = f\<lparr>jf_closed := True\<rparr>"

section \<open>Appending\<close>

text \<open>A seek succeeds or fails like a sync; the bytes do not change.\<close>

abbreviation seek_file :: "jfile \<Rightarrow> (jsonl_error + unit) \<times> jfile" where
  "seek_file \<equiv> sync_file"

definition rollbackLocked :: "nat \<Rightarrow> jfile \<Rightarrow> jfile" where
  "rollbackLocked offset f = (case truncate_file offset f of (truncated, f1) \<Rightarrow>
     (case seek_file f1 of (seeked, f2) \<Rightarrow>
       (if truncated = Inr () \<and> seeked = Inr () then snd (sync_file f2) else f2)))"

definition write_bytes :: "nat \<Rightarrow> string \<Rightarrow> jfile \<Rightarrow> (jsonl_error + unit) \<times> jfile" where
  "write_bytes start payload f = (case next_io f of
      (IoOk, f1) \<Rightarrow> (Inr (), f1\<lparr>jf_bytes := take start (jf_bytes f1) @ payload\<rparr>)
    | (IoFailed n, f1) \<Rightarrow> (Inl JIoFailed, f1\<lparr>jf_bytes := take start (jf_bytes f1) @ take n payload\<rparr>))"

definition Append :: "json_text \<Rightarrow> nat \<Rightarrow> string list \<Rightarrow> jfile \<Rightarrow> (jsonl_error + batch) \<times> jfile" where
  "Append jl block records f = (case encodeBatch jl records of
      Inl e \<Rightarrow> (Inl e, f)
    | Inr payload \<Rightarrow> (case ensureOpenLocked block f of
        Some e \<Rightarrow> (Inl e, f)
      | None \<Rightarrow>
        (if jf_snapshot f then (Inl JReadOnly, f)
         else case checkSizeLocked f of
           Some e \<Rightarrow> (Inl e, f)
         | None \<Rightarrow>
           (let start = jf_size f in case seek_file f of
              (Inl e, f1) \<Rightarrow> (Inl e, f1)
            | (Inr _, f1) \<Rightarrow> (case write_bytes start payload f1 of
                (Inl e, f2) \<Rightarrow> (Inl e, rollbackLocked start f2)
              | (Inr _, f2) \<Rightarrow> (case sync_file f2 of
                  (Inl e, f3) \<Rightarrow> (Inl e, rollbackLocked start f3)
                | (Inr _, f3) \<Rightarrow>
                    (let stop = start + length payload in
                     (Inr \<lparr>b_start = start, b_end = stop, b_count = length records\<rparr>, f3\<lparr>jf_size := stop\<rparr>))))))))"

section \<open>Reading\<close>

definition ReadBytesTo :: "nat \<Rightarrow> int \<Rightarrow> jfile \<Rightarrow> jsonl_error + string" where
  "ReadBytesTo block stop f = (case ensureOpenLocked block f of
      Some e \<Rightarrow> Inl e
    | None \<Rightarrow> (case checkSizeLocked f of
        Some e \<Rightarrow> Inl e
      | None \<Rightarrow> (case validateBoundaryLocked f stop of
          Some e \<Rightarrow> Inl e | None \<Rightarrow> Inr (take (nat stop) (jf_bytes f)))))"

function forward_start :: "json_text \<Rightarrow> nat \<Rightarrow> jfile \<Rightarrow> nat \<Rightarrow> disk_record \<Rightarrow> jsonl_error option" where
  "forward_start jl block f current_start current =
     (if current_start = 0
      then (if 0 < dr_index current then Some (JCorrupt current_start) else validateBatchStart current current_start)
      else case previousLineLocked block f current_start of
        Inl e \<Rightarrow> Some e
      | Inr (line, candidate_start) \<Rightarrow> (case decodeDiskRecord jl line candidate_start of
          Inl e \<Rightarrow> Some e
        | Inr candidate \<Rightarrow> (case validateBatchAdjacent candidate current current_start of
            Some e \<Rightarrow> Some e
          | None \<Rightarrow> (if 0 < dr_index current then forward_start jl block f candidate_start candidate else None))))"
  by pat_completeness auto
termination
  by (relation "measure (\<lambda>(_, _, _, current_start, _). current_start)") (auto dest: previousLine_less)

declare forward_start.simps [simp del]

definition validateForwardStartLocked :: "json_text \<Rightarrow> nat \<Rightarrow> jfile \<Rightarrow> nat \<Rightarrow> disk_record \<Rightarrow> jsonl_error option" where
  "validateForwardStartLocked jl block f start current = forward_start jl block f start current"

text \<open>
  The visitor is a function on a state of its own that accepts or refuses a record. The pending records
  are visited when their batch is complete; the result is the error, if any, the boundary after the
  last accepted record, and the visitor's state.
\<close>

type_synonym 's visitor = "jrecord \<Rightarrow> 's \<Rightarrow> bool \<times> 's"

fun visit_pending :: "'s visitor \<Rightarrow> jrecord list \<Rightarrow> nat \<Rightarrow> 's \<Rightarrow> jsonl_error option \<times> nat \<times> 's" where
  "visit_pending visit [] committed s = (None, committed, s)"
| "visit_pending visit (r # rs) committed s = (case visit r s of
      (False, s') \<Rightarrow> (Some JVisitor, committed, s')
    | (True, s') \<Rightarrow> visit_pending visit rs (jr_end r) s')"

function forward_lines :: "json_text \<Rightarrow> nat \<Rightarrow> jfile \<Rightarrow> 's visitor \<Rightarrow> nat \<Rightarrow> string \<Rightarrow> nat \<Rightarrow> nat \<Rightarrow>
  disk_record option \<Rightarrow> jrecord list \<Rightarrow> 's \<Rightarrow> jsonl_error option \<times> nat \<times> 's" where
  "forward_lines jl block f visit start rest offset committed previous pending s =
     (if rest = []
      then (case previous of
          Some p \<Rightarrow> ((if pending = [] then None else validateBatchEnd p (jr_start (last pending))), committed, s)
        | None \<Rightarrow> (None, committed, s))
      else if newline \<notin> set rest then (Some (JCorrupt offset), committed, s)
      else let line = takeWhile (\<lambda>c. c \<noteq> newline) rest; stop = offset + length line + 1 in
        case decodeDiskRecord jl line offset of
          Inl e \<Rightarrow> (Some e, committed, s)
        | Inr disk \<Rightarrow>
          (case (case previous of None \<Rightarrow> validateForwardStartLocked jl block f start disk
                 | Some p \<Rightarrow> validateBatchAdjacent p disk offset) of
             Some e \<Rightarrow> (Some e, committed, s)
           | None \<Rightarrow>
             (let pending' = pending @ [\<lparr>jr_start = offset, jr_end = stop, jr_data = dr_data disk\<rparr>];
                  rest' = drop (length line + 1) rest in
              if dr_index disk \<noteq> dr_count disk - 1
              then forward_lines jl block f visit start rest' stop committed (Some disk) pending' s
              else case visit_pending visit pending' committed s of
                (Some e, committed', s') \<Rightarrow> (Some e, committed', s')
              | (None, committed', s') \<Rightarrow>
                  forward_lines jl block f visit start rest' stop committed' (Some disk) [] s')))"
  by pat_completeness auto
termination
  by (relation "measure (\<lambda>(_, _, _, _, _, rest, _). length rest)") auto

declare forward_lines.simps [simp del]

definition readForwardTo :: "json_text \<Rightarrow> nat \<Rightarrow> int \<Rightarrow> int \<Rightarrow> 's visitor \<Rightarrow> jfile \<Rightarrow> 's \<Rightarrow>
  jsonl_error option \<times> int \<times> 's" where
  "readForwardTo jl block start stop visit f s = (case ensureOpenLocked block f of
      Some e \<Rightarrow> (Some e, start, s)
    | None \<Rightarrow> (case checkSizeLocked f of
        Some e \<Rightarrow> (Some e, start, s)
      | None \<Rightarrow>
        (let stop' = (if stop < 0 then int (jf_size f) else stop) in
         case validateBoundaryLocked f start of
           Some e \<Rightarrow> (Some e, start, s)
         | None \<Rightarrow> (case validateBoundaryLocked f stop' of
             Some e \<Rightarrow> (Some e, start, s)
           | None \<Rightarrow>
             (if stop' < start then (Some JInvalidOffset, start, s)
              else case forward_lines jl block f visit (nat start) (slice (jf_bytes f) (nat start) (nat stop'))
                     (nat start) (nat start) None [] s of
                (e, committed, s') \<Rightarrow> (e, int committed, s'))))))"

definition ReadForward :: "json_text \<Rightarrow> nat \<Rightarrow> int \<Rightarrow> 's visitor \<Rightarrow> jfile \<Rightarrow> 's \<Rightarrow> jsonl_error option \<times> int \<times> 's" where
  "ReadForward jl block start = readForwardTo jl block start (-1)"

text \<open>\<^verbatim>\<open>decodePage\<close>: the lines of \<open>data\<close>, which lie from \<open>offset\<close> on.\<close>

function decodePage :: "json_text \<Rightarrow> string \<Rightarrow> nat \<Rightarrow> jsonl_error + decoded_record list" where
  "decodePage jl data offset =
     (if data = [] then Inr []
      else if newline \<notin> set data then Inl (JCorrupt offset)
      else let line = takeWhile (\<lambda>c. c \<noteq> newline) data; stop = offset + length line + 1 in
        case decodeDiskRecord jl line offset of
          Inl e \<Rightarrow> Inl e
        | Inr disk \<Rightarrow> (case decodePage jl (drop (length line + 1) data) stop of
            Inl e \<Rightarrow> Inl e
          | Inr rest \<Rightarrow>
              Inr (\<lparr>de_record = \<lparr>jr_start = offset, jr_end = stop, jr_data = dr_data disk\<rparr>, de_disk = disk\<rparr> # rest)))"
  by pat_completeness auto
termination by (relation "measure (\<lambda>(_, data, _). length data)") auto

declare decodePage.simps [simp del]

fun page_adjacent :: "decoded_record list \<Rightarrow> jsonl_error option" where
  "page_adjacent (a # b # rs) = (case validateBatchAdjacent (de_disk a) (de_disk b) (jr_start (de_record b)) of
      Some e \<Rightarrow> Some e | None \<Rightarrow> page_adjacent (b # rs))"
| "page_adjacent rs = None"

definition validatePageBoundariesLocked ::
  "json_text \<Rightarrow> nat \<Rightarrow> jfile \<Rightarrow> decoded_record list \<Rightarrow> nat \<Rightarrow> nat \<Rightarrow> jsonl_error option" where
  "validatePageBoundariesLocked jl block f records start stop =
     (if records = [] then None
      else case page_adjacent records of
        Some e \<Rightarrow> Some e
      | None \<Rightarrow>
        (let first = hd records; final = last records;
             before = (if start = 0 then validateBatchStart (de_disk first) (jr_start (de_record first))
               else case previousLineLocked block f start of
                 Inl e \<Rightarrow> Some e
               | Inr (line, previous_start) \<Rightarrow> (case decodeDiskRecord jl line previous_start of
                   Inl e \<Rightarrow> Some e
                 | Inr previous \<Rightarrow> validateBatchAdjacent previous (de_disk first) (jr_start (de_record first))))
         in case before of
              Some e \<Rightarrow> Some e
            | None \<Rightarrow>
                (if stop = jf_size f then validateBatchEnd (de_disk final) (jr_start (de_record final))
                 else case nextLineLocked block f stop of
                   Inl e \<Rightarrow> Some e
                 | Inr line \<Rightarrow> (case decodeDiskRecord jl line stop of
                     Inl e \<Rightarrow> Some e
                   | Inr next' \<Rightarrow> validateBatchAdjacent (de_disk final) next' stop))))"

text \<open>
  The blocks before \<open>position\<close>, until more than \<open>limit\<close> newlines are read: the bytes, where they begin and
  how many newlines they hold.
\<close>

definition count_newlines :: "string \<Rightarrow> nat" where
  "count_newlines s = length (filter (\<lambda>c. c = newline) s)"

function read_back :: "nat \<Rightarrow> string \<Rightarrow> nat \<Rightarrow> nat \<Rightarrow> string \<Rightarrow> nat \<Rightarrow> string \<times> nat \<times> nat" where
  "read_back block s limit position bytes newlines =
     (if position = 0 \<or> limit < newlines \<or> block = 0 then (bytes, position, newlines)
      else let start = position - block; chunk = slice s start position in
        read_back block s limit start (chunk @ bytes) (newlines + count_newlines chunk))"
  by pat_completeness auto
termination by (relation "measure (\<lambda>(_, _, _, position, _, _). position)") auto

declare read_back.simps [simp del]

text \<open>The byte after the \<open>n\<close>-th newline, where the page is cut.\<close>

fun cut_after :: "nat \<Rightarrow> string \<Rightarrow> nat" where
  "cut_after n [] = 0"
| "cut_after n (c # cs) = (if c = newline then (if n \<le> 1 then 1 else Suc (cut_after (n - 1) cs))
     else Suc (cut_after n cs))"

definition ReadReverse :: "json_text \<Rightarrow> nat \<Rightarrow> int \<Rightarrow> int \<Rightarrow> jfile \<Rightarrow> jsonl_error + page" where
  "ReadReverse jl block stop limit f =
     (if limit \<le> 0 then Inl JInvalidLimit
      else case ensureOpenLocked block f of
        Some e \<Rightarrow> Inl e
      | None \<Rightarrow> (case checkSizeLocked f of
          Some e \<Rightarrow> Inl e
        | None \<Rightarrow> (case validateBoundaryLocked f stop of
            Some e \<Rightarrow> Inl e
          | None \<Rightarrow>
            (if stop = 0 then Inr \<lparr>pg_records = [], pg_previous_end = 0, pg_has_previous = False\<rparr>
             else case read_back block (jf_bytes f) (nat limit) (nat stop) [] 0 of
               (bytes, position, newlines) \<Rightarrow>
               (let cut = (if nat limit < newlines then cut_after (newlines - nat limit) bytes else 0);
                    base = position + cut
                in case decodePage jl (drop cut bytes) base of
                     Inl e \<Rightarrow> Inl e
                   | Inr decoded \<Rightarrow>
                     (case validatePageBoundariesLocked jl block f decoded base (nat stop) of
                        Some e \<Rightarrow> Inl e
                      | None \<Rightarrow> Inr \<lparr>pg_records = map de_record decoded,
                          pg_previous_end = (if 0 < base then base else 0), pg_has_previous = 0 < base\<rparr>))))))"

end
