(* ===== verification/JsonlInv.thy ===== *)
theory JsonlInv
  imports Jsonl
begin

text \<open>
  Files made of complete lines. The block-wise scans are shown to find line boundaries whatever the
  block size; from there on a file is the list of its records.
\<close>

section \<open>Finding newlines\<close>

lemma last_index_byte_None: "last_index_byte c s = None \<longleftrightarrow> c \<notin> set s"
  by (induction s) (auto split: option.splits)

lemma last_index_byte_append: "c \<notin> set q \<Longrightarrow> last_index_byte c (p @ c # q) = Some (length p)"
proof (induction p)
  case Nil
  then show ?case using last_index_byte_None[of c q] by simp
qed simp

lemma index_byte_None: "index_byte c s = None \<longleftrightarrow> c \<notin> set s"
  by (induction s) auto

lemma index_byte_append: "c \<notin> set p \<Longrightarrow> index_byte c (p @ c # q) = Some (length p)"
  by (induction p) auto

text \<open>\<open>p\<close> is empty or a sequence of complete lines.\<close>

definition ends_line :: "string \<Rightarrow> bool" where
  "ends_line p \<longleftrightarrow> p = [] \<or> last p = newline"

lemma ends_line_simps [simp]: "ends_line []" "ends_line (p @ [newline])"
  by (simp_all add: ends_line_def)

lemma ends_line_append: "ends_line p \<Longrightarrow> ends_line q \<Longrightarrow> ends_line (p @ q)"
  by (cases "q = []") (auto simp: ends_line_def)

text \<open>One block of the backward scan, when the part before \<open>position\<close> is \<open>p @ q\<close>.\<close>

lemma slice_take: "slice s a b = drop a (take b s)"
  by (simp add: slice_def drop_take)

lemma back_block:
  assumes pq: "take position s = p @ q" and "newline \<notin> set q" "ends_line p" "position \<le> length s"
  shows "last_index_byte newline (slice s start position)
      = (if start < length p then Some (length p - 1 - start) else None)"
    and "start < length p \<Longrightarrow> drop (length p - start) (slice s start position) = q"
    and "length p \<le> start \<Longrightarrow> start \<le> position \<Longrightarrow>
      take start s = p @ take (start - length p) q \<and> q = take (start - length p) q @ slice s start position"
proof -
  have sl: "slice s start position = drop start p @ drop (start - length p) q"
    using pq by (simp add: slice_take)
  show "last_index_byte newline (slice s start position)
      = (if start < length p then Some (length p - 1 - start) else None)"
  proof (cases "start < length p")
    case True
    then have "drop start p \<noteq> []" "last (drop start p) = newline"
      using assms(3) by (auto simp: ends_line_def)
    then have "drop start p = butlast (drop start p) @ [newline]" by (metis append_butlast_last_id)
    then have "slice s start position = butlast (drop start p) @ newline # q"
      using sl True by simp
    with True show ?thesis
      using last_index_byte_append[OF assms(2), of "butlast (drop start p)"] by (simp add: length_butlast)
  next
    case False
    then have "newline \<notin> set (slice s start position)"
      using sl assms(2) by (auto dest: in_set_dropD)
    with False show ?thesis by (simp add: last_index_byte_None)
  qed
  show "start < length p \<Longrightarrow> drop (length p - start) (slice s start position) = q" using sl by simp
  show "take start s = p @ take (start - length p) q \<and> q = take (start - length p) q @ slice s start position"
    if "length p \<le> start" "start \<le> position"
  proof -
    have "take start s = take start (take position s)" using that by (simp add: min_def)
    then show ?thesis using pq that sl by simp
  qed
qed

lemma scan_back_finds:
  assumes "take position s = p @ q" "newline \<notin> set q" "ends_line p" "position \<le> length s" "0 < block"
  shows "scan_back block s position = length p"
  using assms
proof (induction block s position arbitrary: q rule: scan_back.induct)
  case (1 block s position)
  let ?start = "position - block"
  note bb = back_block[OF 1(2,3,4,5), of ?start]
  have len: "length p \<le> position" using 1(2,5) by (metis length_append length_take le_add1 min.absorb2)
  show ?case
  proof (cases "position = 0")
    case True
    then show ?thesis using len by (simp add: scan_back.simps)
  next
    case pos: False
    show ?thesis
    proof (cases "?start < length p")
      case True
      then show ?thesis using pos bb(1) 1(6) by (simp add: scan_back.simps[of block s position] Let_def)
    next
      case False
      with bb(3) have t: "take ?start s = p @ take (?start - length p) q" by simp
      have "newline \<notin> set (take (?start - length p) q)" using 1(3) by (auto dest: in_set_takeD)
      with 1(1)[OF _ refl _ t] pos False bb(1) 1(4-6) show ?thesis
        by (simp add: scan_back.simps[of block s position] Let_def)
    qed
  qed
qed

lemma line_chunks_finds:
  assumes "take position s = p @ q" "newline \<notin> set q" "ends_line p" "position \<le> length s" "0 < block"
  shows "concat (rev (fst (line_chunks block s position))) = q \<and> snd (line_chunks block s position) = length p"
  using assms
proof (induction block s position arbitrary: q rule: line_chunks.induct)
  case (1 block s position)
  let ?start = "position - block"
  note bb = back_block[OF 1(2,3,4,5), of ?start]
  have len: "length p + length q = position" using 1(2,5) by (metis length_append length_take min.absorb2)
  show ?case
  proof (cases "position = 0")
    case True
    then show ?thesis using len by (simp add: line_chunks.simps)
  next
    case pos: False
    show ?thesis
    proof (cases "?start < length p")
      case True
      then have "Suc (length p - Suc ?start) = length p - ?start" by simp
      with True show ?thesis using pos bb(1,2) 1(6)
        by (simp add: line_chunks.simps[of block s position] Let_def)
    next
      case False
      with bb(3) have t: "take ?start s = p @ take (?start - length p) q"
        "q = take (?start - length p) q @ slice s ?start position" by simp_all
      have "newline \<notin> set (take (?start - length p) q)" using 1(3) by (auto dest: in_set_takeD)
      with 1(1)[OF _ refl refl _ t(1)] pos False bb(1) 1(4-6)
      have "concat (rev (fst (line_chunks block s ?start))) = take (?start - length p) q"
        "snd (line_chunks block s ?start) = length p" by simp_all
      with pos False bb(1) 1(6) t(2) show ?thesis
        by (cases "line_chunks block s ?start") (simp add: line_chunks.simps[of block s position] Let_def)
    qed
  qed
qed

lemma next_chunks_finds:
  assumes "slice s position limit = line @ newline # rest" "newline \<notin> set line" "limit \<le> length s" "0 < block"
  shows "next_chunks block s limit position = Some line"
  using assms
proof (induction block s limit position arbitrary: line rule: next_chunks.induct)
  case (1 block s limit position)
  have less: "position < limit" using 1(2) by (cases "position < limit") (auto simp: slice_def)
  let ?stop = "min (position + block) limit"
  let ?n = "?stop - position"
  have chunk: "slice s position ?stop = take ?n (slice s position limit)"
    by (simp add: slice_def min_def)
  have n: "0 < ?n" using less 1(5) by simp
  show ?case
  proof (cases "length line < ?n")
    case True
    then have "slice s position ?stop = line @ newline # take (?n - length line - 1) rest"
      using chunk 1(2) by (cases "?n - length line") auto
    with less 1(3,5) index_byte_append[OF 1(3)] show ?thesis
      by (simp add: next_chunks.simps[of block s limit position] Let_def)
  next
    case False
    then have c: "slice s position ?stop = take ?n line" using chunk 1(2) by simp
    then have none: "index_byte newline (slice s position ?stop) = None"
      using 1(3) by (auto simp: index_byte_None dest: in_set_takeD)
    have "slice s ?stop limit = drop ?n (slice s position limit)"
      using less n by (auto simp: slice_def min_def drop_take add.commute)
    then have r: "slice s ?stop limit = drop ?n line @ newline # rest" using False 1(2) by simp
    have "newline \<notin> set (drop ?n line)" using 1(3) by (auto dest: in_set_dropD)
    with 1(1)[OF _ refl refl none r] less 1(4,5) have "next_chunks block s limit ?stop = Some (drop ?n line)" by simp
    with less none c 1(5) show ?thesis
      by (simp add: next_chunks.simps[of block s limit position] Let_def)
  qed
qed

section \<open>Files as lists of records\<close>

definition text_of :: "disk_record \<Rightarrow> string" where
  "text_of r = frame (dr_index r) (dr_count r) (dr_data r)"

definition bytes_of :: "disk_record list \<Rightarrow> string" where
  "bytes_of rs = concat (map (\<lambda>r. text_of r @ [newline]) rs)"

lemma bytes_of_simps [simp]:
  "bytes_of [] = []" "bytes_of (r # rs) = text_of r @ newline # bytes_of rs"
  "bytes_of (xs @ ys) = bytes_of xs @ bytes_of ys"
  by (simp_all add: bytes_of_def)

lemma bytes_of_ends_line [simp]: "ends_line (bytes_of rs)"
  by (induction rs rule: rev_induct) (simp_all add: ends_line_def)

lemma bytes_of_Nil [simp]: "bytes_of rs = [] \<longleftrightarrow> rs = []"
  by (cases rs) simp_all

text \<open>A record whose line decodes to it.\<close>

definition readable :: "json_text \<Rightarrow> disk_record \<Rightarrow> bool" where
  "readable jl r \<longleftrightarrow> newline \<notin> set (text_of r) \<and> (\<forall>offset. decodeDiskRecord jl (text_of r) offset = Inr r)"

lemma previousLine_record:
  assumes "jf_bytes f = bytes_of (xs @ [r]) @ rest" "readable jl r" "length (bytes_of (xs @ [r])) \<le> jf_size f" "0 < block"
  shows "previousLineLocked block f (length (bytes_of (xs @ [r]))) = Inr (text_of r, length (bytes_of xs))"
proof -
  let ?stop = "length (bytes_of (xs @ [r]))"
  have "take (?stop - 1) (jf_bytes f) = bytes_of xs @ text_of r" using assms(1) by simp
  from line_chunks_finds[OF this _ bytes_of_ends_line _ assms(4)] assms(1,2)
  have "concat (rev (fst (line_chunks block (jf_bytes f) (?stop - 1)))) = text_of r"
    "snd (line_chunks block (jf_bytes f) (?stop - 1)) = length (bytes_of xs)"
    by (simp_all add: readable_def)
  moreover have "jf_bytes f ! (?stop - 1) = newline" using assms(1) by (simp add: nth_append)
  ultimately show ?thesis using assms(3)
    by (cases "line_chunks block (jf_bytes f) (?stop - 1)") (simp add: previousLineLocked_def)
qed

lemma nextLine_record:
  assumes "jf_bytes f = bytes_of xs @ bytes_of (r # ys) @ rest" "readable jl r"
    "length (bytes_of xs) + length (bytes_of [r]) \<le> jf_size f" "jf_size f \<le> length (jf_bytes f)" "0 < block"
  shows "nextLineLocked block f (length (bytes_of xs)) = Inr (text_of r)"
proof -
  let ?s = "length (bytes_of xs)"
  have "drop ?s (jf_bytes f) = text_of r @ newline # bytes_of ys @ rest" using assms(1) by simp
  then have "slice (jf_bytes f) ?s (jf_size f)
      = text_of r @ newline # take (jf_size f - ?s - length (text_of r) - 1) (bytes_of ys @ rest)"
    using assms(3) by (cases "jf_size f - ?s - length (text_of r)") (auto simp: slice_def)
  from next_chunks_finds[OF this _ assms(4,5)] assms(2,3) show ?thesis
    by (simp add: nextLineLocked_def readable_def)
qed

section \<open>Batches\<close>

definition batch_records :: "string list \<Rightarrow> disk_record list" where
  "batch_records ds = map (\<lambda>(i, d). \<lparr>dr_version = diskVersion, dr_index = int i, dr_count = int (length ds),
     dr_data = d\<rparr>) (enumerate 0 ds)"

definition journal_records :: "string list list \<Rightarrow> disk_record list" where
  "journal_records bs = concat (map batch_records bs)"

definition journal_bytes :: "string list list \<Rightarrow> string" where
  "journal_bytes bs = bytes_of (journal_records bs)"

lemma length_batch [simp]: "length (batch_records ds) = length ds"
  by (simp add: batch_records_def)

lemma nth_batch: "i < length ds \<Longrightarrow> batch_records ds ! i =
    \<lparr>dr_version = diskVersion, dr_index = int i, dr_count = int (length ds), dr_data = ds ! i\<rparr>"
  by (simp add: batch_records_def nth_enumerate_eq)

lemma batch_records_Nil [simp]: "batch_records ds = [] \<longleftrightarrow> ds = []"
  by (metis length_0_conv length_batch)

lemma journal_records_simps [simp]:
  "journal_records [] = []" "journal_records (b # bs) = batch_records b @ journal_records bs"
  "journal_records (xs @ ys) = journal_records xs @ journal_records ys"
  by (simp_all add: journal_records_def)

lemma map_data_batch: "map dr_data (batch_records ds) = ds"
  by (rule nth_equalityI) (simp_all add: nth_batch)

text \<open>
  What the model relies on in \<^verbatim>\<open>encoding/json\<close>: the text \<^verbatim>\<open>Marshal\<close> embeds for a record is valid JSON on
  one line, and strict decoding reads a framed line back.
\<close>

definition json_laws :: "json_text \<Rightarrow> bool" where
  "json_laws jl \<longleftrightarrow> (\<forall>raw data. jl_embed jl raw = Some data \<longrightarrow> newline \<notin> set data \<and> jl_valid jl data
     \<and> (\<forall>i c. 0 \<le> i \<and> i < c \<longrightarrow> jl_decode jl (frame i c data)
          = Some \<lparr>dr_version = diskVersion, dr_index = i, dr_count = c, dr_data = data\<rparr>))"

definition batches_ok :: "json_text \<Rightarrow> string list list \<Rightarrow> bool" where
  "batches_ok jl bs \<longleftrightarrow> list_all (\<lambda>b. b \<noteq> [] \<and> list_all (readable jl) (batch_records b)) bs"

lemma batches_ok_simps [simp]:
  "batches_ok jl []" "batches_ok jl (xs @ ys) \<longleftrightarrow> batches_ok jl xs \<and> batches_ok jl ys"
  "batches_ok jl (b # bs) \<longleftrightarrow> b \<noteq> [] \<and> list_all (readable jl) (batch_records b) \<and> batches_ok jl bs"
  by (simp_all add: batches_ok_def)

lemma batches_ok_readable: "batches_ok jl bs \<Longrightarrow> list_all (readable jl) (journal_records bs)"
  by (induction bs) simp_all

lemma newline_itoa: "newline \<notin> set (itoa n)"
proof (induction n rule: itoa.induct)
  case (1 n)
  have d: "k < 10 \<Longrightarrow> char_of (48 + k) \<noteq> newline" for k :: nat
    by (cases "k = 0"; cases "k = 1"; cases "k = 2"; cases "k = 3"; cases "k = 4"; cases "k = 5";
        cases "k = 6"; cases "k = 7"; cases "k = 8"; cases "k = 9") (simp_all add: char_of_def)
  show ?case
  proof (cases "n < 10")
    case True
    then show ?thesis using d[of n] by (simp add: itoa.simps[of n])
  next
    case False
    then show ?thesis using 1 d[of "n mod 10"] by (simp add: itoa.simps[of n])
  qed
qed

lemma newline_frame: "newline \<notin> set data \<Longrightarrow> 0 \<le> i \<Longrightarrow> 0 \<le> c \<Longrightarrow> newline \<notin> set (frame i c data)"
  by (simp add: frame_def itoa_int_def newline_itoa diskVersion_def)

lemma embedded_readable:
  assumes "json_laws jl" and "list_all (\<lambda>d. \<exists>raw. jl_embed jl raw = Some d) ds"
  shows "list_all (readable jl) (batch_records ds)"
proof -
  have "readable jl (batch_records ds ! i)" if i: "i < length ds" for i
  proof -
    from assms(2) i obtain raw where "jl_embed jl raw = Some (ds ! i)" by (auto simp: list_all_length)
    then have "newline \<notin> set (ds ! i)" "jl_valid jl (ds ! i)" "jl_decode jl (frame (int i) (int (length ds)) (ds ! i))
        = Some \<lparr>dr_version = diskVersion, dr_index = int i, dr_count = int (length ds), dr_data = ds ! i\<rparr>"
      using assms(1) i unfolding json_laws_def by (metis of_nat_0_le_iff of_nat_less_iff)+
    then show ?thesis using i
      by (auto simp: readable_def nth_batch text_of_def decodeDiskRecord_def newline_frame)
  qed
  then show ?thesis by (simp add: list_all_length)
qed

lemma encode_lines_batch:
  "encode_lines jl n i rs = Inr s \<Longrightarrow> \<exists>ds. map (jl_embed jl) rs = map Some ds
     \<and> s = bytes_of (map (\<lambda>(k, d). \<lparr>dr_version = diskVersion, dr_index = int k, dr_count = int n, dr_data = d\<rparr>) (enumerate i ds))"
proof (induction rs arbitrary: i s)
  case (Cons r rs)
  then obtain d rest where d: "jl_embed jl r = Some d" "encode_lines jl n (Suc i) rs = Inr rest"
    "s = frame (int i) (int n) d @ newline # rest" by (auto split: option.splits sum.splits)
  from Cons.IH[OF d(2)] obtain ds where "map (jl_embed jl) rs = map Some ds"
    "rest = bytes_of (map (\<lambda>(k, d). \<lparr>dr_version = diskVersion, dr_index = int k, dr_count = int n, dr_data = d\<rparr>) (enumerate (Suc i) ds))"
    by blast
  with d show ?case by (intro exI[of _ "d # ds"]) (simp add: text_of_def)
qed simp

lemma encodeBatch_bytes:
  assumes "encodeBatch jl rs = Inr payload"
  obtains ds where "map (jl_embed jl) rs = map Some ds" "ds \<noteq> []" "payload = bytes_of (batch_records ds)"
proof -
  from assms have ne: "rs \<noteq> []" and enc: "encode_lines jl (length rs) 0 rs = Inr payload"
    by (auto simp: encodeBatch_def split: if_splits)
  from encode_lines_batch[OF enc] obtain ds where ds: "map (jl_embed jl) rs = map Some ds"
    "payload = bytes_of (map (\<lambda>(k, d). \<lparr>dr_version = diskVersion, dr_index = int k, dr_count = int (length rs), dr_data = d\<rparr>) (enumerate 0 ds))"
    by blast
  then have "length rs = length ds" by (metis length_map)
  with ds ne show ?thesis by (intro that[of ds]) (auto simp: batch_records_def)
qed

section \<open>A batch that was cut short\<close>

lemma torn_split:
  assumes "list_all (readable jl) rs"
  shows "\<exists>k torn. take n (bytes_of rs) = bytes_of (take k rs) @ torn \<and> newline \<notin> set torn \<and> k \<le> length rs
    \<and> (k = length rs \<longleftrightarrow> length (bytes_of rs) \<le> n) \<and> (k = length rs \<longrightarrow> torn = [])"
  using assms
proof (induction rs arbitrary: n)
  case (Cons r rs)
  let ?l = "length (text_of r) + 1"
  show ?case
  proof (cases "n < ?l")
    case True
    then have "take n (bytes_of (r # rs)) = take n (text_of r)" by simp
    moreover have "newline \<notin> set (take n (text_of r))" using Cons.prems by (auto simp: readable_def dest: in_set_takeD)
    ultimately show ?thesis using True by (intro exI[of _ 0] exI[of _ "take n (text_of r)"]) simp
  next
    case False
    from Cons.IH[of "n - ?l"] Cons.prems obtain k torn where
      "take (n - ?l) (bytes_of rs) = bytes_of (take k rs) @ torn" "newline \<notin> set torn" "k \<le> length rs"
      "k = length rs \<longleftrightarrow> length (bytes_of rs) \<le> n - ?l" "k = length rs \<longrightarrow> torn = []" by auto
    with False show ?thesis
      by (intro exI[of _ "Suc k"] exI[of _ torn]) (auto simp: take_Cons' diff_diff_left)
  qed
qed simp

end
