(* ===== verification/JsonlRecovery.thy ===== *)
theory JsonlRecovery
  imports JsonlInv
begin

text \<open>
  What a journal file holds after appends that failed and after crashes: the batches that were
  acknowledged, and of the batch being written either everything or nothing.
\<close>

section \<open>The repairs\<close>

lemma take_Suc_batch: "k < length ds \<Longrightarrow> take (Suc k) (batch_records ds) = take k (batch_records ds) @ [batch_records ds ! k]"
  by (simp add: take_Suc_conv_app_nth)

lemma walk_batch_start:
  assumes "list_all (readable jl) (batch_records ds)" "0 < block" "want \<le> length ds" "dr_count final = int (length ds)"
    and "jf_bytes f = bytes_of (xs @ take want (batch_records ds)) @ rest"
    and "length (bytes_of (xs @ take want (batch_records ds))) \<le> jf_size f"
  shows "walk_batch jl block f final want (length (bytes_of (xs @ take want (batch_records ds))))
    = Inr (length (bytes_of xs))"
  using assms(3,5,6)
proof (induction want arbitrary: rest)
  case (Suc k)
  let ?r = "batch_records ds ! k"
  let ?ys = "xs @ take k (batch_records ds)"
  have k: "k < length ds" using Suc.prems(1) by simp
  have eq: "xs @ take (Suc k) (batch_records ds) = ?ys @ [?r]" using take_Suc_batch[OF k] by simp
  have r: "readable jl ?r" using assms(1) k by (simp add: list_all_length)
  have "previousLineLocked block f (length (bytes_of (?ys @ [?r]))) = Inr (text_of ?r, length (bytes_of ?ys))"
    by (rule previousLine_record[OF _ r _ assms(2)]) (use Suc.prems(2,3) eq in simp_all)
  moreover have "walk_batch jl block f final k (length (bytes_of ?ys)) = Inr (length (bytes_of xs))"
    by (rule Suc.IH[of "text_of ?r @ newline # rest"]) (use Suc.prems k in \<open>simp_all add: take_Suc_batch\<close>)
  ultimately show ?case using r k assms(4) unfolding eq
    by (simp add: readable_def nth_batch)
qed simp

lemma repair_incomplete:
  assumes "list_all (readable jl) (batch_records ds)" "0 < block" "0 < k" "k \<le> length ds"
    and "jf_bytes f = bytes_of (xs @ take k (batch_records ds))" "jf_size f = length (jf_bytes f)"
  shows "repairIncompleteBatchLocked jl block f
    = (if k = length ds then (Inr (), f) else truncate_to (length (bytes_of xs)) f)"
proof -
  obtain j where j: "k = Suc j" "j < length ds" using assms(3,4) by (cases k) auto
  let ?r = "batch_records ds ! j"
  let ?ys = "xs @ take j (batch_records ds)"
  have eq: "xs @ take k (batch_records ds) = ?ys @ [?r]" using j take_Suc_batch by simp
  have r: "readable jl ?r" using assms(1) j by (simp add: list_all_length)
  have size': "jf_size f = length (bytes_of (?ys @ [?r]))" using assms(5,6) eq by simp
  have "previousLineLocked block f (length (bytes_of (?ys @ [?r]))) = Inr (text_of ?r, length (bytes_of ?ys))"
    by (rule previousLine_record[OF _ r _ assms(2), where rest = "[]"]) (use assms(5) eq size' in simp_all)
  moreover have "walk_batch jl block f ?r j (length (bytes_of ?ys)) = Inr (length (bytes_of xs))"
    by (rule walk_batch_start[OF assms(1,2), where rest = "text_of ?r @ [newline]"])
      (use j assms(5) size' in \<open>simp_all add: nth_batch take_Suc_batch\<close>)
  moreover have "jf_size f \<noteq> 0" using size' by simp
  ultimately show ?thesis using r j size' assms(4)
    by (auto simp: repairIncompleteBatchLocked_def readable_def nth_batch)
qed

lemma repair_complete:
  assumes "batches_ok jl bs" "0 < block" "jf_bytes f = journal_bytes bs" "jf_size f = length (jf_bytes f)"
  shows "repairIncompleteBatchLocked jl block f = (Inr (), f)"
proof (cases bs rule: rev_cases)
  case Nil
  then show ?thesis using assms(3,4) by (simp add: repairIncompleteBatchLocked_def journal_bytes_def)
next
  case (snoc cs b)
  then have "repairIncompleteBatchLocked jl block f = (if length b = length b then (Inr (), f) else truncate_to (length (journal_bytes cs)) f)"
    unfolding journal_bytes_def
    by (intro repair_incomplete) (use assms snoc in \<open>simp_all add: journal_bytes_def\<close>)
  then show ?thesis by simp
qed

lemma repair_torn:
  assumes "jf_bytes f = p @ torn" "ends_line p" "newline \<notin> set torn" "0 < block"
  shows "repairTornTailLocked block f = (if torn = [] then (Inr (), f\<lparr>jf_size := length (jf_bytes f)\<rparr>)
    else truncate_to (length p) (f\<lparr>jf_size := length (jf_bytes f)\<rparr>))"
proof (cases "jf_bytes f = []")
  case True
  with assms show ?thesis by (simp add: repairTornTailLocked_def)
next
  case False
  then have last': "jf_bytes f ! (length (jf_bytes f) - 1) = last (jf_bytes f)" by (simp add: last_conv_nth)
  show ?thesis
  proof (cases "torn = []")
    case True
    with assms(1,2) False last' show ?thesis by (auto simp: repairTornTailLocked_def ends_line_def Let_def)
  next
    case torn: False
    then have "last (jf_bytes f) \<noteq> newline" using assms(1,3) by (metis last_appendR last_in_set)
    moreover have "scan_back block (jf_bytes f) (length (jf_bytes f)) = length p"
      by (rule scan_back_finds[OF _ assms(3,2) _ assms(4)]) (simp_all add: assms(1))
    ultimately show ?thesis using torn False last' by (simp add: repairTornTailLocked_def Let_def)
  qed
qed

section \<open>Opening what a crash left\<close>

text \<open>The contents of a file while a batch is being written.\<close>

definition cut_short :: "string list list \<Rightarrow> string list \<Rightarrow> nat \<Rightarrow> string" where
  "cut_short bs ds n = journal_bytes bs @ take n (bytes_of (batch_records ds))"

definition settled_batches :: "string list list \<Rightarrow> string list \<Rightarrow> nat \<Rightarrow> string list list" where
  "settled_batches bs ds n = (if length (bytes_of (batch_records ds)) \<le> n then bs @ [ds] else bs)"

lemma truncate_to_cases:
  assumes "truncate_to k f = (r, f')"
  obtains "r = Inr ()" "jf_bytes f' = take k (jf_bytes f)" "jf_size f' = k"
      "jf_closed f' = jf_closed f" "jf_snapshot f' = jf_snapshot f"
    | "r = Inl JIoFailed" "jf_bytes f' = jf_bytes f \<or> jf_bytes f' = take k (jf_bytes f)"
  using assms
  by (auto simp: truncate_to_def truncate_file_def sync_file_def next_io_def
      split: list.splits io_outcome.splits)

lemma truncate_to_ok: "jf_io f = [] \<Longrightarrow> truncate_to k f = (Inr (), f\<lparr>jf_bytes := take k (jf_bytes f), jf_size := k\<rparr>)"
  by (simp add: truncate_to_def truncate_file_def sync_file_def next_io_def)

text \<open>A handle on a file of complete batches.\<close>

definition handle_on :: "string list list \<Rightarrow> jfile \<Rightarrow> bool" where
  "handle_on bs f \<longleftrightarrow> jf_bytes f = journal_bytes bs \<and> jf_size f = length (journal_bytes bs)
     \<and> \<not> jf_closed f \<and> \<not> jf_snapshot f"

text \<open>
  Both repairs on such contents: with failing operations the contents stay a prefix of the same batch,
  and when the repairs succeed the handle is on the settled batches.
\<close>

definition stays_cut :: "string list list \<Rightarrow> string list \<Rightarrow> nat \<Rightarrow> string \<Rightarrow> bool" where
  "stays_cut bs ds n s \<longleftrightarrow> (\<exists>m. s = cut_short bs ds m \<and> settled_batches bs ds m = settled_batches bs ds n)"

lemma cut_short_0: "journal_bytes bs = cut_short bs ds 0"
  by (simp add: cut_short_def)

lemma settled_less: "n < length (bytes_of (batch_records ds)) \<Longrightarrow> settled_batches bs ds n = bs"
  by (simp add: settled_batches_def)

definition settles_as :: "string list list \<Rightarrow> string list \<Rightarrow> nat \<Rightarrow> (jsonl_error + unit) \<times> jfile \<Rightarrow> bool" where
  "settles_as bs ds n rf \<longleftrightarrow> (case fst rf of
      Inl _ \<Rightarrow> stays_cut bs ds n (jf_bytes (snd rf))
    | Inr _ \<Rightarrow> handle_on (settled_batches bs ds n) (snd rf))"

text \<open>The contents in terms of the records that are complete.\<close>

lemma cut_records:
  assumes "list_all (readable jl) (batch_records ds)"
  obtains k t where "cut_short bs ds n = bytes_of (journal_records bs @ take k (batch_records ds)) @ t"
    "newline \<notin> set t" "k \<le> length ds" "settled_batches bs ds n = (if k = length ds then bs @ [ds] else bs)"
    "stays_cut bs ds n (bytes_of (journal_records bs @ take k (batch_records ds)))"
proof -
  let ?rs = "batch_records ds" and ?len = "length (bytes_of (batch_records ds))"
  obtain k t where k: "take n (bytes_of ?rs) = bytes_of (take k ?rs) @ t" "newline \<notin> set t" "k \<le> length ds"
    "k = length ds \<longleftrightarrow> ?len \<le> n" using torn_split[OF assms, of n] by auto
  let ?m = "length (bytes_of (take k ?rs))"
  have split: "bytes_of ?rs = bytes_of (take k ?rs) @ bytes_of (drop k ?rs)"
    by (metis append_take_drop_id bytes_of_simps(3))
  have "?len \<le> ?m \<longleftrightarrow> k = length ds"
  proof
    assume "?len \<le> ?m"
    then have "bytes_of (drop k ?rs) = []" using arg_cong[OF split, of length] by simp
    then show "k = length ds" using k(3) by simp
  qed simp
  then have settled: "settled_batches bs ds n = (if k = length ds then bs @ [ds] else bs)"
    "settled_batches bs ds ?m = settled_batches bs ds n" using k(4) by (auto simp: settled_batches_def)
  have "bytes_of (journal_records bs @ take k ?rs) = cut_short bs ds ?m"
    using split by (simp add: cut_short_def journal_bytes_def)
  then have "stays_cut bs ds n (bytes_of (journal_records bs @ take k ?rs))"
    using settled(2) unfolding stays_cut_def by blast
  with that[of k t] k settled(1) show ?thesis by (simp add: cut_short_def journal_bytes_def)
qed

text \<open>The second repair, once the torn tail is gone.\<close>

lemma second_repair_part:
  assumes ok: "batches_ok jl (bs @ [ds])" and block: "0 < block" and k: "0 < k" "k < length ds"
    and settled: "settled_batches bs ds n = bs"
    and g: "jf_bytes g = bytes_of (journal_records bs @ take k (batch_records ds))" "jf_size g = length (jf_bytes g)"
      "\<not> jf_closed g" "\<not> jf_snapshot g" and stays: "stays_cut bs ds n (jf_bytes g)"
  shows "settles_as bs ds n (repairIncompleteBatchLocked jl block g)
    \<and> (jf_io g = [] \<longrightarrow> fst (repairIncompleteBatchLocked jl block g) = Inr ())"
proof -
  have rp: "repairIncompleteBatchLocked jl block g = truncate_to (length (journal_bytes bs)) g"
    using repair_incomplete[OF _ block k(1) _ g(1,2)] ok k(2) by (simp add: journal_bytes_def)
  have tk: "take (length (journal_bytes bs)) (jf_bytes g) = journal_bytes bs"
    using g(1) by (simp add: journal_bytes_def)
  have "settled_batches bs ds 0 = bs" using ok by (simp add: settled_batches_def)
  then have js: "stays_cut bs ds n (journal_bytes bs)" using settled cut_short_0 unfolding stays_cut_def by metis
  obtain r g' where tr: "truncate_to (length (journal_bytes bs)) g = (r, g')" by fastforce
  then have "settles_as bs ds n (r, g')"
  proof (cases rule: truncate_to_cases)
    case 1
    then show ?thesis using tk g settled by (simp add: settles_as_def handle_on_def)
  next
    case 2
    then show ?thesis using tk js stays by (auto simp: settles_as_def)
  qed
  then show ?thesis using rp tr truncate_to_ok[of g "length (journal_bytes bs)"] by auto
qed

lemma second_repair:
  assumes ok: "batches_ok jl (bs @ [ds])" and block: "0 < block" and k: "k \<le> length ds"
    and settled: "settled_batches bs ds n = (if k = length ds then bs @ [ds] else bs)"
    and g: "jf_bytes g = bytes_of (journal_records bs @ take k (batch_records ds))" "jf_size g = length (jf_bytes g)"
      "\<not> jf_closed g" "\<not> jf_snapshot g" and stays: "stays_cut bs ds n (jf_bytes g)"
  shows "settles_as bs ds n (repairIncompleteBatchLocked jl block g)
    \<and> (jf_io g = [] \<longrightarrow> fst (repairIncompleteBatchLocked jl block g) = Inr ())"
proof (cases "0 < k \<and> k < length ds")
  case True
  then show ?thesis using second_repair_part[OF ok block _ _ _ g stays] settled by simp
next
  case False
  let ?bs = "settled_batches bs ds n"
  have j: "jf_bytes g = journal_bytes ?bs"
    using False k g(1) settled ok by (cases "k = 0") (auto simp: journal_bytes_def)
  have "batches_ok jl ?bs" using ok settled by simp
  from repair_complete[OF this block j g(2)] j g(2-4) show ?thesis
    by (simp add: settles_as_def handle_on_def)
qed

text \<open>
  Both repairs: with failing operations the contents stay a prefix of the same batch, and when the
  repairs succeed the handle is on the settled batches.
\<close>

definition both_repairs :: "json_text \<Rightarrow> nat \<Rightarrow> jfile \<Rightarrow> (jsonl_error + unit) \<times> jfile" where
  "both_repairs jl block f = (case repairTornTailLocked block f of
      (Inl e, f1) \<Rightarrow> (Inl e, f1) | (Inr _, f1) \<Rightarrow> repairIncompleteBatchLocked jl block f1)"

lemma repairs_settle:
  assumes ok: "batches_ok jl (bs @ [ds])" and block: "0 < block"
    and f: "jf_bytes f = cut_short bs ds n" "\<not> jf_closed f" "\<not> jf_snapshot f"
  shows "settles_as bs ds n (both_repairs jl block f) \<and> (jf_io f = [] \<longrightarrow> fst (both_repairs jl block f) = Inr ())"
proof -
  have "list_all (readable jl) (batch_records ds)" using ok by simp
  then obtain k t where k: "cut_short bs ds n = bytes_of (journal_records bs @ take k (batch_records ds)) @ t"
    "newline \<notin> set t" "k \<le> length ds" "settled_batches bs ds n = (if k = length ds then bs @ [ds] else bs)"
    "stays_cut bs ds n (bytes_of (journal_records bs @ take k (batch_records ds)))"
    by (rule cut_records[where bs = bs and n = n])
  let ?p = "bytes_of (journal_records bs @ take k (batch_records ds))"
  have bytes: "jf_bytes f = ?p @ t" using f(1) k(1) by simp
  have f_stays: "stays_cut bs ds n (jf_bytes f)" using f(1) unfolding stays_cut_def by blast
  note second = second_repair[OF ok block k(3,4)]
  note rt = repair_torn[OF bytes bytes_of_ends_line k(2) block]
  let ?g = "f\<lparr>jf_size := length (jf_bytes f)\<rparr>"
  show ?thesis
  proof (cases "t = []")
    case True
    then show ?thesis using second[of ?g] rt bytes f(2,3) k(5) by (simp add: both_repairs_def)
  next
    case False
    obtain r1 f1 where tr: "truncate_to (length ?p) ?g = (r1, f1)" by fastforce
    then have run: "repairTornTailLocked block f = (r1, f1)" using rt False by simp
    have tk: "take (length ?p) (jf_bytes ?g) = ?p" using bytes by simp
    from tr show ?thesis
    proof (cases rule: truncate_to_cases)
      case 1
      then have "jf_bytes f1 = ?p" "jf_size f1 = length (jf_bytes f1)" "\<not> jf_closed f1" "\<not> jf_snapshot f1"
        using tk f by simp_all
      moreover have "jf_io f = [] \<longrightarrow> jf_io f1 = []" using tr truncate_to_ok[of ?g "length ?p"] by auto
      ultimately show ?thesis using second[of f1] k(5) run 1(1) by (simp add: both_repairs_def)
    next
      case 2
      have "jf_io f \<noteq> []" using 2(1) tr truncate_to_ok[of ?g "length ?p"] by auto
      then show ?thesis using 2 run tk k(5) f_stays by (auto simp: both_repairs_def settles_as_def)
    qed
  qed
qed

lemma Open_existing:
  "Open jl block dirs (Some s) io = (case both_repairs jl block (fresh_handle s io) of
     (Inl e, f) \<Rightarrow> (Inl e, Some (jf_bytes f)) | (Inr _, f) \<Rightarrow> (Inr f, Some (jf_bytes f)))"
  by (simp add: Open_def both_repairs_def Let_def split: prod.splits sum.splits)

lemma Open_settles:
  assumes "batches_ok jl (bs @ [ds])" "0 < block" and run: "Open jl block dirs (Some (cut_short bs ds n)) io = (r, s)"
  shows "case r of Inl _ \<Rightarrow> (\<exists>c. s = Some c \<and> stays_cut bs ds n c)
    | Inr f \<Rightarrow> handle_on (settled_batches bs ds n) f \<and> s = Some (journal_bytes (settled_batches bs ds n))"
    and "io = [] \<Longrightarrow> \<exists>f. r = Inr f"
proof -
  let ?f = "fresh_handle (cut_short bs ds n) io"
  have "settles_as bs ds n (both_repairs jl block ?f) \<and> (io = [] \<longrightarrow> fst (both_repairs jl block ?f) = Inr ())"
    using repairs_settle[OF assms(1,2), of ?f n] by (simp add: fresh_handle_def)
  with run show "case r of Inl _ \<Rightarrow> (\<exists>c. s = Some c \<and> stays_cut bs ds n c)
    | Inr f \<Rightarrow> handle_on (settled_batches bs ds n) f \<and> s = Some (journal_bytes (settled_batches bs ds n))"
    and "io = [] \<Longrightarrow> \<exists>f. r = Inr f"
    by (auto simp: Open_existing settles_as_def handle_on_def split: prod.splits sum.splits)
qed

end
