(* ===== verification/JsonlProps.thy ===== *)
theory JsonlProps
  imports JsonlRecovery ContextRenewal "HOL-Library.Sublist"
begin

text \<open>Durability of the journal file across failing appends, crashes and interrupted repairs.\<close>

section \<open>Appending\<close>

lemma embedded_ok:
  assumes "json_laws jl" "map (jl_embed jl) rs = map Some ds" "ds \<noteq> []"
  shows "batches_ok jl [ds]"
proof -
  have "\<exists>raw. jl_embed jl raw = Some (ds ! i)" if "i < length ds" for i
    using arg_cong[OF assms(2), of "\<lambda>l. l ! i"] that assms(2) by (metis length_map nth_map)
  then have "list_all (\<lambda>d. \<exists>raw. jl_embed jl raw = Some d) ds" by (simp add: list_all_length)
  then show ?thesis using assms(1,3) by (simp add: embedded_readable)
qed

definition embed_all :: "json_text \<Rightarrow> string list \<Rightarrow> string list option" where
  "embed_all jl rs = those (map (jl_embed jl) rs)"

lemma embed_all_map: "map (jl_embed jl) rs = map Some ds \<Longrightarrow> embed_all jl rs = Some ds"
proof -
  have "those (map Some ds) = Some ds" by (induction ds) simp_all
  then show "map (jl_embed jl) rs = map Some ds \<Longrightarrow> embed_all jl rs = Some ds" by (simp add: embed_all_def)
qed

lemma rollback_bytes:
  "jf_bytes (rollbackLocked k f) = jf_bytes f \<or> jf_bytes (rollbackLocked k f) = take k (jf_bytes f)"
  "jf_size (rollbackLocked k f) = jf_size f" "jf_closed (rollbackLocked k f) = jf_closed f"
  "jf_snapshot (rollbackLocked k f) = jf_snapshot f"
  by (auto simp: rollbackLocked_def truncate_file_def sync_file_def next_io_def
      split: list.splits io_outcome.splits prod.splits)

lemma sync_file_sel:
  "jf_bytes (snd (sync_file f)) = jf_bytes f" "jf_size (snd (sync_file f)) = jf_size f"
  "jf_closed (snd (sync_file f)) = jf_closed f" "jf_snapshot (snd (sync_file f)) = jf_snapshot f"
  by (auto simp: sync_file_def next_io_def split: list.splits io_outcome.splits)

lemma write_bytes_sel:
  "jf_size (snd (write_bytes k p f)) = jf_size f" "jf_closed (snd (write_bytes k p f)) = jf_closed f"
  "jf_snapshot (snd (write_bytes k p f)) = jf_snapshot f"
  "\<exists>n. jf_bytes (snd (write_bytes k p f)) = take k (jf_bytes f) @ take n p
     \<and> (fst (write_bytes k p f) = Inr () \<longrightarrow> length p \<le> n)"
  by (auto simp: write_bytes_def next_io_def split: list.splits io_outcome.splits intro: exI[of _ "length p"])

text \<open>An append that gets as far as the file, and everything it may leave.\<close>

lemma Append_started:
  assumes enc: "encodeBatch jl rs = Inr payload" and on: "handle_on bs f" and block: "0 < block"
    and run: "Append jl block rs f = (r, f')"
  obtains n where "jf_bytes f' = journal_bytes bs @ take n payload" "\<not> jf_closed f'" "\<not> jf_snapshot f'"
    "case r of Inl _ \<Rightarrow> jf_size f' = length (journal_bytes bs)
     | Inr b \<Rightarrow> length payload \<le> n \<and> jf_size f' = length (journal_bytes bs) + length payload
         \<and> b = \<lparr>b_start = length (journal_bytes bs), b_end = jf_size f', b_count = length rs\<rparr>"
proof -
  let ?L = "length (journal_bytes bs)"
  obtain r1 f1 where s1: "sync_file f = (r1, f1)" by fastforce
  obtain r2 f2 where w: "write_bytes ?L payload f1 = (r2, f2)" by fastforce
  obtain r3 f3 where s3: "sync_file f2 = (r3, f3)" by fastforce
  have f: "jf_bytes f = journal_bytes bs" "jf_size f = ?L" "\<not> jf_closed f" "\<not> jf_snapshot f"
    using on by (simp_all add: handle_on_def)
  have f1: "jf_bytes f1 = journal_bytes bs" "jf_size f1 = ?L" "\<not> jf_closed f1" "\<not> jf_snapshot f1"
    using sync_file_sel[of f] s1 f by simp_all
  have f2: "jf_size f2 = ?L" "\<not> jf_closed f2" "\<not> jf_snapshot f2"
    using write_bytes_sel(1-3)[of ?L payload f1] w f1 by simp_all
  obtain n where n: "jf_bytes f2 = journal_bytes bs @ take n payload" "r2 = Inr () \<longrightarrow> length payload \<le> n"
    using write_bytes_sel(4)[of ?L payload f1] w f1(1) by auto
  have f3: "jf_bytes f3 = jf_bytes f2" "jf_size f3 = ?L" "\<not> jf_closed f3" "\<not> jf_snapshot f3"
    using sync_file_sel[of f2] s3 f2 by simp_all
  have app: "Append jl block rs f = (case r1 of Inl e \<Rightarrow> (Inl e, f1)
      | Inr _ \<Rightarrow> (case r2 of Inl e \<Rightarrow> (Inl e, rollbackLocked ?L f2)
          | Inr _ \<Rightarrow> (case r3 of Inl e \<Rightarrow> (Inl e, rollbackLocked ?L f3)
              | Inr _ \<Rightarrow> (Inr \<lparr>b_start = ?L, b_end = ?L + length payload, b_count = length rs\<rparr>,
                  f3\<lparr>jf_size := ?L + length payload\<rparr>))))"
    using enc block f s1 w s3 by (simp add: Append_def ensureOpenLocked_def checkSizeLocked_def Let_def split: sum.split)
  have rolled: "\<exists>m. jf_bytes (rollbackLocked ?L g) = journal_bytes bs @ take m payload"
    if "jf_bytes g = journal_bytes bs @ take n payload" for g
    using rollback_bytes(1)[of ?L g] that by (auto intro: exI[of _ n] exI[of _ 0])
  consider (a) e where "r = Inl e" "f' = f1" | (b) e where "r = Inl e" "f' = rollbackLocked ?L f2"
    | (c) e where "r = Inl e" "f' = rollbackLocked ?L f3"
    | (d) "r2 = Inr ()" "r = Inr \<lparr>b_start = ?L, b_end = ?L + length payload, b_count = length rs\<rparr>"
        "f' = f3\<lparr>jf_size := ?L + length payload\<rparr>"
    using app run by (cases r1; cases r2; cases r3) auto
  then show ?thesis
  proof cases
    case a
    then show ?thesis using f1 that[of 0] by simp
  next
    case b
    obtain m where "jf_bytes f' = journal_bytes bs @ take m payload" using rolled[OF n(1)] b by auto
    then show ?thesis using that[of m] b rollback_bytes(2-4)[of ?L f2] f2 by simp
  next
    case c
    obtain m where "jf_bytes f' = journal_bytes bs @ take m payload" using rolled[of f3] f3(1) n(1) c by auto
    then show ?thesis using that[of m] c rollback_bytes(2-4)[of ?L f3] f3 by simp
  next
    case d
    then show ?thesis using that[of n] n f3 by simp
  qed
qed

text \<open>A handle whose file is not as long as it believes refuses to append.\<close>

lemma Append_refused:
  assumes "encodeBatch jl rs = Inl e \<or> length (jf_bytes f) \<noteq> jf_size f" "\<not> jf_snapshot f"
    and "Append jl block rs f = (r, f')"
  shows "f' = f \<and> (\<exists>e. r = Inl e)"
  using assms by (auto simp: Append_def checkSizeLocked_def Let_def split: sum.splits option.splits if_splits)

section \<open>The machine\<close>

text \<open>
  A file and the handle on it, if a process has it open; the batches that were passed to \<open>Append\<close> and,
  of these, the ones it acknowledged. A crash inside an append leaves some of the payload behind;
  opening may fail and be tried again.
\<close>

record journal_world =
  jw_handle :: "jfile option"
  jw_contents :: string
  jw_attempted :: "string list list"
  jw_acked :: "string list list"

datatype journal_call =
    CallAppend "string list" "io_outcome list" | CallCrashInAppend "string list" nat | CallKill
  | CallOpen "io_outcome list"

definition attempted :: "json_text \<Rightarrow> string list \<Rightarrow> journal_world \<Rightarrow> journal_world" where
  "attempted jl rs w = (case embed_all jl rs of None \<Rightarrow> w | Some ds \<Rightarrow> w\<lparr>jw_attempted := jw_attempted w @ [ds]\<rparr>)"

definition acked :: "json_text \<Rightarrow> string list \<Rightarrow> journal_world \<Rightarrow> journal_world" where
  "acked jl rs w = (case embed_all jl rs of None \<Rightarrow> w | Some ds \<Rightarrow> w\<lparr>jw_acked := jw_acked w @ [ds]\<rparr>)"

fun run_journal :: "json_text \<Rightarrow> nat \<Rightarrow> journal_call \<Rightarrow> journal_world \<Rightarrow> journal_world" where
  "run_journal jl block (CallAppend rs io) w = (case jw_handle w of None \<Rightarrow> w
     | Some f \<Rightarrow> (case Append jl block rs (f\<lparr>jf_io := io\<rparr>) of
         (Inl _, f') \<Rightarrow> (attempted jl rs w)\<lparr>jw_handle := Some f', jw_contents := jf_bytes f'\<rparr>
       | (Inr _, f') \<Rightarrow> (acked jl rs (attempted jl rs w))\<lparr>jw_handle := Some f', jw_contents := jf_bytes f'\<rparr>))"
| "run_journal jl block (CallCrashInAppend rs n) w = (case jw_handle w of None \<Rightarrow> w
     | Some f \<Rightarrow> (case encodeBatch jl rs of
         Inl _ \<Rightarrow> w\<lparr>jw_handle := None\<rparr>
       | Inr payload \<Rightarrow> (if checkSizeLocked f \<noteq> None then w\<lparr>jw_handle := None\<rparr>
           else (attempted jl rs w)\<lparr>jw_handle := None,
             jw_contents := take (jf_size f) (jf_bytes f) @ take n payload\<rparr>)))"
| "run_journal jl block CallKill w = w\<lparr>jw_handle := None\<rparr>"
| "run_journal jl block (CallOpen io) w = (case jw_handle w of Some _ \<Rightarrow> w
     | None \<Rightarrow> (case Open jl block 0 (Some (jw_contents w)) io of
         (Inl _, c) \<Rightarrow> w\<lparr>jw_contents := (case c of None \<Rightarrow> [] | Some s \<Rightarrow> s)\<rparr>
       | (Inr f, c) \<Rightarrow> w\<lparr>jw_handle := Some f, jw_contents := (case c of None \<Rightarrow> [] | Some s \<Rightarrow> s)\<rparr>))"

definition journal_init :: "journal_world \<Rightarrow> bool" where
  "journal_init w \<longleftrightarrow> w = \<lparr>jw_handle = None, jw_contents = [], jw_attempted = [], jw_acked = []\<rparr>"

definition journal_step :: "json_text \<Rightarrow> nat \<Rightarrow> journal_world \<Rightarrow> journal_call \<Rightarrow> journal_world \<Rightarrow> bool" where
  "journal_step jl block w c w' \<longleftrightarrow> w' = run_journal jl block c w"

text \<open>
  The invariant: complete batches \<open>bs\<close> between the acknowledged and the attempted ones, then possibly a
  part of one more attempted batch. A handle knows the length of the complete batches.
\<close>

definition tail_ok :: "json_text \<Rightarrow> string list list \<Rightarrow> string list list \<Rightarrow> string \<Rightarrow> bool" where
  "tail_ok jl bs att c \<longleftrightarrow> c = journal_bytes bs
     \<or> (\<exists>ds n. c = cut_short bs ds n \<and> batches_ok jl [ds] \<and> subseq (bs @ [ds]) att)"

definition journal_ok :: "json_text \<Rightarrow> journal_world \<Rightarrow> bool" where
  "journal_ok jl w \<longleftrightarrow> (\<exists>bs. batches_ok jl bs \<and> subseq (jw_acked w) bs \<and> subseq bs (jw_attempted w)
     \<and> tail_ok jl bs (jw_attempted w) (jw_contents w)
     \<and> (case jw_handle w of None \<Rightarrow> True
        | Some f \<Rightarrow> jf_bytes f = jw_contents w \<and> jf_size f = length (journal_bytes bs)
            \<and> \<not> jf_closed f \<and> \<not> jf_snapshot f))"

lemma subseq_snoc: "subseq xs ys \<Longrightarrow> subseq xs (ys @ [y])"
  by (rule subseq_order.trans[of _ ys]) auto

lemma subseq_snoc_both: "subseq xs ys \<Longrightarrow> subseq (xs @ [y]) (ys @ [y])"
  by (rule list_emb_append_mono) auto

lemma tail_ok_mono: "tail_ok jl bs att c \<Longrightarrow> tail_ok jl bs (att @ [ds]) c"
  by (auto simp: tail_ok_def intro: subseq_snoc)

lemma attempted_sel [simp]:
  "jw_handle (attempted jl rs w) = jw_handle w" "jw_contents (attempted jl rs w) = jw_contents w"
  "jw_acked (attempted jl rs w) = jw_acked w"
  "subseq (jw_attempted w) (jw_attempted (attempted jl rs w))"
  by (simp_all add: attempted_def subseq_snoc split: option.split)

lemma tail_ok_attempted: "tail_ok jl bs (jw_attempted w) c \<Longrightarrow> tail_ok jl bs (jw_attempted (attempted jl rs w)) c"
  by (simp add: attempted_def tail_ok_mono split: option.split)

text \<open>A handle that is in step with its file is on the complete batches.\<close>

lemma in_step_handle:
  assumes "tail_ok jl bs att c" "jf_bytes f = c" "jf_size f = length (journal_bytes bs)" "length c = jf_size f"
    "\<not> jf_closed f" "\<not> jf_snapshot f"
  shows "handle_on bs f"
  using assms by (auto simp: tail_ok_def cut_short_def handle_on_def min_def split: if_splits)

lemma append_keeps_ok:
  assumes ok: "journal_ok jl w" and laws: "json_laws jl" and block: "0 < block" and h: "jw_handle w = Some f"
  shows "journal_ok jl (run_journal jl block (CallAppend rs io) w)"
proof -
  let ?f = "f\<lparr>jf_io := io\<rparr>"
  obtain r f' where run: "Append jl block rs ?f = (r, f')" by fastforce
  obtain bs where bs: "batches_ok jl bs" "subseq (jw_acked w) bs" "subseq bs (jw_attempted w)"
    "tail_ok jl bs (jw_attempted w) (jw_contents w)" "jf_bytes f = jw_contents w"
    "jf_size f = length (journal_bytes bs)" "\<not> jf_closed f" "\<not> jf_snapshot f"
    using ok h by (auto simp: journal_ok_def)
  let ?w = "attempted jl rs w"
  have att: "subseq bs (jw_attempted ?w)" using bs(3) attempted_sel(4) by (rule subseq_order.trans)
  show ?thesis
  proof (cases "isl (encodeBatch jl rs) \<or> length (jf_bytes f) \<noteq> jf_size f")
    case True
    then have "f' = ?f \<and> (\<exists>e. r = Inl e)"
      using Append_refused[OF _ _ run] bs(8) by (auto simp: isl_def)
    then show ?thesis using run h bs att tail_ok_attempted[OF bs(4), of rs]
      by (auto simp: journal_ok_def)
  next
    case False
    then obtain payload where enc: "encodeBatch jl rs = Inr payload" by (cases "encodeBatch jl rs") auto
    obtain ds where ds: "map (jl_embed jl) rs = map Some ds" "ds \<noteq> []" "payload = bytes_of (batch_records ds)"
      using encodeBatch_bytes[OF enc] by blast
    have okds: "batches_ok jl [ds]" by (rule embedded_ok[OF laws ds(1,2)])
    have w: "jw_attempted ?w = jw_attempted w @ [ds]" using embed_all_map[OF ds(1)] by (simp add: attempted_def)
    have snoc: "subseq (bs @ [ds]) (jw_attempted ?w)" using w bs(3) by (simp add: subseq_snoc_both)
    have on: "handle_on bs ?f"
      by (rule in_step_handle[OF bs(4)]) (use bs False in simp_all)
    obtain n where n: "jf_bytes f' = cut_short bs ds n" "\<not> jf_closed f'" "\<not> jf_snapshot f'"
      "case r of Inl _ \<Rightarrow> jf_size f' = length (journal_bytes bs)
       | Inr b \<Rightarrow> length payload \<le> n \<and> jf_size f' = length (journal_bytes bs) + length payload
           \<and> b = \<lparr>b_start = length (journal_bytes bs), b_end = jf_size f', b_count = length rs\<rparr>"
      by (rule Append_started[OF enc on block run]) (simp add: ds(3) cut_short_def)
    show ?thesis
    proof (cases r)
      case (Inl e)
      have "tail_ok jl bs (jw_attempted ?w) (jf_bytes f')" using n(1) okds snoc by (auto simp: tail_ok_def)
      then show ?thesis using run h bs(1,2) att n Inl by (auto simp: journal_ok_def intro!: exI[of _ bs])
    next
      case (Inr b)
      have full: "journal_bytes (bs @ [ds]) = jf_bytes f'" "length (journal_bytes (bs @ [ds])) = jf_size f'"
        using n Inr ds(3) by (simp_all add: cut_short_def journal_bytes_def)
      have "acked jl rs ?w = ?w\<lparr>jw_acked := jw_acked w @ [ds]\<rparr>"
        using embed_all_map[OF ds(1)] by (simp add: acked_def attempted_def)
      then have "run_journal jl block (CallAppend rs io) w
          = ?w\<lparr>jw_acked := jw_acked w @ [ds], jw_handle := Some f', jw_contents := jf_bytes f'\<rparr>"
        using run h Inr by simp
      moreover have "tail_ok jl (bs @ [ds]) (jw_attempted ?w) (jf_bytes f')" using full by (simp add: tail_ok_def)
      ultimately show ?thesis using bs(1,2) okds snoc full n(2,3)
        by (auto simp: journal_ok_def subseq_snoc_both intro!: exI[of _ "bs @ [ds]"])
    qed
  qed
qed

lemma crash_keeps_ok:
  assumes ok: "journal_ok jl w" and laws: "json_laws jl" and h: "jw_handle w = Some f"
  shows "journal_ok jl (run_journal jl block (CallCrashInAppend rs n) w)"
proof -
  obtain bs where bs: "batches_ok jl bs" "subseq (jw_acked w) bs" "subseq bs (jw_attempted w)"
    "tail_ok jl bs (jw_attempted w) (jw_contents w)" "jf_bytes f = jw_contents w"
    "jf_size f = length (journal_bytes bs)" "\<not> jf_closed f" "\<not> jf_snapshot f"
    using ok h by (auto simp: journal_ok_def)
  show ?thesis
  proof (cases "isl (encodeBatch jl rs) \<or> checkSizeLocked f \<noteq> None")
    case True
    then show ?thesis using h bs by (auto simp: journal_ok_def isl_def split: sum.splits)
  next
    case False
    then obtain payload where enc: "encodeBatch jl rs = Inr payload" by (cases "encodeBatch jl rs") auto
    obtain ds where ds: "map (jl_embed jl) rs = map Some ds" "ds \<noteq> []" "payload = bytes_of (batch_records ds)"
      using encodeBatch_bytes[OF enc] by blast
    have w: "attempted jl rs w = w\<lparr>jw_attempted := jw_attempted w @ [ds]\<rparr>"
      using embed_all_map[OF ds(1)] by (simp add: attempted_def)
    have "length (jf_bytes f) = jf_size f" using False bs(8) by (auto simp: checkSizeLocked_def split: if_splits)
    then have "handle_on bs f" by (intro in_step_handle[OF bs(4)]) (use bs in simp_all)
    then have "take (jf_size f) (jf_bytes f) @ take n payload = cut_short bs ds n"
      using ds(3) by (simp add: handle_on_def cut_short_def)
    then have "tail_ok jl bs (jw_attempted w @ [ds]) (take (jf_size f) (jf_bytes f) @ take n payload)"
      using embedded_ok[OF laws ds(1,2)] bs(3) by (auto simp: tail_ok_def subseq_snoc_both)
    then show ?thesis using False h enc w bs(1-3)
      by (auto simp: journal_ok_def intro!: exI[of _ bs] intro: subseq_snoc)
  qed
qed

text \<open>Opening settles the tail: the batch that was cut short is there in whole or not at all.\<close>

lemma Open_complete:
  assumes "batches_ok jl bs" "0 < block"
  shows "\<exists>f. Open jl block dirs (Some (journal_bytes bs)) io = (Inr f, Some (journal_bytes bs)) \<and> handle_on bs f"
proof -
  let ?f = "fresh_handle (journal_bytes bs) io"
  have "ends_line (journal_bytes bs)" by (simp add: journal_bytes_def)
  then have t: "repairTornTailLocked block ?f = (Inr (), ?f\<lparr>jf_size := length (journal_bytes bs)\<rparr>)"
    using repair_torn[of ?f "journal_bytes bs" "[]"] assms(2) by (simp add: fresh_handle_def)
  have "repairIncompleteBatchLocked jl block (?f\<lparr>jf_size := length (journal_bytes bs)\<rparr>)
      = (Inr (), ?f\<lparr>jf_size := length (journal_bytes bs)\<rparr>)"
    by (rule repair_complete[OF assms]) (simp_all add: fresh_handle_def)
  with t show ?thesis by (simp add: Open_existing both_repairs_def handle_on_def fresh_handle_def)
qed

lemma Open_tail:
  assumes bs: "batches_ok jl bs" "subseq ack bs" "subseq bs att" and tail: "tail_ok jl bs att c" and block: "0 < block"
    and run: "Open jl block dirs (Some c) io = (r, s)"
  shows "\<exists>cs. batches_ok jl cs \<and> subseq ack cs \<and> subseq cs att
    \<and> (case r of Inl _ \<Rightarrow> (\<exists>c'. s = Some c' \<and> tail_ok jl cs att c')
       | Inr f \<Rightarrow> handle_on cs f \<and> s = Some (journal_bytes cs))"
    and "io = [] \<Longrightarrow> \<exists>f. r = Inr f"
proof -
  have "(\<exists>cs. batches_ok jl cs \<and> subseq ack cs \<and> subseq cs att
    \<and> (case r of Inl _ \<Rightarrow> (\<exists>c'. s = Some c' \<and> tail_ok jl cs att c')
       | Inr f \<Rightarrow> handle_on cs f \<and> s = Some (journal_bytes cs))) \<and> (io = [] \<longrightarrow> (\<exists>f. r = Inr f))"
  proof (cases "c = journal_bytes bs")
    case True
    with Open_complete[OF bs(1) block, of dirs io] run bs show ?thesis by auto
  next
    case False
    with tail obtain ds n where c: "c = cut_short bs ds n" "batches_ok jl [ds]" "subseq (bs @ [ds]) att"
      by (auto simp: tail_ok_def)
    have ok: "batches_ok jl (bs @ [ds])" using bs(1) c(2) by simp
    note os = Open_settles[OF ok block run[unfolded c(1)]]
    have settled: "batches_ok jl (settled_batches bs ds n)" "subseq ack (settled_batches bs ds n)"
      "subseq (settled_batches bs ds n) att"
      using ok bs c(3) subseq_snoc[OF bs(2), of ds] by (simp_all add: settled_batches_def)
    show ?thesis
    proof (cases r)
      case (Inl e)
      then obtain c' where c': "s = Some c'" "stays_cut bs ds n c'" using os(1) by auto
      then obtain m where "c' = cut_short bs ds m" by (auto simp: stays_cut_def)
      then have "tail_ok jl bs att c'" using c(2,3) by (auto simp: tail_ok_def)
      then show ?thesis using c'(1) bs Inl os(2) by auto
    next
      case (Inr f)
      then show ?thesis using os settled by (intro conjI exI[of _ "settled_batches bs ds n"]) auto
    qed
  qed
  then show "\<exists>cs. batches_ok jl cs \<and> subseq ack cs \<and> subseq cs att
    \<and> (case r of Inl _ \<Rightarrow> (\<exists>c'. s = Some c' \<and> tail_ok jl cs att c')
       | Inr f \<Rightarrow> handle_on cs f \<and> s = Some (journal_bytes cs))" "io = [] \<Longrightarrow> \<exists>f. r = Inr f" by blast+
qed

lemma open_keeps_ok:
  assumes ok: "journal_ok jl w" and block: "0 < block" and h: "jw_handle w = None"
  shows "journal_ok jl (run_journal jl block (CallOpen io) w)"
proof -
  obtain bs where bs: "batches_ok jl bs" "subseq (jw_acked w) bs" "subseq bs (jw_attempted w)"
    "tail_ok jl bs (jw_attempted w) (jw_contents w)" using ok by (auto simp: journal_ok_def)
  obtain r s where run: "Open jl block 0 (Some (jw_contents w)) io = (r, s)" by fastforce
  obtain cs where cs: "batches_ok jl cs" "subseq (jw_acked w) cs" "subseq cs (jw_attempted w)"
    "case r of Inl _ \<Rightarrow> (\<exists>c'. s = Some c' \<and> tail_ok jl cs (jw_attempted w) c')
       | Inr f \<Rightarrow> handle_on cs f \<and> s = Some (journal_bytes cs)"
    using Open_tail(1)[OF bs block run] by blast
  show ?thesis
  proof (cases r)
    case (Inl e)
    then show ?thesis using run h cs by (auto simp: journal_ok_def)
  next
    case (Inr f)
    then show ?thesis using run h cs
      by (auto simp: journal_ok_def handle_on_def tail_ok_def intro!: exI[of _ cs])
  qed
qed

lemma run_journal_ok:
  assumes "json_laws jl" "0 < block" "journal_ok jl w"
  shows "journal_ok jl (run_journal jl block c w)"
proof (cases c)
  case (CallAppend rs io)
  then show ?thesis using append_keeps_ok[OF assms(3,1,2)] assms(3) by (cases "jw_handle w") simp_all
next
  case (CallCrashInAppend rs n)
  then show ?thesis using crash_keeps_ok[OF assms(3,1)] assms(3) by (cases "jw_handle w") simp_all
next
  case CallKill
  then show ?thesis using assms(3) by (auto simp: journal_ok_def)
next
  case (CallOpen io)
  then show ?thesis using open_keeps_ok[OF assms(3,2)] assms(3) by (cases "jw_handle w") simp_all
qed

lemma journal_init_ok: "journal_init w \<Longrightarrow> journal_ok jl w"
  by (auto simp: journal_init_def journal_ok_def tail_ok_def journal_bytes_def intro!: exI[of _ "[]"])

interpretation journal_runs: invariant_machine journal_init "journal_step jl block"
    "\<lambda>w. json_laws jl \<longrightarrow> 0 < block \<longrightarrow> journal_ok jl w"
  by unfold_locales (auto simp: journal_step_def intro: journal_init_ok run_journal_ok)

section \<open>Durability\<close>


text \<open>A decoder of framed lines, to run the model on.\<close>

definition after :: "string \<Rightarrow> string \<Rightarrow> string option" where
  "after p s = (if take (length p) s = p then Some (drop (length p) s) else None)"

lemma after_append [simp]: "after p (p @ s) = Some s"
  by (simp add: after_def)

definition wit_number :: "string \<Rightarrow> int \<times> string" where
  "wit_number s = (int (atoi (takeWhile is_digit s)), dropWhile is_digit s)"

definition wit_decode :: "string \<Rightarrow> disk_record option" where
  "wit_decode s = Option.bind (after (''{\"v\":'' @ itoa_int diskVersion @ '',\"index\":'') s) (\<lambda>s1.
     case wit_number s1 of (i, s2) \<Rightarrow> Option.bind (after '',\"count\":'' s2) (\<lambda>s3.
       case wit_number s3 of (c, s4) \<Rightarrow> Option.bind (after '',\"data\":'' s4) (\<lambda>s5.
         Some \<lparr>dr_version = diskVersion, dr_index = i, dr_count = c, dr_data = butlast s5\<rparr>)))"

definition wit_json :: json_text where
  "wit_json = \<lparr>jl_embed = (\<lambda>s. if newline \<in> set s then None else Some s), jl_decode = wit_decode, jl_valid = (\<lambda>_. True)\<rparr>"

lemma wit_number_itoa: "0 \<le> i \<Longrightarrow> \<not> is_digit c \<Longrightarrow> wit_number (itoa_int i @ c # s) = (i, c # s)"
proof -
  assume i: "0 \<le> i" and c: "\<not> is_digit c"
  let ?n = "itoa (nat i)"
  have d: "\<forall>x \<in> set ?n. is_digit x" "atoi ?n = nat i" using atoi_itoa[of "nat i"] by (auto simp: list_all_iff)
  then have "takeWhile is_digit (?n @ c # s) = ?n" "dropWhile is_digit (?n @ c # s) = c # s"
    using c by (simp_all add: takeWhile_append2 dropWhile_append2)
  then show ?thesis using i d(2) by (simp add: wit_number_def itoa_int_def)
qed

lemma wit_json_laws: "json_laws wit_json"
proof -
  have nd: "\<not> is_digit CHR '',''" by (simp add: is_digit_def byte_in_def)
  have "wit_decode (frame i c d) = Some \<lparr>dr_version = diskVersion, dr_index = i, dr_count = c, dr_data = d\<rparr>"
    if "0 \<le> i" "i < c" for i c d
  proof -
    let ?h = "''{\"v\":'' @ itoa_int diskVersion @ '',\"index\":''"
    have f: "frame i c d = ?h @ (itoa_int i @ CHR '','' # ''\"count\":'' @ itoa_int c @ CHR '','' # ''\"data\":'' @ d @ ''}'')"
      by (simp add: frame_def)
    have "after '',\"count\":'' (CHR '','' # ''\"count\":'' @ s) = Some s" "after '',\"data\":'' (CHR '','' # ''\"data\":'' @ s) = Some s" for s
      using after_append[of "'',\"count\":''" s] after_append[of "'',\"data\":''" s] by simp_all
    then show ?thesis using that wit_number_itoa[OF _ nd]
      unfolding wit_decode_def f after_append by (simp add: butlast_append)
  qed
  then show ?thesis by (auto simp: json_laws_def wit_json_def split: if_splits)
qed

text \<open>One batch is acknowledged; of the next one a crash leaves a complete line and part of another.\<close>

definition wit_journal :: journal_world where
  "wit_journal = fold (run_journal wit_json 3)
     [CallOpen [], CallAppend [''1'', ''22''] [], CallCrashInAppend [''3'', ''44''] 50]
     \<lparr>jw_handle = None, jw_contents = [], jw_attempted = [], jw_acked = []\<rparr>"


end
