(* ===== verification/JsonlRead.thy ===== *)
theory JsonlRead
  imports JsonlProps
begin

text \<open>
  Reading a journal file of complete batches: forward, which is visiting its records in order, and
  backward in pages, which are the ends of the forward read.
\<close>

section \<open>Chains of records\<close>

text \<open>The records with their byte ranges, from \<open>offset\<close> on.\<close>

fun located :: "nat \<Rightarrow> disk_record list \<Rightarrow> jrecord list" where
  "located offset [] = []"
| "located offset (r # rs) = \<lparr>jr_start = offset, jr_end = offset + length (text_of r) + 1, jr_data = dr_data r\<rparr>
     # located (offset + length (text_of r) + 1) rs"

lemma located_append: "located offset (xs @ ys) = located offset xs @ located (offset + length (bytes_of xs)) ys"
  by (induction offset xs rule: located.induct) (simp_all add: add.assoc)

lemma length_located [simp]: "length (located offset rs) = length rs"
  by (induction offset rs rule: located.induct) simp_all

definition follows :: "disk_record \<Rightarrow> disk_record \<Rightarrow> bool" where
  "follows p r \<longleftrightarrow> (if dr_index p = dr_count p - 1 then dr_index r = 0
     else dr_count r = dr_count p \<and> dr_index r = dr_index p + 1)"

lemma adjacent_follows: "validateBatchAdjacent p r off = None \<longleftrightarrow> follows p r"
  by (simp add: validateBatchAdjacent_def follows_def)

definition complete :: "disk_record \<Rightarrow> bool" where
  "complete r \<longleftrightarrow> dr_index r = dr_count r - 1"

definition chained :: "disk_record list \<Rightarrow> bool" where
  "chained rs \<longleftrightarrow> successively follows rs \<and> (rs \<noteq> [] \<longrightarrow> dr_index (hd rs) = 0 \<and> complete (last rs))"

lemma batch_chained: "ds \<noteq> [] \<Longrightarrow> chained (batch_records ds)"
proof -
  assume ne: "ds \<noteq> []"
  have "successively follows (batch_records ds)"
    unfolding successively_conv_nth by (auto simp: nth_batch follows_def)
  moreover have "hd (batch_records ds) = batch_records ds ! 0" "last (batch_records ds) = batch_records ds ! (length ds - 1)"
    using ne by (simp_all add: hd_conv_nth last_conv_nth)
  moreover obtain n where "length ds = Suc n" using ne by (cases ds) auto
  ultimately show ?thesis using ne by (auto simp: chained_def complete_def nth_batch)
qed

lemma chained_append: "chained xs \<Longrightarrow> chained ys \<Longrightarrow> chained (xs @ ys)"
  by (cases "ys = []"; cases "xs = []")
    (auto simp: chained_def successively_append_iff follows_def complete_def)

lemma journal_chained: "batches_ok jl bs \<Longrightarrow> chained (journal_records bs)"
proof (induction bs)
  case Nil
  then show ?case by (simp add: chained_def)
next
  case (Cons b bs)
  then show ?case using chained_append[OF batch_chained, of b] by simp
qed

section \<open>Reading forward\<close>

lemma visit_pending_append:
  "visit_pending visit (xs @ ys) committed s = (case visit_pending visit xs committed s of
     (Some e, c, s') \<Rightarrow> (Some e, c, s') | (None, c, s') \<Rightarrow> visit_pending visit ys c s')"
  by (induction visit xs committed s rule: visit_pending.induct) (auto split: prod.splits bool.splits)

lemma forward_start_ok:
  assumes "jf_bytes f = bytes_of (xs @ ys) @ rest" "list_all (readable jl) xs" "length (bytes_of (xs @ ys)) \<le> jf_size f" "0 < block"
    and "successively follows (xs @ [r])" "dr_index (hd (xs @ [r])) = 0"
  shows "forward_start jl block f (length (bytes_of xs)) r = None"
  using assms
proof (induction xs arbitrary: r ys rule: rev_induct)
  case Nil
  then show ?case by (simp add: forward_start.simps validateBatchStart_def)
next
  case (snoc p xs)
  have prev: "previousLineLocked block f (length (bytes_of (xs @ [p]))) = Inr (text_of p, length (bytes_of xs))"
    by (rule previousLine_record[where jl = jl and rest = "bytes_of ys @ rest"]) (use snoc.prems in simp_all)
  have "validateBatchAdjacent p r off = None" for off
    using snoc.prems(5) by (simp add: successively_append_iff adjacent_follows)
  moreover have "forward_start jl block f (length (bytes_of xs)) p = None"
    by (rule snoc.IH[of "p # ys"]) (use snoc.prems in \<open>simp_all add: successively_append_iff hd_append split: if_splits\<close>)
  ultimately show ?case using prev snoc.prems(2)
    by (subst forward_start.simps) (simp add: readable_def)
qed

lemma takeWhile_line: "newline \<notin> set t \<Longrightarrow> takeWhile (\<lambda>c. c \<noteq> newline) (t @ newline # rest) = t"
  by (induction t) auto

lemma forward_lines_visit:
  assumes "list_all (readable jl) ys" "successively follows ys" "ys = [] \<longrightarrow> pending = []" "ys \<noteq> [] \<longrightarrow> complete (last ys)"
    and "\<And>r rs. ys = r # rs \<Longrightarrow> (case previous of None \<Rightarrow> validateForwardStartLocked jl block f start r
          | Some p \<Rightarrow> validateBatchAdjacent p r offset) = None"
  shows "forward_lines jl block f visit start (bytes_of ys) offset committed previous pending s
    = visit_pending visit (pending @ located offset ys) committed s"
  using assms
proof (induction ys arbitrary: offset committed previous pending s)
  case Nil
  then show ?case by (simp add: forward_lines.simps split: option.split)
next
  case (Cons r ys)
  let ?stop = "Suc (offset + length (text_of r))"
  let ?pending = "pending @ [\<lparr>jr_start = offset, jr_end = ?stop, jr_data = dr_data r\<rparr>]"
  have r: "newline \<notin> set (text_of r)" "decodeDiskRecord jl (text_of r) offset = Inr r"
    using Cons.prems(1) by (simp_all add: readable_def)
  have fwd: "(case previous of None \<Rightarrow> validateForwardStartLocked jl block f start r
      | Some p \<Rightarrow> validateBatchAdjacent p r offset) = None" using Cons.prems(5) by simp
  have step: "forward_lines jl block f visit start (bytes_of (r # ys)) offset committed previous pending s
      = (if dr_index r \<noteq> dr_count r - 1
         then forward_lines jl block f visit start (bytes_of ys) ?stop committed (Some r) ?pending s
         else case visit_pending visit ?pending committed s of
             (Some e, c, s') \<Rightarrow> (Some e, c, s')
           | (None, c, s') \<Rightarrow> forward_lines jl block f visit start (bytes_of ys) ?stop c (Some r) [] s')"
    using r fwd by (subst forward_lines.simps) (simp add: takeWhile_line Let_def)
  have IH: "forward_lines jl block f visit start (bytes_of ys) ?stop c (Some r) pend s'
      = visit_pending visit (pend @ located ?stop ys) c s'" if "ys = [] \<longrightarrow> pend = []" for c pend s'
  proof (rule Cons.IH[OF _ _ that])
    show "ys \<noteq> [] \<longrightarrow> complete (last ys)" using Cons.prems(4) by auto
    show "(case Some r of None \<Rightarrow> validateForwardStartLocked jl block f start q
        | Some p \<Rightarrow> validateBatchAdjacent p q ?stop) = None" if "ys = q # qs" for q qs
      using Cons.prems(2) that by (simp add: adjacent_follows)
    show "successively follows ys" using Cons.prems(2) by (cases ys) simp_all
  qed (use Cons.prems in simp)
  show ?case
  proof (cases "dr_index r = dr_count r - 1")
    case True
    have "visit_pending visit (pending @ located offset (r # ys)) committed s
        = visit_pending visit (?pending @ located ?stop ys) committed s" by simp
    then show ?thesis using True IH[of "[]"] unfolding step visit_pending_append
      by (simp add: visit_pending_append split: prod.splits option.splits)
  next
    case False
    then have "ys \<noteq> []" using Cons.prems(4) by (auto simp: complete_def)
    with False IH[of ?pending] show ?thesis unfolding step by simp
  qed
qed

lemma boundary_ok:
  assumes "handle_on bs f" "journal_records bs = xs @ ys"
  shows "validateBoundaryLocked f (int (length (bytes_of xs))) = None"
proof (cases xs rule: rev_cases)
  case Nil
  then show ?thesis by (simp add: validateBoundaryLocked_def)
next
  case (snoc zs r)
  let ?n = "length (bytes_of xs)"
  have "jf_bytes f = bytes_of xs @ bytes_of ys" "?n \<le> jf_size f" "0 < ?n"
    using assms snoc by (simp_all add: handle_on_def journal_bytes_def)
  moreover have "nat (int ?n - 1) = ?n - 1" by simp
  moreover have "bytes_of xs ! (?n - 1) = newline" using snoc by (simp add: nth_append)
  ultimately show ?thesis by (simp add: validateBoundaryLocked_def nth_append)
qed

text \<open>C13: reading forward from the start of any record visits exactly the records from there to the
  end of the file, once each, in the order in which they were appended, with their byte ranges and
  the data that was appended, until the visitor refuses one: the read is the fold of the visitor over
  the records. The batch framing, which delays each visit to the end of its batch, is invisible.\<close>

theorem forward_read_visits_records:
  assumes "batches_ok jl bs" "handle_on bs f" "0 < block" "journal_records bs = xs @ ys"
  shows "ReadForward jl block (int (length (bytes_of xs))) visit f s
    = (case visit_pending visit (located (length (bytes_of xs)) ys) (length (bytes_of xs)) s of
        (e, committed, s') \<Rightarrow> (e, int committed, s'))
    \<and> map jr_data (located 0 (journal_records bs)) = concat bs"
proof -
  let ?n = "length (bytes_of xs)"
  have chain: "chained (xs @ ys)" using journal_chained[OF assms(1)] assms(4) by simp
  have rd: "list_all (readable jl) (xs @ ys)" using batches_ok_readable[OF assms(1)] assms(4) by simp
  have f: "jf_bytes f = bytes_of (xs @ ys)" "jf_size f = length (bytes_of (xs @ ys))" "\<not> jf_closed f" "\<not> jf_snapshot f"
    using assms(2,4) by (simp_all add: handle_on_def journal_bytes_def)
  have rest: "slice (jf_bytes f) ?n (jf_size f) = bytes_of ys" by (simp add: slice_def f(1,2))
  have bounds: "validateBoundaryLocked f (int ?n) = None" "validateBoundaryLocked f (int (jf_size f)) = None"
    using boundary_ok[OF assms(2,4)] boundary_ok[OF assms(2), of "xs @ ys" "[]"] assms(4) f(2) by simp_all
  have start: "validateForwardStartLocked jl block f ?n r = None" if "ys = r # rs" for r rs
    unfolding validateForwardStartLocked_def
    by (rule forward_start_ok[where ys = ys and rest = "[]"])
      (use f rd chain assms(3) that in \<open>auto simp: chained_def successively_append_iff hd_append split: if_splits\<close>)
  have "forward_lines jl block f visit ?n (bytes_of ys) ?n ?n None [] s
      = visit_pending visit ([] @ located ?n ys) ?n s"
    by (rule forward_lines_visit) (use rd chain start in \<open>auto simp: chained_def successively_append_iff\<close>)
  moreover have "ensureOpenLocked block f = None" "checkSizeLocked f = None"
    using f assms(3) by (simp_all add: ensureOpenLocked_def checkSizeLocked_def)
  ultimately have "ReadForward jl block (int ?n) visit f s
    = (case visit_pending visit (located ?n ys) ?n s of (e, committed, s') \<Rightarrow> (e, int committed, s'))"
    using bounds rest f(2) by (simp add: ReadForward_def readForwardTo_def Let_def nat_int_add)
  moreover have "map jr_data (located off rs) = map dr_data rs" for off rs
    by (induction off rs rule: located.induct) simp_all
  moreover have "map dr_data (journal_records bs) = concat bs"
    by (induction bs) (simp_all add: map_data_batch)
  ultimately show ?thesis by simp
qed

text \<open>Two batches, read from the second record on by a visitor that stops at the third.\<close>

definition wit_batches :: "string list list" where
  "wit_batches = [[''1'', ''22''], [''3'']]"

definition wit_handle :: jfile where
  "wit_handle = (fresh_handle (journal_bytes wit_batches) [])\<lparr>jf_size := length (journal_bytes wit_batches)\<rparr>"

definition wit_visit :: "string list visitor" where
  "wit_visit r seen = (if jr_data r = ''3'' then (False, seen) else (True, seen @ [jr_data r]))"

lemma wit_batches_ok: "batches_ok wit_json wit_batches"
proof -
  have "batches_ok wit_json [b]" if "map (jl_embed wit_json) b = map Some b" "b \<noteq> []" for b
    using embedded_ok[OF wit_json_laws] that by blast
  from this[of "[''1'', ''22'']"] this[of "[''3'']"] show ?thesis
    by (simp add: wit_batches_def wit_json_def)
qed

lemma wit_handle_on: "handle_on wit_batches wit_handle"
  by (simp add: handle_on_def wit_handle_def fresh_handle_def)

theorem forward_read_visits_records_witness:
  "fst (ReadForward wit_json 4 37 wit_visit wit_handle []) = Some JVisitor
   \<and> snd (snd (ReadForward wit_json 4 37 wit_visit wit_handle [])) = [''22'']"
proof -
  let ?xs = "[hd (journal_records wit_batches)]" and ?ys = "tl (journal_records wit_batches)"
  have "journal_records wit_batches = ?xs @ ?ys" by (simp add: wit_batches_def)
  note read = forward_read_visits_records[OF wit_batches_ok wit_handle_on _ this, of 4 wit_visit "[]"]
  have "length (bytes_of ?xs) = 37" "visit_pending wit_visit (located 37 ?ys) 37 [] = (Some JVisitor, 75, [''22''])"
    by code_simp+
  with read show ?thesis by simp
qed

section \<open>Reading backward\<close>

lemma count_newlines_append [simp]: "count_newlines (s @ t) = count_newlines s + count_newlines t"
  by (simp add: count_newlines_def)

lemma count_newlines_zero: "count_newlines s = 0 \<longleftrightarrow> newline \<notin> set s"
  by (auto simp: count_newlines_def filter_empty_conv)

lemma count_bytes: "list_all (readable jl) rs \<Longrightarrow> count_newlines (bytes_of rs) = length rs"
proof (induction rs)
  case (Cons r rs)
  have "count_newlines (text_of r) = 0" using Cons.prems by (simp add: count_newlines_zero readable_def)
  moreover have "bytes_of (r # rs) = text_of r @ [newline] @ bytes_of rs" "count_newlines [newline] = 1"
    by (simp_all add: count_newlines_def)
  ultimately show ?case using Cons by (simp only: count_newlines_append) simp
qed (simp add: count_newlines_def)

text \<open>The blocks read are a suffix of the bytes before \<open>stop\<close>: all of them, or one with enough lines.\<close>

lemma read_back_spec:
  assumes "read_back block s limit position tl' n = (bytes, position', n')" "0 < block"
    and "tl' = slice s position stop" "n = count_newlines tl'" "position \<le> stop" "stop \<le> length s"
  shows "bytes = slice s position' stop \<and> n' = count_newlines bytes \<and> position' \<le> stop
    \<and> (position' = 0 \<or> limit < n')"
  using assms
proof (induction block s limit position tl' n rule: read_back.induct)
  case (1 block s limit position tl' n)
  let ?start = "position - block"
  show ?case
  proof (cases "position = 0 \<or> limit < n \<or> block = 0")
    case True
    then show ?thesis using 1(2-) by (auto simp: read_back.simps[of block s limit position])
  next
    case False
    have join: "slice s ?start position @ tl' = slice s ?start stop"
    proof -
      have "slice s ?start stop = take (position - ?start) (slice s ?start stop) @ drop (position - ?start) (slice s ?start stop)"
        by simp
      moreover have "take (position - ?start) (slice s ?start stop) = slice s ?start position"
        using 1(6) by (simp add: slice_def min_def)
      moreover have "drop (position - ?start) (slice s ?start stop) = slice s position stop"
        using 1(6) by (simp add: slice_take)
      ultimately show ?thesis using 1(4) by simp
    qed
    have "count_newlines (slice s ?start stop) = n + count_newlines (slice s ?start position)"
      using arg_cong[OF join, of count_newlines] 1(5) by simp
    then show ?thesis
      by (intro 1(1)[OF False refl refl _ 1(3)])
        (use 1(2,5,6,7) False join in \<open>simp_all add: read_back.simps[of block s limit position] Let_def\<close>)
  qed
qed

lemma cut_after_lines:
  assumes "count_newlines u = n" "u \<noteq> []" "last u = newline" "0 < n"
  shows "cut_after n (u @ v) = length u"
  using assms
proof (induction u arbitrary: n)
  case (Cons c u)
  show ?case
  proof (cases "u = []")
    case True
    then show ?thesis using Cons.prems by (simp add: count_newlines_def split: if_splits)
  next
    case False
    have pos: "0 < count_newlines u" using False Cons.prems(3) last_in_set[OF False]
      by (metis count_newlines_zero gr0I last_ConsR)
    have "count_newlines (c # u) = (if c = newline then 1 else 0) + count_newlines u"
      by (simp add: count_newlines_def)
    then show ?thesis using Cons.prems False pos Cons.IH[of "count_newlines u"] by auto
  qed
qed simp

text \<open>So the cut leaves exactly the last lines.\<close>

lemma back_page_bytes:
  assumes "list_all (readable jl) xs" "s = bytes_of xs @ rest" "0 < block" "0 < limit"
    and "read_back block s limit (length (bytes_of xs)) [] 0 = (bytes, position, n)"
  defines "k \<equiv> length xs - limit"
  defines "skip \<equiv> (if limit < n then cut_after (n - limit) bytes else 0)"
  shows "drop skip bytes = bytes_of (drop k xs)" and "position + skip = length (bytes_of (take k xs))"
proof -
  let ?stop = "length (bytes_of xs)"
  have spec: "bytes = slice s position ?stop \<and> n = count_newlines bytes \<and> position \<le> ?stop \<and> (position = 0 \<or> limit < n)"
    by (rule read_back_spec[OF assms(5,3)]) (simp_all add: assms(2) slice_def count_newlines_def)
  then have sl: "bytes = drop position (bytes_of xs)" by (simp add: slice_take assms(2))
  from spec have sl: "bytes = drop position (bytes_of xs)" "n = count_newlines bytes" "position = 0 \<or> limit < n"
    using sl by blast+
  have split: "bytes_of xs = bytes_of (take k xs) @ bytes_of (drop k xs)"
    by (metis append_take_drop_id bytes_of_simps(3))
  have len: "count_newlines (bytes_of (drop k xs)) = min limit (length xs)"
  proof -
    have "list_all (readable jl) (drop k xs)" using assms(1) by (auto simp: list_all_iff dest: in_set_dropD)
    then show ?thesis using count_bytes[of jl "drop k xs"] by (simp add: k_def min_def)
  qed
  have all: "count_newlines (bytes_of xs) = length xs" using count_bytes[OF assms(1)] .
  have "drop skip bytes = bytes_of (drop k xs) \<and> position + skip = length (bytes_of (take k xs))"
  proof (cases "limit < n")
    case False
    then have "position = 0" "skip = 0" using sl(3) by (simp_all add: skip_def)
    moreover have "length xs \<le> limit" using False sl all calculation(1) by simp
    ultimately show ?thesis using sl(1) by (simp add: k_def)
  next
    case True
    let ?u = "drop position (bytes_of (take k xs))"
    have less: "position < length (bytes_of (take k xs))"
    proof (rule ccontr)
      assume "\<not> position < length (bytes_of (take k xs))"
      then have "bytes = drop (position - length (bytes_of (take k xs))) (bytes_of (drop k xs))"
        using sl(1) split by simp
      then have "count_newlines bytes \<le> count_newlines (bytes_of (drop k xs))"
        by (metis append_take_drop_id count_newlines_append le_add2)
      then show False using len sl(2) True by simp
    qed
    then have b: "bytes = ?u @ bytes_of (drop k xs)" using sl(1) split by simp
    have "?u \<noteq> []" "last ?u = newline"
      using less bytes_of_ends_line[of "take k xs"] by (auto simp: ends_line_def)
    moreover have "k \<noteq> 0" using less by (cases "k = 0") simp_all
    then have "count_newlines ?u = n - limit" using b len sl(2) by (simp add: k_def)
    ultimately have "cut_after (n - limit) bytes = length ?u" using cut_after_lines[of ?u "n - limit"] b True by simp
    then have "skip = length ?u" using True by (simp add: skip_def)
    then show ?thesis using b less by simp
  qed
  then show "drop skip bytes = bytes_of (drop k xs)" "position + skip = length (bytes_of (take k xs))" by blast+
qed

fun decoded_at :: "nat \<Rightarrow> disk_record list \<Rightarrow> decoded_record list" where
  "decoded_at offset [] = []"
| "decoded_at offset (r # rs) = \<lparr>de_record = \<lparr>jr_start = offset, jr_end = Suc (offset + length (text_of r)),
     jr_data = dr_data r\<rparr>, de_disk = r\<rparr> # decoded_at (Suc (offset + length (text_of r))) rs"

lemma decoded_at_sel: "map de_record (decoded_at offset rs) = located offset rs" "map de_disk (decoded_at offset rs) = rs"
  by (induction offset rs rule: decoded_at.induct) simp_all

lemma decodePage_records: "list_all (readable jl) rs \<Longrightarrow> decodePage jl (bytes_of rs) offset = Inr (decoded_at offset rs)"
proof (induction rs arbitrary: offset)
  case (Cons r rs)
  then show ?case
    by (subst decodePage.simps) (simp add: readable_def takeWhile_line Let_def)
qed (simp add: decodePage.simps)

lemma page_adjacent_ok: "successively follows rs \<Longrightarrow> page_adjacent (decoded_at offset rs) = None"
proof (induction rs arbitrary: offset)
  case (Cons r rs)
  show ?case
  proof (cases rs)
    case (Cons q qs)
    have "validateBatchAdjacent r q off = None" for off
      using Cons.prems Cons by (simp add: adjacent_follows)
    moreover have "page_adjacent (decoded_at (Suc (offset + length (text_of r))) rs) = None"
      by (rule Cons.IH) (use Cons.prems Cons in simp)
    ultimately show ?thesis using Cons by simp
  qed simp
qed simp

lemma last_decoded: "rs \<noteq> [] \<Longrightarrow> de_disk (last (decoded_at offset rs)) = last rs"
  by (induction offset rs rule: decoded_at.induct) (auto split: if_splits, metis decoded_at.simps decoded_at_sel(2) list.map_disc_iff)

lemma hd_decoded: "rs \<noteq> [] \<Longrightarrow> de_disk (hd (decoded_at offset rs)) = hd rs"
  by (cases rs) simp_all

text \<open>A page of consecutive records passes the boundary checks of its neighbours.\<close>

lemma page_boundaries_ok:
  assumes "batches_ok jl bs" "handle_on bs f" "0 < block" "journal_records bs = us @ vs @ ys" "vs \<noteq> []"
  shows "validatePageBoundariesLocked jl block f (decoded_at (length (bytes_of us)) vs) (length (bytes_of us))
    (length (bytes_of (us @ vs))) = None"
proof -
  have chain: "chained (us @ vs @ ys)" using journal_chained[OF assms(1)] assms(4) by simp
  have rd: "list_all (readable jl) (us @ vs @ ys)" using batches_ok_readable[OF assms(1)] assms(4) by simp
  have f: "jf_bytes f = bytes_of (us @ vs @ ys)" "jf_size f = length (bytes_of (us @ vs @ ys))"
    using assms(2,4) by (simp_all add: handle_on_def journal_bytes_def)
  let ?ds = "decoded_at (length (bytes_of us)) vs" and ?u = "length (bytes_of us)" and ?v = "length (bytes_of (us @ vs))"
  have ne: "?ds \<noteq> []" using assms(5) decoded_at_sel(2)[of ?u vs] by auto
  have adj: "page_adjacent ?ds = None"
    by (rule page_adjacent_ok) (use chain in \<open>simp add: chained_def successively_append_iff\<close>)
  have first: "de_disk (hd ?ds) = hd vs" "de_disk (last ?ds) = last vs"
    using hd_decoded[OF assms(5)] last_decoded[OF assms(5)] by simp_all
  have before: "(if ?u = 0 then validateBatchStart (hd vs) off else case previousLineLocked block f ?u of
        Inl e \<Rightarrow> Some e
      | Inr (line, previous_start) \<Rightarrow> (case decodeDiskRecord jl line previous_start of
          Inl e \<Rightarrow> Some e | Inr previous \<Rightarrow> validateBatchAdjacent previous (hd vs) off)) = None" for off
  proof (cases us rule: rev_cases)
    case Nil
    then show ?thesis using chain assms(5) by (simp add: chained_def validateBatchStart_def)
  next
    case (snoc zs p)
    have "previousLineLocked block f (length (bytes_of (zs @ [p]))) = Inr (text_of p, length (bytes_of zs))"
      by (rule previousLine_record[where jl = jl and rest = "bytes_of (vs @ ys)"]) (use f rd snoc assms(3) in simp_all)
    moreover have "validateBatchAdjacent p (hd vs) off = None" for off
      using chain snoc assms(5)
      by (cases vs) (simp_all add: chained_def successively_append_iff adjacent_follows)
    ultimately show ?thesis using snoc rd by (simp add: readable_def)
  qed
  have behind: "(if ?v = jf_size f then validateBatchEnd (last vs) off else case nextLineLocked block f ?v of
        Inl e \<Rightarrow> Some e
      | Inr line \<Rightarrow> (case decodeDiskRecord jl line ?v of
          Inl e \<Rightarrow> Some e | Inr next' \<Rightarrow> validateBatchAdjacent (last vs) next' ?v)) = None" for off
  proof (cases ys)
    case Nil
    then show ?thesis using chain assms(5) f(2) by (simp add: chained_def validateBatchEnd_def complete_def)
  next
    case (Cons q qs)
    have "nextLineLocked block f ?v = Inr (text_of q)"
      by (rule nextLine_record[where jl = jl and ys = qs and rest = "[]"]) (use f rd Cons assms(3) in simp_all)
    moreover have "validateBatchAdjacent (last vs) q off = None" for off
      using chain Cons assms(5) by (simp add: chained_def successively_append_iff adjacent_follows)
    ultimately show ?thesis using Cons rd f(2) by (simp add: readable_def)
  qed
  show ?thesis
    using ne adj before behind unfolding validatePageBoundariesLocked_def Let_def first by simp
qed

text \<open>C16: reading backward is reading the end of the forward read. A page of at most \<open>limit\<close> records that
  ends at a record boundary holds exactly the last \<open>limit\<close> of the records a forward read visits before
  it, in chronological order and with the same byte ranges; it says that there are earlier records
  exactly when there are, and where the next page has to end. This holds for every block size, so it
  does not matter how records and batches lie across the blocks that are read.\<close>

theorem reverse_page_is_end_of_forward_read:
  assumes "batches_ok jl bs" "handle_on bs f" "0 < block" "journal_records bs = xs @ ys" "0 < limit"
  shows "ReadReverse jl block (int (length (bytes_of xs))) limit f
    = Inr \<lparr>pg_records = drop (length xs - nat limit) (located 0 xs),
        pg_previous_end = length (bytes_of (take (length xs - nat limit) xs)),
        pg_has_previous = nat limit < length xs\<rparr>"
proof -
  let ?k = "length xs - nat limit"
  have rd: "list_all (readable jl) xs" using batches_ok_readable[OF assms(1)] assms(4) by simp
  have f: "jf_bytes f = bytes_of xs @ bytes_of ys" "\<not> jf_closed f" "\<not> jf_snapshot f" "jf_size f = length (jf_bytes f)"
    using assms(2,4) by (simp_all add: handle_on_def journal_bytes_def)
  have ready: "ensureOpenLocked block f = None" "checkSizeLocked f = None"
    "validateBoundaryLocked f (int (length (bytes_of xs))) = None"
    using f assms(3) boundary_ok[OF assms(2,4)] by (simp_all add: ensureOpenLocked_def checkSizeLocked_def)
  show ?thesis
  proof (cases "xs = []")
    case True
    then show ?thesis using ready assms(5) by (simp add: ReadReverse_def)
  next
    case False
    obtain bytes position n where rb:
      "read_back block (jf_bytes f) (nat limit) (length (bytes_of xs)) [] 0 = (bytes, position, n)"
      by (metis prod_cases3)
    have lim: "0 < nat limit" using assms(5) by simp
    let ?skip = "if nat limit < n then cut_after (n - nat limit) bytes else 0"
    note page = back_page_bytes[OF rd f(1) assms(3) lim rb]
    have rd': "list_all (readable jl) (drop ?k xs)" using rd by (auto simp: list_all_iff dest: in_set_dropD)
    have ne: "drop ?k xs \<noteq> []" using lim diff_less[of "nat limit" "length xs"] False by (simp add: not_le)
    have loc: "located (length (bytes_of (take ?k xs))) (drop ?k xs) = drop ?k (located 0 xs)"
    proof -
      have "located 0 xs = located 0 (take ?k xs) @ located (length (bytes_of (take ?k xs))) (drop ?k xs)"
        using located_append[of 0 "take ?k xs" "drop ?k xs"] by simp
      then show ?thesis by simp
    qed
    have "length (bytes_of xs) = length (bytes_of (take ?k xs @ drop ?k xs))" by simp
    then have bounds: "validatePageBoundariesLocked jl block f (decoded_at (length (bytes_of (take ?k xs))) (drop ?k xs))
        (length (bytes_of (take ?k xs))) (length (bytes_of xs)) = None"
      using page_boundaries_ok[OF assms(1-3) _ ne, of "take ?k xs" ys] assms(4) by simp
    have previous: "0 < length (bytes_of (take ?k xs)) \<longleftrightarrow> nat limit < length xs" by auto
    show ?thesis
      using ready assms(5) False rb page bounds previous loc decodePage_records[OF rd']
      by (simp add: ReadReverse_def decoded_at_sel Let_def)
  qed
qed

theorem reverse_page_is_end_of_forward_read_witness:
  "ReadReverse wit_json 4 (int (length (journal_bytes wit_batches))) 2 wit_handle
   = Inr \<lparr>pg_records = drop 1 (located 0 (journal_records wit_batches)), pg_previous_end = 37, pg_has_previous = True\<rparr>"
proof -
  have "journal_records wit_batches = journal_records wit_batches @ []" by simp
  note page = reverse_page_is_end_of_forward_read[OF wit_batches_ok wit_handle_on _ this, of 4 2]
  have "length (journal_records wit_batches) = 3" "length (bytes_of (take 1 (journal_records wit_batches))) = 37"
    by code_simp+
  with page show ?thesis by (simp add: journal_bytes_def)
qed

end
