(* ===== verification/ContextPreview.thy ===== *)
theory ContextPreview
  imports Prelude "HOL-Library.Sublist"
begin

text \<open>
  Token estimates of text and the previews cut from long text
  (\<^verbatim>\<open>internal/framework/runtime/contextbudget/preview.go\<close> and the text half of \<^verbatim>\<open>usage.go\<close>).
  Text is a byte string; a \<^verbatim>\<open>range\<close> loop decodes it into runes from the front, and the loop for the tail
  of a preview decodes it from the back with \<^verbatim>\<open>utf8.DecodeLastRuneInString\<close>. The first lemmas show that
  both directions cut the same runes, also in text that is not valid UTF-8.
\<close>

section \<open>Runes\<close>

definition rune_start :: "char \<Rightarrow> bool" where
  "rune_start c \<longleftrightarrow> \<not> byte_in 0x80 0xBF c"

definition byte_at :: "string \<Rightarrow> nat \<Rightarrow> int" where
  "byte_at s i = int (of_char (s ! i))"

text \<open>The first rune of a nonempty string; \<^verbatim>\<open>RuneError\<close> for a byte that starts no sequence.\<close>

definition rune_value :: "string \<Rightarrow> int" where
  "rune_value s =
     (if rune_size s = 2 then (byte_at s 0 - 0xC0) * 64 + (byte_at s 1 - 0x80)
      else if rune_size s = 3
        then (byte_at s 0 - 0xE0) * 4096 + (byte_at s 1 - 0x80) * 64 + (byte_at s 2 - 0x80)
      else if rune_size s = 4
        then (byte_at s 0 - 0xF0) * 262144 + (byte_at s 1 - 0x80) * 4096 + (byte_at s 2 - 0x80) * 64
          + (byte_at s 3 - 0x80)
      else if byte_at s 0 \<le> 0x7F then byte_at s 0 else 0xFFFD)"

lemma rune_size_less: "s \<noteq> [] \<Longrightarrow> length (drop (rune_size s) s) < length s"
  using rune_size_bounds[of s] by simp

text \<open>The byte strings a \<^verbatim>\<open>range\<close> loop decodes one after another.\<close>

function runes :: "string \<Rightarrow> string list" where
  "runes s = (if s = [] then [] else take (rune_size s) s # runes (drop (rune_size s) s))"
  by pat_completeness auto
termination by (relation "measure length") (use rune_size_less in auto)

declare runes.simps [simp del]

text \<open>\<^verbatim>\<open>utf8.DecodeLastRuneInString\<close>: the rune at the end and its size.\<close>

definition last_rune_at :: "string \<Rightarrow> nat" where
  "last_rune_at s = (let stop = length s; low = stop - 4 in
     case find (\<lambda>i. rune_start (s ! i)) (rev [low..<stop - 1]) of Some i \<Rightarrow> i | None \<Rightarrow> low - 1)"

definition last_rune :: "string \<Rightarrow> int \<times> nat" where
  "last_rune s =
     (if s = [] then (0xFFFD, 0)
      else if byte_at s (length s - 1) < 0x80 then (byte_at s (length s - 1), 1)
      else let start = last_rune_at s; n = rune_size (drop start s) in
        if start + n \<noteq> length s then (0xFFFD, 1) else (rune_value (drop start s), n))"

lemma rune_size_0 [simp]: "rune_size s = 0 \<longleftrightarrow> s = []"
  using rune_size_bounds[of s] by (cases s) (auto simp: rune_size_def)

lemma rune_size_pos: "s \<noteq> [] \<Longrightarrow> 0 < rune_size s"
  by (simp add: rune_size_0[symmetric] del: rune_size_0)

lemma rune_size_le: "rune_size s \<le> length s"
  using rune_size_bounds[of s] by (cases "s = []") auto

text \<open>Decoding looks at the bytes of the rune only.\<close>

lemma rune_size_take: "rune_size s \<le> n \<Longrightarrow> rune_size (take n s) = rune_size s"
proof (cases s)
  case (Cons c cs)
  assume "rune_size s \<le> n"
  then show ?thesis unfolding Cons
    by (cases cs; cases "tl cs"; cases n)
      (auto simp: rune_size_def take_Cons' continuation_def min_def hd_take Suc_le_eq split: if_splits)
qed (simp add: rune_size_def)

text \<open>Cutting a text at the end of one of its runes leaves the runes as they are.\<close>

lemma runes_Nil [simp]: "runes [] = []"
  by (simp add: runes.simps)

lemma runes_step: "s \<noteq> [] \<Longrightarrow> runes s = take (rune_size s) s # runes (drop (rune_size s) s)"
  by (simp add: runes.simps)

lemma concat_runes [simp]: "concat (runes s) = s"
  by (induction s rule: runes.induct) (simp add: runes.simps)

lemma runes_not_Nil: "r \<in> set (runes s) \<Longrightarrow> r \<noteq> []"
proof (induction s rule: runes.induct)
  case (1 s)
  then show ?case by (cases "s = []") (auto simp: runes_step[of s])
qed

lemma runes_drop: "runes (concat (drop k (runes s))) = drop k (runes s)"
proof (induction k arbitrary: s)
  case (Suc k)
  then show ?case by (cases "s = []") (simp_all add: runes_step)
qed simp

lemma runes_append_take: "s \<noteq> [] \<Longrightarrow> runes (take (rune_size s) s @ t) = take (rune_size s) s # runes t"
  if "rune_size (take (rune_size s) s @ t) = rune_size s"
  using that rune_size_le[of s] by (subst runes_step) simp_all

lemma runes_take: "runes (concat (take k (runes s))) = take k (runes s)"
proof (induction k arbitrary: s)
  case (Suc k)
  show ?case
  proof (cases "s = []")
    case False
    let ?n = "rune_size s" and ?rest = "concat (take k (runes (drop (rune_size s) s)))"
    have "prefix ?rest (drop ?n s)"
      by (metis append_take_drop_id concat_append concat_runes prefixI)
    then obtain u where "drop ?n s = ?rest @ u" by (auto elim: prefixE)
    then have "take ?n s @ ?rest = take (?n + length ?rest) s"
      by (metis append_eq_conv_conj take_add)
    then have "rune_size (take ?n s @ ?rest) = ?n" by (simp add: rune_size_take)
    from runes_append_take[OF this False] False show ?thesis by (simp add: runes_step Suc.IH)
  qed simp
qed simp

text \<open>A byte that can start a rune is where a rune starts, and the others follow one.\<close>

lemma rune_tail:
  assumes "0 < i" "i < rune_size s"
  shows "\<not> rune_start (s ! i)"
proof -
  have "rune_size s = 2 \<or> rune_size s = 3 \<or> rune_size s = 4"
    using assms rune_size_bounds[of s] by (cases "s = []") (auto simp: rune_size_def)
  moreover have "second_ok c d \<Longrightarrow> byte_in 0x80 0xBF d" for c d
    by (auto simp: second_ok_def byte_in_def split: if_splits)
  moreover obtain c cs where "s = c # cs" using assms by (cases s) (auto simp: rune_size_def)
  ultimately show ?thesis using assms
    by (cases cs; cases "tl cs"; cases "tl (tl cs)"; cases i; cases "i - 1"; cases "i - 2")
      (auto simp: rune_size_def rune_start_def continuation_def nth_Cons' split: if_splits)
qed

lemma rune_head: "1 < rune_size s \<Longrightarrow> rune_start (s ! 0) \<and> 0x80 \<le> byte_at s 0"
  by (auto simp: rune_size_def rune_start_def byte_in_def byte_at_def split: list.splits if_splits)

lemma rune_start_boundary:
  "i < length s \<Longrightarrow> rune_start (s ! i) \<Longrightarrow> \<exists>k. i = length (concat (take k (runes s)))"
proof (induction s arbitrary: i rule: runes.induct)
  case (1 s)
  let ?n = "rune_size s"
  have s: "s \<noteq> []" using 1 by auto
  show ?case
  proof (cases "i < ?n")
    case True
    then have "i = 0" using rune_tail[of i s] 1 by blast
    then show ?thesis by (intro exI[of _ 0]) simp
  next
    case False
    then have "i - ?n < length (drop ?n s)" "rune_start (drop ?n s ! (i - ?n))"
      using 1(2,3) rune_size_le[of s] by simp_all
    from 1(1)[OF s this] obtain k where "i - ?n = length (concat (take k (runes (drop ?n s))))" by blast
    with False s rune_size_le[of s] show ?thesis
      by (intro exI[of _ "Suc k"]) (simp add: runes_step)
  qed
qed

text \<open>So decoding from the back finds the last rune that decoding from the front finds.\<close>

lemma find_append: "find P (xs @ ys) = (case find P xs of None \<Rightarrow> find P ys | Some x \<Rightarrow> Some x)"
  by (induction xs) simp_all

lemma last_rune_at_found:
  assumes "p + 1 < length s" "length s \<le> p + 4" "rune_start (s ! p)"
    and "\<And>i. p < i \<Longrightarrow> i < length s \<Longrightarrow> \<not> rune_start (s ! i)"
  shows "last_rune_at s = p"
proof -
  obtain d where "length s - 1 = p + Suc d" using assms(1) less_imp_Suc_add[of p "length s - 1"] by fastforce
  then have "[length s - 4..<length s - 1] = [length s - 4..<p] @ p # [p + 1..<length s - 1]"
    using assms(2) upt_add_eq_append[of "length s - 4" p "Suc d"] by (simp add: upt_conv_Cons)
  moreover have "find (\<lambda>i. rune_start (s ! i)) (rev [p + 1..<length s - 1]) = None"
    using assms(4) by (auto simp: find_None_iff)
  ultimately show ?thesis using assms(3) by (simp add: last_rune_at_def find_append Let_def)
qed

lemma last_runes:
  assumes "s \<noteq> []"
  obtains p where "p < length s" "runes s = runes (take p s) @ [drop p s]" "rune_size (drop p s) = length s - p"
proof -
  have ne: "runes s \<noteq> []" using assms by (simp add: runes_step)
  let ?k = "length (runes s) - 1" and ?p = "length (concat (butlast (runes s)))"
  have split: "s = concat (butlast (runes s)) @ last (runes s)"
    using ne by (metis append_butlast_last_id concat.simps concat_append append_Nil2 concat_runes)
  then have parts: "take ?p s = concat (butlast (runes s))" "drop ?p s = last (runes s)"
    by (metis append_eq_conv_conj)+
  have tail: "runes (drop ?p s) = [drop ?p s]"
    using runes_drop[of ?k s] parts(2) ne
    by (metis append_butlast_last_id append_eq_conv_conj concat.simps append_Nil2 length_butlast)
  have "drop ?p s \<noteq> []" using ne parts(2) runes_not_Nil[of "last (runes s)" s] by simp
  with tail have "rune_size (drop ?p s) = length s - ?p"
    using runes_step[of "drop ?p s"] rune_size_le[of "drop ?p s"] by (metis length_drop length_take list.inject min.absorb2)
  moreover have "runes (take ?p s) = butlast (runes s)"
    using runes_take[of ?k s] parts(1) by (simp add: butlast_conv_take)
  moreover have "?p < length s" using \<open>drop ?p s \<noteq> []\<close> by simp
  ultimately show ?thesis using that[of ?p] ne parts(2) by (simp add: append_butlast_last_id)
qed

lemma last_rune_at_pair:
  assumes "s \<noteq> []" "0x80 \<le> byte_at s (length s - 1)" "last_rune_at s + rune_size (drop (last_rune_at s) s) = length s"
  shows "length s = 1 \<or> (rune_start (s ! last_rune_at s) \<and> last_rune_at s < length s - 1)"
proof (cases "find (\<lambda>i. rune_start (s ! i)) (rev [length s - 4..<length s - 1])")
  case (Some i)
  then have "last_rune_at s = i" by (simp add: last_rune_at_def Let_def)
  with Some show ?thesis by (auto simp: find_Some_iff rev_nth)
next
  case None
  then have at: "last_rune_at s = length s - 4 - 1" by (simp add: last_rune_at_def Let_def)
  have "length s = 1" if "length s \<le> 4"
  proof (rule ccontr)
    assume "length s \<noteq> 1"
    then have "1 < length s" using assms(1) by (cases s) (auto simp: neq_Nil_conv)
    moreover have "last_rune_at s = 0" using at that by simp
    ultimately have "1 < rune_size s" using assms(3) by simp
    then have "rune_start (s ! 0)" using rune_head by blast
    moreover have "0 \<in> set (rev [length s - 4..<length s - 1])" using that \<open>1 < length s\<close> by simp
    ultimately show False using None by (auto simp: find_None_iff)
  qed
  moreover have "rune_size (drop (last_rune_at s) s) \<le> 4"
    using rune_size_bounds[of "drop (last_rune_at s) s"] by (cases "drop (last_rune_at s) s = []") (simp add: rune_size_def, blast)
  then have "length s \<le> 4" using assms(3) at by simp
  ultimately show ?thesis by blast
qed

lemma last_rune_runes:
  assumes "s \<noteq> []" "last_rune s = (r, n)"
  shows "0 < n" "n \<le> length s" "runes s = runes (take (length s - n) s) @ [drop (length s - n) s]"
    and "r = rune_value (drop (length s - n) s)"
proof -
  obtain p where p: "p < length s" "runes s = runes (take p s) @ [drop p s]" "rune_size (drop p s) = length s - p"
    by (rule last_runes[OF assms(1)])
  have "last_rune s = (rune_value (drop p s), length s - p)"
  proof (cases "length s - p = 1")
    case True
    then have one: "p = length s - 1" "rune_size (drop p s) = 1" "length s - (length s - 1) = 1" using p by simp_all
    show ?thesis
    proof (cases "byte_at s (length s - 1) < 0x80")
      case True
      with one p(1) assms(1) show ?thesis
        by (cases "length s") (simp_all add: last_rune_def rune_value_def byte_at_def)
    next
      case False
      have invalid: "rune_value (drop p s) = 0xFFFD"
        using False one p(1) by (simp add: rune_value_def byte_at_def)
      let ?i = "last_rune_at s"
      have "?i = p" if eq: "?i + rune_size (drop ?i s) = length s"
      proof -
        from last_rune_at_pair[OF assms(1) _ eq] False
        consider "length s = 1" | "rune_start (s ! ?i)" "?i < length s - 1" by force
        then show ?thesis
        proof cases
          case 2
          then have "?i < length s" by simp
          with 2 obtain k where k: "?i = length (concat (take k (runes s)))"
            using rune_start_boundary by blast
          have "s = concat (take k (runes s)) @ concat (drop k (runes s))"
            by (metis append_take_drop_id concat_append concat_runes)
          then have rest: "drop ?i s = concat (drop k (runes s))" using k by (metis append_eq_conv_conj)
          then have "runes (drop ?i s) = drop k (runes s)" by (simp add: runes_drop)
          moreover have "runes (drop ?i s) = [drop ?i s]"
            using 2 eq by (subst runes_step) auto
          ultimately have "last (runes s) = drop ?i s" by (metis drop_eq_Nil last_drop last.simps not_le list.distinct(1))
          then have "drop ?i s = drop p s" using p(2) by simp
          then have "length s - ?i = 1" using one(2) p by (metis length_drop)
          with 2 show ?thesis by simp
        qed (use p(1) in \<open>simp add: last_rune_at_def\<close>)
      qed
      then show ?thesis using False assms(1) invalid one p(3)
        by (auto simp: last_rune_def Let_def)
    qed
  next
    case False
    then have big: "1 < rune_size (drop p s)" using p by simp
    then have "rune_size (drop p s) \<le> 4" using rune_size_bounds[of "drop p s"] p(1) by simp
    moreover have "rune_start (s ! p)" using rune_head[OF big] p(1) by simp
    moreover have tail: "\<not> rune_start (s ! i)" if "p < i" "i < length s" for i
      using rune_tail[of "i - p" "drop p s"] that p by simp
    ultimately have "last_rune_at s = p"
      using False p by (intro last_rune_at_found) auto
    moreover have "0x80 \<le> byte_at s (length s - 1)"
      using tail[of "length s - 1"] False p(1) by (auto simp: rune_start_def byte_in_def byte_at_def)
    ultimately show ?thesis using assms(1) p by (simp add: last_rune_def Let_def)
  qed
  then have "r = rune_value (drop p s)" "n = length s - p" using assms(2) by simp_all
  then show "0 < n" "n \<le> length s" "runes s = runes (take (length s - n) s) @ [drop (length s - n) s]"
    "r = rune_value (drop (length s - n) s)" using p by simp_all
qed

section \<open>Token estimates of text\<close>

definition isCJKRune :: "int \<Rightarrow> bool" where
  "isCJKRune r \<longleftrightarrow>
     (0x3400 \<le> r \<and> r \<le> 0x4DBF) \<or> (0x4E00 \<le> r \<and> r \<le> 0x9FFF) \<or> (0xF900 \<le> r \<and> r \<le> 0xFAFF)
   \<or> (0x20000 \<le> r \<and> r \<le> 0x2A6DF) \<or> (0x2A700 \<le> r \<and> r \<le> 0x2B73F) \<or> (0x2B740 \<le> r \<and> r \<le> 0x2B81F)
   \<or> (0x2B820 \<le> r \<and> r \<le> 0x2CEAF) \<or> (0x3040 \<le> r \<and> r \<le> 0x309F) \<or> (0x30A0 \<le> r \<and> r \<le> 0x30FF)
   \<or> (0x31F0 \<le> r \<and> r \<le> 0x31FF) \<or> (0x1100 \<le> r \<and> r \<le> 0x11FF) \<or> (0x3130 \<le> r \<and> r \<le> 0x318F)
   \<or> (0xA960 \<le> r \<and> r \<le> 0xA97F) \<or> (0xAC00 \<le> r \<and> r \<le> 0xD7AF) \<or> (0xD7B0 \<le> r \<and> r \<le> 0xD7FF)"

record text_token_counts =
  tc_ascii :: int
  tc_cjk :: int
  tc_other :: int

definition no_counts :: text_token_counts where
  "no_counts = \<lparr>tc_ascii = 0, tc_cjk = 0, tc_other = 0\<rparr>"

definition withRune :: "text_token_counts \<Rightarrow> int \<Rightarrow> text_token_counts" where
  "withRune c r =
     (if r \<le> 0x7F then c\<lparr>tc_ascii := tc_ascii c + 1\<rparr>
      else if isCJKRune r then c\<lparr>tc_cjk := tc_cjk c + 1\<rparr>
      else c\<lparr>tc_other := tc_other c + 1\<rparr>)"

definition ceilDiv :: "int \<Rightarrow> int \<Rightarrow> int" where
  "ceilDiv n d = (if n \<le> 0 then 0 else (n + d - 1) div d)"

definition count_tokens :: "text_token_counts \<Rightarrow> int" where
  "count_tokens c = ceilDiv (tc_ascii c) 4 + tc_cjk c + ceilDiv (tc_other c) 3"

definition EstimateTextTokens :: "string \<Rightarrow> int" where
  "EstimateTextTokens text = count_tokens (foldl (\<lambda>c r. withRune c (rune_value r)) no_counts (runes text))"

definition EstimateCharsAsTokens :: "int \<Rightarrow> int" where
  "EstimateCharsAsTokens chars = (if chars \<le> 0 then 0 else ceilDiv chars 4)"

section \<open>Previews\<close>

record text_preview =
  tp_head :: string
  tp_tail :: string
  tp_omitted_bytes :: int
  tp_omitted_characters :: int

definition whole_text :: "string \<Rightarrow> text_preview" where
  "whole_text text = \<lparr>tp_head = text, tp_tail = [], tp_omitted_bytes = 0, tp_omitted_characters = 0\<rparr>"

definition TextExceedsBudget :: "string \<Rightarrow> int \<Rightarrow> int \<Rightarrow> bool" where
  "TextExceedsBudget text max_tokens max_bytes \<longleftrightarrow>
     (0 < max_tokens \<and> max_tokens < EstimateTextTokens text) \<or> (0 < max_bytes \<and> max_bytes < int (length text))"

function prefix_loop :: "bool \<Rightarrow> int \<Rightarrow> bool \<Rightarrow> int \<Rightarrow> string \<Rightarrow> text_token_counts \<Rightarrow> nat \<Rightarrow> nat" where
  "prefix_loop tokens_limited max_tokens bytes_limited max_bytes rest counts stop =
     (if rest = [] then stop
      else let rune_end = stop + rune_size rest; next = withRune counts (rune_value rest) in
        if bytes_limited \<and> max_bytes < int rune_end then stop
        else if tokens_limited \<and> max_tokens < count_tokens next then stop
        else prefix_loop tokens_limited max_tokens bytes_limited max_bytes (drop (rune_size rest) rest) next rune_end)"
  by pat_completeness auto
termination
  by (relation "measure (\<lambda>(_, _, _, _, rest, _, _). length rest)") (use rune_size_less in auto)

declare prefix_loop.simps [simp del]

definition prefixEndWithinBudget :: "string \<Rightarrow> bool \<Rightarrow> int \<Rightarrow> bool \<Rightarrow> int \<Rightarrow> nat" where
  "prefixEndWithinBudget text tokens_limited max_tokens bytes_limited max_bytes =
     prefix_loop tokens_limited max_tokens bytes_limited max_bytes text no_counts 0"

function suffix_loop :: "string \<Rightarrow> bool \<Rightarrow> int \<Rightarrow> bool \<Rightarrow> int \<Rightarrow> text_token_counts \<Rightarrow> nat \<Rightarrow> nat" where
  "suffix_loop text tokens_limited max_tokens bytes_limited max_bytes counts start =
     (if start = 0 then start
      else let (r, n) = last_rune (take start text) in
        if n = 0 then start
        else let next_start = start - n; next = withRune counts r in
          if bytes_limited \<and> max_bytes < int (length text) - int next_start then start
          else if tokens_limited \<and> max_tokens < count_tokens next then start
          else suffix_loop text tokens_limited max_tokens bytes_limited max_bytes next next_start)"
  by pat_completeness auto
termination by (relation "measure (\<lambda>(_, _, _, _, _, _, start). start)") auto

declare suffix_loop.simps [simp del]

definition suffixStartWithinBudget :: "string \<Rightarrow> bool \<Rightarrow> int \<Rightarrow> bool \<Rightarrow> int \<Rightarrow> nat" where
  "suffixStartWithinBudget text tokens_limited max_tokens bytes_limited max_bytes =
     suffix_loop text tokens_limited max_tokens bytes_limited max_bytes no_counts (length text)"

definition splitPreviewBudget :: "int \<Rightarrow> int \<times> int" where
  "splitPreviewBudget budget = (if budget \<le> 0 then (0, 0)
     else let head = (budget + 1) div 2 in (head, budget - head))"

text \<open>The quotient is exact as long as \<open>budget * head_bytes\<close> is below \<^verbatim>\<open>2^53\<close>.\<close>

definition splitPreviewTokenAllocation :: "int \<Rightarrow> int \<Rightarrow> int \<Rightarrow> int \<times> int" where
  "splitPreviewTokenAllocation budget head_bytes tail_bytes =
     (if budget \<le> 0 then (0, 0)
      else let byte_total = head_bytes + tail_bytes in
        if byte_total \<le> 0 then splitPreviewBudget budget
        else let head = (budget * head_bytes) div byte_total in (head, budget - head))"

definition previewTextWithSideBudgets :: "string \<Rightarrow> bool \<Rightarrow> int \<Rightarrow> int \<Rightarrow> bool \<Rightarrow> int \<Rightarrow> int \<Rightarrow> text_preview" where
  "previewTextWithSideBudgets text tokens_limited head_tokens tail_tokens bytes_limited head_bytes tail_bytes =
     (let head_end = prefixEndWithinBudget text tokens_limited head_tokens bytes_limited head_bytes;
          found = head_end + suffixStartWithinBudget (drop head_end text) tokens_limited tail_tokens
            bytes_limited tail_bytes;
          tail_start = max found head_end;
          omitted = take (tail_start - head_end) (drop head_end text)
      in if int tail_start - int head_end \<le> 0 then whole_text text
         else \<lparr>tp_head = take head_end text, tp_tail = drop tail_start text,
           tp_omitted_bytes = int tail_start - int head_end, tp_omitted_characters = int (length (runes omitted))\<rparr>)"

definition PreviewText :: "string \<Rightarrow> int \<Rightarrow> int \<Rightarrow> text_preview" where
  "PreviewText text max_tokens max_bytes =
     (if \<not> TextExceedsBudget text max_tokens max_bytes then whole_text text
      else case splitPreviewBudget max_tokens of (head_tokens, tail_tokens) \<Rightarrow>
        (case splitPreviewBudget max_bytes of (head_bytes, tail_bytes) \<Rightarrow>
          previewTextWithSideBudgets text (0 < max_tokens) head_tokens tail_tokens
            (0 < max_bytes) head_bytes tail_bytes))"

definition PreviewTextWithByteAllocation :: "string \<Rightarrow> int \<Rightarrow> int \<Rightarrow> int \<Rightarrow> text_preview" where
  "PreviewTextWithByteAllocation text max_tokens head_bytes tail_bytes =
     (if \<not> TextExceedsBudget text max_tokens (head_bytes + tail_bytes) then whole_text text
      else case splitPreviewTokenAllocation max_tokens head_bytes tail_bytes of (head_tokens, tail_tokens) \<Rightarrow>
        previewTextWithSideBudgets text (0 < max_tokens) head_tokens tail_tokens True head_bytes tail_bytes)"

section \<open>A preview fits its budget\<close>

definition counts_of :: "string list \<Rightarrow> text_token_counts" where
  "counts_of rs = foldl (\<lambda>c r. withRune c (rune_value r)) no_counts rs"

definition is_ascii :: "string \<Rightarrow> bool" where "is_ascii r \<longleftrightarrow> rune_value r \<le> 0x7F"
definition is_cjk :: "string \<Rightarrow> bool" where "is_cjk r \<longleftrightarrow> \<not> is_ascii r \<and> isCJKRune (rune_value r)"
definition is_other :: "string \<Rightarrow> bool" where "is_other r \<longleftrightarrow> \<not> is_ascii r \<and> \<not> is_cjk r"

lemma fold_counts:
  "foldl (\<lambda>c r. withRune c (rune_value r)) c rs
   = \<lparr>tc_ascii = tc_ascii c + int (length (filter is_ascii rs)), tc_cjk = tc_cjk c + int (length (filter is_cjk rs)),
      tc_other = tc_other c + int (length (filter is_other rs))\<rparr>"
  by (induction rs arbitrary: c) (auto simp: withRune_def is_ascii_def is_cjk_def is_other_def)

lemma counts_of_simps:
  "counts_of [] = no_counts" "counts_of (rs @ [r]) = withRune (counts_of rs) (rune_value r)"
  "counts_of (r # rs) = withRune (counts_of rs) (rune_value r)"
  by (simp_all add: counts_of_def fold_counts)
    (auto simp: withRune_def is_ascii_def is_cjk_def is_other_def no_counts_def)

lemma estimate_counts: "EstimateTextTokens text = count_tokens (counts_of (runes text))"
  by (simp add: EstimateTextTokens_def counts_of_def)

lemma ceilDiv_add:
  assumes "0 \<le> a" "0 \<le> b"
  shows "ceilDiv (a + b) 4 \<le> ceilDiv a 4 + ceilDiv b 4" "ceilDiv (a + b) 3 \<le> ceilDiv a 3 + ceilDiv b 3"
  using assms by (auto simp: ceilDiv_def)

lemma count_tokens_append: "count_tokens (counts_of (rs @ ts)) \<le> count_tokens (counts_of rs) + count_tokens (counts_of ts)"
proof -
  let ?n = "\<lambda>P rs. int (length (filter P rs))"
  have "ceilDiv (?n is_ascii rs + ?n is_ascii ts) 4 \<le> ceilDiv (?n is_ascii rs) 4 + ceilDiv (?n is_ascii ts) 4"
    "ceilDiv (?n is_other rs + ?n is_other ts) 3 \<le> ceilDiv (?n is_other rs) 3 + ceilDiv (?n is_other ts) 3"
    by (simp_all add: ceilDiv_add)
  then show ?thesis by (simp add: counts_of_def fold_counts no_counts_def count_tokens_def)
qed

lemma prefix_loop_runes:
  assumes "tokens_limited \<Longrightarrow> count_tokens counts \<le> max_tokens" "bytes_limited \<Longrightarrow> int stop \<le> max_bytes"
  shows "\<exists>k. let read = take k (runes rest);
      stop' = prefix_loop tokens_limited max_tokens bytes_limited max_bytes rest counts stop
    in stop' = stop + length (concat read)
      \<and> (tokens_limited \<longrightarrow> count_tokens (foldl (\<lambda>c r. withRune c (rune_value r)) counts read) \<le> max_tokens)
      \<and> (bytes_limited \<longrightarrow> int stop' \<le> max_bytes)"
  using assms
proof (induction tokens_limited max_tokens bytes_limited max_bytes rest counts stop rule: prefix_loop.induct)
  case (1 tl mt bl mb rest counts stop)
  let ?n = "rune_size rest" and ?next = "withRune counts (rune_value rest)"
  show ?case
  proof (cases "rest = [] \<or> (bl \<and> mb < int (stop + ?n)) \<or> (tl \<and> mt < count_tokens ?next)")
    case True
    then have "prefix_loop tl mt bl mb rest counts stop = stop"
      by (subst prefix_loop.simps) (auto simp: Let_def)
    with 1 show ?thesis by (intro exI[of _ 0]) simp
  next
    case False
    then have step: "prefix_loop tl mt bl mb rest counts stop = prefix_loop tl mt bl mb (drop ?n rest) ?next (stop + ?n)"
      by (subst prefix_loop.simps) (auto simp: Let_def)
    have first: "rune_value (take ?n rest) = rune_value rest" "length (take ?n rest) = ?n"
      using False rune_size_take[of rest ?n] rune_size_le[of rest] rune_size_pos[of rest]
      by (auto simp: rune_value_def byte_at_def)
    from False have c: "rest \<noteq> []" "\<not> (bl \<and> mb < int (stop + ?n))" "\<not> (tl \<and> mt < count_tokens ?next)" by blast+
    then have "tl \<Longrightarrow> count_tokens ?next \<le> mt" "bl \<Longrightarrow> int (stop + ?n) \<le> mb" by auto
    from 1(1)[OF c(1) refl refl c(2,3) this] obtain k where k: "let read = take k (runes (drop ?n rest));
          stop' = prefix_loop tl mt bl mb (drop ?n rest) ?next (stop + ?n)
        in stop' = stop + ?n + length (concat read)
          \<and> (tl \<longrightarrow> count_tokens (foldl (\<lambda>c r. withRune c (rune_value r)) ?next read) \<le> mt)
          \<and> (bl \<longrightarrow> int stop' \<le> mb)"
      by blast
    with c(1) step first show ?thesis by (intro exI[of _ "Suc k"]) (auto simp: runes_step Let_def)
  qed
qed

lemma suffix_loop_runes:
  assumes "runes text = runes (take start text) @ rs" "concat rs = drop start text" "start \<le> length text"
    and "tokens_limited \<Longrightarrow> count_tokens (counts_of rs) \<le> max_tokens"
    and "bytes_limited \<Longrightarrow> int (length text) - int start \<le> max_bytes"
  shows "let start' = suffix_loop text tokens_limited max_tokens bytes_limited max_bytes (counts_of rs) start
    in start' \<le> start \<and> (\<exists>rs'. runes text = runes (take start' text) @ rs' \<and> concat rs' = drop start' text
        \<and> (tokens_limited \<longrightarrow> count_tokens (counts_of rs') \<le> max_tokens))
      \<and> (bytes_limited \<longrightarrow> int (length text) - int start' \<le> max_bytes)"
  using assms
proof (induction start arbitrary: rs rule: less_induct)
  case (less start)
  let ?loop = "suffix_loop text tokens_limited max_tokens bytes_limited max_bytes"
  obtain r n where r: "last_rune (take start text) = (r, n)" by fastforce
  let ?next = "withRune (counts_of rs) r"
  show ?case
  proof (cases "start = 0 \<or> n = 0 \<or> (bytes_limited \<and> max_bytes < int (length text) - int (start - n))
      \<or> (tokens_limited \<and> max_tokens < count_tokens ?next)")
    case True
    then have "?loop (counts_of rs) start = start" using r by (subst suffix_loop.simps) (auto simp: Let_def)
    with less.prems show ?thesis by (auto simp: Let_def)
  next
    case False
    let ?t = "take start text" and ?r = "drop (start - n) (take start text)"
    have ne: "?t \<noteq> []" and len: "length ?t = start" using False less.prems(3) by auto
    note lr = last_rune_runes[OF ne r, unfolded len]
    have cut: "runes text = runes (take (start - n) text) @ ?r # rs" using less.prems(1) lr(3) by simp
    have rest: "concat (?r # rs) = drop (start - n) text"
    proof -
      have "drop (start - n) text = drop (start - n) (?t @ drop start text)" by simp
      also have "\<dots> = ?r @ drop start text" unfolding drop_append len by simp
      finally show ?thesis using less.prems(2) by simp
    qed
    have next_counts: "counts_of (?r # rs) = ?next" using lr(4) by (simp add: counts_of_simps)
    have "start - n < start" "start - n \<le> length text"
      "tokens_limited \<Longrightarrow> count_tokens (counts_of (?r # rs)) \<le> max_tokens"
      "bytes_limited \<Longrightarrow> int (length text) - int (start - n) \<le> max_bytes"
      using False less.prems(3) by (auto simp: next_counts)
    from less.IH[OF this(1) cut rest this(2) this(3,4)]
    have "let start' = ?loop ?next (start - n)
      in start' \<le> start - n \<and> (\<exists>rs'. runes text = runes (take start' text) @ rs' \<and> concat rs' = drop start' text
          \<and> (tokens_limited \<longrightarrow> count_tokens (counts_of rs') \<le> max_tokens))
        \<and> (bytes_limited \<longrightarrow> int (length text) - int start' \<le> max_bytes)"
      unfolding next_counts .
    moreover have "?loop (counts_of rs) start = ?loop ?next (start - n)"
      using False r by (subst suffix_loop.simps) (auto simp: Let_def)
    ultimately show ?thesis by (auto simp: Let_def)
  qed
qed

text \<open>Both cuts together.\<close>

lemma side_budgets:
  assumes p: "p = previewTextWithSideBudgets text tokens_limited head_tokens tail_tokens bytes_limited head_bytes tail_bytes"
    and "0 \<le> head_tokens" "0 \<le> tail_tokens" "0 \<le> head_bytes" "0 \<le> tail_bytes"
    and exceeds: "(tokens_limited \<and> head_tokens + tail_tokens < EstimateTextTokens text)
      \<or> (bytes_limited \<and> head_bytes + tail_bytes < int (length text))"
  obtains mid where "text = tp_head p @ mid @ tp_tail p" "mid \<noteq> []"
    and "tp_omitted_bytes p = int (length mid)" "tp_omitted_characters p = int (length (runes mid))"
    and "runes text = runes (tp_head p) @ runes mid @ runes (tp_tail p)"
    and "tokens_limited \<Longrightarrow> EstimateTextTokens (tp_head p) \<le> head_tokens \<and> EstimateTextTokens (tp_tail p) \<le> tail_tokens"
    and "bytes_limited \<Longrightarrow> int (length (tp_head p)) \<le> head_bytes \<and> int (length (tp_tail p)) \<le> tail_bytes"
proof -
  have zero: "count_tokens no_counts = 0" by (simp add: count_tokens_def no_counts_def ceilDiv_def)
  obtain k where k: "let read = take k (runes text);
      stop = prefixEndWithinBudget text tokens_limited head_tokens bytes_limited head_bytes
    in stop = length (concat read) \<and> (tokens_limited \<longrightarrow> count_tokens (counts_of read) \<le> head_tokens)
      \<and> (bytes_limited \<longrightarrow> int stop \<le> head_bytes)"
    using prefix_loop_runes[of tokens_limited no_counts head_tokens bytes_limited 0 head_bytes "text"] assms(2,4) zero
    by (auto simp: prefixEndWithinBudget_def counts_of_def)
  define stop where "stop = prefixEndWithinBudget text tokens_limited head_tokens bytes_limited head_bytes"
  define rest where "rest = drop stop text"
  define start where "start = suffixStartWithinBudget rest tokens_limited tail_tokens bytes_limited tail_bytes"
  have parts: "text = concat (take k (runes text)) @ concat (drop k (runes text))"
    by (metis append_take_drop_id concat_append concat_runes)
  have head: "take stop text = concat (take k (runes text))" "rest = concat (drop k (runes text))"
    using k parts by (metis append_eq_conv_conj stop_def rest_def)+
  have "counts_of [] = no_counts" by (simp add: counts_of_simps)
  then have "let start' = start in start' \<le> length rest \<and> (\<exists>rs'. runes rest = runes (take start' rest) @ rs'
        \<and> concat rs' = drop start' rest \<and> (tokens_limited \<longrightarrow> count_tokens (counts_of rs') \<le> tail_tokens))
      \<and> (bytes_limited \<longrightarrow> int (length rest) - int start' \<le> tail_bytes)"
    using suffix_loop_runes[of rest "length rest" "[]" tokens_limited tail_tokens bytes_limited tail_bytes]
      assms(3,5) zero by (simp add: start_def suffixStartWithinBudget_def)
  then obtain rs where rs: "runes rest = runes (take start rest) @ rs" "concat rs = drop start rest"
    "tokens_limited \<Longrightarrow> count_tokens (counts_of rs) \<le> tail_tokens" "start \<le> length rest"
    "bytes_limited \<Longrightarrow> int (length rest) - int start \<le> tail_bytes" by (auto simp: Let_def)
  have tail: "runes (drop start rest) = rs"
    using runes_drop[of "length (runes (take start rest))" rest] rs(1,2) by simp
  have heads: "runes (take stop text) = take k (runes text)" "runes rest = drop k (runes text)"
    by (simp_all add: head runes_take runes_drop)
  have all: "runes text = runes (take stop text) @ runes (take start rest) @ rs"
    using rs(1) heads by (metis append_take_drop_id)
  have tokens: "tokens_limited \<Longrightarrow> EstimateTextTokens (take stop text) \<le> head_tokens \<and> EstimateTextTokens (drop start rest) \<le> tail_tokens"
    using k rs(3) tail heads(1) by (simp add: estimate_counts stop_def Let_def)
  have bytes: "bytes_limited \<Longrightarrow> int (length (take stop text)) \<le> head_bytes \<and> int (length (drop start rest)) \<le> tail_bytes"
    using k rs(4,5) by (auto simp: stop_def Let_def min_def)
  note bounds = tokens bytes
  have "take start rest \<noteq> []"
  proof
    assume none: "take start rest = []"
    then have "drop start rest = rest" by auto
    then have "text = take stop text @ drop start rest" by (simp add: rest_def)
    then have "length text = length (take stop text) + length (drop start rest)" by (metis length_append)
    moreover have "runes text = runes (take stop text) @ rs" using all none by simp
    then have "EstimateTextTokens text \<le> EstimateTextTokens (take stop text) + EstimateTextTokens (drop start rest)"
      using count_tokens_append[of "runes (take stop text)" rs] by (simp add: estimate_counts tail)
    ultimately have "int (length text) = int (length (take stop text)) + int (length (drop start rest))"
      "EstimateTextTokens text \<le> EstimateTextTokens (take stop text) + EstimateTextTokens (drop start rest)" by linarith+
    with bounds exceeds show False by linarith
  qed
  then have "0 < start" by auto
  then have p': "p = \<lparr>tp_head = take stop text, tp_tail = drop start rest, tp_omitted_bytes = int start,
      tp_omitted_characters = int (length (runes (take start rest)))\<rparr>"
    by (simp add: p previewTextWithSideBudgets_def Let_def stop_def[symmetric] rest_def[symmetric] start_def[symmetric])
      (simp add: rest_def add.commute)
  have "take start rest @ drop start rest = rest" by (rule append_take_drop_id)
  then have "text = take stop text @ take start rest @ drop start rest" by (simp add: rest_def)
  moreover have "length (take start rest) = start" using rs(4) by simp
  ultimately show ?thesis
    using that[of "take start rest"] p' all tail bounds \<open>take start rest \<noteq> []\<close> by simp
qed

text \<open>C23: a preview of text that is within both ceilings is the text. Otherwise it is the text with one
  stretch left out of the middle: head and tail together stay within the token ceiling and within the
  byte ceiling, no rune is cut in two (the runes of the text are those of the head, the omitted part and
  the tail), and the omission counts are those of the part left out. This holds for arbitrary bytes,
  although the head is decoded from the front and the tail from the back.\<close>

theorem preview_fits_budget:
  "let p = PreviewText text max_tokens max_bytes in
   \<exists>mid. text = tp_head p @ mid @ tp_tail p
     \<and> runes text = runes (tp_head p) @ runes mid @ runes (tp_tail p)
     \<and> tp_omitted_bytes p = int (length mid) \<and> tp_omitted_characters p = int (length (runes mid))
     \<and> (mid = [] \<longleftrightarrow> \<not> TextExceedsBudget text max_tokens max_bytes)
     \<and> (0 < max_tokens \<longrightarrow> EstimateTextTokens (tp_head p) + EstimateTextTokens (tp_tail p) \<le> max_tokens)
     \<and> (0 < max_bytes \<longrightarrow> int (length (tp_head p)) + int (length (tp_tail p)) \<le> max_bytes)"
proof (cases "TextExceedsBudget text max_tokens max_bytes")
  case False
  have "EstimateTextTokens [] = 0" by (simp add: EstimateTextTokens_def count_tokens_def no_counts_def ceilDiv_def)
  with False show ?thesis
    unfolding Let_def by (intro exI[of _ "[]"]) (auto simp: PreviewText_def whole_text_def TextExceedsBudget_def)
next
  case True
  obtain ht tt where t: "splitPreviewBudget max_tokens = (ht, tt)" by fastforce
  obtain hb tb where b: "splitPreviewBudget max_bytes = (hb, tb)" by fastforce
  have nonneg: "0 \<le> ht" "0 \<le> tt" "0 \<le> hb" "0 \<le> tb"
    and sums: "0 < max_tokens \<Longrightarrow> ht + tt = max_tokens" "0 < max_bytes \<Longrightarrow> hb + tb = max_bytes"
    using t b by (auto simp: splitPreviewBudget_def Let_def split: if_splits)
  define p where "p = PreviewText text max_tokens max_bytes"
  have p: "p = previewTextWithSideBudgets text (0 < max_tokens) ht tt (0 < max_bytes) hb tb"
    using True t b by (simp add: p_def PreviewText_def)
  have over: "(0 < max_tokens \<and> ht + tt < EstimateTextTokens text) \<or> (0 < max_bytes \<and> hb + tb < int (length text))"
    using True sums by (auto simp: TextExceedsBudget_def)
  obtain mid where mid: "text = tp_head p @ mid @ tp_tail p" "mid \<noteq> []"
    "tp_omitted_bytes p = int (length mid)" "tp_omitted_characters p = int (length (runes mid))"
    "runes text = runes (tp_head p) @ runes mid @ runes (tp_tail p)"
    "0 < max_tokens \<Longrightarrow> EstimateTextTokens (tp_head p) \<le> ht \<and> EstimateTextTokens (tp_tail p) \<le> tt"
    "0 < max_bytes \<Longrightarrow> int (length (tp_head p)) \<le> hb \<and> int (length (tp_tail p)) \<le> tb"
    by (rule side_budgets[OF p nonneg over]) (rule that; assumption?)
  have "0 < max_tokens \<longrightarrow> EstimateTextTokens (tp_head p) + EstimateTextTokens (tp_tail p) \<le> max_tokens"
    "0 < max_bytes \<longrightarrow> int (length (tp_head p)) + int (length (tp_tail p)) \<le> max_bytes"
    using mid(6,7) sums by force+
  with mid(2) True show ?thesis unfolding p_def[symmetric] Let_def
    by (intro exI[of _ mid] conjI) (simp_all add: mid(3,4) flip: mid(1,5))
qed

definition wit_rune :: string where "wit_rune = [CHR 0xE4, CHR 0xB8, CHR 0xAD]"

theorem preview_fits_budget_witness:
  "let p = PreviewText (concat (replicate 4 wit_rune) @ [CHR 0xE4]) 2 0 in
   tp_head p = wit_rune \<and> tp_omitted_characters p = 3
   \<and> EstimateTextTokens (tp_head p) + EstimateTextTokens (tp_tail p) \<le> 2"
proof -
  have "tp_head (PreviewText (concat (replicate 4 wit_rune) @ [CHR 0xE4]) 2 0) = wit_rune"
    "tp_omitted_characters (PreviewText (concat (replicate 4 wit_rune) @ [CHR 0xE4]) 2 0) = 3"
    by code_simp+
  then show ?thesis
    using preview_fits_budget[of "concat (replicate 4 wit_rune) @ [CHR 0xE4]" 2 0] unfolding Let_def by auto
qed

end
