(* ===== verification/ContextBudget.thy ===== *)
theory ContextBudget
  imports ContextPreview ThreadJournal "HOL-Library.Word"
begin

text \<open>
  What fits a model's context window (\<^verbatim>\<open>internal/framework/runtime/contextbudget\<close>: \<^verbatim>\<open>policy.go\<close>,
  \<^verbatim>\<open>usage.go\<close>, \<^verbatim>\<open>select.go\<close>, \<^verbatim>\<open>active.go\<close>; the policy record of \<^verbatim>\<open>runtime/policy/policy.go\<close>): the budgets
  derived from the window, the token estimates of messages, the choice of messages that a compaction
  keeps verbatim, and the messages a request is made of. The length of \<^verbatim>\<open>json.Marshal\<close> of a tool input
  and of a list of tools is a parameter, \<open>None\<close> when it fails.
\<close>

section \<open>Budgets\<close>

record compaction_policy =
  cp_enabled :: bool
  cp_instructions :: string
  cp_reserve_tokens :: int
  cp_keep_recent_tokens :: int
  cp_summary_model :: string
  cp_summary_max_tokens :: int
  cp_tool_result_max_chars :: int
  cp_user_input_inline_max_bytes :: int
  cp_user_input_preview_head_bytes :: int
  cp_user_input_preview_tail_bytes :: int
  cp_max_auto_failures :: int

definition DefaultContextWindowTokens :: int where "DefaultContextWindowTokens = 256000"

definition DefaultCompactionPolicy :: compaction_policy where
  "DefaultCompactionPolicy = \<lparr>cp_enabled = True, cp_instructions = [], cp_reserve_tokens = 0,
     cp_keep_recent_tokens = 0, cp_summary_model = [], cp_summary_max_tokens = 0, cp_tool_result_max_chars = 0,
     cp_user_input_inline_max_bytes = 65536, cp_user_input_preview_head_bytes = 8192,
     cp_user_input_preview_tail_bytes = 8192, cp_max_auto_failures = 3\<rparr>"

record budget_policy =
  bp_enabled :: bool
  bp_instructions :: string
  bp_context_window :: int
  bp_reserve_tokens :: int
  bp_keep_recent_tokens :: int
  bp_summary_model :: string
  bp_summary_request_tokens :: int
  bp_summary_max_tokens :: int
  bp_tool_result_max_tokens :: int
  bp_tool_result_max_chars :: int
  bp_user_input_inline_max_bytes :: int
  bp_user_input_preview_head_bytes :: int
  bp_user_input_preview_tail_bytes :: int
  bp_max_auto_failures :: int
  bp_trigger_tokens :: int

definition smallContextWindow :: int where "smallContextWindow = 100000"
definition largeContextWindow :: int where "largeContextWindow = 1000000"
definition smallSummaryTokens :: int where "smallSummaryTokens = 1000"
definition mediumSummaryTokens :: int where "mediumSummaryTokens = 2000"
definition smallToolTokens :: int where "smallToolTokens = 500"
definition mediumToolTokens :: int where "mediumToolTokens = 2000"

text \<open>The product is computed in \<^verbatim>\<open>int64\<close> and may wrap around; the division truncates toward zero.\<close>

definition mul_int64 :: "int \<Rightarrow> int \<Rightarrow> int" where
  "mul_int64 a b = sint (word_of_int (a * b) :: 64 word)"

definition quot :: "int \<Rightarrow> int \<Rightarrow> int" where
  "quot a b = (if a < 0 then - ((- a) div b) else a div b)"

definition scaledContextBudget :: "int \<Rightarrow> int \<Rightarrow> int \<Rightarrow> int" where
  "scaledContextBudget window numerator denominator =
     (if window \<le> 0 \<or> numerator \<le> 0 \<or> denominator \<le> 0 then 1
      else let budget = quot (mul_int64 window numerator) denominator in if budget < 1 then 1 else budget)"

definition minPositiveBudget :: "int \<Rightarrow> int \<Rightarrow> int" where
  "minPositiveBudget a b = (if a < b then a else b)"

definition cappedContextBudget :: "int \<Rightarrow> int \<Rightarrow> int" where
  "cappedContextBudget derived configured = (if 0 < configured then minPositiveBudget derived configured else derived)"

definition summaryOutputTokenBudget :: "int \<Rightarrow> int" where
  "summaryOutputTokenBudget window =
     (if window < smallContextWindow then smallSummaryTokens
      else if window < largeContextWindow then mediumSummaryTokens
      else scaledContextBudget window 1 200)"

definition toolResultContentBudgets :: "int \<Rightarrow> int \<Rightarrow> int \<times> int" where
  "toolResultContentBudgets window configured =
     (let max_tokens = (if window < smallContextWindow then smallToolTokens
            else if window < largeContextWindow then mediumToolTokens else 0);
          max_chars = (if window < largeContextWindow then 0 else scaledContextBudget window 1 200)
      in (max_tokens, if 0 < configured
            then (if 0 < max_chars then minPositiveBudget max_chars configured else configured)
            else max_chars))"

definition ToolResultTokenBudget :: "int \<Rightarrow> int" where
  "ToolResultTokenBudget window = fst (toolResultContentBudgets window 0)"

definition EffectivePolicy :: "compaction_policy \<Rightarrow> int \<Rightarrow> int \<Rightarrow> budget_policy" where
  "EffectivePolicy policy context_window default_window =
     (let window = (if context_window \<le> 0 then default_window else context_window);
          trigger0 = scaledContextBudget window 80 100;
          trigger = (if 0 < cp_reserve_tokens policy
            then (let configured = window - cp_reserve_tokens policy
                  in minPositiveBudget trigger0 (if configured < 1 then 1 else configured))
            else trigger0);
          tool = toolResultContentBudgets window (cp_tool_result_max_chars policy);
          positive = (\<lambda>configured fallback. if configured \<le> 0 then fallback else configured)
      in \<lparr>bp_enabled = cp_enabled policy, bp_instructions = cp_instructions policy, bp_context_window = window,
        bp_reserve_tokens = window - trigger,
        bp_keep_recent_tokens = cappedContextBudget (scaledContextBudget window 5 64) (cp_keep_recent_tokens policy),
        bp_summary_model = cp_summary_model policy,
        bp_summary_request_tokens = scaledContextBudget window 90 100,
        bp_summary_max_tokens = cappedContextBudget (summaryOutputTokenBudget window) (cp_summary_max_tokens policy),
        bp_tool_result_max_tokens = fst tool, bp_tool_result_max_chars = snd tool,
        bp_user_input_inline_max_bytes = positive (cp_user_input_inline_max_bytes policy)
          (cp_user_input_inline_max_bytes DefaultCompactionPolicy),
        bp_user_input_preview_head_bytes = positive (cp_user_input_preview_head_bytes policy)
          (cp_user_input_preview_head_bytes DefaultCompactionPolicy),
        bp_user_input_preview_tail_bytes = positive (cp_user_input_preview_tail_bytes policy)
          (cp_user_input_preview_tail_bytes DefaultCompactionPolicy),
        bp_max_auto_failures = positive (cp_max_auto_failures policy) (cp_max_auto_failures DefaultCompactionPolicy),
        bp_trigger_tokens = trigger\<rparr>)"

section \<open>Token estimates of messages\<close>

definition role_text :: "role \<Rightarrow> string" where
  "role_text r = (case r of RoleUser \<Rightarrow> ''user'' | RoleAssistant \<Rightarrow> ''assistant'' | RoleSystem \<Rightarrow> ''system''
     | RoleOther s \<Rightarrow> s)"

definition block_type_text :: "block_type \<Rightarrow> string" where
  "block_type_text t = (case t of BlockText \<Rightarrow> ''text'' | BlockImage \<Rightarrow> ''image'' | BlockToolUse \<Rightarrow> ''tool_use''
     | BlockToolResult \<Rightarrow> ''tool_result'' | BlockReasoning \<Rightarrow> ''reasoning'' | BlockOther s \<Rightarrow> s)"

definition message_kind_text :: "message_kind \<Rightarrow> string" where
  "message_kind_text k = (case k of KindNone \<Rightarrow> [] | KindDirect \<Rightarrow> ''direct'' | KindContinuation \<Rightarrow> ''continuation''
     | KindToolResult \<Rightarrow> ''tool_result'' | KindMCPEvent \<Rightarrow> ''mcp_event'' | KindObservation \<Rightarrow> ''observation''
     | KindWorkerThread \<Rightarrow> ''worker_thread'' | KindPolicyEvent \<Rightarrow> ''policy_event'' | KindCompact \<Rightarrow> ''compact''
     | KindRuntimeContext \<Rightarrow> ''runtime_context'' | KindModelChange \<Rightarrow> ''model_change''
     | KindSystemNotice \<Rightarrow> ''system_notice'' | KindOther s \<Rightarrow> s)"

definition EstimateMediaReferenceChars :: "media_ref \<Rightarrow> int" where
  "EstimateMediaReferenceChars m =
     (let chars = int (length (artifact_path m)) + int (length (media_type m)) + int (length (media_sha256 m)) + 24;
          pixels = media_width m * media_height m;
          image_tokens = (if 0 < media_width m \<and> 0 < media_height m \<and> 0 < pixels
            then max 85 ((pixels + 749) div 750) else 85)
      in chars + image_tokens * 4)"

type_synonym input_size = "tool_input \<Rightarrow> nat option"

definition estimate_block :: "input_size \<Rightarrow> block \<Rightarrow> int" where
  "estimate_block input_size b =
     EstimateCharsAsTokens (int (length (block_type_text (block_type b))) + int (length (tool_use_id b))
       + int (length (tool_name b)) + 8)
     + EstimateTextTokens (block_text b) + EstimateTextTokens (block_content b)
     + (case media b of None \<Rightarrow> 0 | Some m \<Rightarrow> EstimateCharsAsTokens (EstimateMediaReferenceChars m))
     + (case tool_input b of None \<Rightarrow> 0 | Some input \<Rightarrow> if input = [] then 0 else
         (case input_size input of None \<Rightarrow> 0 | Some n \<Rightarrow> EstimateCharsAsTokens (int n)))"

definition EstimateMessageTokens :: "input_size \<Rightarrow> message list \<Rightarrow> int" where
  "EstimateMessageTokens input_size history =
     sum_list (map (\<lambda>m. EstimateCharsAsTokens (int (length (role_text (msg_role m)))
         + int (length (message_kind_text (msg_kind m))) + 8)
       + sum_list (map (estimate_block input_size) (blocks_of m))) history)"

record tool_spec =
  ts_name :: string
  ts_description :: string
  ts_schema :: "(string \<times> json) list"

record prompt_section =
  ps_key :: string
  ps_text :: string

type_synonym tools_size = "tool_spec list \<Rightarrow> nat option"

definition EstimateToolTokens :: "tools_size \<Rightarrow> tool_spec list \<Rightarrow> int" where
  "EstimateToolTokens tools_size tools = (if tools = [] then 0 else
     case tools_size tools of None \<Rightarrow> 0 | Some n \<Rightarrow> EstimateCharsAsTokens (int n))"

definition EstimateContextTokens :: "input_size \<Rightarrow> tools_size \<Rightarrow> string \<Rightarrow> tool_spec list \<Rightarrow> message list \<Rightarrow> int" where
  "EstimateContextTokens input_size tools_size system_prompt tools history =
     EstimateTextTokens system_prompt + EstimateToolTokens tools_size tools + EstimateMessageTokens input_size history"

definition EstimateCompactSummaryTokens :: "input_size \<Rightarrow> message list \<Rightarrow> int" where
  "EstimateCompactSummaryTokens input_size history =
     EstimateMessageTokens input_size (filter (\<lambda>m. msg_kind m = KindCompact) history)"

definition EstimateContextArtifactTokens :: "message list \<Rightarrow> int" where
  "EstimateContextArtifactTokens history =
     sum_list (map (\<lambda>m. sum_list (map (\<lambda>b. if artifact b = None then 0
       else EstimateTextTokens (block_text b) + EstimateTextTokens (block_content b)) (blocks_of m))) history)"

definition EstimateOrdinaryMessageTokens :: "input_size \<Rightarrow> message list \<Rightarrow> int" where
  "EstimateOrdinaryMessageTokens input_size history =
     EstimateMessageTokens input_size
       (map (\<lambda>m. set_msg_blocks (Some (filter (\<lambda>b. artifact b = None) (blocks_of m))) m)
         (filter (\<lambda>m. msg_kind m \<noteq> KindCompact) history))"

definition SplitContextTools :: "tool_spec list \<Rightarrow> tool_spec list \<times> tool_spec list" where
  "SplitContextTools tools = (filter (\<lambda>t. \<not> has_prefix (ts_name t) ''mcp__'') tools,
     filter (\<lambda>t. has_prefix (ts_name t) ''mcp__'') tools)"

definition SectionSeparator :: string where
  "SectionSeparator = [CHR 0x0A, CHR 0x0A] @ ''---'' @ [CHR 0x0A, CHR 0x0A]"

definition JoinSections :: "prompt_section list \<Rightarrow> string" where
  "JoinSections sections = join SectionSeparator (filter (\<lambda>s. s \<noteq> []) (map ps_text sections))"

definition EstimateSystemPromptTokens :: "prompt_section list \<Rightarrow> int" where
  "EstimateSystemPromptTokens sections =
     EstimateTextTokens (JoinSections (filter (\<lambda>s. ps_key s \<noteq> ''skills'') sections))"

definition EstimateSectionTokens :: "prompt_section list \<Rightarrow> string \<Rightarrow> int" where
  "EstimateSectionTokens sections key =
     sum_list (map (\<lambda>s. EstimateTextTokens (ps_text s)) (filter (\<lambda>s. ps_key s = key) sections))"

definition ContextUsageResponseKey :: string where "ContextUsageResponseKey = ''response''"

definition EstimatedInputTokens :: "context_usage_part list \<Rightarrow> int" where
  "EstimatedInputTokens parts = sum_list (map part_tokens (filter (\<lambda>p. part_key p \<noteq> ContextUsageResponseKey) parts))"

definition ContextUsageSnapshot ::
  "input_size \<Rightarrow> tools_size \<Rightarrow> string \<Rightarrow> int \<Rightarrow> int \<Rightarrow> usage \<Rightarrow> prompt_section list \<Rightarrow> tool_spec list \<Rightarrow> message list
    \<Rightarrow> context_usage" where
  "ContextUsageSnapshot input_size tools_size model context_window default_window usage sections tools history =
     (let (system_tools, mcp_tools) = SplitContextTools tools;
          part = (\<lambda>key label tokens. \<lparr>part_key = key, part_label = label, part_tokens = tokens\<rparr>);
          breakdown =
            [part ''system_prompt'' ''System prompt'' (EstimateSystemPromptTokens sections),
             part ''system_tools'' ''System tools'' (EstimateToolTokens tools_size system_tools),
             part ''mcp_tools'' ''MCP tools'' (EstimateToolTokens tools_size mcp_tools),
             part ''skills'' ''Skills'' (EstimateSectionTokens sections ''skills''),
             part ''compact_summary'' ''Compact summary'' (EstimateCompactSummaryTokens input_size history),
             part ''context_artifacts'' ''Context artifact references'' (EstimateContextArtifactTokens history),
             part ''messages'' ''Messages'' (EstimateOrdinaryMessageTokens input_size history),
             part ContextUsageResponseKey ''Response'' (output_tokens usage)];
          usage' = (if input_tokens usage \<le> 0
            then usage\<lparr>input_tokens := EstimatedInputTokens breakdown\<rparr> else usage)
      in \<lparr>cu_model = (if model = [] then ''unknown'' else model),
        cu_context_window = (if context_window \<le> 0 then default_window else context_window),
        cu_input_tokens = input_tokens usage', cu_output_tokens = output_tokens usage',
        cu_cached_input_tokens = cached_input_tokens usage', cu_total_tokens = TotalTokens usage',
        cu_breakdown = breakdown\<rparr>)"

section \<open>The messages of a request\<close>

definition ProviderVisibleMessages :: "message list \<Rightarrow> message list" where
  "ProviderVisibleMessages msgs = filter (\<lambda>m. msg_kind m \<noteq> KindPolicyEvent \<and> \<not> policy_blocked m) msgs"

definition indexMessageID :: "message list \<Rightarrow> string \<Rightarrow> nat option" where
  "indexMessageID history i = map_option fst (find (\<lambda>(_, m). msg_id m = i) (enumerate 0 history))"

text \<open>The last position where \<open>P\<close> holds, as the backward loops find it.\<close>

definition last_index :: "('a \<Rightarrow> bool) \<Rightarrow> 'a list \<Rightarrow> nat option" where
  "last_index P xs = map_option fst (find (\<lambda>(_, x). P x) (rev (enumerate 0 xs)))"

definition latestCompact :: "message list \<Rightarrow> nat option" where
  "latestCompact history = last_index (\<lambda>m. msg_kind m = KindCompact) history"

record active_context_snapshot =
  ac_messages :: "message list"
  ac_estimated_tokens :: int

text \<open>What a compact message keeps of the messages before it.\<close>

definition retained_before :: "message \<Rightarrow> message list \<Rightarrow> message list" where
  "retained_before marker before = (case msg_compaction marker of
      None \<Rightarrow> []
    | Some c \<Rightarrow>
        (if retained_message_ids c \<noteq> [] then filter (\<lambda>m. msg_id m \<in> set (retained_message_ids c)) before
         else if tail_start_message_id c = [] then []
         else case indexMessageID before (tail_start_message_id c) of
           None \<Rightarrow> [] | Some i \<Rightarrow> drop i before))"

definition AssembleActiveContext :: "input_size \<Rightarrow> message list \<Rightarrow> message list \<Rightarrow> active_context_snapshot" where
  "AssembleActiveContext input_size history0 incoming0 =
     (let history = ProviderVisibleMessages history0; incoming = ProviderVisibleMessages incoming0;
          out = (case latestCompact history of
              None \<Rightarrow> history @ incoming
            | Some k \<Rightarrow> history ! k # retained_before (history ! k) (take k history) @ drop (k + 1) history @ incoming)
      in \<lparr>ac_messages = out, ac_estimated_tokens = EstimateMessageTokens input_size out\<rparr>)"

section \<open>The choice of retained messages\<close>

record selection =
  sel_previous_summary :: "message option"
  sel_summary_input :: "message list"
  sel_retained_tail :: "message list"
  sel_retained_message_ids :: "string list"
  sel_oversized_input_ids :: "string list"
  sel_first_kept_message_id :: string
  sel_tail_start_message_id :: string
  sel_latest_compact :: "nat option"
  sel_retained_tail_start :: nat
  sel_summary_input_end :: nat

definition isRealInput :: "message \<Rightarrow> bool" where
  "isRealInput m \<longleftrightarrow> msg_role m = RoleUser \<and>
     (msg_kind m \<in> {KindDirect, KindMCPEvent, KindObservation, KindWorkerThread}
      \<or> (msg_kind m = KindNone \<and> msg_kind (ClassifyUserMessage m) = KindDirect))"

definition requiresExecutionTail :: "message \<Rightarrow> bool" where
  "requiresExecutionTail m \<longleftrightarrow> msg_kind m = KindContinuation \<or> msg_kind m = KindToolResult
     \<or> list_ex (\<lambda>b. block_type b = BlockToolUse \<or> block_type b = BlockToolResult) (blocks_of m)"

definition executionTailStart :: "message list \<Rightarrow> nat option" where
  "executionTailStart work =
     (if work = [] \<or> \<not> requiresExecutionTail (last work) then None
      else case last_index isRealInput work of
        Some i \<Rightarrow> Some i
      | None \<Rightarrow> (case last_index (\<lambda>m. msg_kind m = KindContinuation) work of Some i \<Rightarrow> Some i | None \<Rightarrow> Some 0))"

text \<open>The loop goes backward: its argument is the reversed transcript.\<close>

fun retain_inputs :: "(message list \<Rightarrow> int) \<Rightarrow> int \<Rightarrow> message list \<Rightarrow> int \<Rightarrow> string set \<Rightarrow> string set" where
  "retain_inputs estimate budget [] tokens keep = keep"
| "retain_inputs estimate budget (m # before) tokens keep =
     (if \<not> isRealInput m then retain_inputs estimate budget before tokens keep
      else let cost = estimate [m] in
        if 0 < budget \<and> budget < tokens + cost then keep
        else retain_inputs estimate budget before (tokens + cost) (insert (msg_id m) keep))"

definition chooseRetainedMessages :: "message list \<Rightarrow> int \<Rightarrow> (message list \<Rightarrow> int) \<Rightarrow> string set" where
  "chooseRetainedMessages work budget estimate =
     (let keep = retain_inputs estimate budget (rev work) 0 {} in
      case executionTailStart work of None \<Rightarrow> keep | Some i \<Rightarrow> keep \<union> set (map msg_id (drop i work)))"

definition compactionRelevantMessages :: "message list \<Rightarrow> message list" where
  "compactionRelevantMessages msgs = filter (\<lambda>m. \<not> policy_blocked m
     \<and> msg_kind m \<notin> {KindPolicyEvent, KindRuntimeContext, KindModelChange, KindSystemNotice, KindCompact}) msgs"

definition messageHasRetainableReference :: "message \<Rightarrow> bool" where
  "messageHasRetainableReference m = list_ex (\<lambda>b. (block_type b = BlockText \<and> block_text b \<noteq> [])
     \<or> (block_type b = BlockImage \<and> (case media b of None \<Rightarrow> False | Some r \<Rightarrow> artifact_path r \<noteq> []))) (blocks_of m)"

definition newestOversizedInputID :: "message list \<Rightarrow> int \<Rightarrow> (message list \<Rightarrow> int) \<Rightarrow> string" where
  "newestOversizedInputID work budget estimate =
     (if budget \<le> 0 then []
      else case last_index isRealInput work of
        None \<Rightarrow> []
      | Some i \<Rightarrow> (if messageHasRetainableReference (work ! i) \<and> budget < estimate [work ! i]
          then msg_id (work ! i) else []))"

definition retainedMessagesForCompact :: "message list \<Rightarrow> message \<Rightarrow> message list" where
  "retainedMessagesForCompact before marker = retained_before marker before"

text \<open>The messages a compaction works on: what the last compact message kept and what came after it.\<close>

definition compaction_work :: "message list \<Rightarrow> message list" where
  "compaction_work history = compactionRelevantMessages (case latestCompact history of
      None \<Rightarrow> history
    | Some k \<Rightarrow> retainedMessagesForCompact (take k history) (history ! k) @ drop (k + 1) history)"

definition empty_selection :: "message list \<Rightarrow> selection" where
  "empty_selection history =
     \<lparr>sel_previous_summary = map_option (\<lambda>k. history ! k) (latestCompact history), sel_summary_input = [],
      sel_retained_tail = [], sel_retained_message_ids = [], sel_oversized_input_ids = [],
      sel_first_kept_message_id = [], sel_tail_start_message_id = [],
      sel_latest_compact = latestCompact history, sel_retained_tail_start = length history,
      sel_summary_input_end = length history\<rparr>"

definition SelectInputWithEstimator :: "message list \<Rightarrow> budget_policy \<Rightarrow> (message list \<Rightarrow> int) \<Rightarrow> selection" where
  "SelectInputWithEstimator history policy estimate =
     (let sel = empty_selection history; work = compaction_work history in
      if work = [] then sel
      else let keep = chooseRetainedMessages work (bp_keep_recent_tokens policy) estimate;
               oversized = newestOversizedInputID work (bp_keep_recent_tokens policy) estimate;
               kept = (\<lambda>m. msg_id m \<noteq> oversized \<and> msg_id m \<in> keep);
               tail = filter kept work;
               summarized = filter (\<lambda>m. \<not> kept m) work
           in sel\<lparr>sel_summary_input := (if summarized = [] \<and> tail \<noteq> [] then tail else summarized),
                sel_retained_tail := tail,
                sel_retained_message_ids := filter (\<lambda>i. i \<noteq> []) (map msg_id tail),
                sel_oversized_input_ids := (if oversized \<noteq> [] then [oversized] else []),
                sel_first_kept_message_id := (if tail \<noteq> [] then msg_id (hd tail) else oversized),
                sel_tail_start_message_id := (case executionTailStart work of None \<Rightarrow> [] | Some i \<Rightarrow> msg_id (work ! i))\<rparr>)"

definition SelectInput :: "input_size \<Rightarrow> message list \<Rightarrow> budget_policy \<Rightarrow> selection" where
  "SelectInput input_size history policy = SelectInputWithEstimator history policy (EstimateMessageTokens input_size)"

definition StartsWithToolResult :: "message \<Rightarrow> bool" where
  "StartsWithToolResult m \<longleftrightarrow> (case blocks_of m of [] \<Rightarrow> False | b # _ \<Rightarrow> block_type b = BlockToolResult)"

end
