(* ===== verification/ContextSelect.thy ===== *)
theory ContextSelect
  imports ContextBudget
begin

text \<open>
  What a compaction keeps (\<^verbatim>\<open>contextbudget/select.go\<close>, \<^verbatim>\<open>active.go\<close>): the retained messages are the newest
  real inputs that fit the budget and everything that belongs to work in progress, and the context of
  the next Generation consists of the compact message and exactly these messages.
\<close>

section \<open>Positions and subsequences\<close>

lemma enumerate_append: "enumerate n (xs @ ys) = enumerate n xs @ enumerate (n + length xs) ys"
  by (induction xs arbitrary: n) simp_all

lemma last_index_Nil [simp]: "last_index P [] = None"
  by (simp add: last_index_def)

lemma last_index_append: "last_index P (xs @ [x]) = (if P x then Some (length xs) else last_index P xs)"
  by (simp add: last_index_def enumerate_append)

lemma last_index_Some: "last_index P xs = Some i \<Longrightarrow> i < length xs \<and> P (xs ! i) \<and> list_all (\<lambda>x. \<not> P x) (drop (i + 1) xs)"
  by (induction xs arbitrary: i rule: rev_induct) (auto simp: last_index_append nth_append split: if_splits)

lemma last_index_None: "last_index P xs = None \<longleftrightarrow> list_all (\<lambda>x. \<not> P x) xs"
  by (induction xs rule: rev_induct) (auto simp: last_index_append)

lemma last_index_skip: "list_all (\<lambda>x. \<not> P x) ys \<Longrightarrow> last_index P (xs @ ys) = last_index P xs"
proof (induction ys rule: rev_induct)
  case (snoc y ys)
  then show ?case using last_index_append[of P "xs @ ys" y] by simp
qed simp

lemma latestCompact_append:
  "latestCompact (xs @ [m]) = (if msg_kind m = KindCompact then Some (length xs) else latestCompact xs)"
  by (simp add: latestCompact_def last_index_append)

lemma subseq_filter_members:
  assumes "subseq ys xs" "distinct xs"
  shows "filter (\<lambda>x. x \<in> set ys) xs = ys"
  using assms
proof (induction rule: list_emb.induct)
  case (list_emb_Cons xs ys y)
  then have "y \<notin> set xs" by (auto dest: list_emb_set)
  with list_emb_Cons show ?case by simp
next
  case (list_emb_Cons2 x y xs ys)
  then have "filter (\<lambda>z. z \<in> set (x # xs)) ys = filter (\<lambda>z. z \<in> set xs) ys"
    by (intro filter_cong) auto
  with list_emb_Cons2 show ?case by simp
qed simp

lemma filter_ids:
  assumes "distinct (map msg_id xs)" "set ys \<subseteq> set xs"
  shows "filter (\<lambda>m. msg_id m \<in> set (map msg_id ys)) xs = filter (\<lambda>m. m \<in> set ys) xs"
proof (rule filter_cong)
  fix m assume "m \<in> set xs"
  with assms show "(msg_id m \<in> set (map msg_id ys)) = (m \<in> set ys)"
    by (auto dest: inj_onD[OF distinct_map[THEN iffD1, THEN conjunct2]])
qed simp

section \<open>The retained messages\<close>

text \<open>The cost of the inputs the backward loop has accepted, and why it stopped.\<close>

definition input_cost :: "(message list \<Rightarrow> int) \<Rightarrow> message list \<Rightarrow> int" where
  "input_cost estimate ms = sum_list (map (\<lambda>m. estimate [m]) (filter isRealInput ms))"

lemma input_cost_simps [simp]:
  "input_cost estimate [] = 0"
  "input_cost estimate (m # ms) = (if isRealInput m then estimate [m] else 0) + input_cost estimate ms"
  "input_cost estimate (rev ms) = input_cost estimate ms"
  by (simp_all add: input_cost_def rev_map[symmetric] rev_filter[symmetric] sum_list_rev)

definition stops_at :: "(message list \<Rightarrow> int) \<Rightarrow> int \<Rightarrow> int \<Rightarrow> message list \<Rightarrow> nat \<Rightarrow> bool" where
  "stops_at estimate budget tokens before j \<longleftrightarrow> j \<le> length before
     \<and> (0 < budget \<longrightarrow> tokens + input_cost estimate (take j before) \<le> budget)
     \<and> (j < length before \<longrightarrow> 0 < budget \<and> isRealInput (before ! j)
          \<and> budget < tokens + input_cost estimate (take j before) + estimate [before ! j])"

lemma retain_inputs_newest:
  "tokens \<le> budget \<or> budget \<le> 0 \<Longrightarrow> \<exists>j. stops_at estimate budget tokens before j
    \<and> retain_inputs estimate budget before tokens keep = keep \<union> set (map msg_id (filter isRealInput (take j before)))"
proof (induction before arbitrary: tokens keep)
  case Nil
  then show ?case by (auto simp: stops_at_def)
next
  case (Cons m before)
  let ?cost = "estimate [m]"
  consider (other) "\<not> isRealInput m" | (stop) "isRealInput m" "0 < budget" "budget < tokens + ?cost"
    | (fits) "isRealInput m" "tokens + ?cost \<le> budget \<or> budget \<le> 0" by force
  then show ?case
  proof cases
    case other
    from Cons.IH[OF Cons.prems] obtain j where "stops_at estimate budget tokens before j"
      "retain_inputs estimate budget before tokens keep = keep \<union> set (map msg_id (filter isRealInput (take j before)))"
      by blast
    with other show ?thesis by (intro exI[of _ "Suc j"]) (simp add: stops_at_def)
  next
    case stop
    with Cons.prems show ?thesis by (intro exI[of _ 0]) (auto simp: stops_at_def Let_def)
  next
    case fits
    from Cons.IH[OF fits(2), of "insert (msg_id m) keep"] obtain j where
      "stops_at estimate budget (tokens + ?cost) before j"
      "retain_inputs estimate budget before (tokens + ?cost) (insert (msg_id m) keep)
        = insert (msg_id m) keep \<union> set (map msg_id (filter isRealInput (take j before)))"
      by blast
    with fits show ?thesis by (intro exI[of _ "Suc j"]) (auto simp: stops_at_def Let_def ac_simps)
  qed
qed

definition tail_start :: "message list \<Rightarrow> nat" where
  "tail_start work = (case executionTailStart work of None \<Rightarrow> length work | Some i \<Rightarrow> i)"

lemma chooseRetained_set:
  "0 \<le> budget \<or> budget \<le> 0 \<Longrightarrow> \<exists>n. stops_at estimate budget 0 (rev work) (length work - n) \<and> n \<le> length work
    \<and> chooseRetainedMessages work budget estimate
      = set (map msg_id (filter isRealInput (drop n work) @ drop (tail_start work) work))"
proof -
  assume "0 \<le> budget \<or> budget \<le> 0"
  from retain_inputs_newest[OF this, of estimate "rev work" "{}"] obtain j where
    j: "stops_at estimate budget 0 (rev work) j"
      "retain_inputs estimate budget (rev work) 0 {} = set (map msg_id (filter isRealInput (take j (rev work))))"
    by auto
  have "j \<le> length work" using j(1) by (simp add: stops_at_def)
  moreover have "chooseRetainedMessages work budget estimate
      = set (map msg_id (filter isRealInput (drop (length work - j) work) @ drop (tail_start work) work))"
    using j(2) by (auto simp: chooseRetainedMessages_def tail_start_def take_rev rev_filter[symmetric] Let_def
        split: option.splits)
  ultimately show ?thesis using j(1) by (intro exI[of _ "length work - j"]) simp
qed

lemma filter_take_drop:
  assumes "distinct work"
  shows "filter (\<lambda>m. P m \<and> m \<in> set (drop n work)) (take k work) = filter P (drop n (take k work))"
proof (cases "n \<le> k")
  case True
  let ?Q = "\<lambda>m. P m \<and> m \<in> set (drop n work)"
  have "take k work = take n work @ drop n (take k work)"
    using True by (metis append_take_drop_id min.absorb1 take_take)
  then have "filter ?Q (take k work) = filter ?Q (take n work) @ filter ?Q (drop n (take k work))"
    by (metis filter_append)
  moreover have "set (take n work) \<inter> set (drop n work) = {}"
    using assms by (metis append_take_drop_id distinct_append)
  then have "filter ?Q (take n work) = []" by (auto simp: filter_empty_conv)
  moreover have "set (drop n (take k work)) \<subseteq> set (drop n work)"
    by (metis drop_take set_take_subset)
  then have "filter ?Q (drop n (take k work)) = filter P (drop n (take k work))"
    by (intro filter_cong) auto
  ultimately show ?thesis by simp
next
  case False
  then have "set (take k work) \<inter> set (drop n work) = {}"
    using assms set_take_disj_set_drop_if_distinct[of work k n] by simp
  with False show ?thesis by (auto simp: filter_empty_conv)
qed

text \<open>Which messages of the work are kept, in their order.\<close>

definition kept_messages :: "message list \<Rightarrow> nat \<Rightarrow> string \<Rightarrow> message list" where
  "kept_messages work n oversized = filter (\<lambda>m. msg_id m \<noteq> oversized)
     (filter isRealInput (drop n (take (tail_start work) work)) @ drop (tail_start work) work)"

lemma kept_messages_filter:
  assumes "distinct (map msg_id work)"
  shows "filter (\<lambda>m. msg_id m \<noteq> oversized
      \<and> msg_id m \<in> set (map msg_id (filter isRealInput (drop n work) @ drop (tail_start work) work))) work
    = kept_messages work n oversized"
proof -
  let ?k = "tail_start work" and ?o = "\<lambda>m. msg_id m \<noteq> oversized"
  let ?keep = "\<lambda>m. msg_id m \<in> set (map msg_id (filter isRealInput (drop n work) @ drop ?k work))"
  have dist: "distinct work" using assms by (simp add: distinct_map)
  have apart: "m \<notin> set (drop ?k work)" if "m \<in> set (take ?k work)" for m
    using dist that by (metis IntI append_take_drop_id distinct_append empty_iff)
  have keep: "?keep m \<longleftrightarrow> isRealInput m \<and> m \<in> set (drop n work) \<or> m \<in> set (drop ?k work)" if "m \<in> set work" for m
  proof -
    have "inj_on msg_id (set work)" using assms by (simp add: distinct_map)
    then have "(msg_id m \<in> msg_id ` A) = (m \<in> A)" if "A \<subseteq> set work" for A
      using \<open>m \<in> set work\<close> that by (meson inj_on_image_mem_iff)
    moreover have "set (filter isRealInput (drop n work) @ drop ?k work) \<subseteq> set work"
      by (auto dest: in_set_dropD)
    ultimately show ?thesis by auto
  qed
  have "filter (\<lambda>m. ?o m \<and> ?keep m) work
      = filter (\<lambda>m. ?o m \<and> ?keep m) (take ?k work) @ filter (\<lambda>m. ?o m \<and> ?keep m) (drop ?k work)"
    by (metis append_take_drop_id filter_append)
  also have "filter (\<lambda>m. ?o m \<and> ?keep m) (take ?k work)
      = filter (\<lambda>m. (?o m \<and> isRealInput m) \<and> m \<in> set (drop n work)) (take ?k work)"
    using keep apart by (intro filter_cong) (auto dest: in_set_takeD)
  also have "filter (\<lambda>m. ?o m \<and> ?keep m) (drop ?k work) = filter ?o (drop ?k work)"
    using keep by (intro filter_cong) (auto dest: in_set_dropD)
  finally show ?thesis
    using filter_take_drop[OF dist, of "\<lambda>m. ?o m \<and> isRealInput m" n ?k]
    by (simp add: kept_messages_def conj_commute)
qed

lemma selection_parts:
  fixes history :: "message list" and policy :: budget_policy and estimate :: "message list \<Rightarrow> int"
  defines "work \<equiv> compaction_work history" and "budget \<equiv> bp_keep_recent_tokens policy"
  defines "oversized \<equiv> newestOversizedInputID work budget estimate"
  defines "sel \<equiv> SelectInputWithEstimator history policy estimate"
  assumes ids: "distinct (map msg_id work)" "[] \<notin> set (map msg_id work)"
  obtains n where "n \<le> length work" "stops_at estimate budget 0 (rev work) (length work - n)"
    and "sel_retained_tail sel = kept_messages work n oversized"
    and "sel_retained_message_ids sel = map msg_id (sel_retained_tail sel)"
    and "sel_summary_input sel = (if set work \<subseteq> set (sel_retained_tail sel) then sel_retained_tail sel
      else filter (\<lambda>m. m \<notin> set (sel_retained_tail sel)) work)"
proof -
  have "0 \<le> budget \<or> budget \<le> 0" by arith
  from chooseRetained_set[OF this, of estimate work] obtain n where
    n: "stops_at estimate budget 0 (rev work) (length work - n)" "n \<le> length work"
      "chooseRetainedMessages work budget estimate
        = set (map msg_id (filter isRealInput (drop n work) @ drop (tail_start work) work))" by blast
  let ?keep = "chooseRetainedMessages work budget estimate"
  define kept where "kept = (\<lambda>m. msg_id m \<noteq> oversized \<and> msg_id m \<in> ?keep)"
  have tail: "filter kept work = kept_messages work n oversized"
    unfolding kept_def n(3) by (rule kept_messages_filter[OF ids(1)])
  show ?thesis
  proof (cases "work = []")
    case True
    then have "sel = empty_selection history" by (simp add: sel_def SelectInputWithEstimator_def work_def Let_def)
    with True n(1,2) show ?thesis by (intro that[of n]) (simp_all add: empty_selection_def kept_messages_def)
  next
    case False
    then have sel: "sel_retained_tail sel = filter kept work"
        "sel_retained_message_ids sel = filter (\<lambda>i. i \<noteq> []) (map msg_id (filter kept work))"
        "sel_summary_input sel = (if filter (\<lambda>m. \<not> kept m) work = [] \<and> filter kept work \<noteq> [] then filter kept work
           else filter (\<lambda>m. \<not> kept m) work)"
      by (simp_all add: sel_def SelectInputWithEstimator_def kept_def oversized_def budget_def work_def[symmetric] Let_def)
    have "filter (\<lambda>i. i \<noteq> []) (map msg_id (filter kept work)) = map msg_id (filter kept work)"
      using ids(2) by (intro filter_True) (auto, metis image_eqI)
    moreover have "filter (\<lambda>m. m \<notin> set (filter kept work)) work = filter (\<lambda>m. \<not> kept m) work"
      by (intro filter_cong) auto
    moreover have "filter (\<lambda>m. \<not> kept m) work = [] \<longleftrightarrow> set work \<subseteq> set (filter kept work)"
      by (auto simp: filter_empty_conv)
    moreover from this have "filter (\<lambda>m. \<not> kept m) work = [] \<Longrightarrow> filter kept work \<noteq> []"
      using False by (cases work) (auto simp: filter_empty_conv)
    ultimately show ?thesis using n(1,2) tail by (intro that[of n]) (auto simp: sel)
  qed
qed

text \<open>C18: a compaction loses no message. Of the messages it works on it keeps verbatim, in order, the
  newest real inputs up to the first one that would exceed the budget, and, while a tool call or its
  result is the last message, everything from the newest real input on; only an input that is by itself
  larger than the budget is left out. Every other message goes into the summary request, and the
  recorded ids are those of the messages kept.\<close>

theorem compaction_keeps_newest_inputs:
  assumes "work = compaction_work history" "distinct (map msg_id work)" "[] \<notin> set (map msg_id work)"
    and "sel = SelectInputWithEstimator history policy estimate" "budget = bp_keep_recent_tokens policy"
    and "oversized = newestOversizedInputID work budget estimate"
  shows "(\<exists>n \<le> length work.
      sel_retained_tail sel = filter (\<lambda>m. msg_id m \<noteq> oversized)
        (filter isRealInput (drop n (take (tail_start work) work)) @ drop (tail_start work) work)
      \<and> (0 < budget \<longrightarrow> input_cost estimate (drop n work) \<le> budget)
      \<and> (0 < n \<longrightarrow> 0 < budget \<and> isRealInput (work ! (n - 1))
          \<and> budget < input_cost estimate (drop n work) + estimate [work ! (n - 1)]))
    \<and> set (sel_retained_tail sel) \<union> set (sel_summary_input sel) = set work
    \<and> sel_retained_message_ids sel = map msg_id (sel_retained_tail sel)"
proof (intro conjI)
  obtain n where n: "n \<le> length work" "stops_at estimate budget 0 (rev work) (length work - n)"
    "sel_retained_tail sel = kept_messages work n oversized"
    "sel_retained_message_ids sel = map msg_id (sel_retained_tail sel)"
    "sel_summary_input sel = (if set work \<subseteq> set (sel_retained_tail sel) then sel_retained_tail sel
      else filter (\<lambda>m. m \<notin> set (sel_retained_tail sel)) work)"
    using selection_parts[of history estimate policy] assms by blast
  have from_end: "take (length work - n) (rev work) = rev (drop n work)" using n(1) by (simp add: take_rev)
  have stop: "rev work ! (length work - n) = work ! (n - 1)" if "0 < n"
    using that n(1) by (simp add: rev_nth Suc_diff_le)
  show "\<exists>n \<le> length work.
      sel_retained_tail sel = filter (\<lambda>m. msg_id m \<noteq> oversized)
        (filter isRealInput (drop n (take (tail_start work) work)) @ drop (tail_start work) work)
      \<and> (0 < budget \<longrightarrow> input_cost estimate (drop n work) \<le> budget)
      \<and> (0 < n \<longrightarrow> 0 < budget \<and> isRealInput (work ! (n - 1))
          \<and> budget < input_cost estimate (drop n work) + estimate [work ! (n - 1)])"
    using n(1-3) stop by (intro exI[of _ n]) (auto simp: stops_at_def from_end kept_messages_def)
  have "set (kept_messages work n oversized) \<subseteq> set work"
    by (auto simp: kept_messages_def dest: in_set_dropD in_set_takeD)
  then show "set (sel_retained_tail sel) \<union> set (sel_summary_input sel) = set work"
    using n(3,5) by auto
  show "sel_retained_message_ids sel = map msg_id (sel_retained_tail sel)" by (rule n(4))
qed

section \<open>The context after a compaction\<close>

text \<open>The work of a compaction is part of the visible history, in its order.\<close>

lemma retained_before_subseq: "subseq (retained_before marker before) before"
  by (auto simp: retained_before_def subseq_filter_left suffix_drop suffix_imp_subseq split: option.splits)

lemma subseq_drop: "subseq (drop n xs) xs"
  by (simp add: suffix_drop suffix_imp_subseq)

lemma subseq_filter: "subseq xs ys \<Longrightarrow> subseq (filter P xs) ys"
  by (rule subseq_order.order_trans[OF subseq_filter_left])

lemma work_subseq: "subseq (compaction_work history) history"
proof (cases "latestCompact history")
  case None
  then show ?thesis by (simp add: compaction_work_def compactionRelevantMessages_def subseq_filter_left)
next
  case (Some k)
  let ?kept = "retained_before (history ! k) (take k history)"
  have "subseq (drop (k + 1) history) (drop k history)"
    using subseq_drop[of 1 "drop k history"] by (simp add: add.commute)
  then have "subseq (?kept @ drop (k + 1) history) (take k history @ drop k history)"
    by (intro list_emb_append_mono retained_before_subseq)
  then have "subseq (?kept @ drop (k + 1) history) history" by simp
  from subseq_filter[OF this] Some show ?thesis
    unfolding compaction_work_def compactionRelevantMessages_def retainedMessagesForCompact_def by simp
qed

lemma work_relevant: "m \<in> set (compaction_work history) \<Longrightarrow> \<not> policy_blocked m \<and> msg_kind m \<noteq> KindPolicyEvent \<and> msg_kind m \<noteq> KindCompact"
  by (auto simp: compaction_work_def compactionRelevantMessages_def)

lemma tail_subseq: "subseq (kept_messages work n oversized) work"
proof -
  let ?k = "tail_start work"
  have "subseq (filter isRealInput (drop n (take ?k work)) @ drop ?k work) (take ?k work @ drop ?k work)"
    by (intro list_emb_append_mono subseq_filter subseq_drop) simp
  then have "subseq (filter isRealInput (drop n (take ?k work)) @ drop ?k work) work" by simp
  then show ?thesis unfolding kept_messages_def by (rule subseq_filter)
qed

lemma subseq_set: "subseq xs ys \<Longrightarrow> set xs \<subseteq> set ys"
  using list_emb_set[of "(=)" xs ys] by blast

lemma subseq_distinct_map: "subseq xs ys \<Longrightarrow> distinct (map f ys) \<Longrightarrow> distinct (map f xs)"
  by (induction rule: list_emb.induct) (auto dest: subseq_set)

lemma ids_select:
  assumes "subseq ys xs" "distinct (map msg_id xs)"
  shows "filter (\<lambda>m. msg_id m \<in> set (map msg_id ys)) xs = ys"
  using filter_ids[OF assms(2) subseq_set[OF assms(1)]] subseq_filter_members[OF assms(1)] assms(2)
  by (simp add: distinct_map)

text \<open>C17: the context whose size a compaction checks against the budget is the context the next
  Generation starts with. The check appends the compact message to the old history and assembles the
  request; the commit replaces the history by the compact message and the messages it names. Both give
  the compact message, then exactly the messages the selection retained, then the new input. The one
  case left out is a selection that retains nothing although a tool call is open, which needs an
  oversized input that itself carries a tool block.\<close>

theorem next_context_is_checked_context:
  assumes "vis = ProviderVisibleMessages history" "distinct (map msg_id history)" "[] \<notin> set (map msg_id history)"
    and "sel = SelectInputWithEstimator vis policy estimate"
    and "sel_retained_tail sel \<noteq> [] \<or> sel_tail_start_message_id sel = []"
    and "msg_kind marker = KindCompact" "\<not> policy_blocked marker" "msg_compaction marker = Some c"
    and "retained_message_ids c = sel_retained_message_ids sel"
    and "tail_start_message_id c = sel_tail_start_message_id sel"
  shows "AssembleActiveContext input_size (compactProviderMessages marker history) incoming
      = AssembleActiveContext input_size (history @ [marker]) incoming
    \<and> ac_messages (AssembleActiveContext input_size (history @ [marker]) incoming)
      = marker # sel_retained_tail sel @ ProviderVisibleMessages incoming"
proof (intro conjI)
  let ?tail = "sel_retained_tail sel" and ?work = "compaction_work vis"
  have subs: "subseq ?work vis" "subseq vis history"
    by (simp_all add: work_subseq assms(1) ProviderVisibleMessages_def subseq_filter_left)
  have dist: "distinct (map msg_id vis)"
    using assms(2) by (simp add: assms(1) ProviderVisibleMessages_def distinct_map_filter)
  have work: "distinct (map msg_id ?work)" "[] \<notin> set (map msg_id ?work)"
    using subseq_distinct_map[OF subs(1) dist] assms(3) subseq_set[OF subs(1)] subseq_set[OF subs(2)] by auto
  obtain n oversized where tail: "?tail = kept_messages ?work n oversized"
    "sel_retained_message_ids sel = map msg_id ?tail"
    using selection_parts[OF work, of estimate policy] unfolding assms(4) by blast
  have sub: "subseq ?tail vis" "subseq ?tail history"
    using tail(1) tail_subseq subs subseq_order.order_trans by metis+
  have "set ?tail \<subseteq> set ?work" unfolding tail(1) by (rule subseq_set[OF tail_subseq])
  then have kinds: "list_all (\<lambda>m. \<not> policy_blocked m \<and> msg_kind m \<noteq> KindPolicyEvent \<and> msg_kind m \<noteq> KindCompact) ?tail"
    using work_relevant by (auto simp: list_all_iff)
  have seed: "compactProviderMessages marker history = marker # ?tail"
    using ids_select[OF sub(2) assms(2)] by (simp add: compactProviderMessages_def assms(8,9) tail(2))
  have visible: "ProviderVisibleMessages (marker # ?tail) = marker # ?tail"
    using kinds assms(6,7) by (simp add: ProviderVisibleMessages_def list_all_iff)
  have "list_all (\<lambda>m. msg_kind m \<noteq> KindCompact) ?tail" using kinds by (simp add: list_all_iff)
  then have "latestCompact (marker # ?tail) = Some 0"
    using last_index_skip[of "\<lambda>m. msg_kind m = KindCompact" ?tail "[marker]"] last_index_append[of _ "[]" marker] assms(6)
    by (simp add: latestCompact_def)
  then have next_context: "ac_messages (AssembleActiveContext input_size (compactProviderMessages marker history) incoming)
      = marker # ?tail @ ProviderVisibleMessages incoming"
    using visible by (simp add: AssembleActiveContext_def seed retained_before_def assms(8) indexMessageID_def Let_def)
  have all: "ProviderVisibleMessages (history @ [marker]) = vis @ [marker]"
    using assms(1,6,7) by (simp add: ProviderVisibleMessages_def)
  have "retained_before marker vis = ?tail"
    using ids_select[OF sub(1) dist] assms(5,8,9,10) tail(2) by (auto simp: retained_before_def)
  then show checked: "ac_messages (AssembleActiveContext input_size (history @ [marker]) incoming)
      = marker # ?tail @ ProviderVisibleMessages incoming"
    using assms(6) by (simp add: AssembleActiveContext_def all latestCompact_append nth_append Let_def)
  then show "AssembleActiveContext input_size (compactProviderMessages marker history) incoming
      = AssembleActiveContext input_size (history @ [marker]) incoming"
    using next_context by (simp add: AssembleActiveContext_def Let_def)
qed

text \<open>A transcript with a tool call in progress, and a budget that one input exceeds.\<close>

definition wit_input :: "string \<Rightarrow> string \<Rightarrow> message" where
  "wit_input i t = set_msg_kind KindDirect (set_msg_id i (TextMessage RoleUser t))"

definition wit_working :: "message list" where
  "wit_working = [wit_input ''a'' ''first'', wit_input ''b'' ''second'', set_msg_id ''c'' (TextMessage RoleAssistant ''ok''),
     wit_input ''d'' ''third'',
     set_msg_id ''e'' (Message [] RoleAssistant (Some [empty_block\<lparr>block_type := BlockToolUse, tool_use_id := ''t''\<rparr>])
       KindNone False [] None)]"

definition wit_budget :: budget_policy where
  "wit_budget = (EffectivePolicy DefaultCompactionPolicy 400 0)\<lparr>bp_keep_recent_tokens := 25\<rparr>"

lemma wit_selection:
  "compaction_work wit_working = wit_working" "distinct (map msg_id wit_working)" "[] \<notin> set (map msg_id wit_working)"
  "ProviderVisibleMessages wit_working = wit_working"
  "map msg_id (sel_retained_tail (SelectInput (\<lambda>_. None) wit_working wit_budget)) = [''b'', ''d'', ''e'']"
  "newestOversizedInputID wit_working 25 (EstimateMessageTokens (\<lambda>_. None)) = []"
  by code_simp+

theorem compaction_keeps_newest_inputs_witness:
  "sel_retained_message_ids (SelectInput (\<lambda>_. None) wit_working wit_budget) = [''b'', ''d'', ''e'']"
  using compaction_keeps_newest_inputs[OF wit_selection(1)[symmetric] wit_selection(2,3) refl refl refl,
      of wit_budget "EstimateMessageTokens (\<lambda>_. None)"] wit_selection(5)
  by (simp add: SelectInput_def)

definition wit_marker :: message where
  "wit_marker = Message ''m'' RoleUser None KindCompact False []
     (Some (CompactionMetadata False [] [] ''b'' ''d'' [''b'', ''d'', ''e''] [] 0 0 0 []))"

theorem next_context_is_checked_context_witness:
  "map msg_id (ac_messages (AssembleActiveContext (\<lambda>_. None) (compactProviderMessages wit_marker wit_working) []))
   = [''m'', ''b'', ''d'', ''e'']"
proof -
  let ?sel = "SelectInputWithEstimator wit_working wit_budget (EstimateMessageTokens (\<lambda>_. None))"
  have ids: "map msg_id (sel_retained_tail ?sel) = [''b'', ''d'', ''e'']"
    using wit_selection(5) by (simp add: SelectInput_def)
  have meta: "sel_retained_message_ids ?sel = [''b'', ''d'', ''e'']" "sel_tail_start_message_id ?sel = ''d''"
    by code_simp+
  obtain c where c: "msg_compaction wit_marker = Some c" "retained_message_ids c = [''b'', ''d'', ''e'']"
    "tail_start_message_id c = ''d''" by (simp add: wit_marker_def)
  have "sel_retained_tail ?sel \<noteq> [] \<or> sel_tail_start_message_id ?sel = []" using ids by auto
  note next_context_is_checked_context[OF wit_selection(4)[symmetric] wit_selection(2,3) refl this, of wit_marker c]
  with ids meta c show ?thesis by (simp add: wit_marker_def ProviderVisibleMessages_def)
qed

end
