(* ===== verification/ContextSummaryProps.thy ===== *)
theory ContextSummaryProps
  imports ContextSummary
begin

text \<open>
  The request for a summary fits, and it is shortened no more than needed
  (\<^verbatim>\<open>contextbudget/summary.go\<close>).
\<close>

section \<open>The binary search\<close>

text \<open>The search ends at a count that works while the one before it does not, or no count it tried last works.\<close>

lemma search_count_spec:
  assumes "search_count attempt low high best latest = (found, latest')"
    and "1 \<le> low" "low \<le> high + 1" "high \<le> int n" "low = 1 \<or> \<not> fst (attempt (nat (low - 1)))"
    and "case best of None \<Rightarrow> high = int n | Some b \<Rightarrow> int b = high + 1 \<and> b \<le> n \<and> fst (attempt b)"
  shows "case found of None \<Rightarrow> n = 0 \<or> \<not> fst (attempt n)
     | Some b \<Rightarrow> 1 \<le> b \<and> b \<le> n \<and> fst (attempt b) \<and> (b = 1 \<or> \<not> fst (attempt (b - 1)))"
  using assms
proof (induction attempt low high best latest rule: search_count.induct)
  case (1 attempt low high best latest)
  show ?case
  proof (cases "high < low")
    case True
    then have "found = best" "high = low - 1" using 1(3,5) by (simp_all add: search_count.simps)
    moreover from this have "low = 1 \<or> \<not> fst (attempt (nat high))" using 1(7) by simp
    ultimately show ?thesis using 1(4,6,8)
    proof (cases best)
      case None
      with \<open>low = 1 \<or> \<not> fst (attempt (nat high))\<close> 1(8) \<open>found = best\<close> \<open>high = low - 1\<close> show ?thesis by auto
    next
      case (Some b)
      then have "high = int b - 1" "b \<le> n" "fst (attempt b)" using 1(8) by simp_all
      moreover from this have "nat high = b - 1" "1 \<le> b" using 1(4) \<open>high = low - 1\<close> by auto
      ultimately show ?thesis
        using Some \<open>low = 1 \<or> \<not> fst (attempt (nat high))\<close> \<open>found = best\<close> \<open>high = low - 1\<close> by auto
    qed
  next
    case False
    let ?m = "low + (high - low) div 2"
    have m: "low \<le> ?m" "?m \<le> high" using False by auto
    obtain ok e where a: "attempt (nat ?m) = (ok, e)" by fastforce
    show ?thesis
    proof (cases ok)
      case True
      then have "search_count attempt low (?m - 1) (Some (nat ?m)) latest = (found, latest')"
        using 1(3) False a by (simp add: search_count.simps[of attempt low high] Let_def)
      from 1(1)[OF False refl a[symmetric] iffD2[OF eq_True True] this] show ?thesis
        using m a True 1(4,6,7) by (auto simp: nat_le_iff)
    next
      case f: False
      then have "search_count attempt (?m + 1) high best (case e of None \<Rightarrow> latest | Some _ \<Rightarrow> e) = (found, latest')"
        using 1(3) False a by (simp add: search_count.simps[of attempt low high] Let_def)
      from 1(2)[OF False refl a[symmetric] iffD2[OF eq_False f] this] show ?thesis
        using m a f 1(4,6-8) by auto
    qed
  qed
qed

section \<open>Leaving out exchanges\<close>

text \<open>A transcript cut into the stretches that are kept and the exchanges between them.\<close>

fun weave :: "message list list \<Rightarrow> (message \<times> message) list \<Rightarrow> message list" where
  "weave (ms # segments) (p # ps) = ms @ fst p # snd p # weave segments ps"
| "weave segments [] = concat segments"
| "weave [] (p # ps) = []"

lemma exchange_starts_ge: "s \<in> set (exchange_starts i ms) \<Longrightarrow> i \<le> s"
proof (induction i ms rule: exchange_starts.induct)
  case (1 i a b ms)
  then show ?case by (cases "closed_exchange a b") auto
qed simp_all

lemma omit_from_step:
  assumes "i < length input" "\<And>s. s \<in> set starts \<Longrightarrow> i < s"
  shows "omit_from input i starts = input ! i # omit_from input (Suc i) starts"
proof (cases starts)
  case Nil
  with assms show ?thesis by (simp add: Cons_nth_drop_Suc)
next
  case (Cons s ss)
  with assms have "i < s" by simp
  then have "s - i = Suc (s - Suc i)" by simp
  with assms(1) Cons show ?thesis by (simp flip: Cons_nth_drop_Suc)
qed

lemma omit_exchanges_single:
  "\<exists>segments pairs. [m] = weave segments pairs \<and> length pairs = min k (length (exchange_starts i [m]))
    \<and> list_all (\<lambda>(a, b). closed_exchange a b) pairs \<and> length segments = length pairs + 1
    \<and> (\<forall>pre. length pre = i \<longrightarrow> omit_from (pre @ [m]) i (take k (exchange_starts i [m])) = concat segments)"
  by (intro exI[of _ "[[m]]"] exI[of _ "[]"]) simp

lemma omit_exchanges:
  "\<exists>segments pairs. ms = weave segments pairs \<and> length pairs = min k (length (exchange_starts i ms))
    \<and> list_all (\<lambda>(a, b). closed_exchange a b) pairs \<and> length segments = length pairs + 1
    \<and> (\<forall>pre. length pre = i \<longrightarrow> omit_from (pre @ ms) i (take k (exchange_starts i ms)) = concat segments)"
proof (induction i ms arbitrary: k rule: exchange_starts.induct)
  case (1 i a b ms)
  show ?case
  proof (cases "closed_exchange a b \<and> 0 < k")
    case True
    then obtain k' where k': "k = Suc k'" by (cases k) auto
    from 1(1)[of k'] True obtain segments pairs where s: "ms = weave segments pairs"
      "length pairs = min k' (length (exchange_starts (i + 2) ms))" "list_all (\<lambda>(a, b). closed_exchange a b) pairs"
      "length segments = length pairs + 1"
      "\<And>pre. length pre = i + 2 \<Longrightarrow> omit_from (pre @ ms) (i + 2) (take k' (exchange_starts (i + 2) ms)) = concat segments"
      by blast
    from s(5) have "omit_from (pre @ a # b # ms) (i + 2) (take k' (exchange_starts (i + 2) ms)) = concat segments"
      if "length pre = i" for pre using that s(5)[of "pre @ [a, b]"] by simp
    with True k' s(1-4) show ?thesis
      by (intro exI[of _ "[] # segments"] exI[of _ "(a, b) # pairs"]) simp
  next
    case False
    show ?thesis
    proof (cases "k = 0")
      case True
      then show ?thesis
        by (intro exI[of _ "[a # b # ms]"] exI[of _ "[]"]) simp
    next
      case k: False
      with False have unmatched: "\<not> closed_exchange a b" by simp
      from 1(2)[OF unmatched, of k] obtain segments pairs where s: "b # ms = weave segments pairs"
        "length pairs = min k (length (exchange_starts (i + 1) (b # ms)))" "list_all (\<lambda>(a, b). closed_exchange a b) pairs"
        "length segments = length pairs + 1"
        "\<And>pre. length pre = i + 1 \<Longrightarrow> omit_from (pre @ b # ms) (i + 1) (take k (exchange_starts (i + 1) (b # ms))) = concat segments"
        by blast
      obtain u us where u: "segments = u # us" using s(4) by (cases segments) auto
      have "omit_from (pre @ a # b # ms) i (take k (exchange_starts (i + 1) (b # ms))) = a # concat segments"
        if "length pre = i" for pre
      proof -
        have "omit_from (pre @ a # b # ms) i (take k (exchange_starts (i + 1) (b # ms)))
            = (pre @ a # b # ms) ! i # omit_from (pre @ a # b # ms) (Suc i) (take k (exchange_starts (i + 1) (b # ms)))"
        proof (rule omit_from_step)
          fix s assume "s \<in> set (take k (exchange_starts (i + 1) (b # ms)))"
          then have "i + 1 \<le> s" by (blast dest: in_set_takeD exchange_starts_ge)
          then show "i < s" by simp
        qed (use that in simp)
        with that s(5)[of "pre @ [a]"] show ?thesis by (simp add: nth_append)
      qed
      moreover have "a # b # ms = weave ((a # u) # us) pairs" using s(1) u by (cases pairs) simp_all
      moreover have "exchange_starts i (a # b # ms) = exchange_starts (i + 1) (b # ms)" using unmatched by simp
      ultimately show ?thesis using s(2-4) u
        by (intro exI[of _ "(a # u) # us"] exI[of _ pairs] conjI allI impI) (simp_all del: exchange_starts.simps)
    qed
  qed
next
  case "2_1"
  show ?case by (intro exI[of _ "[[]]"] exI[of _ "[]"]) simp
next
  case "2_2"
  show ?case by (rule omit_exchanges_single)
qed

lemma omit_oldest:
  assumes "k \<le> length (closedToolExchangeStarts input)"
  obtains segments pairs where "input = weave segments pairs" "length pairs = k" "length segments = k + 1"
    and "list_all (\<lambda>(a, b). closed_exchange a b) pairs"
    and "omitOldestClosedToolExchanges input (closedToolExchangeStarts input) k = concat segments"
proof -
  from omit_exchanges[of input k 0] obtain segments pairs where "input = weave segments pairs"
    "length pairs = min k (length (exchange_starts 0 input))" "list_all (\<lambda>(a, b). closed_exchange a b) pairs"
    "length segments = length pairs + 1" "omit_from ([] @ input) 0 (take k (exchange_starts 0 input)) = concat segments"
    by blast
  with assms that show ?thesis
    by (cases "k = 0") (auto simp: omitOldestClosedToolExchanges_def closedToolExchangeStarts_def)
qed

section \<open>The request\<close>

lemma halved_budgets_members: "set budgets \<subseteq> set (halved_budgets f n budgets)"
  by (induction f n budgets rule: halved_budgets.induct)
    (subst halved_budgets.simps, auto split: if_splits)

lemma minimum_tried: "minimumSummaryToolBudget initial \<in> set (compactionSummaryBudgets initial)"
  by (auto simp: compactionSummaryBudgets_def Let_def)
    (metis halved_budgets_members last_in_set list.set_intros(1) list.set(1) empty_iff subsetD)+

text \<open>An attempt with \<open>k\<close> of the exchanges left out.\<close>

abbreviation fits :: "'e summary_request \<Rightarrow> message list \<Rightarrow> summary_tool_budget \<Rightarrow> nat \<Rightarrow> bool" where
  "fits r input budget k \<equiv> fst (attempt_count r input (closedToolExchangeStarts input) budget k)"

lemma attempt_0: "attempt_count r input exchanges budget 0 = compactionSummaryFitsWithConstraint r input budget 0"
  by (simp add: attempt_count_def omitOldestClosedToolExchanges_def)

lemma search_from_start:
  assumes "search_count (attempt_count r input exchanges budget) 1 (int (length exchanges)) None latest = (found, latest')"
    and "\<not> fst (attempt_count r input exchanges budget 0)"
  shows "case found of None \<Rightarrow> \<not> fst (attempt_count r input exchanges budget (length exchanges))
     | Some b \<Rightarrow> 1 \<le> b \<and> b \<le> length exchanges \<and> fst (attempt_count r input exchanges budget b)
         \<and> \<not> fst (attempt_count r input exchanges budget (b - 1))"
proof -
  have "case found of None \<Rightarrow> length exchanges = 0 \<or> \<not> fst (attempt_count r input exchanges budget (length exchanges))
     | Some b \<Rightarrow> 1 \<le> b \<and> b \<le> length exchanges \<and> fst (attempt_count r input exchanges budget b)
         \<and> (b = 1 \<or> \<not> fst (attempt_count r input exchanges budget (b - 1)))"
    by (rule search_count_spec[OF assms(1)]) simp_all
  with assms(2) show ?thesis by (cases found) auto
qed

lemma try_budgets_spec:
  assumes "try_budgets r input exchanges budgets latest = (found, latest')"
  shows "case found of
      None \<Rightarrow> \<forall>budget \<in> set budgets. \<not> fst (attempt_count r input exchanges budget (length exchanges))
    | Some (selected, omitted, budget) \<Rightarrow> \<exists>k \<le> length exchanges. omitted = k * 2 \<and> budget \<in> set budgets
        \<and> selected = omitOldestClosedToolExchanges input exchanges k
        \<and> fst (attempt_count r input exchanges budget k)
        \<and> (0 < k \<longrightarrow> \<not> fst (attempt_count r input exchanges budget (k - 1)))"
  using assms
proof (induction budgets arbitrary: latest)
  case (Cons budget budgets)
  obtain ok e where full: "compactionSummaryFitsWithConstraint r input budget 0 = (ok, e)" by fastforce
  show ?case
  proof (cases ok)
    case True
    then have "found = Some (input, 0, budget)" using Cons.prems full by simp
    with full True show ?thesis
      by (auto intro!: exI[of _ 0] simp: attempt_0 omitOldestClosedToolExchanges_def)
  next
    case False
    let ?latest = "case e of None \<Rightarrow> latest | Some _ \<Rightarrow> e"
    obtain best latest2 where search:
      "search_count (attempt_count r input exchanges budget) 1 (int (length exchanges)) None ?latest = (best, latest2)"
      by fastforce
    have "\<not> fst (attempt_count r input exchanges budget 0)" using full False by (simp add: attempt_0)
    note spec = search_from_start[OF search this]
    show ?thesis
    proof (cases best)
      case None
      then have "try_budgets r input exchanges budgets latest2 = (found, latest')"
        using Cons.prems full False search by (simp add: Let_def)
      from Cons.IH[OF this] spec None show ?thesis by (auto split: option.splits)
    next
      case (Some b)
      then have "found = Some (omitOldestClosedToolExchanges input exchanges b, b * 2, budget)"
        using Cons.prems full False search by (simp add: Let_def)
      with spec Some show ?thesis by auto
    qed
  qed
qed simp

text \<open>The message an attempt would send.\<close>

definition request_message ::
  "'e summary_request \<Rightarrow> message list \<Rightarrow> summary_tool_budget \<Rightarrow> nat \<Rightarrow> message" where
  "request_message r input budget omitted =
     TextMessage RoleUser (BuildCompactionSummaryBody (sr_json r) (sr_previous r) input (sr_state r) budget omitted)"

definition request_tokens :: "'e summary_request \<Rightarrow> message \<Rightarrow> int" where
  "request_tokens r message = EstimateContextTokens (\<lambda>i. map_option length (sj_input (sr_json r) i)) (\<lambda>_. None)
     (sr_system r) [] [message]"

lemma fits_iff: "fst (compactionSummaryFitsWithConstraint r input budget omitted) \<longleftrightarrow>
    (0 < sr_limit r \<longrightarrow> request_tokens r (request_message r input budget omitted) \<le> sr_limit r)
    \<and> sr_constraint r (request_message r input budget omitted) = None"
  by (auto simp: compactionSummaryFitsWithConstraint_def request_message_def request_tokens_def Let_def
      split: option.splits)

text \<open>C19: a summary request that is accepted is within its token limit and satisfies the caller's
  constraint. It holds every message of the input except complete exchanges of a tool call and its
  results, cut out of the input in order, and with one exchange more it would not fit at the same tool
  budget. When the request is refused, it does not fit at any tool budget, not even without any
  completed exchange.\<close>

theorem summary_request_drops_only_what_it_must:
  "case fitCompactionSummaryInput r policy input of
     ((selected, omitted, budget), None) \<Rightarrow>
       (let message = request_message r selected budget omitted in
         (0 < sr_limit r \<longrightarrow> request_tokens r message \<le> sr_limit r) \<and> sr_constraint r message = None)
       \<and> (\<exists>segments pairs. input = weave segments pairs \<and> length segments = length pairs + 1
           \<and> list_all (\<lambda>(a, b). closed_exchange a b) pairs
           \<and> selected = concat segments \<and> omitted = length pairs * 2
           \<and> (pairs \<noteq> [] \<longrightarrow> \<not> fits r input budget (length pairs - 1)))
   | (_, Some _) \<Rightarrow> \<forall>budget \<in> set (compactionSummaryBudgets (effectiveSummaryToolBudget policy)).
       \<not> fits r input budget (length (closedToolExchangeStarts input))"
proof -
  let ?initial = "effectiveSummaryToolBudget policy" and ?starts = "closedToolExchangeStarts input"
  obtain found latest where t: "try_budgets r input ?starts (compactionSummaryBudgets ?initial) None = (found, latest)"
    by fastforce
  note spec = try_budgets_spec[OF t]
  show ?thesis
  proof (cases found)
    case None
    then have none: "\<forall>budget \<in> set (compactionSummaryBudgets ?initial). \<not> fits r input budget (length ?starts)"
      using spec by simp
    then have "\<not> fits r input (minimumSummaryToolBudget ?initial) (length ?starts)" using minimum_tried by blast
    then obtain e where "compactionSummaryFitsWithConstraint r (omitOldestClosedToolExchanges input ?starts (length ?starts))
        (minimumSummaryToolBudget ?initial) (length ?starts * 2) = (False, e)"
      by (auto simp: attempt_count_def) (metis prod.collapse)
    with t None none show ?thesis by (simp add: fitCompactionSummaryInput_def Let_def split: option.splits)
  next
    case (Some result)
    then obtain selected omitted budget where r: "result = (selected, omitted, budget)" by (cases result)
    with spec Some obtain k where k: "k \<le> length ?starts" "omitted = k * 2"
      "selected = omitOldestClosedToolExchanges input ?starts k" "fits r input budget k"
      "0 < k \<Longrightarrow> \<not> fits r input budget (k - 1)" by auto
    obtain segments pairs where "input = weave segments pairs" "length pairs = k" "length segments = k + 1"
      "list_all (\<lambda>(a, b). closed_exchange a b) pairs" "selected = concat segments"
      using omit_oldest[OF k(1)] k(3) by metis
    moreover have "fst (compactionSummaryFitsWithConstraint r selected budget omitted)"
      using k(2-4) by (simp add: attempt_count_def)
    ultimately show ?thesis using t Some r k(2,5) by (simp add: fitCompactionSummaryInput_def fits_iff Let_def) blast
  qed
qed

text \<open>A constraint on the size of the message that one exchange of two exceeds.\<close>

definition wit_exchange :: "string \<Rightarrow> message list" where
  "wit_exchange i =
     [set_msg_id (i @ ''c'') (Message [] RoleAssistant (Some [empty_block\<lparr>block_type := BlockToolUse, tool_use_id := i\<rparr>])
        KindNone False [] None),
      set_msg_id (i @ ''r'') (Message [] RoleUser (Some [empty_block\<lparr>block_type := BlockToolResult, tool_use_id := i,
        block_content := ''output''\<rparr>]) KindToolResult False [] None)]"

definition wit_request :: "string summary_request" where
  "wit_request = \<lparr>sr_json = \<lparr>sj_input = \<lambda>_. None, sj_state = \<lambda>_. []\<rparr>, sr_system = [],
     sr_previous = TextMessage RoleUser [], sr_state = [], sr_limit = 0,
     sr_constraint = \<lambda>m. if 600 < length (FirstText m) then Some ''too long'' else None\<rparr>"

definition wit_transcript :: "message list" where
  "wit_transcript = set_msg_id ''u'' (TextMessage RoleUser ''hello'') # wit_exchange (replicate 60 CHR ''1'') @ wit_exchange (replicate 60 CHR ''2'')"

lemma wit_fit:
  "fitCompactionSummaryInput wit_request (EffectivePolicy DefaultCompactionPolicy 400 0) wit_transcript
   = ((take 1 wit_transcript @ drop 3 wit_transcript, 2, \<lparr>tb_max_tokens = 500, tb_max_chars = 0\<rparr>), None)"
  by code_simp

theorem summary_request_drops_only_what_it_must_witness:
  "\<not> fits wit_request wit_transcript \<lparr>tb_max_tokens = 500, tb_max_chars = 0\<rparr> 0"
proof -
  from summary_request_drops_only_what_it_must[where r = wit_request and input = wit_transcript
      and policy = "EffectivePolicy DefaultCompactionPolicy 400 0"]
  obtain segments pairs :: "(message \<times> message) list" where
    "2 = length pairs * 2" "pairs \<noteq> [] \<longrightarrow> \<not> fits wit_request wit_transcript \<lparr>tb_max_tokens = 500, tb_max_chars = 0\<rparr> (length pairs - 1)"
    unfolding wit_fit by auto
  then show ?thesis by (cases pairs) auto
qed

end
