(* ===== verification/ThreadIndex.thy ===== *)
theory ThreadIndex
  imports ThreadDepth ContextPreview GoStrings "HOL-Library.List_Lexorder" "HOL-Library.Char_ord"
    "HOL-Library.Product_Lexorder"
begin

text \<open>
  The Agent-wide list of Threads: the index of \<^verbatim>\<open>internal/framework/thread/store.go\<close>, which is derived from
  the metadata documents of all Thread directories, and the checks over the set of those documents.

  Ids and aliases are compared without regard to letter case. \<open>fold_rune\<close> stands for Unicode's table of
  simple case folding: it maps a rune to the representative of the letters that differ from it only in
  case. Nothing here depends on what the table holds.
\<close>

type_synonym fold_table = "int \<Rightarrow> int"

text \<open>\<^verbatim>\<open>strings.EqualFold\<close>, and \<^verbatim>\<open>strings.ToLower\<close> on ASCII.\<close>

definition EqualFold :: "fold_table \<Rightarrow> string \<Rightarrow> string \<Rightarrow> bool" where
  "EqualFold fold_rune s t \<longleftrightarrow> map (fold_rune \<circ> rune_value) (runes s) = map (fold_rune \<circ> rune_value) (runes t)"

lemma EqualFold_refl [simp]: "EqualFold fr s s"
  by (simp add: EqualFold_def)

lemma EqualFold_sym: "EqualFold fr s t \<Longrightarrow> EqualFold fr t s"
  by (simp add: EqualFold_def)

lemma EqualFold_trans: "EqualFold fr s t \<Longrightarrow> EqualFold fr t u \<Longrightarrow> EqualFold fr s u"
  by (simp add: EqualFold_def)

section \<open>Data\<close>

record index_entry =
  ie_thread_id :: string
  ie_alias :: string
  ie_parent_thread_id :: string
  ie_archived_at :: "instant option"
  ie_created_at :: instant
  ie_last_activity_at :: instant
  ie_retention_state :: retention_state
  ie_execution_state :: execution_state
  ie_pending_input_count :: int
  ie_turn_count :: int
  ie_generation_count :: nat
  ie_current_generation_id :: string
  ie_current_context_tokens :: int
  ie_token_usage :: usage_aggregate
  ie_thread_revision :: nat

text \<open>\<open>ix_threads\<close> is \<open>None\<close> for a nil slice, which \<^verbatim>\<open>reflect.DeepEqual\<close> tells from an empty one.\<close>

record index =
  ix_version :: int
  ix_revision :: nat
  ix_updated_at :: instant
  ix_threads :: "index_entry list option"

text \<open>The index file: missing, unreadable for the file system, not an index, or an index.\<close>

datatype index_file = IndexMissing | IndexBlocked | IndexBad | IndexDoc index

definition IndexVersion :: int where "IndexVersion = 1"

definition entries :: "index \<Rightarrow> index_entry list" where
  "entries ix = (case ix_threads ix of None \<Rightarrow> [] | Some es \<Rightarrow> es)"

definition indexEntryFromProjection :: "projection \<Rightarrow> index_entry" where
  "indexEntryFromProjection p = \<lparr>ie_thread_id = p_thread_id p, ie_alias = p_alias p,
     ie_parent_thread_id = p_parent_thread_id p, ie_archived_at = p_archived_at p,
     ie_created_at = p_created_at p, ie_last_activity_at = p_last_activity_at p,
     ie_retention_state = p_retention_state p, ie_execution_state = p_execution_state p,
     ie_pending_input_count = pending_input_count (p_counts p), ie_turn_count = turn_count (p_counts p),
     ie_generation_count = generation_count (p_counts p),
     ie_current_generation_id = gp_id (p_current_generation p),
     ie_current_context_tokens = (case p_context_usage p of None \<Rightarrow> 0 | Some c \<Rightarrow> cp_current_tokens c),
     ie_token_usage = aggregate_Clone (p_token_usage p), ie_thread_revision = p_revision p\<rparr>"

section \<open>The order of the index\<close>

definition entry_less :: "index_entry \<Rightarrow> index_entry \<Rightarrow> bool" where
  "entry_less l r \<longleftrightarrow>
     (if (ie_thread_id l = MainID) \<noteq> (ie_thread_id r = MainID) then ie_thread_id l = MainID
      else if (ie_retention_state l = RetentionActive) \<noteq> (ie_retention_state r = RetentionActive)
        then ie_retention_state l = RetentionActive
      else if ie_last_activity_at l \<noteq> ie_last_activity_at r
        then ie_last_activity_at r < ie_last_activity_at l
      else ie_thread_id l < ie_thread_id r)"

text \<open>\<^verbatim>\<open>sort.Slice\<close> need not be stable; \<open>sort_unique\<close> shows that the order leaves it no choice.\<close>

fun insert_entry :: "index_entry \<Rightarrow> index_entry list \<Rightarrow> index_entry list" where
  "insert_entry e [] = [e]"
| "insert_entry e (f # fs) = (if entry_less f e then f # insert_entry e fs else e # f # fs)"

definition sortIndexEntries :: "index_entry list \<Rightarrow> index_entry list" where
  "sortIndexEntries es = foldr insert_entry es []"

definition entry_key :: "index_entry \<Rightarrow> bool \<times> bool \<times> int \<times> string" where
  "entry_key e = (ie_thread_id e \<noteq> MainID, ie_retention_state e \<noteq> RetentionActive,
     - ie_last_activity_at e, ie_thread_id e)"

lemma entry_less_key: "entry_less l r \<longleftrightarrow> entry_key l < entry_key r"
  by (auto simp: entry_less_def entry_key_def less_prod_def')

lemma insert_entry_insort: "insert_entry e fs = insort_key entry_key e fs"
  by (induction fs) (auto simp: entry_less_key)

lemma sort_key: "sortIndexEntries es = sort_key entry_key es"
  by (simp add: sortIndexEntries_def sort_key_def insert_entry_insort[abs_def])

lemma entry_key_inj: "entry_key e = entry_key f \<Longrightarrow> ie_thread_id e = ie_thread_id f"
  by (simp add: entry_key_def)

lemma sort_unique:
  assumes "distinct (map ie_thread_id es)" "mset fs = mset es" "sorted (map entry_key fs)"
  shows "fs = sortIndexEntries es"
proof -
  have inj: "inj_on entry_key (set es)"
    using assms(1) by (auto simp: inj_on_def distinct_map dest!: entry_key_inj)
  have es: "set fs = set es" "distinct fs" "distinct es"
    using assms(1,2) mset_eq_setD[OF assms(2)] mset_eq_imp_distinct_iff[OF assms(2)] by (auto simp: distinct_map)
  have "map entry_key fs = map entry_key (sort_key entry_key es)"
    using inj es assms(3) by (intro sorted_distinct_set_unique) (simp_all add: distinct_map)
  then show ?thesis
    unfolding sort_key by (rule map_inj_on) (use inj es in simp)
qed

section \<open>Checks of an index\<close>

definition entry_lifecycle_ok :: "index_entry \<Rightarrow> bool" where
  "entry_lifecycle_ok e \<longleftrightarrow> ValidID (ie_thread_id e) \<and> ie_alias e \<noteq> [] \<and> ie_thread_revision e \<noteq> 0
     \<and> ie_current_generation_id e \<noteq> []
     \<and> (case ie_retention_state e of
          RetentionActive \<Rightarrow> ie_archived_at e = None
            \<and> ie_execution_state e \<in> {ExecutionIdle, ExecutionWorking, ExecutionFailed}
        | RetentionArchived \<Rightarrow> ie_archived_at e \<noteq> None \<and> ie_execution_state e = ExecutionNone
        | RetentionOther _ \<Rightarrow> False)"

definition validIndexLifecycle :: "index \<Rightarrow> bool" where
  "validIndexLifecycle ix \<longleftrightarrow> ix_revision ix \<noteq> 0 \<and> ix_updated_at ix \<noteq> 0
     \<and> list_all entry_lifecycle_ok (entries ix)"

text \<open>
  \<^verbatim>\<open>reflect.DeepEqual\<close> of two entries: the totals by model are maps, so the order of an association
  list does not count.
\<close>

definition same_map :: "(string \<times> usage) list \<Rightarrow> (string \<times> usage) list \<Rightarrow> bool" where
  "same_map x y \<longleftrightarrow> list_all (\<lambda>k. map_of x k = map_of y k) (map fst x @ map fst y)"

definition same_usage :: "usage_aggregate \<Rightarrow> usage_aggregate \<Rightarrow> bool" where
  "same_usage a b \<longleftrightarrow> ua_total a = ua_total b
     \<and> (case (ua_by_model a, ua_by_model b) of
          (None, None) \<Rightarrow> True | (Some x, Some y) \<Rightarrow> same_map x y | _ \<Rightarrow> False)"

definition same_entry :: "index_entry \<Rightarrow> index_entry \<Rightarrow> bool" where
  "same_entry e f \<longleftrightarrow> same_usage (ie_token_usage e) (ie_token_usage f)
     \<and> e\<lparr>ie_token_usage := ie_token_usage f\<rparr> = f"

text \<open>The copy of an empty slice is nil, so an index with an empty slice of its own is not sorted.\<close>

definition indexIsSorted :: "index \<Rightarrow> bool" where
  "indexIsSorted ix \<longleftrightarrow> (case ix_threads ix of None \<Rightarrow> True
     | Some es \<Rightarrow> es \<noteq> [] \<and> list_all2 same_entry (sortIndexEntries es) es)"

definition indexMatchesProjections :: "index \<Rightarrow> projection list \<Rightarrow> bool" where
  "indexMatchesProjections ix ps \<longleftrightarrow> (case ix_threads ix of None \<Rightarrow> False
     | Some es \<Rightarrow> length es = length ps
         \<and> list_all2 same_entry es (sortIndexEntries (map indexEntryFromProjection ps)))"

section \<open>Checks of the set of documents\<close>

text \<open>\<^verbatim>\<open>strings.ToLower\<close> on the bytes an id can hold.\<close>

definition ToLower :: "string \<Rightarrow> string" where
  "ToLower = map (\<lambda>c. if byte_in 0x41 0x5A c then char_of ((of_char c :: nat) + 32) else c)"

definition knows_id :: "projection list \<Rightarrow> string \<Rightarrow> bool" where
  "knows_id ps i \<longleftrightarrow> ToLower i \<in> set (map (ToLower \<circ> p_thread_id) ps)"

fun check_names ::
  "fold_table \<Rightarrow> projection list \<Rightarrow> projection list \<Rightarrow> projection list \<Rightarrow> thread_error option" where
  "check_names fr all before [] = None"
| "check_names fr all before (p # ps) =
     (if list_ex (\<lambda>c. EqualFold fr (p_alias p) (p_thread_id c)) all then Some InvalidMetadata
      else if list_ex (\<lambda>q. EqualFold fr (p_alias p) (p_alias q)) before then Some InvalidMetadata
      else if p_thread_id p \<noteq> MainID \<and> MainID \<in> set (map (ToLower \<circ> p_thread_id) all)
          \<and> \<not> knows_id all (p_parent_thread_id p) then Some InvalidMetadata
      else check_names fr all (before @ [p]) ps)"

text \<open>The walk up the parents of one Thread; it ends since each round marks another Thread as seen.\<close>

function parent_walk :: "(string \<times> string) list \<Rightarrow> string list \<Rightarrow> string \<Rightarrow> thread_error option" where
  "parent_walk parents seen current =
     (if current = MainID then None
      else if current \<in> set seen then Some InvalidMetadata
      else case map_of parents current of
        None \<Rightarrow> None
      | Some parent \<Rightarrow> parent_walk parents (current # seen) parent)"
  by pat_completeness auto
termination
proof (relation "measure (\<lambda>(parents, seen, _). card (keys parents - set seen))")
  fix parents :: "(string \<times> string) list" and seen current parent
  assume "current \<notin> set seen" "map_of parents current = Some parent"
  moreover from this have "current \<in> keys parents" by (metis map_of_eq_None option.discI)
  ultimately have "keys parents - set (current # seen) \<subset> keys parents - set seen" by auto
  then show "((parents, current # seen, parent), parents, seen, current)
      \<in> measure (\<lambda>(parents, seen, _). card (keys parents - set seen))"
    by (auto intro: psubset_card_mono)
qed simp

declare parent_walk.simps [simp del]

definition parents_of :: "projection list \<Rightarrow> (string \<times> string) list" where
  "parents_of ps = rev (map (\<lambda>p. (p_thread_id p, p_parent_thread_id p)) ps)"

fun first_error :: "'e option list \<Rightarrow> 'e option" where
  "first_error [] = None"
| "first_error (x # xs) = (case x of None \<Rightarrow> first_error xs | Some e \<Rightarrow> Some e)"

definition validateProjectionSet :: "fold_table \<Rightarrow> projection list \<Rightarrow> thread_error option" where
  "validateProjectionSet fr ps = (case check_names fr ps [] ps of
      Some e \<Rightarrow> Some e
    | None \<Rightarrow> first_error (map (\<lambda>i. parent_walk (parents_of ps) [] i) (map p_thread_id ps)))"

section \<open>Looking up names\<close>

definition indexContainsIdentity :: "fold_table \<Rightarrow> index \<Rightarrow> string \<Rightarrow> bool" where
  "indexContainsIdentity fr ix i \<longleftrightarrow>
     list_ex (\<lambda>e. EqualFold fr (ie_thread_id e) i \<or> EqualFold fr (ie_alias e) i) (entries ix)"

fun alias_conflict :: "fold_table \<Rightarrow> string \<Rightarrow> string \<Rightarrow> index_entry list \<Rightarrow> bool" where
  "alias_conflict fr alias except [] = False"
| "alias_conflict fr alias except (e # es) =
     (if EqualFold fr (ie_thread_id e) alias then True
      else if ie_thread_id e \<noteq> except \<and> EqualFold fr (ie_alias e) alias then True
      else alias_conflict fr alias except es)"

definition validateAliasAvailable :: "fold_table \<Rightarrow> index \<Rightarrow> string \<Rightarrow> string \<Rightarrow> thread_error option" where
  "validateAliasAvailable fr ix alias except =
     (if alias = [] then Some AliasRequired
      else if alias_conflict fr alias except (entries ix) then Some AliasTaken else None)"

section \<open>What the checks establish\<close>

text \<open>The identities of a set of documents, as the specification has them: all ids and aliases are
  different names, and every Worker has a chain of parents within the set that ends in Main.\<close>

lemma same_entry_fields:
  assumes "same_entry e f"
  shows "ie_thread_id e = ie_thread_id f \<and> ie_alias e = ie_alias f \<and> ie_parent_thread_id e = ie_parent_thread_id f
    \<and> ie_retention_state e = ie_retention_state f"
proof -
  have "f = e\<lparr>ie_token_usage := ie_token_usage f\<rparr>" using assms by (simp add: same_entry_def)
  then show ?thesis by (metis index_entry.select_convs(1,2,3,7) index_entry.surjective index_entry.update_convs(14))
qed

lemma same_entry_refl [simp]: "same_entry e e"
  by (simp add: same_entry_def same_usage_def same_map_def list_all_iff split: option.splits)

lemma first_error_None: "first_error xs = None \<longleftrightarrow> (\<forall>x \<in> set xs. x = None)"
  by (induction xs) (auto split: option.splits)

lemma check_names_None:
  "check_names fr all before ps = None \<longleftrightarrow>
     (\<forall>p \<in> set ps. \<forall>c \<in> set all. \<not> EqualFold fr (p_alias p) (p_thread_id c))
   \<and> (\<forall>k < length ps. \<forall>q \<in> set (before @ take k ps). \<not> EqualFold fr (p_alias (ps ! k)) (p_alias q))
   \<and> (\<forall>p \<in> set ps. p_thread_id p \<noteq> MainID \<longrightarrow> MainID \<in> set (map (ToLower \<circ> p_thread_id) all)
        \<longrightarrow> knows_id all (p_parent_thread_id p))"
proof (induction ps arbitrary: before)
  case (Cons p ps)
  show ?case
    unfolding check_names.simps if_split[where P = "\<lambda>x. x = None"] Cons.IH
    by (auto simp: list_ex_iff nth_Cons take_Cons less_Suc_eq_0_disj split: nat.splits)
qed simp

text \<open>Extending the map of parents by a new Thread leaves the walks of the others as they are.\<close>

lemma parent_walk_mono:
  "parent_walk parents seen current = None \<Longrightarrow> set seen' \<subseteq> set seen \<Longrightarrow> parent_walk parents seen' current = None"
proof (induction parents seen current arbitrary: seen' rule: parent_walk.induct)
  case (1 parents seen current)
  show ?case
  proof (cases "current = MainID \<or> map_of parents current = None")
    case True
    have "current \<notin> set seen' \<or> current = MainID"
      using 1(2,3) True by (auto simp: parent_walk.simps[of parents seen current] split: if_splits)
    with True show ?thesis by (auto simp: parent_walk.simps[of parents seen' current])
  next
    case False
    then obtain parent where p: "current \<noteq> MainID" "map_of parents current = Some parent" by auto
    with 1(2) have n: "current \<notin> set seen" "parent_walk parents (current # seen) parent = None"
      by (auto simp: parent_walk.simps[of parents seen current] split: if_splits)
    from 1(1)[OF p(1) n(1) p(2) n(2), of "current # seen'"] 1(3) n(1) p
    show ?thesis by (auto simp: parent_walk.simps[of parents seen' current])
  qed
qed

end
