(* ===== verification/ThreadRetention.thy ===== *)
theory ThreadRetention
  imports ThreadIndex
begin

text \<open>
  The Thread store of an Agent: \<^verbatim>\<open>store.go\<close> and \<^verbatim>\<open>lifecycle.go\<close> of \<^verbatim>\<open>internal/framework/thread\<close>.

  A store has three namespaces of Thread directories (\<^verbatim>\<open>threads\<close>, \<^verbatim>\<open>archive/threads\<close> and
  \<^verbatim>\<open>.trash/threads\<close>) and the index file. A directory holds the files of its Thread and the files a
  Context renewal stages beside them. \<open>st_io\<close> holds the outcomes of the coming file operations: a
  rename, a write of the index or a removal succeeds, fails, or is done and reports an error, as when
  syncing the directory fails afterwards. Files that are not directories are left out, reading files and
  making directories succeeds, and one operation reads one instant from the clock. The random ids are arguments.
\<close>

section \<open>Data\<close>

record thread_dir =
  td_files :: thread_files
  td_renewal :: disk

datatype namespace = NsActive | NsArchive | NsTrash

record store =
  st_active :: "(string \<times> thread_dir) list"
  st_archive :: "(string \<times> thread_dir) list"
  st_trash :: "(string \<times> thread_dir) list"
  st_index :: index_file
  st_io :: "write_result list"

datatype store_error =
    ThreadFailed thread_error | RenewalFailed renewal_error | StoreIo | MainFixed | ThreadBusy
  | ActiveChild string | StillReferenced string | ThreadIsActive | ThreadIsArchived | ThreadNotFound
  | ParentNotFound | IdentityCollision | UnknownTrash string

type_synonym 'a store_op = "(store, store_error, 'a) op"

fun dirs :: "namespace \<Rightarrow> store \<Rightarrow> (string \<times> thread_dir) list" where
  "dirs NsActive s = st_active s"
| "dirs NsArchive s = st_archive s"
| "dirs NsTrash s = st_trash s"

fun set_dirs :: "namespace \<Rightarrow> (string \<times> thread_dir) list \<Rightarrow> store \<Rightarrow> store" where
  "set_dirs NsActive ds s = s\<lparr>st_active := ds\<rparr>"
| "set_dirs NsArchive ds s = s\<lparr>st_archive := ds\<rparr>"
| "set_dirs NsTrash ds s = s\<lparr>st_trash := ds\<rparr>"

definition next_io :: "store \<Rightarrow> write_result \<times> store" where
  "next_io s = (case st_io s of [] \<Rightarrow> (WriteOk, s) | r # rs \<Rightarrow> (r, s\<lparr>st_io := rs\<rparr>))"

text \<open>An effect on the file system that happens or not and may report an error either way.\<close>

definition effect :: "(store \<Rightarrow> store) \<Rightarrow> unit store_op" where
  "effect f s = (case next_io s of
      (WriteOk, s1) \<Rightarrow> (Inr (), f s1)
    | (WriteFailed True, s1) \<Rightarrow> (Inl StoreIo, f s1)
    | (WriteFailed False, s1) \<Rightarrow> (Inl StoreIo, s1))"

definition moved :: "namespace \<Rightarrow> string \<Rightarrow> namespace \<Rightarrow> string \<Rightarrow> thread_dir \<Rightarrow> store \<Rightarrow> store" where
  "moved n i m j d s = (let s1 = set_dirs n (AList.delete i (dirs n s)) s in set_dirs m ((j, d) # dirs m s1) s1)"

text \<open>\<^verbatim>\<open>os.Rename\<close> of a directory fails when the new name is taken by one.\<close>

definition durableRename :: "namespace \<Rightarrow> string \<Rightarrow> namespace \<Rightarrow> string \<Rightarrow> unit store_op" where
  "durableRename n i m j s = (case map_of (dirs n s) i of
      None \<Rightarrow> (Inl StoreIo, s)
    | Some d \<Rightarrow> (if j \<in> fst ` set (dirs m s) then (Inl StoreIo, s) else effect (moved n i m j d) s))"

definition put_files :: "namespace \<Rightarrow> string \<Rightarrow> thread_files \<Rightarrow> store \<Rightarrow> store" where
  "put_files n i fs s = (set_dirs n (map (\<lambda>(j, d). (j, if j = i then d\<lparr>td_files := fs\<lparr>tf_io := []\<rparr>\<rparr> else d)) (dirs n s)) s)
     \<lparr>st_io := tf_io fs\<rparr>"

definition put_renewal :: "namespace \<Rightarrow> string \<Rightarrow> disk \<Rightarrow> store \<Rightarrow> store" where
  "put_renewal n i r s = (set_dirs n (map (\<lambda>(j, d). (j, if j = i then d\<lparr>td_renewal := r\<lparr>d_io := []\<rparr>\<rparr> else d)) (dirs n s)) s)
     \<lparr>st_io := d_io r\<rparr>"

section \<open>The documents and the index\<close>

fun scan_dirs :: "bool \<Rightarrow> string list \<Rightarrow> (string \<times> thread_dir) list \<Rightarrow> store_error + projection list" where
  "scan_dirs archived seen [] = Inr []"
| "scan_dirs archived seen ((i, d) # ds) =
     (if \<not> ValidID i then scan_dirs archived seen ds
      else if i \<in> set seen then Inl (ThreadFailed InvalidMetadata)
      else case readProjectionFile i (td_files d) of
        Inl e \<Rightarrow> Inl (ThreadFailed e)
      | Inr p \<Rightarrow>
          (if (p_retention_state p = RetentionArchived) \<noteq> archived then Inl (ThreadFailed InvalidMetadata)
           else case scan_dirs archived (i # seen) ds of
             Inl e \<Rightarrow> Inl e | Inr ps \<Rightarrow> Inr (p # ps)))"

definition scanProjectionFilesLocked :: "fold_table \<Rightarrow> store \<Rightarrow> store_error + projection list" where
  "scanProjectionFilesLocked fr s = (case scan_dirs False [] (st_active s) of
      Inl e \<Rightarrow> Inl e
    | Inr ps \<Rightarrow> (case scan_dirs True (filter ValidID (map fst (st_active s))) (st_archive s) of
        Inl e \<Rightarrow> Inl e
      | Inr qs \<Rightarrow> (case validateProjectionSet fr (ps @ qs) of
          Some e \<Rightarrow> Inl (ThreadFailed e) | None \<Rightarrow> Inr (ps @ qs))))"

definition writeIndexLocked :: "instant \<Rightarrow> index \<Rightarrow> index store_op" where
  "writeIndexLocked now ix s =
     (let ix1 = \<lparr>ix_version = IndexVersion, ix_revision = ix_revision ix + 1, ix_updated_at = truncate_ms now,
            ix_threads = map_option sortIndexEntries (ix_threads ix)\<rparr>
      in case effect (\<lambda>s. s\<lparr>st_index := IndexDoc ix1\<rparr>) s of
           (Inl e, s1) \<Rightarrow> (Inl e, s1) | (Inr _, s1) \<Rightarrow> (Inr ix1, s1))"

definition writeProjectionIndexLocked :: "instant \<Rightarrow> projection list \<Rightarrow> nat \<Rightarrow> index store_op" where
  "writeProjectionIndexLocked now ps revision = writeIndexLocked now
     \<lparr>ix_version = IndexVersion, ix_revision = revision, ix_updated_at = truncate_ms now,
       ix_threads = (if ps = [] then None else Some (map indexEntryFromProjection ps))\<rparr>"

definition known_revision :: "index_file \<Rightarrow> nat" where
  "known_revision f = (case f of IndexDoc ix \<Rightarrow> (if ix_version ix = IndexVersion then ix_revision ix else 0) | _ \<Rightarrow> 0)"

definition updateProjectionLocked :: "fold_table \<Rightarrow> instant \<Rightarrow> unit store_op" where
  "updateProjectionLocked fr now s = (case scanProjectionFilesLocked fr s of
      Inl e \<Rightarrow> (Inl e, s)
    | Inr ps \<Rightarrow> (case writeProjectionIndexLocked now ps (known_revision (st_index s)) s of
        (Inl e, s1) \<Rightarrow> (Inl e, s1) | (Inr _, s1) \<Rightarrow> (Inr (), s1)))"

definition index_current :: "index_file \<Rightarrow> projection list \<Rightarrow> index option" where
  "index_current f ps = (case f of
      IndexDoc ix \<Rightarrow> (if ix_version ix = IndexVersion \<and> validIndexLifecycle ix \<and> indexMatchesProjections ix ps
                      then Some ix else None)
    | _ \<Rightarrow> None)"

definition loadOrRebuildIndexLocked :: "fold_table \<Rightarrow> instant \<Rightarrow> index store_op" where
  "loadOrRebuildIndexLocked fr now s = (case scanProjectionFilesLocked fr s of
      Inl e \<Rightarrow> (Inl e, s)
    | Inr ps \<Rightarrow> (case index_current (st_index s) ps of
        Some ix \<Rightarrow> (Inr ix, s)
      | None \<Rightarrow> (if st_index s = IndexBlocked then (Inl StoreIo, s)
                 else writeProjectionIndexLocked now ps (known_revision (st_index s)) s)))"

definition rebuildIndexLocked :: "fold_table \<Rightarrow> instant \<Rightarrow> index store_op" where
  "rebuildIndexLocked fr now s = (case scanProjectionFilesLocked fr s of
      Inl e \<Rightarrow> (Inl e, s) | Inr ps \<Rightarrow> writeProjectionIndexLocked now ps 0 s)"

text \<open>\<^verbatim>\<open>List\<close> trusts the file as far as its own order and lifecycles go.\<close>

definition ListThreads :: "store \<Rightarrow> store_error + index_entry list" where
  "ListThreads s = (case st_index s of
      IndexDoc ix \<Rightarrow>
        (if ix_version ix \<noteq> IndexVersion \<or> \<not> validIndexLifecycle ix \<or> \<not> indexIsSorted ix
         then Inl (ThreadFailed InvalidMetadata) else Inr (entries ix))
    | _ \<Rightarrow> Inl StoreIo)"

section \<open>Opening and creating\<close>

definition no_files :: "write_result list \<Rightarrow> thread_files" where
  "no_files io = \<lparr>tf_projection = ProjectionMissing, tf_journals = [], tf_io = io\<rparr>"

text \<open>An operation of a handle runs on the files of the directory of its Thread.\<close>

definition on_thread :: "namespace \<Rightarrow> 'a thread_op \<Rightarrow> thread \<Rightarrow> store \<Rightarrow> (store_error + 'a) \<times> thread \<times> store" where
  "on_thread n f t s =
     (let fs = (case map_of (dirs n s) (th_id t) of
                  None \<Rightarrow> no_files (st_io s) | Some d \<Rightarrow> (td_files d)\<lparr>tf_io := st_io s\<rparr>)
      in case f (t\<lparr>th_files := fs\<rparr>) of
           (r, t1) \<Rightarrow> (map_sum ThreadFailed id r, t1, put_files n (th_id t) (th_files t1) s))"

definition namespace_of :: "bool \<Rightarrow> namespace" where
  "namespace_of archived = (if archived then NsArchive else NsActive)"

definition finish_openLocked ::
  "fold_table \<Rightarrow> instant \<Rightarrow> namespace \<Rightarrow> bool \<Rightarrow> thread \<Rightarrow> thread store_op" where
  "finish_openLocked fr now n recovered t s =
     (case (if recovered then on_thread n persistProjectionLocked t s else (Inr (), t, s)) of
        (Inl e, _, s1) \<Rightarrow> (Inl e, s1)
      | (Inr _, t1, s1) \<Rightarrow> (case loadOrRebuildIndexLocked fr now s1 of
          (Inl e, s2) \<Rightarrow> (Inl e, s2) | (Inr _, s2) \<Rightarrow> (Inr t1, s2)))"

definition openLocked :: "fold_table \<Rightarrow> instant \<Rightarrow> bool \<Rightarrow> string \<Rightarrow> thread store_op" where
  "openLocked fr now archived i s = (let n = namespace_of archived in
     if \<not> ValidID i then (Inl (ThreadFailed (InvalidID i)), s)
     else case map_of (dirs n s) i of
       None \<Rightarrow> (Inl (ThreadFailed MetadataMissing), s)
     | Some d \<Rightarrow> (case readProjectionFile i (td_files d) of
         Inl e \<Rightarrow> (Inl (ThreadFailed e), s)
       | Inr p \<Rightarrow>
         (if (p_retention_state p = RetentionArchived) \<noteq> archived then (Inl (ThreadFailed InvalidMetadata), s)
          else case openEventStore now i p ((td_files d)\<lparr>tf_io := st_io s\<rparr>) of
            (Inl e, fs) \<Rightarrow> (Inl (ThreadFailed e), put_files n i fs s)
          | (Inr (t, recovered), fs) \<Rightarrow>
            (let s1 = put_files n i fs s in
             case recoverContextRenewalFiles (gp_id (p_current_generation p)) ((td_renewal d)\<lparr>d_io := st_io s1\<rparr>) of
               (Inl e, r) \<Rightarrow> (Inl (RenewalFailed e), put_renewal n i r s1)
             | (Inr _, r) \<Rightarrow> finish_openLocked fr now n recovered (refreshPublicLocked t) (put_renewal n i r s1)))))"

text \<open>
  The directory \<^verbatim>\<open>createLocked\<close> fills. \<open>created_dir\<close> gives its files also where a step fails, since
  they stay when removing the directory fails as well.
\<close>

definition created_files ::
  "marshal \<Rightarrow> instant \<Rightarrow> string \<Rightarrow> string \<Rightarrow> string \<Rightarrow> (thread_files, thread_error, thread) op" where
  "created_files marshal now i alias parent fs0 =
     (if \<not> ValidID i then (Inl (InvalidID i), fs0)
      else case create_journal InitialGeneration fs0 of
        (Inl e, fs) \<Rightarrow> (Inl e, fs)
      | (Inr _, fs) \<Rightarrow> (case prepareCommit marshal now [created_fact i alias parent] (new_handle i fs) of
          Inl e \<Rightarrow> (Inl e, fs)
        | Inr c \<Rightarrow> (case appendCurrent marshal c (new_handle i fs) of
            (Inl e, t) \<Rightarrow> (Inl e, th_files t)
          | (Inr sc, t) \<Rightarrow> (case replay i [sc] of
              Inl e \<Rightarrow> (Inl e, th_files t)
            | Inr st \<Rightarrow>
              (let t1 = refreshPublicLocked (t\<lparr>th_state := st\<lparr>rs_projection := (rs_projection st)\<lparr>p_revision := 1\<rparr>\<rparr>\<rparr>)
               in case persistProjectionLocked t1 of
                    (Inl e, t2) \<Rightarrow> (Inl e, th_files t2) | (Inr _, t2) \<Rightarrow> (Inr t2, th_files t2))))))"

definition no_renewal :: disk where
  "no_renewal = \<lparr>d_files = [], d_backups = [], d_manifest = ManifestMissing, d_bad_parents = {}, d_io = [],
     d_active = {}, d_count = 0\<rparr>"

definition add_dir :: "string \<Rightarrow> thread_files \<Rightarrow> store \<Rightarrow> store" where
  "add_dir i fs s = s\<lparr>st_active := (i, \<lparr>td_files = fs\<lparr>tf_io := []\<rparr>, td_renewal = no_renewal\<rparr>) # st_active s,
     st_io := tf_io fs\<rparr>"

definition createLocked_in ::
  "fold_table \<Rightarrow> marshal \<Rightarrow> instant \<Rightarrow> string \<Rightarrow> string \<Rightarrow> string \<Rightarrow> thread store_op" where
  "createLocked_in fr marshal now i alias parent s =
     (case created_files marshal now i alias parent (no_files (st_io s)) of
        (Inl e, fs) \<Rightarrow>
          (Inl (ThreadFailed e), snd (effect (\<lambda>s. s\<lparr>st_active := AList.delete i (st_active s)\<rparr>) (add_dir i fs s)))
      | (Inr t, fs) \<Rightarrow> (case updateProjectionLocked fr now (add_dir i fs s) of
          (Inl e, s1) \<Rightarrow> (Inl e, s1) | (Inr _, s1) \<Rightarrow> (Inr t, s1)))"

definition EnsureMain :: "fold_table \<Rightarrow> marshal \<Rightarrow> instant \<Rightarrow> thread store_op" where
  "EnsureMain fr marshal now s = (case map_of (st_active s) MainID of
      None \<Rightarrow> createLocked_in fr marshal now MainID MainAlias [] s
    | Some d \<Rightarrow> (if tf_projection (td_files d) = ProjectionMissing then (Inl (ThreadFailed InvalidMetadata), s)
                 else openLocked fr now False MainID s))"

definition documents :: "(string \<times> thread_dir) list \<Rightarrow> (string \<times> projection_file) list" where
  "documents = map (\<lambda>(i, d). (i, tf_projection (td_files d)))"

definition workerIDAvailableLocked :: "store \<Rightarrow> string \<Rightarrow> bool" where
  "workerIDAvailableLocked s i \<longleftrightarrow> i \<notin> fst ` set (st_active s) \<and> i \<notin> fst ` set (st_archive s)"

text \<open>The attempts of \<^verbatim>\<open>CreateWorker\<close>; \<open>raw\<close> is what the random source gives.\<close>

fun create_attempts ::
  "nat \<Rightarrow> fold_table \<Rightarrow> marshal \<Rightarrow> instant \<Rightarrow> index \<Rightarrow> string \<Rightarrow> string \<Rightarrow> nat list \<Rightarrow> thread store_op" where
  "create_attempts 0 fr marshal now ix parent alias raw s = (Inl IdentityCollision, s)"
| "create_attempts (Suc n) fr marshal now ix parent alias raw s = (case newWorkerID raw of
      (Inl e, _) \<Rightarrow> (Inl (ThreadFailed e), s)
    | (Inr i, rest) \<Rightarrow>
        (let worker_alias = (if alias = [] then DefaultWorkerAlias i else alias) in
         if indexContainsIdentity fr ix i \<or> EqualFold fr worker_alias i \<or> \<not> workerIDAvailableLocked s i
         then create_attempts n fr marshal now ix parent alias rest s
         else case validateAliasAvailable fr ix worker_alias [] of
           Some e \<Rightarrow> (if alias \<noteq> [] then (Inl (ThreadFailed e), s)
                       else create_attempts n fr marshal now ix parent alias rest s)
         | None \<Rightarrow> createLocked_in fr marshal now i worker_alias parent s))"

definition CreateWorker ::
  "fold_table \<Rightarrow> marshal \<Rightarrow> instant \<Rightarrow> string \<Rightarrow> string \<Rightarrow> int \<Rightarrow> nat list \<Rightarrow> thread store_op" where
  "CreateWorker fr marshal now parent alias max_depth raw s =
     (case checkWorkerDepthLocked \<lparr>ts_active = documents (st_active s), ts_archived = documents (st_archive s)\<rparr>
             parent max_depth of
        Some e \<Rightarrow> (Inl (ThreadFailed e), s)
      | None \<Rightarrow> (case loadOrRebuildIndexLocked fr now s of
          (Inl e, s1) \<Rightarrow> (Inl e, s1)
        | (Inr ix, s1) \<Rightarrow>
            (if \<not> list_ex (\<lambda>e. ie_thread_id e = parent \<and> ie_retention_state e = RetentionActive) (entries ix)
             then (Inl ParentNotFound, s1)
             else case (if alias = [] then None else validateAliasAvailable fr ix alias []) of
               Some e \<Rightarrow> (Inl (ThreadFailed e), s1)
             | None \<Rightarrow> create_attempts 64 fr marshal now ix parent alias raw s1)))"

section \<open>Renaming\<close>

text \<open>\<^verbatim>\<open>ApplyAlias\<close> of a handle that belongs to a store, and the caller that opens the Thread for it.\<close>

definition ApplyAlias_store :: "fold_table \<Rightarrow> instant \<Rightarrow> namespace \<Rightarrow> string \<Rightarrow> thread \<Rightarrow> unit store_op" where
  "ApplyAlias_store fr now n wanted t s =
     (if wanted = [] then (Inl (ThreadFailed AliasRequired), s)
      else case loadOrRebuildIndexLocked fr now s of
        (Inl e, s1) \<Rightarrow> (Inl e, s1)
      | (Inr ix, s1) \<Rightarrow> (case validateAliasAvailable fr ix wanted (th_id t) of
          Some e \<Rightarrow> (Inl (ThreadFailed e), s1)
        | None \<Rightarrow> (case on_thread n (mutateProjectionLocked now (\<lambda>_ p. p\<lparr>p_alias := wanted\<rparr>)) t s1 of
            (Inl e, _, s2) \<Rightarrow> (Inl e, s2)
          | (Inr _, _, s2) \<Rightarrow> updateProjectionLocked fr now s2)))"

definition alias_by_id :: "fold_table \<Rightarrow> instant \<Rightarrow> bool \<Rightarrow> string \<Rightarrow> string \<Rightarrow> unit store_op" where
  "alias_by_id fr now archived wanted i s = (case openLocked fr now archived i s of
      (Inl e, s1) \<Rightarrow> (Inl e, s1) | (Inr t, s1) \<Rightarrow> ApplyAlias_store fr now (namespace_of archived) wanted t s1)"

section \<open>Archiving, restoring and deleting\<close>

definition busy :: "projection \<Rightarrow> bool" where
  "busy p \<longleftrightarrow> p_retention_state p \<noteq> RetentionActive \<or> p_execution_state p = ExecutionWorking
     \<or> pending_input_count (p_counts p) \<noteq> 0"

definition ArchiveThread :: "fold_table \<Rightarrow> instant \<Rightarrow> thread \<Rightarrow> unit store_op" where
  "ArchiveThread fr now t s =
     (if th_id t = MainID then (Inl MainFixed, s)
      else if busy (th_projection t) then (Inl ThreadBusy, s)
      else case loadOrRebuildIndexLocked fr now s of
        (Inl e, s1) \<Rightarrow> (Inl e, s1)
      | (Inr ix, s1) \<Rightarrow>
        (case find (\<lambda>e. ie_parent_thread_id e = th_id t \<and> ie_retention_state e = RetentionActive) (entries ix) of
           Some e \<Rightarrow> (Inl (ActiveChild (ie_thread_id e)), s1)
         | None \<Rightarrow> (case on_thread NsActive (mutateProjectionLocked now archive_projection) t s1 of
             (Inl e, _, s2) \<Rightarrow> (Inl e, s2)
           | (Inr _, _, s2) \<Rightarrow> (case durableRename NsActive (th_id t) NsArchive (th_id t) s2 of
               (Inl e, s3) \<Rightarrow> (Inl e, s3)
             | (Inr _, s3) \<Rightarrow> updateProjectionLocked fr now s3))))"

definition Unarchive :: "fold_table \<Rightarrow> instant \<Rightarrow> string \<Rightarrow> thread store_op" where
  "Unarchive fr now i s =
     (if \<not> ValidWorkerID i then (Inl (ThreadFailed (InvalidID i)), s)
      else case openLocked fr now True i s of
        (Inl e, s1) \<Rightarrow> (Inl e, s1)
      | (Inr t, s1) \<Rightarrow>
        (case on_thread NsArchive (mutateProjectionLocked now (\<lambda>_. unarchive_projection)) t s1 of
           (Inl e, _, s2) \<Rightarrow> (Inl e, s2)
         | (Inr _, _, s2) \<Rightarrow> (case durableRename NsArchive i NsActive i s2 of
             (Inl e, s3) \<Rightarrow> (Inl e, s3)
           | (Inr _, s3) \<Rightarrow> (case updateProjectionLocked fr now s3 of
               (r, s4) \<Rightarrow> (case openLocked fr now False i s4 of
                 (o', s5) \<Rightarrow> ((case r of Inl e \<Rightarrow> Inl e | Inr _ \<Rightarrow> o'), s5))))))"

text \<open>The loop that looks for the Thread and for children of it; the order of the checks is the code's.\<close>

fun find_unreferenced ::
  "string \<Rightarrow> retention_state \<Rightarrow> store_error \<Rightarrow> bool \<Rightarrow> index_entry list \<Rightarrow> store_error + bool" where
  "find_unreferenced i want wrong found [] = Inr found"
| "find_unreferenced i want wrong found (e # es) =
     (if ie_parent_thread_id e = i then Inl (StillReferenced (ie_thread_id e))
      else if ie_thread_id e = i
        then (if ie_retention_state e \<noteq> want then Inl wrong else find_unreferenced i want wrong True es)
      else find_unreferenced i want wrong found es)"

definition drop_entry_of :: "string \<Rightarrow> index \<Rightarrow> index" where
  "drop_entry_of i ix = ix\<lparr>ix_threads := map_option (filter (\<lambda>e. ie_thread_id e \<noteq> i)) (ix_threads ix)\<rparr>"

text \<open>\<open>remove_thread\<close> is the common tail of \<^verbatim>\<open>DeleteArchived\<close> and \<^verbatim>\<open>RollbackWorkerCreation\<close>.\<close>

definition remove_thread :: "instant \<Rightarrow> namespace \<Rightarrow> string \<Rightarrow> string \<Rightarrow> index \<Rightarrow> unit store_op" where
  "remove_thread now n i trash ix s = (case durableRename n i NsTrash trash s of
      (Inl e, s1) \<Rightarrow> (Inl e, s1)
    | (Inr _, s1) \<Rightarrow> (case writeIndexLocked now (drop_entry_of i ix) s1 of
        (Inl e, s2) \<Rightarrow> (Inl e, snd (durableRename NsTrash trash n i s2))
      | (Inr _, s2) \<Rightarrow> (case effect (\<lambda>s. s\<lparr>st_trash := AList.delete trash (st_trash s)\<rparr>) s2 of
          (Inl e, s3) \<Rightarrow> (Inl e, s3) | (Inr _, s3) \<Rightarrow> effect id s3)))"

definition recover_renewal :: "namespace \<Rightarrow> string \<Rightarrow> unit store_op" where
  "recover_renewal n i s = (case map_of (dirs n s) i of
      None \<Rightarrow> (Inr (), s)
    | Some d \<Rightarrow>
        (case recoverContextRenewalFilesFromMetadata
                (map_sum (\<lambda>_. IoError) (\<lambda>p. gp_id (p_current_generation p)) (readProjectionFile i (td_files d)))
                ((td_renewal d)\<lparr>d_io := st_io s\<rparr>) of
           (r, rd) \<Rightarrow> (map_sum RenewalFailed id r, put_renewal n i rd s)))"

definition DeleteArchived :: "fold_table \<Rightarrow> instant \<Rightarrow> string \<Rightarrow> string \<Rightarrow> unit store_op" where
  "DeleteArchived fr now record_id i s =
     (if \<not> ValidWorkerID i then (Inl (ThreadFailed (InvalidID i)), s)
      else case loadOrRebuildIndexLocked fr now s of
        (Inl e, s1) \<Rightarrow> (Inl e, s1)
      | (Inr ix, s1) \<Rightarrow> (case find_unreferenced i RetentionArchived ThreadIsActive False (entries ix) of
          Inl e \<Rightarrow> (Inl e, s1)
        | Inr False \<Rightarrow> (Inl ThreadNotFound, s1)
        | Inr True \<Rightarrow> (case recover_renewal NsArchive i s1 of
            (Inl e, s2) \<Rightarrow> (Inl e, s2)
          | (Inr _, s2) \<Rightarrow> remove_thread now NsArchive i (i @ ''.'' @ record_id) ix s2)))"

definition RollbackWorkerCreation :: "fold_table \<Rightarrow> instant \<Rightarrow> string \<Rightarrow> string \<Rightarrow> unit store_op" where
  "RollbackWorkerCreation fr now record_id i s =
     (if \<not> ValidWorkerID i then (Inl (ThreadFailed (InvalidID i)), s)
      else case loadOrRebuildIndexLocked fr now s of
        (Inl e, s1) \<Rightarrow> (Inl e, s1)
      | (Inr ix, s1) \<Rightarrow> (case find_unreferenced i RetentionActive ThreadIsArchived False (entries ix) of
          Inl e \<Rightarrow> (Inl e, s1)
        | Inr False \<Rightarrow> (Inl ThreadNotFound, s1)
        | Inr True \<Rightarrow> remove_thread now NsActive i (i @ ''.'' @ record_id) ix s1))"

section \<open>Recovery at startup\<close>

fun recover_dirs :: "bool \<Rightarrow> string list \<Rightarrow> unit store_op" where
  "recover_dirs archived [] s = (Inr (), s)"
| "recover_dirs archived (i # is') s =
     (if \<not> ValidWorkerID i then recover_dirs archived is' s
      else case map_of (dirs (namespace_of archived) s) i of
        None \<Rightarrow> (Inl (ThreadFailed MetadataMissing), s)
      | Some d \<Rightarrow> (case readProjectionFile i (td_files d) of
          Inl e \<Rightarrow> (Inl (ThreadFailed e), s)
        | Inr p \<Rightarrow>
          (let should = (p_retention_state p = RetentionArchived) in
           case (if should \<noteq> archived then durableRename (namespace_of archived) i (namespace_of should) i s
                 else (Inr (), s)) of
             (Inl e, s1) \<Rightarrow> (Inl e, s1)
           | (Inr _, s1) \<Rightarrow> (case recover_renewal (namespace_of should) i s1 of
               (Inl e, s2) \<Rightarrow> (Inl e, s2)
             | (Inr _, s2) \<Rightarrow> recover_dirs archived is' s2))))"

definition trash_name_ok :: "string \<Rightarrow> bool" where
  "trash_name_ok n \<longleftrightarrow> CHR ''.'' \<in> set n \<and> ValidWorkerID (takeWhile (\<lambda>c. c \<noteq> CHR ''.'') n)"

fun finish_trash :: "string list \<Rightarrow> unit store_op" where
  "finish_trash [] s = effect id s"
| "finish_trash (n # ns) s =
     (if \<not> trash_name_ok n then (Inl (UnknownTrash n), s)
      else case effect (\<lambda>s. s\<lparr>st_trash := AList.delete n (st_trash s)\<rparr>) s of
        (Inl e, s1) \<Rightarrow> (Inl e, s1) | (Inr _, s1) \<Rightarrow> finish_trash ns s1)"

definition finishTrashOperationsLocked :: "unit store_op" where
  "finishTrashOperationsLocked s = finish_trash (map fst (st_trash s)) s"

definition RecoverLayout :: "fold_table \<Rightarrow> instant \<Rightarrow> unit store_op" where
  "RecoverLayout fr now s = (case recover_dirs False (map fst (st_active s)) s of
      (Inl e, s1) \<Rightarrow> (Inl e, s1)
    | (Inr _, s1) \<Rightarrow> (case recover_dirs True (map fst (st_archive s1)) s1 of
        (Inl e, s2) \<Rightarrow> (Inl e, s2)
      | (Inr _, s2) \<Rightarrow> (case rebuildIndexLocked fr now s2 of
          (Inl e, s3) \<Rightarrow> (Inl e, s3) | (Inr _, s3) \<Rightarrow> finishTrashOperationsLocked s3)))"

end
