(* ===== verification/ThreadRegistry.thy ===== *)
theory ThreadRegistry
  imports ThreadIndex
begin

text \<open>
  What the Thread store of an Agent is meant to be: a registry that gives each Thread id an alias, a
  parent and whether the Thread is archived, and the steps the registry takes. The checks of
  \<^verbatim>\<open>validateProjectionSet\<close> hold of every registry these steps can reach.
\<close>

type_synonym identity = "string \<times> string \<times> bool"
type_synonym registry = "string \<rightharpoonup> identity"

section \<open>The specification\<close>

text \<open>A chain of parents of length \<open>n\<close> from a Thread to Main.\<close>

inductive rooted :: "registry \<Rightarrow> string \<Rightarrow> nat \<Rightarrow> bool" for R :: registry where
  at_main: "R MainID \<noteq> None \<Longrightarrow> rooted R MainID 0"
| below: "i \<noteq> MainID \<Longrightarrow> R i = Some (a, p, b) \<Longrightarrow> rooted R p n \<Longrightarrow> rooted R i (Suc n)"

inductive_cases rootedE: "rooted R i n"

text \<open>
  Main is there when any Thread is and is active; ids and aliases are one namespace, in which no name
  occurs twice up to letter case; every Thread has a chain of parents to Main.
\<close>

definition identities_ok :: "fold_table \<Rightarrow> registry \<Rightarrow> bool" where
  "identities_ok fr R \<longleftrightarrow>
     (\<forall>i a p b. R i = Some (a, p, b) \<longrightarrow> ValidID i \<and> a \<noteq> [] \<and> (\<exists>n. rooted R i n) \<and> (i = MainID \<longrightarrow> \<not> b))
   \<and> (\<forall>i a p b j. R i = Some (a, p, b) \<longrightarrow> R j \<noteq> None \<longrightarrow> \<not> EqualFold fr a j)
   \<and> (\<forall>i a p b j a' p' b'. R i = Some (a, p, b) \<longrightarrow> R j = Some (a', p', b') \<longrightarrow> i \<noteq> j \<longrightarrow> \<not> EqualFold fr a a')"

text \<open>A new name differs from all names in use, and the id of the new Thread from all aliases.\<close>

definition fresh_name :: "fold_table \<Rightarrow> string \<Rightarrow> string \<Rightarrow> registry \<Rightarrow> bool" where
  "fresh_name fr i a R \<longleftrightarrow> R i = None \<and> a \<noteq> [] \<and> \<not> EqualFold fr a i
     \<and> (\<forall>j a' p b. R j = Some (a', p, b) \<longrightarrow> \<not> EqualFold fr a j \<and> \<not> EqualFold fr a a' \<and> \<not> EqualFold fr a' i)"

inductive registry_step :: "fold_table \<Rightarrow> registry \<Rightarrow> registry \<Rightarrow> bool" for fr :: fold_table where
  create_main: "R = Map.empty \<Longrightarrow> a \<noteq> [] \<Longrightarrow> \<not> EqualFold fr a MainID \<Longrightarrow>
    registry_step fr R (R(MainID \<mapsto> (a, [], False)))"
| create_worker: "ValidWorkerID i \<Longrightarrow> fresh_name fr i a R \<Longrightarrow> R p = Some (a', p', False) \<Longrightarrow>
    registry_step fr R (R(i \<mapsto> (a, p, False)))"
| archive: "i \<noteq> MainID \<Longrightarrow> R i = Some (a, p, False) \<Longrightarrow> \<forall>j a'. R j \<noteq> Some (a', i, False) \<Longrightarrow>
    registry_step fr R (R(i \<mapsto> (a, p, True)))"
| rename: "R i = Some (a, p, b) \<Longrightarrow> a' \<noteq> [] \<Longrightarrow> \<forall>j. R j \<noteq> None \<longrightarrow> \<not> EqualFold fr a' j \<Longrightarrow>
    \<forall>j x q c. j \<noteq> i \<longrightarrow> R j = Some (x, q, c) \<longrightarrow> \<not> EqualFold fr a' x \<Longrightarrow>
    registry_step fr R (R(i \<mapsto> (a', p, b)))"
| unarchive: "R i = Some (a, p, True) \<Longrightarrow> registry_step fr R (R(i \<mapsto> (a, p, False)))"
| remove: "i \<noteq> MainID \<Longrightarrow> R i \<noteq> None \<Longrightarrow> \<forall>j a' b. R j \<noteq> Some (a', i, b) \<Longrightarrow>
    registry_step fr R (R(i := None))"

section \<open>The steps keep the registry in order\<close>

lemma rooted_main: "rooted R i n \<Longrightarrow> R MainID \<noteq> None"
  by (induction rule: rooted.induct) simp_all

lemma rooted_known: "rooted R i n \<Longrightarrow> R i \<noteq> None"
  by (auto elim: rootedE)

lemma rooted_parent: "rooted R i n \<Longrightarrow> i \<noteq> MainID \<Longrightarrow> R i = Some (a, p, b) \<Longrightarrow> R p \<noteq> None"
  by (erule rootedE) (auto dest: rooted_known)

lemma rooted_unique: "rooted R i m \<Longrightarrow> rooted R i n \<Longrightarrow> m = n"
proof (induction arbitrary: n rule: rooted.induct)
  case at_main
  from at_main(2) show ?case by (auto elim: rootedE)
next
  case (below i a p b m)
  from below.prems below.hyps(1,2) obtain k where "n = Suc k" "rooted R p k" by (auto elim: rootedE)
  with below.IH show ?case by simp
qed

text \<open>A change that leaves the parents of the Threads on a chain as they are leaves the chain.\<close>

lemma rooted_cong:
  assumes "rooted R i n" and "\<And>j a p b. R j = Some (a, p, b) \<Longrightarrow> j \<noteq> k \<Longrightarrow> \<exists>a' b'. R' j = Some (a', p, b')"
    and "i \<noteq> k" "\<And>j a b. R j \<noteq> Some (a, k, b)"
  shows "rooted R' i n"
  using assms(1,3)
proof (induction rule: rooted.induct)
  case at_main
  then show ?case using assms(2)[of MainID] by (auto intro!: rooted.at_main)
next
  case (below i a p b n)
  then have "p \<noteq> k" using assms(4) by blast
  with below assms(2)[of i a p b] show ?case by (auto intro: rooted.below)
qed

lemma rooted_mono:
  assumes "rooted R i n" and "\<And>j a p b. R j = Some (a, p, b) \<Longrightarrow> \<exists>a' b'. R' j = Some (a', p, b')"
  shows "rooted R' i n"
  using assms(1)
proof (induction rule: rooted.induct)
  case at_main
  then show ?case using assms(2)[of MainID] by (auto intro!: rooted.at_main)
next
  case (below i a p b n)
  with assms(2)[of i a p b] show ?case by (auto intro: rooted.below)
qed

lemma identities_okI:
  assumes "\<And>i a p b. R i = Some (a, p, b) \<Longrightarrow> ValidID i \<and> a \<noteq> [] \<and> (\<exists>n. rooted R i n) \<and> (i = MainID \<longrightarrow> \<not> b)"
    and "\<And>i a p b j. R i = Some (a, p, b) \<Longrightarrow> R j \<noteq> None \<Longrightarrow> \<not> EqualFold fr a j"
    and "\<And>i a p b j a' p' b'. R i = Some (a, p, b) \<Longrightarrow> R j = Some (a', p', b') \<Longrightarrow> i \<noteq> j \<Longrightarrow> \<not> EqualFold fr a a'"
  shows "identities_ok fr R"
  using assms unfolding identities_ok_def by blast

lemma identities_okD:
  assumes "identities_ok fr R" "R i = Some (a, p, b)"
  shows "ValidID i" "a \<noteq> []" "\<exists>n. rooted R i n" "i = MainID \<Longrightarrow> \<not> b"
    and "R j \<noteq> None \<Longrightarrow> \<not> EqualFold fr a j"
    and "R j = Some (a', p', b') \<Longrightarrow> i \<noteq> j \<Longrightarrow> \<not> EqualFold fr a a'"
  using assms unfolding identities_ok_def by blast+

lemma identities_ok_main: "identities_ok fr R \<Longrightarrow> R i \<noteq> None \<Longrightarrow> R MainID \<noteq> None"
  using rooted_main identities_okD(3) by fastforce

text \<open>Archiving and restoring change one flag.\<close>

lemma identities_ok_flag:
  assumes "identities_ok fr R" "R i = Some (a, p, b)" "i = MainID \<Longrightarrow> \<not> b'"
  shows "identities_ok fr (R(i \<mapsto> (a, p, b')))"
proof (rule identities_okI)
  have root: "\<exists>n. rooted (R(i \<mapsto> (a, p, b'))) j n" if "R j \<noteq> None" for j
  proof -
    from that identities_okD(3)[OF assms(1)] obtain n where "rooted R j n" by fastforce
    then have "rooted (R(i \<mapsto> (a, p, b'))) j n" by (rule rooted_mono) (use assms(2) in auto)
    then show ?thesis by blast
  qed
  fix j a1 p1 b1 assume j: "(R(i \<mapsto> (a, p, b'))) j = Some (a1, p1, b1)"
  then obtain b2 where j': "R j = Some (a1, p1, b2)" "j \<noteq> i \<Longrightarrow> b2 = b1" using assms(2) by (cases "j = i") auto
  show "ValidID j \<and> a1 \<noteq> [] \<and> (\<exists>n. rooted (R(i \<mapsto> (a, p, b'))) j n) \<and> (j = MainID \<longrightarrow> \<not> b1)"
    using identities_okD(1,2,4)[OF assms(1) j'(1)] root[of j] j' j assms(3) by (cases "j = i") auto
  show "\<not> EqualFold fr a1 k" if "(R(i \<mapsto> (a, p, b'))) k \<noteq> None" for k
    using identities_okD(5)[OF assms(1) j'(1), of k] that assms(2) by (auto split: if_splits)
  show "\<not> EqualFold fr a1 a2" if "(R(i \<mapsto> (a, p, b'))) k = Some (a2, p2, b4)" "j \<noteq> k" for k a2 p2 b4
  proof -
    from that(1) assms(2) have "\<exists>b3. R k = Some (a2, p2, b3)" by (cases "k = i") auto
    then obtain b3 where "R k = Some (a2, p2, b3)" by blast
    from identities_okD(6)[OF assms(1) j'(1) this that(2)] show ?thesis .
  qed
qed

lemma identities_ok_add:
  assumes "identities_ok fr R" "ValidID i" "fresh_name fr i a R" "\<exists>n. rooted (R(i \<mapsto> (a, p, False))) i n"
  shows "identities_ok fr (R(i \<mapsto> (a, p, False)))"
proof (rule identities_okI)
  let ?R = "R(i \<mapsto> (a, p, False))"
  have new: "R i = None" "a \<noteq> []" "\<not> EqualFold fr a i"
    "R j = Some (a', p', b') \<Longrightarrow> \<not> EqualFold fr a j \<and> \<not> EqualFold fr a a' \<and> \<not> EqualFold fr a' i" for j a' p' b'
    using assms(3) unfolding fresh_name_def by blast+
  have root: "\<exists>n. rooted ?R j n" if "?R j \<noteq> None" for j
  proof (cases "j = i")
    case False
    with that identities_okD(3)[OF assms(1)] obtain n where "rooted R j n" by fastforce
    then have "rooted ?R j n" by (rule rooted_mono) (use new(1) in auto)
    then show ?thesis by blast
  qed (use assms(4) in simp)
  fix j a1 p1 b1 assume j: "?R j = Some (a1, p1, b1)"
  show "ValidID j \<and> a1 \<noteq> [] \<and> (\<exists>n. rooted ?R j n) \<and> (j = MainID \<longrightarrow> \<not> b1)"
    using j root[of j] assms(2) new(2) identities_okD(1,2,4)[OF assms(1), of j] by (cases "j = i") auto
  show "\<not> EqualFold fr a1 k" if "?R k \<noteq> None" for k
  proof (cases "j = i")
    case True
    then show ?thesis using j that new(3) new(4)[of k] by (cases "k = i") (auto split: if_splits)
  next
    case False
    then show ?thesis using j that new(4)[of j] identities_okD(5)[OF assms(1), of j a1 p1 b1 k] by (cases "k = i") auto
  qed
  show "\<not> EqualFold fr a1 a2" if "?R k = Some (a2, p2, b2)" "j \<noteq> k" for k a2 p2 b2
    using j that new(4)[of k] new(4)[of j] identities_okD(6)[OF assms(1), of j a1 p1 b1 k]
    by (cases "j = i"; cases "k = i") (auto dest: EqualFold_sym)
qed

lemma identities_ok_rename:
  assumes "identities_ok fr R" "R i = Some (a, p, b)" "a' \<noteq> []" "\<And>j. R j \<noteq> None \<Longrightarrow> \<not> EqualFold fr a' j"
    and "\<And>j x q c. j \<noteq> i \<Longrightarrow> R j = Some (x, q, c) \<Longrightarrow> \<not> EqualFold fr a' x"
  shows "identities_ok fr (R(i \<mapsto> (a', p, b)))"
proof (rule identities_okI)
  let ?R = "R(i \<mapsto> (a', p, b))"
  have known: "R j \<noteq> None" if "?R j \<noteq> None" for j using that assms(2) by (auto split: if_splits)
  fix j a1 p1 b1 assume j: "?R j = Some (a1, p1, b1)"
  then obtain a0 where j': "R j = Some (a0, p1, b1)" "j \<noteq> i \<Longrightarrow> a0 = a1" "j = i \<Longrightarrow> a1 = a'"
    using assms(2) by (cases "j = i") auto
  from identities_okD(3)[OF assms(1) j'(1)] obtain n where "rooted R j n" by blast
  then have "rooted ?R j n" by (rule rooted_mono) (use assms(2) in auto)
  then show "ValidID j \<and> a1 \<noteq> [] \<and> (\<exists>n. rooted ?R j n) \<and> (j = MainID \<longrightarrow> \<not> b1)"
    using identities_okD(1,2,4)[OF assms(1) j'(1)] j'(2,3) assms(3) by blast
  show "\<not> EqualFold fr a1 k" if "?R k \<noteq> None" for k
    using assms(4)[OF known[OF that]] identities_okD(5)[OF assms(1) j'(1) known[OF that]] j'(2,3) by (cases "j = i") auto
  show "\<not> EqualFold fr a1 a2" if k: "?R k = Some (a2, p2, b2)" "j \<noteq> k" for k a2 p2 b2
    using j' k assms(5) identities_okD(6)[OF assms(1) j'(1), of k]
    by (cases "j = i"; cases "k = i") (auto dest: EqualFold_sym)
qed

lemma identities_ok_remove:
  assumes "identities_ok fr R" "i \<noteq> MainID" "\<And>j a b. R j \<noteq> Some (a, i, b)"
  shows "identities_ok fr (R(i := None))"
proof (rule identities_okI)
  fix j a p b assume "(R(i := None)) j = Some (a, p, b)"
  then have j: "R j = Some (a, p, b)" "j \<noteq> i" by (auto split: if_splits)
  from identities_okD(3)[OF assms(1) j(1)] obtain n where "rooted R j n" by blast
  then have "rooted (R(i := None)) j n"
    by (rule rooted_cong[where k = i]) (use j(2) assms(3) in auto)
  then show "ValidID j \<and> a \<noteq> [] \<and> (\<exists>n. rooted (R(i := None)) j n) \<and> (j = MainID \<longrightarrow> \<not> b)"
    using identities_okD(1,2,4)[OF assms(1) j(1)] by blast
  show "\<not> EqualFold fr a k" if "(R(i := None)) k \<noteq> None" for k
    using identities_okD(5)[OF assms(1) j(1), of k] that by (simp split: if_splits)
  show "\<not> EqualFold fr a a'" if "(R(i := None)) k = Some (a', p', b')" "j \<noteq> k" for k a' p' b'
    using identities_okD(6)[OF assms(1) j(1), of k a' p' b'] that by (simp split: if_splits)
qed

lemma registry_step_ok: "registry_step fr R R' \<Longrightarrow> identities_ok fr R \<Longrightarrow> identities_ok fr R'"
proof (induction rule: registry_step.induct)
  case (create_main R a)
  then have "fresh_name fr MainID a R" by (simp add: fresh_name_def)
  moreover have "\<exists>n. rooted (R(MainID \<mapsto> (a, [], False))) MainID n" by (rule exI, rule rooted.at_main) simp
  ultimately show ?case by (intro identities_ok_add[OF create_main(4)]) (simp_all add: ValidID_def)
next
  case (create_worker i a R p a' p')
  from identities_okD(3)[OF create_worker(4,3)] obtain n where "rooted R p n" by blast
  moreover have "R i = None" using create_worker(2) by (simp add: fresh_name_def)
  ultimately have "rooted (R(i \<mapsto> (a, p, False))) p n" by (elim rooted_mono) auto
  moreover have "i \<noteq> MainID" using create_worker(1) by (simp add: ValidWorkerID_def)
  ultimately have "rooted (R(i \<mapsto> (a, p, False))) i (Suc n)"
    using rooted.below[of i "R(i \<mapsto> (a, p, False))" a p False n] by simp
  then have "\<exists>n. rooted (R(i \<mapsto> (a, p, False))) i n" by blast
  then show ?case using create_worker(1,2) by (intro identities_ok_add[OF create_worker(4)]) (simp_all add: ValidWorkerID_def)
qed (auto intro: identities_ok_flag identities_ok_remove identities_ok_rename)

section \<open>The check of a set of documents\<close>

definition identity_of :: "projection \<Rightarrow> identity" where
  "identity_of p = (p_alias p, p_parent_thread_id p, p_retention_state p = RetentionArchived)"

definition registry_of :: "projection list \<Rightarrow> registry" where
  "registry_of ps = map_of (map (\<lambda>p. (p_thread_id p, identity_of p)) ps)"

lemma parent_walk_rooted:
  assumes "\<And>j. map_of parents j = map_option (\<lambda>(a, p, b). p) (R j)"
  shows "rooted R i n \<Longrightarrow> \<forall>j \<in> set seen. \<forall>m. rooted R j m \<longrightarrow> n < m \<Longrightarrow> parent_walk parents seen i = None"
proof (induction arbitrary: seen rule: rooted.induct)
  case (below i a p b n)
  have path: "rooted R i (Suc n)" using below.hyps by (rule rooted.below)
  then have "i \<notin> set seen" using below.prems by blast
  moreover have "\<forall>j \<in> set (i # seen). \<forall>m. rooted R j m \<longrightarrow> n < m"
    using below.prems rooted_unique[OF path] Suc_lessD by fastforce
  ultimately show ?case using below.hyps(1,2) below.IH[of "i # seen"] assms[of i]
    by (simp add: parent_walk.simps[of parents seen i])
qed (simp add: parent_walk.simps)

lemma registry_of_known:
  assumes "distinct (map p_thread_id ps)"
  shows "registry_of ps i = Some x \<longleftrightarrow> (\<exists>p \<in> set ps. p_thread_id p = i \<and> x = identity_of p)"
proof -
  have "distinct (map fst (map (\<lambda>p. (p_thread_id p, identity_of p)) ps))" using assms by (simp add: comp_def)
  from map_of_eq_Some_iff[OF this, of i x] show ?thesis by (auto simp: registry_of_def)
qed

lemma map_of_rev: "distinct (map fst xs) \<Longrightarrow> map_of (rev xs) = map_of xs"
proof
  fix j assume "distinct (map fst xs)"
  then have d: "distinct (map fst (rev xs))" "distinct (map fst xs)" by (simp_all add: rev_map[symmetric])
  have "map_of (rev xs) j = Some y \<longleftrightarrow> map_of xs j = Some y" for y
    using map_of_eq_Some_iff[OF d(1), of j y] map_of_eq_Some_iff[OF d(2), of j y] by simp
  then show "map_of (rev xs) j = map_of xs j" by (cases "map_of xs j") (auto simp: not_None_eq[symmetric] simp del: not_None_eq)
qed

lemma parents_of_registry:
  assumes "distinct (map p_thread_id ps)"
  shows "map_of (parents_of ps) j = map_option (\<lambda>(a, p, b). p) (registry_of ps j)"
proof -
  have "distinct (map fst (map (\<lambda>p. (p_thread_id p, p_parent_thread_id p)) ps))" using assms by (simp add: comp_def)
  from map_of_rev[OF this] have "map_of (parents_of ps) = map_of (map (\<lambda>p. (p_thread_id p, p_parent_thread_id p)) ps)"
    by (simp add: parents_of_def)
  moreover have "map_of (map (\<lambda>p. (p_thread_id p, p_parent_thread_id p)) qs) j
      = map_option (\<lambda>(a, p, b). p) (registry_of qs j)" for qs
    by (induction qs) (simp_all add: registry_of_def identity_of_def)
  ultimately show ?thesis by simp
qed

lemma ordered_registry_validates:
  assumes "distinct (map p_thread_id ps)" "identities_ok fr (registry_of ps)"
  shows "validateProjectionSet fr ps = None"
proof -
  note known = registry_of_known[OF assms(1)]
  have entry: "registry_of ps (p_thread_id p) = Some (p_alias p, p_parent_thread_id p, p_retention_state p = RetentionArchived)"
    if "p \<in> set ps" for p using known[of "p_thread_id p"] that by (auto simp: identity_of_def)
  have "check_names fr ps [] ps = None"
    unfolding check_names_None
  proof (intro conjI ballI allI impI)
    fix p c assume p: "p \<in> set ps" "c \<in> set ps"
    show "\<not> EqualFold fr (p_alias p) (p_thread_id c)"
      using identities_okD(5)[OF assms(2) entry[OF p(1)]] entry[OF p(2)] by simp
  next
    fix k q assume k: "k < length ps" "q \<in> set ([] @ take k ps)"
    then obtain l where l: "l < k" "q = ps ! l" by (auto simp: in_set_conv_nth)
    then have "p_thread_id (ps ! k) \<noteq> p_thread_id q"
      using assms(1) k(1) nth_eq_iff_index_eq[of "map p_thread_id ps" k l] by simp
    moreover have "q \<in> set ps" using k(2) by (auto dest: in_set_takeD)
    ultimately show "\<not> EqualFold fr (p_alias (ps ! k)) (p_alias q)"
      using identities_okD(6)[OF assms(2) entry[of "ps ! k"] entry[of q]] k(1) by simp
  next
    fix p assume p: "p \<in> set ps" "p_thread_id p \<noteq> MainID"
    from identities_okD(3)[OF assms(2) entry[OF p(1)]] obtain n where "rooted (registry_of ps) (p_thread_id p) n" by blast
    then have "registry_of ps (p_parent_thread_id p) \<noteq> None"
      using rooted_parent[OF _ p(2), of "registry_of ps" n] entry[OF p(1)] by simp
    then obtain q where "q \<in> set ps" "p_thread_id q = p_parent_thread_id p" using known[of "p_parent_thread_id p"] by blast
    then show "knows_id ps (p_parent_thread_id p)" by (force simp: knows_id_def)
  qed
  moreover have "first_error (map (parent_walk (parents_of ps) []) (map p_thread_id ps)) = None"
    unfolding first_error_None
  proof
    fix x assume "x \<in> set (map (parent_walk (parents_of ps) []) (map p_thread_id ps))"
    then obtain p where p: "p \<in> set ps" "x = parent_walk (parents_of ps) [] (p_thread_id p)" by auto
    then obtain n where "rooted (registry_of ps) (p_thread_id p) n"
      using identities_okD(3)[OF assms(2) entry[OF p(1)]] by blast
    from parent_walk_rooted[OF parents_of_registry[OF assms(1)] this, of "[]"] p(2) show "x = None" by simp
  qed
  ultimately show ?thesis by (simp add: validateProjectionSet_def)
qed

end
