(* ===== verification/ThreadRetentionInv.thy ===== *)
theory ThreadRetentionInv
  imports ThreadRetention ThreadRegistry ContextRenewalProps ThreadStoreProps
begin

text \<open>
  The registry a Thread store stands for, and the invariant of the store: every Thread directory can
  be read, no id occurs in both namespaces, and the registry is in order. The lemmas say what the parts of
  the operations do to the registry.
\<close>

section \<open>The registry of a store\<close>

abbreviation thread_dirs :: "store \<Rightarrow> (string \<times> thread_dir) list" where
  "thread_dirs s \<equiv> st_active s @ st_archive s"

definition doc_of :: "string \<Rightarrow> thread_dir \<Rightarrow> projection" where
  "doc_of i d = projr (readProjectionFile i (td_files d))"

definition readable :: "string \<Rightarrow> thread_dir \<Rightarrow> bool" where
  "readable i d \<longleftrightarrow> (\<exists>p. readProjectionFile i (td_files d) = Inr p)"

definition lookup :: "store \<Rightarrow> string \<Rightarrow> thread_dir option" where
  "lookup s i = (case map_of (st_active s) i of Some d \<Rightarrow> Some d | None \<Rightarrow> map_of (st_archive s) i)"

definition registry :: "store \<Rightarrow> registry" where
  "registry s i = (if ValidID i then map_option (\<lambda>d. identity_of (doc_of i d)) (lookup s i) else None)"

definition dir_ok :: "string \<times> thread_dir \<Rightarrow> bool" where
  "dir_ok x \<longleftrightarrow> renewal_ok (td_renewal (snd x)) \<and> (ValidID (fst x) \<longrightarrow> readable (fst x) (snd x))"

text \<open>\<open>store_wf\<close> is about each directory, \<open>store_ok\<close> also about how the documents fit together.\<close>

definition store_wf :: "store \<Rightarrow> bool" where
  "store_wf s \<longleftrightarrow> distinct (map fst (thread_dirs s)) \<and> MainID \<notin> keys (st_archive s)
     \<and> (\<forall>x \<in> set (thread_dirs s). dir_ok x)
     \<and> distinct (map fst (st_trash s)) \<and> (\<forall>n \<in> keys (st_trash s). trash_name_ok n)"

definition store_ok :: "fold_table \<Rightarrow> store \<Rightarrow> bool" where
  "store_ok fr s \<longleftrightarrow> store_wf s \<and> identities_ok fr (registry s)"

text \<open>The store as far as the registry goes.\<close>

definition same_dirs :: "store \<Rightarrow> store \<Rightarrow> bool" where
  "same_dirs s t \<longleftrightarrow> st_active t = st_active s \<and> st_archive t = st_archive s \<and> st_trash t = st_trash s"

lemma same_dirs_refl [simp]: "same_dirs s s"
  by (simp add: same_dirs_def)

lemma same_dirs_trans: "same_dirs s t \<Longrightarrow> same_dirs t u \<Longrightarrow> same_dirs s u"
  by (simp add: same_dirs_def)

lemma same_dirs_registry: "same_dirs s t \<Longrightarrow> registry t = registry s"
  by (simp add: same_dirs_def registry_def lookup_def fun_eq_iff cong: option.case_cong)

lemma same_dirs_wf: "same_dirs s t \<Longrightarrow> store_wf t = store_wf s"
  by (simp add: same_dirs_def store_wf_def)

lemma next_io_same: "next_io s = (r, t) \<Longrightarrow> same_dirs s t \<and> st_index t = st_index s"
  by (auto simp: next_io_def same_dirs_def split: list.splits)

lemma effect_cases:
  assumes "effect f s = (r, t)"
  obtains (none) s1 where "same_dirs s s1" "st_index s1 = st_index s" "t = s1" "r \<noteq> Inr ()"
  | (some) s1 where "same_dirs s s1" "st_index s1 = st_index s" "t = f s1"
proof -
  obtain w s1 where w: "next_io s = (w, s1)" by fastforce
  note same = next_io_same[OF w]
  show ?thesis
  proof (cases w)
    case WriteOk
    then show ?thesis using assms w same some by (auto simp: effect_def)
  next
    case (WriteFailed b)
    then show ?thesis using assms w same some none by (cases b) (auto simp: effect_def)
  qed
qed

lemma write_index_same:
  assumes "writeIndexLocked now ix s = (r, t)"
  shows "same_dirs s t"
proof -
  obtain x s1 where e: "effect (\<lambda>s. s\<lparr>st_index := IndexDoc \<lparr>ix_version = IndexVersion, ix_revision = ix_revision ix + 1,
      ix_updated_at = truncate_ms now, ix_threads = map_option sortIndexEntries (ix_threads ix)\<rparr>\<rparr>) s = (x, s1)"
    by fastforce
  then have "t = s1" using assms by (cases x) (auto simp: writeIndexLocked_def Let_def)
  with e show ?thesis by (cases rule: effect_cases) (simp_all add: same_dirs_def)
qed

lemma index_update_same: "updateProjectionLocked fr now s = (r, t) \<Longrightarrow> same_dirs s t"
  by (auto simp: updateProjectionLocked_def writeProjectionIndexLocked_def dest!: write_index_same
      split: sum.splits prod.splits)

lemma load_same: "loadOrRebuildIndexLocked fr now s = (r, t) \<Longrightarrow> same_dirs s t"
  by (auto simp: loadOrRebuildIndexLocked_def writeProjectionIndexLocked_def dest!: write_index_same
      split: sum.splits option.splits if_splits)

lemma rebuild_same: "rebuildIndexLocked fr now s = (r, t) \<Longrightarrow> same_dirs s t"
  by (auto simp: rebuildIndexLocked_def writeProjectionIndexLocked_def dest!: write_index_same split: sum.splits)

section \<open>Changing the files of one directory\<close>

abbreviation thread_namespace :: "namespace \<Rightarrow> bool" where
  "thread_namespace n \<equiv> n \<noteq> NsTrash"

lemma map_of_change: "map_of (map (\<lambda>(j, d). (j, if j = i then f d else d)) xs) k
    = (if k = i then map_option f (map_of xs k) else map_of xs k)"
  by (induction xs) auto

lemma fst_change: "map fst (map (\<lambda>(j, d). (j, if j = i then f d else d)) xs) = map fst xs"
  by (induction xs) auto

lemma keys_change: "keys (map (\<lambda>(j, d). (j, if j = i then f d else d)) xs) = keys xs"
  by (simp flip: set_map add: fst_change del: map_map)

lemma dirs_of: "thread_namespace n \<Longrightarrow> set (dirs n s) \<subseteq> set (thread_dirs s)"
  by (cases n) auto

lemma lookup_dir:
  assumes "store_wf s" "thread_namespace n" "map_of (dirs n s) i = Some d"
  shows "lookup s i = Some d"
proof (cases n)
  case NsArchive
  then have "i \<in> keys (st_archive s)" using assms(3) map_of_eq_None[of "st_archive s" i] by auto
  then have "map_of (st_active s) i = None" using assms(1) by (auto simp: store_wf_def map_of_eq_None)
  with NsArchive assms(3) show ?thesis by (simp add: lookup_def)
qed (use assms in \<open>simp_all add: lookup_def\<close>)

lemma lookup_in: "lookup s i = Some d \<Longrightarrow> (i, d) \<in> set (thread_dirs s)"
  by (auto simp: lookup_def dest: map_of_SomeD split: option.splits)

lemma wf_dir: "store_wf s \<Longrightarrow> lookup s i = Some d \<Longrightarrow> dir_ok (i, d)"
  unfolding store_wf_def using lookup_in by blast

lemma wf_readable: "store_wf s \<Longrightarrow> lookup s i = Some d \<Longrightarrow> ValidID i \<Longrightarrow> readable i d"
  by (drule (1) wf_dir) (simp add: dir_ok_def)

lemma wf_renewal: "store_wf s \<Longrightarrow> lookup s i = Some d \<Longrightarrow> renewal_ok (td_renewal d)"
  by (drule (1) wf_dir) (simp add: dir_ok_def)

text \<open>Both updates of a directory are instances of one.\<close>

definition change_dir :: "namespace \<Rightarrow> string \<Rightarrow> (thread_dir \<Rightarrow> thread_dir) \<Rightarrow> store \<Rightarrow> store" where
  "change_dir n i f s = set_dirs n (map (\<lambda>(j, d). (j, if j = i then f d else d)) (dirs n s)) s"

lemma put_files_change: "put_files n i fs s = (change_dir n i (\<lambda>d. d\<lparr>td_files := fs\<lparr>tf_io := []\<rparr>\<rparr>) s)\<lparr>st_io := tf_io fs\<rparr>"
  by (simp add: put_files_def change_dir_def)

lemma put_renewal_change: "put_renewal n i r s = (change_dir n i (\<lambda>d. d\<lparr>td_renewal := r\<lparr>d_io := []\<rparr>\<rparr>) s)\<lparr>st_io := d_io r\<rparr>"
  by (simp add: put_renewal_def change_dir_def)

lemma io_same [simp]: "same_dirs s (s\<lparr>st_io := io\<rparr>)"
  by (simp add: same_dirs_def)

lemma wf_io [simp]: "store_wf (s\<lparr>st_io := io\<rparr>) = store_wf s" "registry (s\<lparr>st_io := io\<rparr>) = registry s"
  using same_dirs_wf[OF io_same] same_dirs_registry[OF io_same] by simp_all

lemma change_dir_lookup:
  assumes "store_wf s" "thread_namespace n" "map_of (dirs n s) i = Some d"
  shows "lookup (change_dir n i f s) j = (if j = i then Some (f d) else lookup s j)"
proof (cases n)
  case NsArchive
  then have "map_of (st_active s) i = None"
    using lookup_dir[OF assms] assms(1,3) map_of_eq_None[of "st_archive s" i]
    by (auto simp: store_wf_def map_of_eq_None)
  then show ?thesis using NsArchive assms(3)
    by (auto simp: lookup_def change_dir_def map_of_change split: option.splits)
qed (use assms in \<open>auto simp: lookup_def change_dir_def map_of_change split: option.splits\<close>)

lemma change_dir_set:
  assumes "thread_namespace n" "(j, e) \<in> set (thread_dirs (change_dir n i f s))"
  shows "(j, e) \<in> set (thread_dirs s) \<or> j = i \<and> (\<exists>d. (i, d) \<in> set (dirs n s) \<and> e = f d)"
  using assms by (cases n) (auto simp: change_dir_def split: if_splits)

lemma change_dir_names: "map fst (dirs m (change_dir n i f s)) = map fst (dirs m s)"
  by (cases n; cases m) (simp_all add: change_dir_def fst_change del: map_map)

lemma change_dir_wf:
  assumes "store_wf s" "thread_namespace n" "map_of (dirs n s) i = Some d" "ValidID i"
    and "renewal_ok (td_renewal (f d))" "readable i (f d)"
  shows "store_wf (change_dir n i f s)"
    and "registry (change_dir n i f s) = (registry s)(i \<mapsto> identity_of (doc_of i (f d)))"
proof -
  have d: "(i, d') \<in> set (dirs n s) \<Longrightarrow> d' = d" for d'
  proof -
    assume "(i, d') \<in> set (dirs n s)"
    moreover have "distinct (map fst (dirs n s))" using assms(1,2) by (cases n) (simp_all add: store_wf_def)
    ultimately show "d' = d" using assms(3) by simp
  qed
  have names: "map fst (st_active (change_dir n i f s)) = map fst (st_active s)"
    "map fst (st_archive (change_dir n i f s)) = map fst (st_archive s)"
    "map fst (st_trash (change_dir n i f s)) = map fst (st_trash s)"
    using change_dir_names[of NsActive n i f s] change_dir_names[of NsArchive n i f s] change_dir_names[of NsTrash n i f s]
    by simp_all
  have "dir_ok x" if x: "x \<in> set (thread_dirs (change_dir n i f s))" for x
  proof (cases x)
    case (Pair j e)
    from change_dir_set[OF assms(2) x[unfolded Pair]] show ?thesis
    proof
      assume "(j, e) \<in> set (thread_dirs s)"
      then show ?thesis using assms(1) by (simp add: Pair store_wf_def)
    qed (use d assms(5,6) in \<open>auto simp: Pair dir_ok_def\<close>)
  qed
  then show "store_wf (change_dir n i f s)"
    using assms(1) names by (auto simp: store_wf_def simp flip: set_map)
  show "registry (change_dir n i f s) = (registry s)(i \<mapsto> identity_of (doc_of i (f d)))"
    using assms(4) by (auto simp: registry_def change_dir_lookup[OF assms(1-3)] fun_eq_iff)
qed

lemma readable_doc: "readable i d \<Longrightarrow> readProjectionFile i (td_files d) = Inr (doc_of i d)"
  by (auto simp: readable_def doc_of_def)

lemma registry_at: "store_wf s \<Longrightarrow> thread_namespace n \<Longrightarrow> map_of (dirs n s) i = Some d \<Longrightarrow> ValidID i \<Longrightarrow>
    registry s i = Some (identity_of (doc_of i d))"
  by (simp add: registry_def lookup_dir)

lemma read_io [simp]: "readProjectionFile i (fs\<lparr>tf_io := io\<rparr>) = readProjectionFile i fs"
  by (simp add: readProjectionFile_def)

lemma put_files_wf:
  assumes "store_wf s" "thread_namespace n" "map_of (dirs n s) i = Some d" "ValidID i"
    and "readProjectionFile i fs = Inr q"
  shows "store_wf (put_files n i fs s)" "registry (put_files n i fs s) = (registry s)(i \<mapsto> identity_of q)"
proof -
  have "renewal_ok (td_renewal d)" by (rule wf_renewal[OF assms(1) lookup_dir[OF assms(1-3)]])
  then show "store_wf (put_files n i fs s)" "registry (put_files n i fs s) = (registry s)(i \<mapsto> identity_of q)"
    using change_dir_wf[OF assms(1-4), of "\<lambda>d. d\<lparr>td_files := fs\<lparr>tf_io := []\<rparr>\<rparr>"] assms(5)
    by (simp_all add: put_files_change readable_def doc_of_def)
qed

lemma put_files_same:
  assumes "store_wf s" "thread_namespace n" "map_of (dirs n s) i = Some d" "ValidID i"
    and "tf_projection fs = tf_projection (td_files d)"
  shows "store_wf (put_files n i fs s)" "registry (put_files n i fs s) = registry s"
proof -
  have r: "readProjectionFile i fs = Inr (doc_of i d)"
    using readable_doc[OF wf_readable[OF assms(1) lookup_dir[OF assms(1-3)] assms(4)]] assms(5)
    by (simp add: readProjectionFile_def)
  from put_files_wf[OF assms(1-4) r] registry_at[OF assms(1-4)]
  show "store_wf (put_files n i fs s)" "registry (put_files n i fs s) = registry s" by auto
qed

lemma put_renewal_wf:
  assumes "store_wf s" "thread_namespace n" "map_of (dirs n s) i = Some d" "ValidID i" "renewal_ok r"
  shows "store_wf (put_renewal n i r s)" "registry (put_renewal n i r s) = registry s"
proof -
  have "readable i d" by (rule wf_readable[OF assms(1) lookup_dir[OF assms(1-3)] assms(4)])
  then show "store_wf (put_renewal n i r s)" "registry (put_renewal n i r s) = registry s"
    using change_dir_wf[OF assms(1-4), of "\<lambda>d. d\<lparr>td_renewal := r\<lparr>d_io := []\<rparr>\<rparr>"] assms(5) registry_at[OF assms(1-4)]
    by (auto simp: put_renewal_change readable_def doc_of_def)
qed

lemma change_dir_at: "map_of (dirs n s) i = Some d \<Longrightarrow> map_of (dirs n (change_dir n i f s)) i = Some (f d)"
  by (cases n) (simp_all add: change_dir_def map_of_change)

lemma put_at:
  "map_of (dirs n s) i = Some d \<Longrightarrow> map_of (dirs n (put_files n i fs s)) i = Some (d\<lparr>td_files := fs\<lparr>tf_io := []\<rparr>\<rparr>)"
  "map_of (dirs n s) i = Some d \<Longrightarrow> map_of (dirs n (put_renewal n i r s)) i = Some (d\<lparr>td_renewal := r\<lparr>d_io := []\<rparr>\<rparr>)"
  using change_dir_at[of n s i d] by (cases n; simp add: put_files_change put_renewal_change)+

section \<open>Moving directories\<close>

lemma registry_cong: "lookup t = lookup s \<Longrightarrow> registry t = registry s"
  by (simp add: registry_def fun_eq_iff)

lemma registry_removed: "lookup t = (lookup s)(i := None) \<Longrightarrow> registry t = (registry s)(i := None)"
  by (simp add: registry_def fun_eq_iff)

lemma wf_split:
  "store_wf s \<longleftrightarrow> distinct (map fst (st_active s)) \<and> distinct (map fst (st_archive s))
     \<and> keys (st_active s) \<inter> keys (st_archive s) = {} \<and> MainID \<notin> keys (st_archive s)
     \<and> (\<forall>x \<in> set (st_active s). dir_ok x) \<and> (\<forall>x \<in> set (st_archive s). dir_ok x)
     \<and> distinct (map fst (st_trash s)) \<and> (\<forall>n \<in> keys (st_trash s). trash_name_ok n)"
  by (auto simp: store_wf_def)

lemma delete_dirs: "distinct (map fst xs) \<Longrightarrow> distinct (map fst (AList.delete i xs))"
  "\<forall>x \<in> set xs. P x \<Longrightarrow> \<forall>x \<in> set (AList.delete i xs). P x"
  by (rule distinct_delete) (auto simp: AList.delete_eq)

text \<open>The cases of a move have the same shape: what the two lists of a namespace become.\<close>

lemma wf_lists:
  assumes "store_wf s" "st_active t = A" "st_archive t = B" "st_trash t = T"
    and "distinct (map fst (A @ B))" "set (A @ B) \<subseteq> set (thread_dirs s)" "keys B \<subseteq> keys (st_archive s) \<union> (UNIV - {MainID})"
    and "distinct (map fst T)" "\<forall>n \<in> keys T. trash_name_ok n"
  shows "store_wf t"
  using assms unfolding store_wf_def by blast

lemma disjoint_names:
  assumes "store_wf s" "thread_namespace n" "map_of (dirs n s) i = Some d"
  shows "n = NsActive \<Longrightarrow> i \<notin> keys (st_archive s) \<and> map_of (st_archive s) i = None"
    "n = NsArchive \<Longrightarrow> i \<notin> keys (st_active s) \<and> map_of (st_active s) i = None \<and> i \<noteq> MainID"
    "(i, d) \<in> set (dirs n s)"
proof -
  have i: "i \<in> keys (dirs n s)" using assms(3) map_of_eq_None[of "dirs n s" i] by auto
  show "i \<notin> keys (st_archive s) \<and> map_of (st_archive s) i = None" if "n = NsActive"
  proof -
    from that i have "i \<in> keys (st_active s)" by simp
    with assms(1) have "i \<notin> keys (st_archive s)" unfolding wf_split by blast
    then show ?thesis by (simp add: map_of_eq_None)
  qed
  show "i \<notin> keys (st_active s) \<and> map_of (st_active s) i = None \<and> i \<noteq> MainID" if "n = NsArchive"
  proof -
    from that i have "i \<in> keys (st_archive s)" by simp
    with assms(1) have "i \<notin> keys (st_active s)" "i \<noteq> MainID" unfolding wf_split by blast+
    then show ?thesis by (simp add: map_of_eq_None)
  qed
  show "(i, d) \<in> set (dirs n s)" using assms(3) by (rule map_of_SomeD)
qed

lemma set_delete_subset: "set (AList.delete i xs) \<subseteq> set xs"
  by (auto simp: AList.delete_eq)

lemma moved_within:
  assumes "store_wf s" "map_of (dirs n s) i = Some d" "n \<noteq> m" "thread_namespace n" "thread_namespace m" "i \<noteq> MainID"
  shows "store_wf (moved n i m i d s)" "lookup (moved n i m i d s) = lookup s"
proof -
  note names = disjoint_names[OF assms(1,4,2)]
  have wf: "distinct (map fst (st_active s))" "distinct (map fst (st_archive s))"
    "keys (st_active s) \<inter> keys (st_archive s) = {}" "distinct (map fst (st_trash s))" "\<forall>n \<in> keys (st_trash s). trash_name_ok n"
    using assms(1) by (simp_all add: wf_split)
  consider "n = NsActive" "m = NsArchive" | "n = NsArchive" "m = NsActive"
    using assms(3-5) by (cases n; cases m) auto
  then have "store_wf (moved n i m i d s) \<and> lookup (moved n i m i d s) = lookup s"
  proof cases
    case 1
    have "lookup (moved n i m i d s) j = lookup s j" for j
      using assms(2) names 1 by (cases "j = i") (simp_all add: moved_def lookup_def cong: option.case_cong)
    moreover have "store_wf (moved n i m i d s)"
      by (rule wf_lists[OF assms(1), of _ "AList.delete i (st_active s)" "(i, d) # st_archive s" "st_trash s"])
        (use wf names 1 assms(6) set_delete_subset[of i "st_active s"] in \<open>auto simp: moved_def delete_dirs(1)\<close>)
    ultimately show ?thesis by auto
  next
    case 2
    have "lookup (moved n i m i d s) j = lookup s j" for j
      using assms(2) names 2 by (cases "j = i") (simp_all add: moved_def lookup_def cong: option.case_cong)
    moreover have "store_wf (moved n i m i d s)"
      by (rule wf_lists[OF assms(1), of _ "(i, d) # st_active s" "AList.delete i (st_archive s)" "st_trash s"])
        (use wf names 2 set_delete_subset[of i "st_archive s"] in \<open>auto simp: moved_def delete_dirs(1)\<close>)
    ultimately show ?thesis by auto
  qed
  then show "store_wf (moved n i m i d s)" "lookup (moved n i m i d s) = lookup s" by blast+
qed

lemma moved_to_trash:
  assumes "store_wf s" "map_of (dirs n s) i = Some d" "thread_namespace n" "t \<notin> keys (st_trash s)" "trash_name_ok t"
  shows "store_wf (moved n i NsTrash t d s)" "lookup (moved n i NsTrash t d s) = (lookup s)(i := None)"
proof -
  note names = disjoint_names[OF assms(1,3,2)]
  have wf: "distinct (map fst (st_active s))" "distinct (map fst (st_archive s))"
    "keys (st_active s) \<inter> keys (st_archive s) = {}" "distinct (map fst (st_trash s))" "\<forall>n \<in> keys (st_trash s). trash_name_ok n"
    using assms(1) by (simp_all add: wf_split)
  have "store_wf (moved n i NsTrash t d s) \<and> lookup (moved n i NsTrash t d s) = (lookup s)(i := None)"
  proof (cases n)
    case NsActive
    have "lookup (moved n i NsTrash t d s) j = ((lookup s)(i := None)) j" for j
      using assms(2) names NsActive by (cases "j = i") (simp_all add: moved_def lookup_def cong: option.case_cong)
    moreover have "store_wf (moved n i NsTrash t d s)"
      by (rule wf_lists[OF assms(1), of _ "AList.delete i (st_active s)" "st_archive s" "(t, d) # st_trash s"])
        (use wf names NsActive assms(4,5) set_delete_subset[of i "st_active s"] in \<open>auto simp: moved_def delete_dirs(1)\<close>)
    ultimately show ?thesis by auto
  next
    case NsArchive
    have "lookup (moved n i NsTrash t d s) j = ((lookup s)(i := None)) j" for j
      using assms(2) names NsArchive by (cases "j = i") (simp_all add: moved_def lookup_def cong: option.case_cong)
    moreover have "store_wf (moved n i NsTrash t d s)"
      by (rule wf_lists[OF assms(1), of _ "st_active s" "AList.delete i (st_archive s)" "(t, d) # st_trash s"])
        (use wf names NsArchive assms(4,5) set_delete_subset[of i "st_archive s"] in \<open>auto simp: moved_def delete_dirs(1)\<close>)
    ultimately show ?thesis by auto
  qed (use assms(3) in simp)
  then show "store_wf (moved n i NsTrash t d s)" "lookup (moved n i NsTrash t d s) = (lookup s)(i := None)" by blast+
qed

lemma moved_back:
  assumes "store_wf s" "map_of (dirs n s) i = Some d" "thread_namespace n" "t \<notin> keys (st_trash s)"
    and "same_dirs (moved n i NsTrash t d s) u"
  shows "store_wf (moved NsTrash t n i d u)" "lookup (moved NsTrash t n i d u) = lookup s"
proof -
  note names = disjoint_names[OF assms(1,3,2)]
  have wf: "distinct (map fst (st_active s))" "distinct (map fst (st_archive s))"
    "keys (st_active s) \<inter> keys (st_archive s) = {}" "distinct (map fst (st_trash s))" "\<forall>n \<in> keys (st_trash s). trash_name_ok n"
    using assms(1) by (simp_all add: wf_split)
  have trash: "AList.delete t (st_trash s) = st_trash s" using assms(4) by (rule delete_id)
  have "store_wf (moved NsTrash t n i d u) \<and> lookup (moved NsTrash t n i d u) = lookup s"
  proof (cases n)
    case NsActive
    have u: "st_active u = AList.delete i (st_active s)" "st_archive u = st_archive s" "st_trash u = (t, d) # st_trash s"
      using assms(5) NsActive by (simp_all add: same_dirs_def moved_def)
    have "lookup (moved NsTrash t n i d u) j = lookup s j" for j
      using assms(2) names NsActive u by (cases "j = i") (simp_all add: moved_def lookup_def cong: option.case_cong)
    moreover have "store_wf (moved NsTrash t n i d u)"
      by (rule wf_lists[OF assms(1), of _ "(i, d) # AList.delete i (st_active s)" "st_archive s" "st_trash s"])
        (use wf names NsActive u trash set_delete_subset[of i "st_active s"] in \<open>auto simp: moved_def delete_dirs(1)\<close>)
    ultimately show ?thesis by auto
  next
    case NsArchive
    have u: "st_archive u = AList.delete i (st_archive s)" "st_active u = st_active s" "st_trash u = (t, d) # st_trash s"
      using assms(5) NsArchive by (simp_all add: same_dirs_def moved_def)
    have "lookup (moved NsTrash t n i d u) j = lookup s j" for j
      using assms(2) names NsArchive u by (cases "j = i") (simp_all add: moved_def lookup_def cong: option.case_cong)
    moreover have "store_wf (moved NsTrash t n i d u)"
      by (rule wf_lists[OF assms(1), of _ "st_active s" "(i, d) # AList.delete i (st_archive s)" "st_trash s"])
        (use wf names NsArchive u trash set_delete_subset[of i "st_archive s"] in \<open>auto simp: moved_def delete_dirs(1)\<close>)
    ultimately show ?thesis by auto
  qed (use assms(3) in simp)
  then show "store_wf (moved NsTrash t n i d u)" "lookup (moved NsTrash t n i d u) = lookup s" by blast+
qed

lemma rename_cases:
  assumes "durableRename n i m j s = (r, t)"
  obtains (kept) "same_dirs s t" "st_index t = st_index s" "r \<noteq> Inr ()"
  | (moved) d s1 where "map_of (dirs n s) i = Some d" "j \<notin> keys (dirs m s)" "same_dirs s s1" "st_index s1 = st_index s"
      "t = moved n i m j d s1"
proof (cases "map_of (dirs n s) i")
  case (Some d)
  show ?thesis
  proof (cases "j \<in> keys (dirs m s)")
    case False
    then have "effect (moved n i m j d) s = (r, t)" using assms Some by (simp add: durableRename_def)
    then show ?thesis using kept moved Some False by (cases rule: effect_cases) auto
  qed (use assms Some kept in \<open>auto simp: durableRename_def\<close>)
qed (use assms kept in \<open>auto simp: durableRename_def\<close>)

lemma same_dirs_dirs: "same_dirs s t \<Longrightarrow> dirs n t = dirs n s"
  by (cases n) (simp_all add: same_dirs_def)

lemma same_dirs_lookup: "same_dirs s t \<Longrightarrow> lookup t = lookup s"
  by (simp add: same_dirs_def lookup_def fun_eq_iff cong: option.case_cong)

lemma rename_within:
  assumes "store_wf s" "durableRename n i m i s = (r, t)" "thread_namespace n" "thread_namespace m" "i \<noteq> MainID"
  shows "store_wf t" "lookup t = lookup s"
proof -
  from assms(2) have "store_wf t \<and> lookup t = lookup s"
  proof (cases rule: rename_cases)
    case kept
    then show ?thesis using assms(1) by (simp add: same_dirs_wf same_dirs_lookup)
  next
    case (moved d s1)
    have "n \<noteq> m" using moved(1,2) map_of_eq_None[of "dirs n s" i] by auto
    from moved_within[OF _ _ this assms(3-5), of s1 d] moved assms(1)
    show ?thesis by (simp add: same_dirs_wf same_dirs_lookup same_dirs_dirs)
  qed
  then show "store_wf t" "lookup t = lookup s" by blast+
qed

text \<open>Deleting a Thread: it is gone from the registry, or nothing has changed and an error is reported.\<close>

lemma trash_effect:
  assumes "store_wf s" "effect (\<lambda>s. s\<lparr>st_trash := AList.delete t (st_trash s)\<rparr>) s = (r, u)"
  shows "store_wf u" "lookup u = lookup s"
proof -
  from assms(2) have "store_wf u \<and> lookup u = lookup s"
  proof (cases rule: effect_cases)
    case (none s1)
    then show ?thesis using assms(1) by (simp add: same_dirs_wf same_dirs_lookup)
  next
    case (some s1)
    from assms(1) some(1) have "store_wf s1" "lookup s1 = lookup s" by (simp_all add: same_dirs_wf same_dirs_lookup)
    moreover have "store_wf (s1\<lparr>st_trash := AList.delete t (st_trash s1)\<rparr>)"
      by (rule wf_lists[OF \<open>store_wf s1\<close> refl refl refl])
        (use \<open>store_wf s1\<close> in \<open>auto simp: wf_split delete_dirs(1)\<close>)
    ultimately show ?thesis by (simp add: some(3) lookup_def fun_eq_iff cong: option.case_cong)
  qed
  then show "store_wf u" "lookup u = lookup s" by blast+
qed

lemma sync_effect: "effect id s = (r, u) \<Longrightarrow> same_dirs s u"
  by (erule effect_cases) auto

lemma remove_thread_registry:
  assumes "store_wf s" "thread_namespace n" "trash_name_ok t" "remove_thread now n i t ix s = (r, u)"
  shows "store_wf u" "registry u = registry s \<and> r \<noteq> Inr () \<or> registry u = (registry s)(i := None)"
proof -
  obtain r1 s1 where r1: "durableRename n i NsTrash t s = (r1, s1)" by fastforce
  from r1 have "store_wf u \<and> (lookup u = lookup s \<and> r \<noteq> Inr () \<or> lookup u = (lookup s)(i := None))"
  proof (cases rule: rename_cases)
    case kept
    then obtain e where "r1 = Inl e" by (cases r1) auto
    with kept(1) show ?thesis using assms(1,4) r1 by (auto simp: remove_thread_def same_dirs_wf same_dirs_lookup)
  next
    case (moved d s0)
    have s0: "store_wf s0" "lookup s0 = lookup s" "map_of (dirs n s0) i = Some d" "t \<notin> keys (st_trash s0)"
      using assms(1) moved same_dirs_dirs[OF moved(3), of NsTrash]
      by (simp_all add: same_dirs_wf same_dirs_lookup same_dirs_dirs)
    have s1: "store_wf s1" "lookup s1 = (lookup s)(i := None)"
      using moved_to_trash[OF s0(1,3) assms(2) s0(4) assms(3)] s0(2) by (simp_all add: moved(5))
    show ?thesis
    proof (cases r1)
      case (Inl e)
      with s1 show ?thesis using assms(4) r1 by (auto simp: remove_thread_def)
    next
      case (Inr x)
      obtain r2 s2 where r2: "writeIndexLocked now (drop_entry_of i ix) s1 = (r2, s2)" by fastforce
      from write_index_same[OF r2] have same: "same_dirs s1 s2" .
      then have s2: "store_wf s2" "lookup s2 = (lookup s)(i := None)" using s1 by (simp_all add: same_dirs_wf same_dirs_lookup)
      show ?thesis
      proof (cases r2)
        case e: (Inl e)
        obtain r3 s3 where r3: "durableRename NsTrash t n i s2 = (r3, s3)" by fastforce
        have u: "u = s3" "r = Inl e" using assms(4) r1 Inr r2 e r3 by (simp_all add: remove_thread_def)
        from r3 show ?thesis
        proof (cases rule: rename_cases)
          case kept
          then show ?thesis using s2 u by (simp add: same_dirs_wf same_dirs_lookup)
        next
          case returned: (moved d' u')
          have "same_dirs s1 u'" using same returned(3) by (rule same_dirs_trans)
          moreover have "st_trash s2 = (t, d) # st_trash s0" using same moved(5) assms(2) by (cases n; simp add: same_dirs_def moved_def)
          then have "d' = d" using returned(1) by simp
          ultimately show ?thesis
            using moved_back[OF s0(1,3) assms(2) s0(4), of u'] moved(5) returned(5) s0(2) u by simp
        qed
      next
        case (Inr y)
        obtain r3 s3 where r3: "effect (\<lambda>s. s\<lparr>st_trash := AList.delete t (st_trash s)\<rparr>) s2 = (r3, s3)" by fastforce
        from trash_effect[OF s2(1) r3] s2(2) have s3: "store_wf s3" "lookup s3 = (lookup s)(i := None)" by simp_all
        have "u = s3 \<or> effect id s3 = (r, u)"
          using assms(4) r1 \<open>r1 = Inr x\<close> r2 Inr r3 by (cases r3) (simp_all add: remove_thread_def)
        then have "same_dirs s3 u" using sync_effect by auto
        then show ?thesis using s3 by (simp add: same_dirs_wf same_dirs_lookup)
      qed
    qed
  qed
  then show "store_wf u" "registry u = registry s \<and> r \<noteq> Inr () \<or> registry u = (registry s)(i := None)"
    using registry_cong registry_removed by blast+
qed

end
