(* ===== verification/ThreadRetentionSteps.thy ===== *)
theory ThreadRetentionSteps
  imports ThreadRetentionInv
begin

text \<open>
  What each operation of the Thread store does to the registry, whichever of its file operations fail:
  nothing, or the one step the operation is there for.
\<close>

section \<open>Opening a Thread keeps its identity\<close>

definition same_identity :: "projection \<Rightarrow> projection \<Rightarrow> bool" where
  "same_identity p q \<longleftrightarrow> p_thread_id q = p_thread_id p \<and> p_alias q = p_alias p
     \<and> p_parent_thread_id q = p_parent_thread_id p \<and> p_retention_state q = p_retention_state p"

lemma same_identity_refl [simp]: "same_identity p p"
  by (simp add: same_identity_def)

lemma same_identity_trans: "same_identity p q \<Longrightarrow> same_identity q r \<Longrightarrow> same_identity p r"
  by (simp add: same_identity_def)

lemma same_identity_of: "same_identity p q \<Longrightarrow> identity_of q = identity_of p"
  by (simp add: same_identity_def identity_of_def)

lemma layout_entries_projection: "tf_projection (snd (layout_entries w l ks fs)) = tf_projection fs"
proof (induction ks arbitrary: fs)
  case (Cons k ks)
  obtain r fs1 where o: "next_outcome fs = (r, fs1)" by fastforce
  then have "tf_projection fs1 = tf_projection fs" using next_outcome_files(1)[of fs] by simp
  with o Cons show ?case
    by (auto simp: drop_journal_def split: option.splits write_result.splits bool.splits)
qed simp

lemma layout_projection: "recoverGenerationLayout gens fs = (r, fs1) \<Longrightarrow> tf_projection fs1 = tf_projection fs"
  using layout_entries_projection[of "map gp_id gens" "if gens = [] then 0 else gp_ordinal (last gens)" "map fst (tf_journals fs)" fs]
  by (auto simp: recoverGenerationLayout_def Let_def split: prod.splits sum.splits if_splits)

lemma open_projection: "openEventStore now i p fs = (r, fs1) \<Longrightarrow> tf_projection fs1 = tf_projection fs"
  by (auto simp: openEventStore_def dest!: layout_projection split: prod.splits sum.splits)

lemma usage_facts_identity: "same_identity p (add_usage_facts c p)"
proof -
  have "same_identity p (fold (\<lambda>f q. if f_type f = FactUsageRecorded
      then (case f_usage f of None \<Rightarrow> q | Some u \<Rightarrow> q\<lparr>p_token_usage := aggregate_Add (f_model_ref f) u (p_token_usage q)\<rparr>)
      else q) fs p)" for fs
    by (induction fs arbitrary: p) (auto simp: same_identity_def split: option.splits)
  then show ?thesis by (simp add: add_usage_facts_def same_identity_def)
qed

lemma visit_identity: "visit_journals i fs start through want gs p = Inr (w, q) \<Longrightarrow> same_identity p q"
proof (induction gs arbitrary: start want p)
  case (Cons g gs)
  have "same_identity p (fold add_usage_facts cs p)" for cs p
    by (induction cs arbitrary: p) (auto intro: same_identity_trans usage_facts_identity)
  note all = this
  from Cons.prems obtain cs visited where "visit_journals i fs 0 through (want + length visited) gs (fold add_usage_facts visited p) = Inr (w, q)"
    by (auto split: option.splits if_splits)
  from Cons.IH[OF this] all[of p visited] show ?case by (blast intro: same_identity_trans)
qed simp

lemma recover_usage_identity: "recoverUsageAggregate i fs through p = Inr (b, q) \<Longrightarrow> same_identity p q"
  by (auto simp: recoverUsageAggregate_def Let_def dest: visit_identity split: if_splits sum.splits)

lemma finish_open_identity:
  assumes "finish_open now i rest b st = Inr (b', st')" "rest = [] \<or> usageOnlyCommit (hd rest)"
  shows "same_identity (rs_projection st) (rs_projection st') \<and> validateProjectionMetadata (rs_projection st') i"
proof -
  obtain b1 st1 where a: "(if rest = [] then Inr (b, st)
      else case applyCommit i (hd rest) st of Inl _ \<Rightarrow> Inl CorruptJournal | Inr st' \<Rightarrow> Inr (True, st')) = Inr (b1, st1)"
    using assms(1) by (auto simp: finish_open_def split: sum.splits)
  have "same_identity (rs_projection st) (rs_projection st1)"
  proof (cases "rest = []")
    case False
    with a have c: "applyCommit i (hd rest) st = Inr st1" by (auto split: sum.splits)
    have "list_all ordinary (c_facts (sc_commit (hd rest)))"
      using assms(2) False by (auto simp: usageOnlyCommit_def list_all_iff ordinary_def only_fact_def is_boundary_def)
    from applyCommit_frame[OF c this] show ?thesis by (simp add: same_frame_def same_identity_def)
  qed (use a in simp)
  moreover have "same_identity p (advanceProjectionRevision t p)" for t p
    by (simp add: advanceProjectionRevision_def same_identity_def)
  ultimately show ?thesis using assms(1) a
    by (auto simp: finish_open_def Let_def same_identity_def split: if_splits)
qed

lemma open_thread:
  assumes "openEventStore now i p fs = (Inr (t, b), fs1)"
  shows "th_id t = i" "th_files t = fs1" "same_identity p (th_projection t)"
proof -
  obtain cs published rest st q st1 where o: "splitCommitsAtCursor cs (p_event_cursor p) = Inr (published, rest)"
    "replayCurrentGeneration i p published = Inr st"
    "\<exists>b1. recoverUsageAggregate i fs1 (p_event_cursor p) (rs_projection st) = Inr (b1, q)"
    "\<exists>b1. finish_open now i rest b1 (st\<lparr>rs_projection := q\<rparr>) = Inr (b, st1)"
    "t = opened i p cs st1 fs1"
    using assms unfolding openEventStore_def by (fastforce split: prod.splits sum.splits)
  then show "th_id t = i" "th_files t = fs1" by (simp_all add: opened_def)
  have "rest = [] \<or> usageOnlyCommit (hd rest)"
    using o(1) by (cases rest) (auto simp: splitCommitsAtCursor_def split: option.splits if_splits)
  with o(4) have "same_identity q (rs_projection st1)" using finish_open_identity by fastforce
  moreover have "same_identity (rs_projection st) q" using o(3) recover_usage_identity by blast
  moreover have "same_identity p (rs_projection st)"
  proof -
    from o(2) have r: "runtime_commits i (gp_id (p_current_generation p)) True published (fresh_state (cloneProjection p)) = Inr st"
      by (auto simp: replayCurrentGeneration_def split: if_splits)
    have "fresh_state (cloneProjection p) = (fresh_state (cloneProjection p))\<lparr>rs_projection := cloneProjection p\<rparr>"
      by (simp add: fresh_state_def)
    with r runtime_commits_projection[where st = "fresh_state (cloneProjection p)" and q = "cloneProjection p"]
    have "Inr st = map_sum id (\<lambda>s. s\<lparr>rs_projection := cloneProjection p\<rparr>) (Inr st :: thread_error + replay_state)"
      by metis
    then have "st = st\<lparr>rs_projection := cloneProjection p\<rparr>" by simp
    then have "rs_projection st = cloneProjection p" by (metis replay_state.select_convs(2) replay_state.surjective replay_state.update_convs(2))
    then show ?thesis by (simp add: cloneProjection_def same_identity_def)
  qed
  ultimately have "same_identity p (rs_projection st1)" by (blast intro: same_identity_trans)
  then show "same_identity p (th_projection t)" using o(5) by (simp add: opened_def)
qed

section \<open>The parts of an operation\<close>

text \<open>\<open>keeps_registry\<close> is what the reading operations guarantee.\<close>

definition keeps_registry :: "store \<Rightarrow> store \<Rightarrow> bool" where
  "keeps_registry s t \<longleftrightarrow> store_wf t \<and> registry t = registry s"

lemma keeps_same: "store_wf s \<Longrightarrow> same_dirs s t \<Longrightarrow> keeps_registry s t"
  by (simp add: keeps_registry_def same_dirs_wf same_dirs_registry)

lemma keeps_refl: "store_wf s \<Longrightarrow> keeps_registry s s"
  by (simp add: keeps_registry_def)

lemma keeps_trans: "keeps_registry s t \<Longrightarrow> keeps_registry t u \<Longrightarrow> keeps_registry s u"
  by (simp add: keeps_registry_def)

lemma keeps_wf: "keeps_registry s t \<Longrightarrow> store_wf t"
  by (simp add: keeps_registry_def)

text \<open>A directory stays where it is while its files are written.\<close>

lemma lookup_in_namespace: "thread_namespace n \<Longrightarrow> namespace_of b = n \<Longrightarrow> dirs n s = (if b then st_archive s else st_active s)"
  by (auto simp: namespace_of_def)

lemma namespace_thread [simp]: "thread_namespace (namespace_of b)"
  by (simp add: namespace_of_def)

lemma persist_projection:
  assumes "persistProjectionValueLocked p t = (r, t')"
  shows "th_id t' = th_id t \<and> th_state t' = th_state t \<and>
    (tf_projection (th_files t') = tf_projection (th_files t) \<and> r \<noteq> Inr ()
     \<or> tf_projection (th_files t') = ProjectionDoc p \<and> validateProjectionMetadata p (th_id t))"
proof (cases "validateProjectionMetadata p (th_id t)")
  case True
  from assms True show ?thesis by (cases rule: persist_cases) (use True in auto)
qed (use assms in \<open>auto simp: persistProjectionValueLocked_def\<close>)

lemma read_doc: "tf_projection fs = ProjectionDoc p \<Longrightarrow> validateProjectionMetadata p i \<Longrightarrow> readProjectionFile i fs = Inr p"
  by (simp add: readProjectionFile_def)

text \<open>Running an operation that may replace the document by \<open>q\<close>.\<close>

lemma on_thread_registry:
  assumes "store_wf s" "thread_namespace n" "map_of (dirs n s) (th_id t) = Some d" "ValidID (th_id t)"
    and "on_thread n f t s = (r, t1, u)"
    and "f (t\<lparr>th_files := (td_files d)\<lparr>tf_io := st_io s\<rparr>\<rparr>) = (r0, t1) \<Longrightarrow>
      tf_projection (th_files t1) = tf_projection (td_files d) \<and> r0 \<noteq> Inr ()
      \<or> tf_projection (th_files t1) = ProjectionDoc q \<and> validateProjectionMetadata q (th_id t)"
    and "r0 = fst (f (t\<lparr>th_files := (td_files d)\<lparr>tf_io := st_io s\<rparr>\<rparr>))"
  shows "store_wf u" "registry u = registry s \<and> r \<noteq> Inr () \<or> registry u = (registry s)(th_id t \<mapsto> identity_of q)"
    and "\<exists>d'. map_of (dirs n u) (th_id t) = Some d'"
proof -
  have f: "f (t\<lparr>th_files := (td_files d)\<lparr>tf_io := st_io s\<rparr>\<rparr>) = (r0, t1)" "r = map_sum ThreadFailed id r0"
    "u = put_files n (th_id t) (th_files t1) s"
    using assms(3,5,7) by (auto simp: on_thread_def Let_def split: prod.splits)
  have rr: "r0 \<noteq> Inr () \<Longrightarrow> r \<noteq> Inr ()" using f(2) by (cases r0) auto
  from assms(6)[OF f(1)]
  have "store_wf u \<and> (registry u = registry s \<and> r \<noteq> Inr () \<or> registry u = (registry s)(th_id t \<mapsto> identity_of q))"
  proof
    assume a: "tf_projection (th_files t1) = tf_projection (td_files d) \<and> r0 \<noteq> Inr ()"
    show ?thesis using put_files_same[OF assms(1-4), of "th_files t1"] a rr f(3) by simp
  next
    assume a: "tf_projection (th_files t1) = ProjectionDoc q \<and> validateProjectionMetadata q (th_id t)"
    from put_files_wf[OF assms(1-4) read_doc[OF conjunct1[OF a] conjunct2[OF a]]] f(3) show ?thesis by simp
  qed
  then show "store_wf u" "registry u = registry s \<and> r \<noteq> Inr () \<or> registry u = (registry s)(th_id t \<mapsto> identity_of q)"
    by blast+
  show "\<exists>d'. map_of (dirs n u) (th_id t) = Some d'" using put_at(1)[OF assms(3)] f(3) by blast
qed

lemma mutate_projection:
  assumes "mutateProjectionLocked now change t = (r, t1)"
    and "q = advanceProjectionRevision (truncate_ms now) (change (truncate_ms now) (cloneProjection (th_projection t)))"
  shows "th_id t1 = th_id t" "tf_projection (th_files t1) = tf_projection (th_files t) \<and> r \<noteq> Inr ()
      \<or> tf_projection (th_files t1) = ProjectionDoc q \<and> validateProjectionMetadata q (th_id t)"
proof -
  have "th_id t1 = th_id t \<and> (tf_projection (th_files t1) = tf_projection (th_files t) \<and> r \<noteq> Inr ()
      \<or> tf_projection (th_files t1) = ProjectionDoc q \<and> validateProjectionMetadata q (th_id t))"
  proof (cases "th_closed t \<or> ensureProjectionCurrentLocked t \<noteq> None \<or> \<not> validateProjectionMetadata q (th_id t)")
    case True
    then show ?thesis using assms by (auto simp: mutateProjectionLocked_def Let_def split: option.splits if_splits)
  next
    case False
    obtain r1 t2 where p: "persistProjectionValueLocked q t = (r1, t2)" by fastforce
    have "r = r1 \<and> (t1 = t2 \<or> r1 = Inr () \<and> (\<exists>st. t1 = refreshPublicLocked (t2\<lparr>th_state := st\<rparr>)))"
      using False assms p by (cases r1) (auto simp: mutateProjectionLocked_def Let_def)
    then show ?thesis using persist_projection[OF p] by (auto simp: refreshPublicLocked_def)
  qed
  then show "th_id t1 = th_id t" "tf_projection (th_files t1) = tf_projection (th_files t) \<and> r \<noteq> Inr ()
      \<or> tf_projection (th_files t1) = ProjectionDoc q \<and> validateProjectionMetadata q (th_id t)" by blast+
qed

section \<open>The documents of a store\<close>

definition docs :: "(string \<times> thread_dir) list \<Rightarrow> projection list" where
  "docs ds = map (\<lambda>(i, d). doc_of i d) (filter (\<lambda>x. ValidID (fst x)) ds)"

definition in_place :: "bool \<Rightarrow> (string \<times> thread_dir) list \<Rightarrow> bool" where
  "in_place b ds \<longleftrightarrow> (\<forall>i d. (i, d) \<in> set ds \<longrightarrow> ValidID i \<longrightarrow> (p_retention_state (doc_of i d) = RetentionArchived) = b)"

text \<open>Every directory lies in the namespace its document names.\<close>

definition settled_layout :: "store \<Rightarrow> bool" where
  "settled_layout s \<longleftrightarrow> in_place False (st_active s) \<and> in_place True (st_archive s)"

lemma scan_dirs_Inr: "scan_dirs b seen ds = Inr ps \<Longrightarrow> ps = docs ds \<and> in_place b ds"
proof (induction ds arbitrary: seen ps)
  case (Cons x ds)
  obtain i d where x: "x = (i, d)" by fastforce
  show ?case
  proof (cases "ValidID i")
    case True
    with Cons.prems x obtain p qs where p: "readProjectionFile i (td_files d) = Inr p"
      "(p_retention_state p = RetentionArchived) = b" "scan_dirs b (i # seen) ds = Inr qs" "ps = p # qs"
      by (auto split: if_splits sum.splits)
    then show ?thesis using Cons.IH[OF p(3)] x True by (auto simp: docs_def in_place_def doc_of_def)
  next
    case False
    then show ?thesis using Cons x by (auto simp: docs_def in_place_def)
  qed
qed (simp add: docs_def in_place_def)

lemma scan_dirs_ok:
  "distinct (map fst ds) \<Longrightarrow> set seen \<inter> keys ds = {} \<Longrightarrow> \<forall>x \<in> set ds. dir_ok x \<Longrightarrow> in_place b ds \<Longrightarrow>
   scan_dirs b seen ds = Inr (docs ds)"
proof (induction ds arbitrary: seen)
  case (Cons x ds)
  obtain i d where x: "x = (i, d)" by fastforce
  have "set (i # seen) \<inter> keys ds = {}" "in_place b ds" using Cons.prems x by (auto simp: in_place_def)
  with Cons have rest: "scan_dirs b (i # seen) ds = Inr (docs ds)" "scan_dirs b seen ds = Inr (docs ds)" by auto
  show ?case
  proof (cases "ValidID i")
    case True
    then have "readProjectionFile i (td_files d) = Inr (doc_of i d)" "(p_retention_state (doc_of i d) = RetentionArchived) = b"
      using Cons.prems(3,4) x readable_doc[of i d] by (auto simp: dir_ok_def in_place_def)
    moreover have "i \<notin> set seen" using Cons.prems(2) x by auto
    ultimately show ?thesis using rest True by (simp add: x docs_def)
  next
    case False
    then show ?thesis using rest by (simp add: x docs_def)
  qed
qed (simp add: docs_def)

lemma docs_append: "docs (xs @ ys) = docs xs @ docs ys"
  by (simp add: docs_def)

lemma lookup_iff: "store_wf s \<Longrightarrow> lookup s i = Some d \<longleftrightarrow> (i, d) \<in> set (thread_dirs s)"
proof
  assume wf: "store_wf s" and "(i, d) \<in> set (thread_dirs s)"
  then consider "(i, d) \<in> set (st_active s)" | "(i, d) \<in> set (st_archive s)" by auto
  then show "lookup s i = Some d"
  proof cases
    case 1
    with wf have "map_of (dirs NsActive s) i = Some d" by (simp add: store_wf_def)
    from lookup_dir[OF wf _ this] show ?thesis by simp
  next
    case 2
    with wf have "map_of (dirs NsArchive s) i = Some d" by (simp add: store_wf_def)
    from lookup_dir[OF wf _ this] show ?thesis by simp
  qed
qed (rule lookup_in)

lemma readable_id: "readable i d \<Longrightarrow> p_thread_id (doc_of i d) = i \<and> validateProjectionMetadata (doc_of i d) i"
  by (auto simp: readable_def doc_of_def readProjectionFile_def validateProjectionMetadata_def identity_ok_def
      split: projection_file.splits if_splits)

lemma docs_member:
  assumes "store_wf s" "p \<in> set (docs (thread_dirs s))"
  obtains i d where "lookup s i = Some d" "ValidID i" "p = doc_of i d" "p_thread_id p = i"
    "validateProjectionMetadata p i"
proof -
  from assms(2) have "\<exists>x \<in> set (thread_dirs s). ValidID (fst x) \<and> p = doc_of (fst x) (snd x)"
    by (auto simp: docs_def)
  then obtain i d where x: "(i, d) \<in> set (thread_dirs s)" "ValidID i" "p = doc_of i d" by force
  then have l: "lookup s i = Some d" using lookup_iff[OF assms(1)] by blast
  from readable_id[OF wf_readable[OF assms(1) l x(2)]] x l that show ?thesis by blast
qed

lemma registry_docs:
  assumes "store_wf s"
  shows "distinct (map p_thread_id (docs (thread_dirs s)))" "registry s = registry_of (docs (thread_dirs s))"
proof -
  have ids: "map p_thread_id (docs ds) = map fst (filter (\<lambda>x. ValidID (fst x)) ds)"
    if "\<forall>x \<in> set ds. dir_ok x" for ds
    using that by (induction ds) (auto simp: docs_def dir_ok_def readable_id)
  have "\<forall>x \<in> set (thread_dirs s). dir_ok x" "distinct (map fst (thread_dirs s))" using assms unfolding store_wf_def by blast+
  then show d: "distinct (map p_thread_id (docs (thread_dirs s)))" by (simp only: ids distinct_map_filter)
  have "registry s i = Some x \<longleftrightarrow> registry_of (docs (thread_dirs s)) i = Some x" for i x
  proof
    assume "registry s i = Some x"
    then obtain d0 where l: "lookup s i = Some d0" "ValidID i" "x = identity_of (doc_of i d0)"
      by (auto simp: registry_def split: if_splits)
    then have "doc_of i d0 \<in> set (docs (thread_dirs s))"
      using lookup_iff[OF assms] unfolding docs_def by (force simp: image_iff)
    then show "registry_of (docs (thread_dirs s)) i = Some x"
      using registry_of_known[OF d] l readable_id[OF wf_readable[OF assms l(1,2)]] by blast
  next
    assume "registry_of (docs (thread_dirs s)) i = Some x"
    then obtain p where p: "p \<in> set (docs (thread_dirs s))" "p_thread_id p = i" "x = identity_of p"
      using registry_of_known[OF d] by blast
    from p(1) show "registry s i = Some x"
      by (rule docs_member[OF assms]) (use p(2,3) in \<open>auto simp: registry_def\<close>)
  qed
  then show "registry s = registry_of (docs (thread_dirs s))"
    by (intro ext option.expand) (metis not_None_eq option.sel)+
qed

lemma scan_Inr: "scanProjectionFilesLocked fr s = Inr ps \<Longrightarrow> ps = docs (thread_dirs s) \<and> settled_layout s"
  by (auto simp: scanProjectionFilesLocked_def settled_layout_def docs_append dest!: scan_dirs_Inr
      split: sum.splits option.splits)

lemma scan_ok:
  assumes "store_ok fr s" "settled_layout s"
  shows "scanProjectionFilesLocked fr s = Inr (docs (thread_dirs s))"
proof -
  have wf: "store_wf s" using assms(1) by (simp add: store_ok_def)
  then have l: "distinct (map fst (st_active s))" "distinct (map fst (st_archive s))"
    "keys (st_active s) \<inter> keys (st_archive s) = {}" "\<forall>x \<in> set (st_active s). dir_ok x" "\<forall>x \<in> set (st_archive s). dir_ok x"
    by (simp_all add: wf_split)
  have a: "scan_dirs False [] (st_active s) = Inr (docs (st_active s))"
    using l assms(2) by (intro scan_dirs_ok) (simp_all add: settled_layout_def)
  have b: "scan_dirs True (filter ValidID (map fst (st_active s))) (st_archive s) = Inr (docs (st_archive s))"
    using l assms(2) by (intro scan_dirs_ok) (auto simp: settled_layout_def)
  have "validateProjectionSet fr (docs (thread_dirs s)) = None"
    by (rule ordered_registry_validates) (use registry_docs[OF wf] assms(1) in \<open>simp_all add: store_ok_def\<close>)
  with a b show ?thesis by (simp add: scanProjectionFilesLocked_def docs_append)
qed

section \<open>The index names the registry\<close>

lemma list_all2_member: "list_all2 P xs ys \<Longrightarrow> x \<in> set xs \<Longrightarrow> \<exists>y \<in> set ys. P x y"
  "list_all2 P xs ys \<Longrightarrow> y \<in> set ys \<Longrightarrow> \<exists>x \<in> set xs. P x y"
  by (induction rule: list_all2_induct) auto

lemma set_sortIndexEntries [simp]: "set (sortIndexEntries es) = set es"
  by (simp add: sort_key)

lemma load_entries:
  assumes "loadOrRebuildIndexLocked fr now s = (Inr ix, t)"
  shows "\<exists>ps. scanProjectionFilesLocked fr s = Inr ps
    \<and> list_all2 same_entry (entries ix) (sortIndexEntries (map indexEntryFromProjection ps))"
proof -
  obtain ps where ps: "scanProjectionFilesLocked fr s = Inr ps"
    using assms by (auto simp: loadOrRebuildIndexLocked_def split: sum.splits)
  show ?thesis
  proof (cases "index_current (st_index s) ps")
    case None
    then have "writeProjectionIndexLocked now ps (known_revision (st_index s)) s = (Inr ix, t)"
      using assms ps by (simp add: loadOrRebuildIndexLocked_def split: if_splits)
    then have "entries ix = sortIndexEntries (map indexEntryFromProjection ps)"
      by (auto simp: writeProjectionIndexLocked_def writeIndexLocked_def entries_def sort_key Let_def
          split: prod.splits sum.splits if_splits)
    then show ?thesis using ps by (simp add: list.rel_refl)
  next
    case (Some ix')
    then have "ix = ix'" using assms ps by (simp add: loadOrRebuildIndexLocked_def)
    then show ?thesis using Some ps
      by (auto simp: index_current_def indexMatchesProjections_def entries_def split: index_file.splits if_splits option.splits)
  qed
qed

lemma lifecycle_states: "validateProjectionMetadata p i \<Longrightarrow>
    (p_retention_state p = RetentionActive) = (p_retention_state p \<noteq> RetentionArchived)"
  by (auto simp: validateProjectionMetadata_def times_ok_def validateProjectionLifecycle_def
      split: retention_state.splits)

lemma index_registry:
  assumes "store_wf s" "loadOrRebuildIndexLocked fr now s = (Inr ix, t)"
  shows "e \<in> set (entries ix) \<Longrightarrow> registry s (ie_thread_id e)
      = Some (ie_alias e, ie_parent_thread_id e, ie_retention_state e = RetentionArchived)
      \<and> (ie_retention_state e = RetentionActive) = (ie_retention_state e \<noteq> RetentionArchived)"
    and "registry s i = Some (a, p, b) \<Longrightarrow> \<exists>e \<in> set (entries ix). ie_thread_id e = i \<and> ie_alias e = a
      \<and> ie_parent_thread_id e = p \<and> (ie_retention_state e = RetentionArchived) = b
      \<and> (ie_retention_state e = RetentionActive) = (\<not> b)"
    and "settled_layout s"
proof -
  obtain ps where ps: "scanProjectionFilesLocked fr s = Inr ps"
    "list_all2 same_entry (entries ix) (sortIndexEntries (map indexEntryFromProjection ps))"
    using load_entries[OF assms(2)] by blast
  then have d: "ps = docs (thread_dirs s)" and lay: "settled_layout s" using scan_Inr by blast+
  show "settled_layout s" by (rule lay)
  show "registry s (ie_thread_id e) = Some (ie_alias e, ie_parent_thread_id e, ie_retention_state e = RetentionArchived)
      \<and> (ie_retention_state e = RetentionActive) = (ie_retention_state e \<noteq> RetentionArchived)"
    if "e \<in> set (entries ix)"
  proof -
    from list_all2_member(1)[OF ps(2) that] obtain p where p: "p \<in> set ps" "same_entry e (indexEntryFromProjection p)" by auto
    from p(1)[unfolded d] show ?thesis
      by (rule docs_member[OF assms(1)])
        (use same_entry_fields[OF p(2)] lifecycle_states[of p] in
          \<open>auto simp: registry_def indexEntryFromProjection_def identity_of_def\<close>)
  qed
  show "\<exists>e \<in> set (entries ix). ie_thread_id e = i \<and> ie_alias e = a \<and> ie_parent_thread_id e = p
      \<and> (ie_retention_state e = RetentionArchived) = b \<and> (ie_retention_state e = RetentionActive) = (\<not> b)"
    if "registry s i = Some (a, p, b)"
  proof -
    from that registry_of_known[OF registry_docs(1)[OF assms(1)]] obtain q where
      q: "q \<in> set ps" "p_thread_id q = i" "(a, p, b) = identity_of q"
      unfolding registry_docs(2)[OF assms(1)] d by blast
    then have "indexEntryFromProjection q \<in> set (sortIndexEntries (map indexEntryFromProjection ps))" by simp
    from list_all2_member(2)[OF ps(2) this] obtain e where e: "e \<in> set (entries ix)" "same_entry e (indexEntryFromProjection q)" by blast
    have "validateProjectionMetadata q (p_thread_id q)"
      by (rule docs_member[OF assms(1) q(1)[unfolded d]]) auto
    from same_entry_fields[OF e(2)] lifecycle_states[OF this] q e(1) show ?thesis
      by (intro bexI[of _ e]) (auto simp: indexEntryFromProjection_def identity_of_def)
  qed
qed

end
