(* ===== verification/ThreadRetentionOps.thy ===== *)
theory ThreadRetentionOps
  imports ThreadRetentionSteps
begin

text \<open>
  The operations of the Thread store, one by one: \<open>outcome s r u R\<close> says that the operation left the
  store readable and either did nothing to the registry and reported an error, or made it \<open>R\<close>.
\<close>

definition outcome :: "store \<Rightarrow> store_error + 'a \<Rightarrow> store \<Rightarrow> registry \<Rightarrow> bool" where
  "outcome s r u R \<longleftrightarrow> store_wf u \<and> (registry u = registry s \<and> isl r \<or> registry u = R)"

lemma outcome_keeps: "keeps_registry s u \<Longrightarrow> isl r \<Longrightarrow> outcome s r u R"
  by (simp add: outcome_def keeps_registry_def)

lemma outcome_after: "keeps_registry s t \<Longrightarrow> outcome t r u R \<Longrightarrow> outcome s r u R"
  by (simp add: outcome_def keeps_registry_def)

lemma outcome_done: "store_wf u \<Longrightarrow> registry u = R \<Longrightarrow> outcome s r u R"
  by (simp add: outcome_def)

text \<open>The operations on the index only.\<close>

lemma load_keeps: "keeps_registry s t \<Longrightarrow> loadOrRebuildIndexLocked fr now t = (r, u) \<Longrightarrow> keeps_registry s u"
  by (blast intro: keeps_trans keeps_same keeps_wf load_same)

lemma update_keeps: "keeps_registry s t \<Longrightarrow> updateProjectionLocked fr now t = (r, u) \<Longrightarrow> keeps_registry s u"
  by (blast intro: keeps_trans keeps_same keeps_wf index_update_same)

lemma rename_keeps:
  assumes "store_wf s" "durableRename n i m i s = (r, t)" "thread_namespace n" "thread_namespace m" "i \<noteq> MainID"
  shows "keeps_registry s t"
  using rename_within(1)[OF assms] registry_cong[OF rename_within(2)[OF assms]] by (simp add: keeps_registry_def)

section \<open>Opening\<close>

lemma renewal_recover_ok: "renewal_ok d \<Longrightarrow> renewal_ok (snd (recoverContextRenewalFiles g d))"
  using recover_keeps[of g "\<lambda>g. content g d" "d_bad_parents d" d] by (simp add: keeps_gen)

lemma finish_open_registry:
  assumes "store_wf s" "thread_namespace n" "map_of (dirs n s) (th_id t) = Some d" "ValidID (th_id t)"
    and "registry s (th_id t) = Some (identity_of (th_projection t))" "finish_openLocked fr now n b t s = (r, u)"
  shows "keeps_registry s u"
    and "r = Inr t' \<Longrightarrow> th_id t' = th_id t \<and> th_state t' = th_state t \<and> (\<exists>d'. map_of (dirs n u) (th_id t) = Some d')"
proof -
  obtain r1 t1 s1 where p: "(if b then on_thread n persistProjectionLocked t s else (Inr (), t, s)) = (r1, t1, s1)"
    by (metis prod_cases3)
  have s1: "keeps_registry s s1 \<and> th_id t1 = th_id t \<and> th_state t1 = th_state t \<and> (\<exists>d'. map_of (dirs n s1) (th_id t) = Some d')"
  proof (cases b)
    case True
    let ?t = "t\<lparr>th_files := (td_files d)\<lparr>tf_io := st_io s\<rparr>\<rparr>"
    have o: "on_thread n persistProjectionLocked t s = (r1, t1, s1)" using p True by simp
    have f: "persistProjectionLocked ?t = (fst (persistProjectionLocked ?t), t1)"
      using o assms(3) by (auto simp: on_thread_def Let_def split: prod.splits)
    note pp = persist_projection[OF f[unfolded persistProjectionLocked_def]]
    have "th_id t1 = th_id t" "th_state t1 = th_state t" using pp by simp_all
    moreover have q: "tf_projection (th_files t1) = tf_projection (td_files d) \<and> fst (persistProjectionLocked ?t) \<noteq> Inr ()
      \<or> tf_projection (th_files t1) = ProjectionDoc (th_projection t) \<and> validateProjectionMetadata (th_projection t) (th_id t)"
      using pp by (simp add: persistProjectionLocked_def)
    from on_thread_registry[OF assms(1-4) o, where q = "th_projection t", OF q refl]
    have "store_wf s1" "registry s1 = registry s \<or> registry s1 = (registry s)(th_id t \<mapsto> identity_of (th_projection t))"
      "\<exists>d'. map_of (dirs n s1) (th_id t) = Some d'" by blast+
    moreover have "(registry s)(th_id t \<mapsto> identity_of (th_projection t)) = registry s" using assms(5) by auto
    ultimately show ?thesis by (auto simp: keeps_registry_def)
  qed (use p assms(1,3) in \<open>auto intro: keeps_refl\<close>)
  show "keeps_registry s u"
  proof (cases r1)
    case (Inr x)
    obtain r2 s2 where l: "loadOrRebuildIndexLocked fr now s1 = (r2, s2)" by fastforce
    then have "u = s2" using assms(6) p Inr by (auto simp: finish_openLocked_def split: sum.splits)
    with l s1 show ?thesis using load_keeps by blast
  qed (use assms(6) p s1 in \<open>simp add: finish_openLocked_def\<close>)
  show "th_id t' = th_id t \<and> th_state t' = th_state t \<and> (\<exists>d'. map_of (dirs n u) (th_id t) = Some d')" if "r = Inr t'"
  proof -
    have "t' = t1" "same_dirs s1 u" using assms(6) p that load_same
      by (auto simp: finish_openLocked_def split: prod.splits sum.splits)
    then show ?thesis using s1 by (simp add: same_dirs_dirs)
  qed
qed

lemma open_registry:
  assumes "store_wf s" "openLocked fr now b i s = (r, u)"
  shows "keeps_registry s u"
    and "r = Inr t \<Longrightarrow> th_id t = i \<and> ValidID i \<and> (\<exists>d. map_of (dirs (namespace_of b) u) i = Some d)
      \<and> registry s i = Some (identity_of (th_projection t))
      \<and> (p_retention_state (th_projection t) = RetentionArchived) = b"
proof -
  let ?n = "namespace_of b"
  have "keeps_registry s u \<and> (\<forall>t. r = Inr t \<longrightarrow> th_id t = i \<and> ValidID i \<and> (\<exists>d. map_of (dirs ?n u) i = Some d)
      \<and> registry s i = Some (identity_of (th_projection t)) \<and> (p_retention_state (th_projection t) = RetentionArchived) = b)"
  proof (cases "\<not> ValidID i \<or> map_of (dirs ?n s) i = None")
    case True
    then have "u = s \<and> isl r"
    proof
      assume "\<not> ValidID i"
      then show ?thesis using assms(2) by (auto simp: openLocked_def Let_def)
    next
      assume "map_of (dirs ?n s) i = None"
      then show ?thesis using assms(2) by (cases "ValidID i") (auto simp: openLocked_def Let_def)
    qed
    then show ?thesis using keeps_refl[OF assms(1)] by auto
  next
    case False
    then obtain d where d: "ValidID i" "map_of (dirs ?n s) i = Some d" by blast
    have "readable i d" by (rule wf_readable[OF assms(1) lookup_dir[OF assms(1) namespace_thread d(2)] d(1)])
    then have read: "readProjectionFile i (td_files d) = Inr (doc_of i d)" by (rule readable_doc)
    let ?p = "doc_of i d"
    have reg: "registry s i = Some (identity_of ?p)" by (rule registry_at[OF assms(1) namespace_thread d(2,1)])
    show ?thesis
    proof (cases "(p_retention_state ?p = RetentionArchived) = b")
      case False
      then show ?thesis using assms d read keeps_refl by (auto simp: openLocked_def Let_def)
    next
      case place: True
      obtain r1 fs where o: "openEventStore now i ?p ((td_files d)\<lparr>tf_io := st_io s\<rparr>) = (r1, fs)" by fastforce
      let ?s1 = "put_files ?n i fs s"
      have fs: "tf_projection fs = tf_projection (td_files d)" using open_projection[OF o] by simp
      have s1: "keeps_registry s ?s1" using put_files_same[OF assms(1) namespace_thread d(2,1) fs] by (simp add: keeps_registry_def)
      show ?thesis
      proof (cases r1)
        case (Inl e)
        then show ?thesis using assms(2) d read place o s1 by (auto simp: openLocked_def Let_def)
      next
        case (Inr tb)
        obtain t0 rec where t0: "tb = (t0, rec)" by fastforce
        note ot = open_thread[OF o[unfolded Inr t0]]
        obtain r2 rd where rd: "recoverContextRenewalFiles (gp_id (p_current_generation ?p)) ((td_renewal d)\<lparr>d_io := st_io ?s1\<rparr>) = (r2, rd)"
          by fastforce
        let ?s2 = "put_renewal ?n i rd ?s1"
        have d1: "map_of (dirs ?n ?s1) i = Some (d\<lparr>td_files := fs\<lparr>tf_io := []\<rparr>\<rparr>)" by (rule put_at(1)[OF d(2)])
        have "renewal_ok ((td_renewal d)\<lparr>d_io := st_io ?s1\<rparr>)"
          using wf_renewal[OF assms(1) lookup_dir[OF assms(1) namespace_thread d(2)]] by simp
        from renewal_recover_ok[OF this, of "gp_id (p_current_generation ?p)"] rd have "renewal_ok rd" by simp
        from put_renewal_wf[OF keeps_wf[OF s1] namespace_thread d1 d(1) this]
        have s2: "keeps_registry s ?s2" using s1 by (simp add: keeps_registry_def)
        show ?thesis
        proof (cases r2)
          case (Inl e)
          then show ?thesis using assms(2) d read place o \<open>r1 = Inr tb\<close> t0 rd s2 by (auto simp: openLocked_def Let_def)
        next
          case (Inr x)
          let ?t = "refreshPublicLocked t0"
          have fin: "finish_openLocked fr now ?n rec ?t ?s2 = (r, u)"
            using assms(2) d read place o \<open>r1 = Inr tb\<close> t0 rd Inr by (simp add: openLocked_def Let_def)
          have id: "th_id ?t = i" "th_state ?t = th_state t0" using ot(1) by (simp_all add: refreshPublicLocked_def)
          have "registry ?s2 (th_id ?t) = Some (identity_of (th_projection ?t))"
            using s2 reg ot(3) id by (simp add: keeps_registry_def same_identity_of)
          note f = finish_open_registry[OF keeps_wf[OF s2] namespace_thread _ _ this fin]
          have at: "map_of (dirs ?n ?s2) (th_id ?t) = Some (d\<lparr>td_files := fs\<lparr>tf_io := []\<rparr>, td_renewal := rd\<lparr>d_io := []\<rparr>\<rparr>)"
            using put_at(2)[OF d1] id(1) by simp
          have "keeps_registry s u" using keeps_trans[OF s2 f(1)[OF at]] id(1) d(1) by simp
          moreover have "th_id t = i \<and> ValidID i \<and> (\<exists>d. map_of (dirs ?n u) i = Some d)
              \<and> registry s i = Some (identity_of (th_projection t)) \<and> (p_retention_state (th_projection t) = RetentionArchived) = b"
            if "r = Inr t" for t
            using f(2)[OF at _ that] id d(1) reg ot(3) place by (auto simp: same_identity_def identity_of_def)
          ultimately show ?thesis by blast
        qed
      qed
    qed
  qed
  then show "keeps_registry s u"
    "r = Inr t \<Longrightarrow> th_id t = i \<and> ValidID i \<and> (\<exists>d. map_of (dirs (namespace_of b) u) i = Some d)
      \<and> registry s i = Some (identity_of (th_projection t))
      \<and> (p_retention_state (th_projection t) = RetentionArchived) = b" by blast+
qed

section \<open>Archiving and restoring\<close>

lemma mutated_identity:
  "identity_of (advanceProjectionRevision t (archive_projection t' (cloneProjection p))) = (p_alias p, p_parent_thread_id p, True)"
  "identity_of (advanceProjectionRevision t (unarchive_projection (cloneProjection p))) = (p_alias p, p_parent_thread_id p, False)"
  by (simp_all add: identity_of_def advanceProjectionRevision_def archive_projection_def unarchive_projection_def cloneProjection_def)

text \<open>A handle writes a changed document, and the directory then moves to the other namespace.\<close>

lemma mutate_registry:
  assumes "store_wf s" "thread_namespace n" "map_of (dirs n s) (th_id t) = Some d" "ValidID (th_id t)"
    and "on_thread n (mutateProjectionLocked now change) t s = (r, t1, u)"
    and "q = advanceProjectionRevision (truncate_ms now) (change (truncate_ms now) (cloneProjection (th_projection t)))"
  shows "outcome s r u ((registry s)(th_id t \<mapsto> identity_of q))"
proof -
  let ?t = "t\<lparr>th_files := (td_files d)\<lparr>tf_io := st_io s\<rparr>\<rparr>"
  let ?m = "mutateProjectionLocked now change ?t"
  have f: "?m = (fst ?m, t1)" "r = map_sum ThreadFailed id (fst ?m)"
    using assms(3,5) by (auto simp: on_thread_def Let_def split: prod.splits)
  have "q = advanceProjectionRevision (truncate_ms now) (change (truncate_ms now) (cloneProjection (th_projection ?t)))"
    using assms(6) by simp
  from mutate_projection(2)[OF f(1) this]
  have q: "tf_projection (th_files t1) = tf_projection (td_files d) \<and> fst ?m \<noteq> Inr ()
      \<or> tf_projection (th_files t1) = ProjectionDoc q \<and> validateProjectionMetadata q (th_id t)" by simp
  from on_thread_registry[OF assms(1-5), where q = q, OF q refl]
  have "store_wf u" "registry u = registry s \<and> r \<noteq> Inr () \<or> registry u = (registry s)(th_id t \<mapsto> identity_of q)" by blast+
  moreover have "r \<noteq> Inr () \<Longrightarrow> isl r" by (cases r) auto
  ultimately show ?thesis by (auto simp: outcome_def)
qed

lemma outcome_error: "outcome s (Inl e) u R \<Longrightarrow> isl r \<Longrightarrow> outcome s r u R"
  by (simp add: outcome_def)

lemma outcome_keep: "outcome s (Inr x) t R \<Longrightarrow> keeps_registry t u \<Longrightarrow> outcome s r u R"
  by (simp add: outcome_def keeps_registry_def)

text \<open>A Thread is renamed where its directory is.\<close>

definition renamed :: "string \<Rightarrow> string \<Rightarrow> registry \<Rightarrow> registry" where
  "renamed i a R = R(i := map_option (\<lambda>(_, p, b). (a, p, b)) (R i))"

lemma alias_free:
  "\<not> alias_conflict fr wanted k es \<Longrightarrow> e \<in> set es \<Longrightarrow> \<not> EqualFold fr (ie_thread_id e) wanted
    \<and> (ie_thread_id e \<noteq> k \<longrightarrow> \<not> EqualFold fr (ie_alias e) wanted)"
  by (induction es) (auto split: if_splits)

lemma available_step:
  assumes "store_wf s" "loadOrRebuildIndexLocked fr now s = (Inr ix, t)" "validateAliasAvailable fr ix wanted i = None"
    and "registry s i = Some (a, p, b)"
  shows "registry_step fr (registry s) (renamed i wanted (registry s))"
proof -
  have free: "wanted \<noteq> []" "\<not> alias_conflict fr wanted i (entries ix)"
    using assms(3) by (auto simp: validateAliasAvailable_def split: if_splits)
  have other: "\<not> EqualFold fr wanted j \<and> (j \<noteq> i \<longrightarrow> \<not> EqualFold fr wanted x)"
    if "registry s j = Some (x, q, c)" for j x q c
  proof -
    from index_registry(2)[OF assms(1,2) that] obtain e where e: "e \<in> set (entries ix)" "ie_thread_id e = j" "ie_alias e = x"
      by blast
    from alias_free[OF free(2) e(1)] e show ?thesis by (auto dest: EqualFold_sym)
  qed
  have "registry_step fr (registry s) ((registry s)(i \<mapsto> (wanted, p, b)))"
    by (rule registry_step.rename[where R = "registry s" and i = i and a = a and p = p and b = b and a' = wanted])
      (use assms(4) free(1) other in \<open>fastforce+\<close>)
  then show ?thesis using assms(4) by (simp add: renamed_def)
qed

lemma alias_registry:
  assumes "store_wf s" "alias_by_id fr now b wanted i s = (r, u)"
  shows "outcome s r u (renamed i wanted (registry s))"
    and "\<not> isl r \<or> registry u \<noteq> registry s \<Longrightarrow> registry_step fr (registry s) (renamed i wanted (registry s))"
proof -
  let ?n = "namespace_of b"
  let ?R = "renamed i wanted (registry s)"
  obtain r0 s1 where o: "openLocked fr now b i s = (r0, s1)" by fastforce
  note keep = open_registry(1)[OF assms(1) o]
  have same: "registry s1 = registry s" using keep by (simp add: keeps_registry_def)
  have fails: "outcome s r t ?R \<and> (\<not> isl r \<or> registry t \<noteq> registry s \<longrightarrow> registry_step fr (registry s) ?R)"
    if "keeps_registry s t" "isl r" for t using outcome_keeps[OF that] that by (simp add: keeps_registry_def)
  have "outcome s r u ?R \<and> (\<not> isl r \<or> registry u \<noteq> registry s \<longrightarrow> registry_step fr (registry s) ?R)"
  proof (cases r0)
    case (Inl e)
    then show ?thesis using assms(2) o fails[OF keep] by (auto simp: alias_by_id_def)
  next
    case (Inr t)
    note opened = open_registry(2)[OF assms(1) o Inr]
    have ap: "ApplyAlias_store fr now ?n wanted t s1 = (r, u)" using assms(2) o Inr by (simp add: alias_by_id_def)
    obtain r1 s2 where l: "loadOrRebuildIndexLocked fr now s1 = (r1, s2)" by fastforce
    have s2: "keeps_registry s s2" by (rule load_keeps[OF keep l])
    show ?thesis
    proof (cases "\<exists>ix. wanted \<noteq> [] \<and> r1 = Inr ix \<and> validateAliasAvailable fr ix wanted (th_id t) = None")
      case False
      then have "isl r \<and> (u = s1 \<or> u = s2)"
        using ap l by (auto simp: ApplyAlias_store_def split: if_splits sum.splits option.splits)
      then show ?thesis using fails keep s2 by blast
    next
      case True
      then obtain ix where ix: "wanted \<noteq> []" "r1 = Inr ix" "validateAliasAvailable fr ix wanted (th_id t) = None" by blast
      let ?p = "th_projection t"
      have reg: "registry s i = Some (p_alias ?p, p_parent_thread_id ?p, b)"
        using opened by (simp add: identity_of_def)
      have step: "registry_step fr (registry s) ?R"
        using available_step[OF keeps_wf[OF keep] l[unfolded ix(2)], of wanted i, unfolded same, OF _ reg] ix(3) opened by simp
      obtain d where d: "map_of (dirs ?n s2) (th_id t) = Some d"
        using opened same_dirs_dirs[OF load_same[OF l]] by auto
      obtain r2 t2 s3 where m: "on_thread ?n (mutateProjectionLocked now (\<lambda>_ p. p\<lparr>p_alias := wanted\<rparr>)) t s2 = (r2, t2, s3)"
        by (metis prod_cases3)
      have new: "identity_of (advanceProjectionRevision x (cloneProjection ?p\<lparr>p_alias := wanted\<rparr>)) = (wanted, p_parent_thread_id ?p, b)" for x
        using opened by (simp add: identity_of_def advanceProjectionRevision_def cloneProjection_def)
      from mutate_registry[OF keeps_wf[OF s2] namespace_thread d _ m refl] opened
      have "outcome s2 r2 s3 ((registry s2)(th_id t \<mapsto> (wanted, p_parent_thread_id ?p, b)))" by (simp add: new)
      moreover have "(registry s2)(th_id t \<mapsto> (wanted, p_parent_thread_id ?p, b)) = ?R"
        unfolding renamed_def reg using s2 opened by (simp add: keeps_registry_def)
      ultimately have o3: "outcome s r2 s3 ?R" using outcome_after[OF s2] by simp
      show ?thesis
      proof (cases r2)
        case e: (Inl e)
        then have "r = Inl e" "u = s3" using ap l ix m by (auto simp: ApplyAlias_store_def)
        then show ?thesis using outcome_error[OF o3[unfolded e], of r] step by simp
      next
        case ok: (Inr x)
        then have up: "updateProjectionLocked fr now s3 = (r, u)" using ap l ix m by (simp add: ApplyAlias_store_def)
        have "store_wf s3" using o3 by (simp add: outcome_def)
        from update_keeps[OF keeps_refl[OF this] up] show ?thesis using outcome_keep[OF o3[unfolded ok]] step by blast
      qed
    qed
  qed
  then show "outcome s r u ?R" "\<not> isl r \<or> registry u \<noteq> registry s \<Longrightarrow> registry_step fr (registry s) ?R" by blast+
qed

text \<open>The handler of the endpoint opens an active Thread and archives it.\<close>

definition archive_by_id :: "fold_table \<Rightarrow> instant \<Rightarrow> string \<Rightarrow> unit store_op" where
  "archive_by_id fr now i s = (case openLocked fr now False i s of
      (Inl e, s1) \<Rightarrow> (Inl e, s1) | (Inr t, s1) \<Rightarrow> ArchiveThread fr now t s1)"

definition flagged :: "string \<Rightarrow> bool \<Rightarrow> registry \<Rightarrow> registry" where
  "flagged i b R = R(i := map_option (\<lambda>(a, p, _). (a, p, b)) (R i))"

lemma archive_registry:
  assumes "store_wf s" "archive_by_id fr now i s = (r, u)"
  shows "outcome s r u (flagged i True (registry s))"
    and "\<not> isl r \<or> registry u \<noteq> registry s \<Longrightarrow> registry_step fr (registry s) (flagged i True (registry s))"
proof -
  obtain r0 s1 where o: "openLocked fr now False i s = (r0, s1)" by fastforce
  note keep = open_registry(1)[OF assms(1) o]
  have "outcome s r u (flagged i True (registry s)) \<and>
    (\<not> isl r \<or> registry u \<noteq> registry s \<longrightarrow> registry_step fr (registry s) (flagged i True (registry s)))"
  proof (cases r0)
    case (Inl e)
    then show ?thesis using assms(2) o keep by (auto simp: archive_by_id_def keeps_registry_def intro!: outcome_keeps)
  next
    case (Inr t)
    note opened = open_registry(2)[OF assms(1) o Inr]
    have arch: "ArchiveThread fr now t s1 = (r, u)" using assms(2) o Inr by (simp add: archive_by_id_def)
    show ?thesis
    proof (cases "th_id t = MainID \<or> busy (th_projection t)")
      case True
      then have "u = s1 \<and> isl r" using arch by (cases "th_id t = MainID") (auto simp: ArchiveThread_def)
      then show ?thesis using keep by (auto simp: keeps_registry_def intro!: outcome_keeps)
    next
      case False
      obtain r1 s2 where l: "loadOrRebuildIndexLocked fr now s1 = (r1, s2)" by fastforce
      have s2: "keeps_registry s s2" by (rule load_keeps[OF keep l])
      show ?thesis
      proof (cases r1)
        case (Inl e)
        then show ?thesis using arch l s2 False by (auto simp: ArchiveThread_def keeps_registry_def intro!: outcome_keeps)
      next
        case (Inr ix)
        let ?child = "\<lambda>e. ie_parent_thread_id e = th_id t \<and> ie_retention_state e = RetentionActive"
        show ?thesis
        proof (cases "find ?child (entries ix)")
          case (Some e)
          then show ?thesis using arch l s2 False Inr by (auto simp: ArchiveThread_def keeps_registry_def intro!: outcome_keeps)
        next
          case None
          have alone: "registry s j \<noteq> Some (a', i, False)" for j a'
          proof
            assume "registry s j = Some (a', i, False)"
            then have "registry s1 j = Some (a', i, False)" using keep by (simp add: keeps_registry_def)
            from index_registry(2)[OF keeps_wf[OF keep] l[unfolded Inr] this] obtain e where
              "e \<in> set (entries ix)" "ie_parent_thread_id e = i" "ie_retention_state e = RetentionActive" by auto
            with None opened show False by (simp add: find_None_iff)
          qed
          let ?p = "th_projection t"
          have reg: "registry s i = Some (p_alias ?p, p_parent_thread_id ?p, False)"
            using opened by (simp add: identity_of_def)
          have new: "(registry s)(i \<mapsto> (p_alias ?p, p_parent_thread_id ?p, True)) = flagged i True (registry s)"
            using reg by (simp add: flagged_def)
          have step: "registry_step fr (registry s) (flagged i True (registry s))"
            using registry_step.archive[of i "registry s" _ _ fr] False opened reg alone new by metis
          obtain d where d: "map_of (dirs NsActive s2) (th_id t) = Some d"
            using opened same_dirs_dirs[OF load_same[OF l]] by (auto simp: namespace_of_def)
          obtain r2 t2 s3 where m: "on_thread NsActive (mutateProjectionLocked now archive_projection) t s2 = (r2, t2, s3)"
            by (metis prod_cases3)
          from mutate_registry[OF keeps_wf[OF s2] _ d _ m refl] opened
          have o3: "outcome s2 r2 s3 (flagged i True (registry s))"
            using s2 new by (simp add: mutated_identity keeps_registry_def)
          have o3': "outcome s r2 s3 (flagged i True (registry s))" using outcome_after[OF s2 o3] .
          show ?thesis
          proof (cases r2)
            case e: (Inl e)
            then have "r = Inl e" "u = s3" using arch l False Inr None m by (auto simp: ArchiveThread_def)
            then show ?thesis using outcome_error[OF o3'[unfolded e], of r] step by simp
          next
            case ok: (Inr x)
            obtain r3 s4 where rn: "durableRename NsActive (th_id t) NsArchive (th_id t) s3 = (r3, s4)" by fastforce
            have s3: "store_wf s3" using o3 by (simp add: outcome_def)
            have s4: "keeps_registry s3 s4"
              by (rule rename_keeps[OF s3 rn]) (use False in simp_all)
            have "u = s4 \<or> updateProjectionLocked fr now s4 = (r, u)"
              using arch l False Inr None m ok rn by (cases r3) (auto simp: ArchiveThread_def)
            then have "keeps_registry s3 u" using s4 update_keeps by blast
            then show ?thesis using outcome_keep[OF o3'[unfolded ok]] step by blast
          qed
        qed
      qed
    qed
  qed
  then show "outcome s r u (flagged i True (registry s))"
    "\<not> isl r \<or> registry u \<noteq> registry s \<Longrightarrow> registry_step fr (registry s) (flagged i True (registry s))" by blast+
qed

lemma unarchive_registry:
  assumes "store_wf s" "Unarchive fr now i s = (r, u)"
  shows "outcome s r u (flagged i False (registry s))"
    and "\<not> isl r \<or> registry u \<noteq> registry s \<Longrightarrow> registry_step fr (registry s) (flagged i False (registry s))"
proof -
  have "outcome s r u (flagged i False (registry s)) \<and>
    (\<not> isl r \<or> registry u \<noteq> registry s \<longrightarrow> registry_step fr (registry s) (flagged i False (registry s)))"
  proof (cases "ValidWorkerID i")
    case False
    then show ?thesis using assms keeps_refl[OF assms(1)] by (auto simp: Unarchive_def intro!: outcome_keeps)
  next
    case worker: True
    obtain r0 s1 where o: "openLocked fr now True i s = (r0, s1)" by fastforce
    note keep = open_registry(1)[OF assms(1) o]
    show ?thesis
    proof (cases r0)
      case (Inl e)
      then show ?thesis using assms(2) o keep worker by (auto simp: Unarchive_def keeps_registry_def intro!: outcome_keeps)
    next
      case (Inr t)
      note opened = open_registry(2)[OF assms(1) o Inr]
      let ?p = "th_projection t"
      have reg: "registry s i = Some (p_alias ?p, p_parent_thread_id ?p, True)"
        using opened by (simp add: identity_of_def)
      have new: "(registry s)(i \<mapsto> (p_alias ?p, p_parent_thread_id ?p, False)) = flagged i False (registry s)"
        using reg by (simp add: flagged_def)
      have step: "registry_step fr (registry s) (flagged i False (registry s))"
        using registry_step.unarchive[where R = "registry s" and i = i and a = "p_alias ?p" and p = "p_parent_thread_id ?p"] reg new
        by simp
      obtain d where d: "map_of (dirs NsArchive s1) (th_id t) = Some d" using opened by (auto simp: namespace_of_def)
      obtain r2 t2 s2 where m: "on_thread NsArchive (mutateProjectionLocked now (\<lambda>_. unarchive_projection)) t s1 = (r2, t2, s2)"
        by (metis prod_cases3)
      from mutate_registry[OF keeps_wf[OF keep] _ d _ m refl] opened
      have "outcome s1 r2 s2 (flagged i False (registry s))"
        using keep new by (simp add: mutated_identity keeps_registry_def)
      then have o2: "outcome s r2 s2 (flagged i False (registry s))" "store_wf s2"
        using outcome_after[OF keep] by (auto simp: outcome_def)
      show ?thesis
      proof (cases r2)
        case e: (Inl e)
        then have "r = Inl e" "u = s2" using assms(2) worker o Inr m by (auto simp: Unarchive_def)
        then show ?thesis using outcome_error[OF o2(1)[unfolded e], of r] step by simp
      next
        case ok: (Inr x)
        obtain r3 s3 where rn: "durableRename NsArchive i NsActive i s2 = (r3, s3)" by fastforce
        have s3: "keeps_registry s2 s3"
          by (rule rename_keeps[OF o2(2) rn]) (use worker in \<open>simp_all add: ValidWorkerID_def\<close>)
        have "keeps_registry s2 u"
        proof (cases r3)
          case (Inl e)
          then show ?thesis using assms(2) worker o Inr m ok rn s3 by (simp add: Unarchive_def)
        next
          case (Inr y)
          obtain r4 s4 where up: "updateProjectionLocked fr now s3 = (r4, s4)" by fastforce
          have s4: "keeps_registry s2 s4" by (rule update_keeps[OF s3 up])
          obtain r5 s5 where op: "openLocked fr now False i s4 = (r5, s5)" by fastforce
          have "u = s5" using assms(2) worker o \<open>r0 = Inr t\<close> m ok rn Inr up op by (simp add: Unarchive_def)
          then show ?thesis using keeps_trans[OF s4 open_registry(1)[OF keeps_wf[OF s4] op]] by simp
        qed
        then show ?thesis using outcome_keep[OF o2(1)[unfolded ok]] step by blast
      qed
    qed
  qed
  then show "outcome s r u (flagged i False (registry s))"
    "\<not> isl r \<or> registry u \<noteq> registry s \<Longrightarrow> registry_step fr (registry s) (flagged i False (registry s))" by blast+
qed

section \<open>Deleting\<close>

lemma find_unreferenced_True:
  "find_unreferenced i want wrong found es = Inr True \<Longrightarrow>
   (\<forall>e \<in> set es. ie_parent_thread_id e \<noteq> i) \<and> (\<forall>e \<in> set es. ie_thread_id e = i \<longrightarrow> ie_retention_state e = want)
   \<and> (found \<or> (\<exists>e \<in> set es. ie_thread_id e = i))"
  by (induction es arbitrary: found) (auto split: if_splits)

lemma recover_renewal_keeps:
  assumes "store_wf s" "recover_renewal n i s = (r, u)" "thread_namespace n" "ValidID i"
  shows "keeps_registry s u"
proof (cases "map_of (dirs n s) i")
  case (Some d)
  let ?d = "(td_renewal d)\<lparr>d_io := st_io s\<rparr>"
  let ?m = "map_sum (\<lambda>_. IoError) (\<lambda>p. gp_id (p_current_generation p)) (readProjectionFile i (td_files d))"
  obtain r1 rd where rd: "recoverContextRenewalFilesFromMetadata ?m ?d = (r1, rd)" by fastforce
  have ok: "renewal_ok ?d" using wf_renewal[OF assms(1) lookup_dir[OF assms(1,3) Some]] by simp
  have "rd = ?d \<or> (\<exists>g r'. recoverContextRenewalFiles g ?d = (r', rd))"
    using rd by (auto simp: recoverContextRenewalFilesFromMetadata_def contextRenewalFilesPresent_def
        readContextRenewalManifest_def andThen_def split: sum.splits if_splits prod.splits)
  then have "renewal_ok rd" using ok renewal_recover_ok[OF ok] by (metis snd_conv)
  from put_renewal_wf[OF assms(1,3) Some assms(4) this] show ?thesis
    using assms(2) Some rd by (simp add: recover_renewal_def keeps_registry_def)
qed (use assms in \<open>auto simp: recover_renewal_def keeps_refl\<close>)

lemma trash_name: "ValidWorkerID i \<Longrightarrow> trash_name_ok (i @ ''.'' @ rest)"
proof -
  assume w: "ValidWorkerID i"
  then have "list_all (\<lambda>c. c \<in> set workerAlphabet) i" by (auto simp: ValidWorkerID_def ValidID_def)
  moreover have "CHR ''.'' \<notin> set workerAlphabet" by code_simp
  ultimately have "takeWhile (\<lambda>c. c \<noteq> CHR ''.'') (i @ ''.'' @ rest) = i"
    by (induction i) auto
  then show ?thesis using w by (simp add: trash_name_ok_def)
qed

definition without :: "string \<Rightarrow> registry \<Rightarrow> registry" where
  "without i R = R(i := None)"

lemma removable:
  assumes "store_wf s" "loadOrRebuildIndexLocked fr now s = (Inr ix, t)" "ValidWorkerID i"
    and "find_unreferenced i want wrong False (entries ix) = Inr True"
  shows "registry_step fr (registry s) (without i (registry s))"
proof -
  note f = find_unreferenced_True[OF assms(4)]
  have "registry s i \<noteq> None" using f index_registry(1)[OF assms(1,2)] by fastforce
  moreover have "registry s j \<noteq> Some (a, i, b)" for j a b
    using f index_registry(2)[OF assms(1,2), of j a i b] by blast
  ultimately show ?thesis using registry_step.remove[of i "registry s" fr] assms(3)
    by (simp add: without_def ValidWorkerID_def)
qed

lemma remove_outcome:
  assumes "store_wf s" "thread_namespace n" "ValidWorkerID i" "remove_thread now n i (i @ ''.'' @ rest) ix s = (r, u)"
  shows "outcome s r u (without i (registry s))"
proof -
  have "r \<noteq> Inr () \<Longrightarrow> isl r" by (cases r) auto
  with remove_thread_registry[OF assms(1,2) trash_name[OF assms(3)] assms(4)] show ?thesis
    by (auto simp: outcome_def without_def)
qed

lemma delete_registry:
  assumes "store_wf s" "DeleteArchived fr now rid i s = (r, u)"
  shows "outcome s r u (without i (registry s))"
    and "\<not> isl r \<or> registry u \<noteq> registry s \<Longrightarrow> registry_step fr (registry s) (without i (registry s))"
proof -
  have "outcome s r u (without i (registry s)) \<and>
    (\<not> isl r \<or> registry u \<noteq> registry s \<longrightarrow> registry_step fr (registry s) (without i (registry s)))"
  proof (cases "ValidWorkerID i")
    case False
    then show ?thesis using assms keeps_refl[OF assms(1)] by (auto simp: DeleteArchived_def intro!: outcome_keeps)
  next
    case worker: True
    obtain r1 s1 where l: "loadOrRebuildIndexLocked fr now s = (r1, s1)" by fastforce
    have s1: "keeps_registry s s1" by (rule load_keeps[OF keeps_refl[OF assms(1)] l])
    show ?thesis
    proof (cases r1)
      case (Inl e)
      then show ?thesis using assms(2) l s1 worker by (auto simp: DeleteArchived_def keeps_registry_def intro!: outcome_keeps)
    next
      case (Inr ix)
      show ?thesis
      proof (cases "find_unreferenced i RetentionArchived ThreadIsActive False (entries ix) = Inr True")
        case False
        then have "u = s1 \<and> isl r" using assms(2) worker l Inr
          by (auto simp: DeleteArchived_def split: sum.splits bool.splits)
        then show ?thesis using s1 by (auto simp: keeps_registry_def intro!: outcome_keeps)
      next
        case found: True
        note step = removable[OF assms(1) l[unfolded Inr] worker found]
        obtain r2 s2 where rn: "recover_renewal NsArchive i s1 = (r2, s2)" by fastforce
        have s2: "keeps_registry s s2"
          using keeps_trans[OF s1 recover_renewal_keeps[OF keeps_wf[OF s1] rn]] worker by (simp add: ValidWorkerID_def)
        show ?thesis
        proof (cases r2)
          case e: (Inl e)
          then have "u = s2 \<and> isl r" using assms(2) worker l Inr found rn by (auto simp: DeleteArchived_def)
          then show ?thesis using s2 by (auto simp: keeps_registry_def intro!: outcome_keeps)
        next
          case (Inr x)
          then have "remove_thread now NsArchive i (i @ ''.'' @ rid) ix s2 = (r, u)"
            using assms(2) worker l \<open>r1 = Inr ix\<close> found rn by (simp add: DeleteArchived_def)
          from remove_outcome[OF keeps_wf[OF s2] _ worker this] have "outcome s2 r u (without i (registry s))"
            using s2 by (simp add: keeps_registry_def)
          from outcome_after[OF s2 this] step show ?thesis by blast
        qed
      qed
    qed
  qed
  then show "outcome s r u (without i (registry s))"
    "\<not> isl r \<or> registry u \<noteq> registry s \<Longrightarrow> registry_step fr (registry s) (without i (registry s))" by blast+
qed

lemma rollback_registry:
  assumes "store_wf s" "RollbackWorkerCreation fr now rid i s = (r, u)"
  shows "outcome s r u (without i (registry s))"
    and "\<not> isl r \<or> registry u \<noteq> registry s \<Longrightarrow> registry_step fr (registry s) (without i (registry s))"
proof -
  have "outcome s r u (without i (registry s)) \<and>
    (\<not> isl r \<or> registry u \<noteq> registry s \<longrightarrow> registry_step fr (registry s) (without i (registry s)))"
  proof (cases "ValidWorkerID i")
    case False
    then show ?thesis using assms keeps_refl[OF assms(1)] by (auto simp: RollbackWorkerCreation_def intro!: outcome_keeps)
  next
    case worker: True
    obtain r1 s1 where l: "loadOrRebuildIndexLocked fr now s = (r1, s1)" by fastforce
    have s1: "keeps_registry s s1" by (rule load_keeps[OF keeps_refl[OF assms(1)] l])
    show ?thesis
    proof (cases r1)
      case (Inl e)
      then show ?thesis using assms(2) l s1 worker
        by (auto simp: RollbackWorkerCreation_def keeps_registry_def intro!: outcome_keeps)
    next
      case (Inr ix)
      show ?thesis
      proof (cases "find_unreferenced i RetentionActive ThreadIsArchived False (entries ix) = Inr True")
        case False
        then have "u = s1 \<and> isl r" using assms(2) worker l Inr
          by (auto simp: RollbackWorkerCreation_def split: sum.splits bool.splits)
        then show ?thesis using s1 by (auto simp: keeps_registry_def intro!: outcome_keeps)
      next
        case found: True
        note step = removable[OF assms(1) l[unfolded Inr] worker found]
        have "remove_thread now NsActive i (i @ ''.'' @ rid) ix s1 = (r, u)"
          using assms(2) worker l Inr found by (simp add: RollbackWorkerCreation_def)
        from remove_outcome[OF keeps_wf[OF s1] _ worker this] have "outcome s1 r u (without i (registry s))"
          using s1 by (simp add: keeps_registry_def)
        from outcome_after[OF s1 this] step show ?thesis by blast
      qed
    qed
  qed
  then show "outcome s r u (without i (registry s))"
    "\<not> isl r \<or> registry u \<noteq> registry s \<Longrightarrow> registry_step fr (registry s) (without i (registry s))" by blast+
qed

section \<open>Creating\<close>

lemma worker_id: "newWorkerID raw = (Inr i, rest) \<Longrightarrow> ValidWorkerID i"
proof -
  assume "newWorkerID raw = (Inr i, rest)"
  then have i: "i = map (\<lambda>b. workerAlphabet ! (b mod 32)) (take 6 raw)" "\<not> length raw < 6"
    by (auto simp: newWorkerID_def split: if_splits)
  then have "length i = 6" by simp
  moreover have "length workerAlphabet = 32" by code_simp
  then have "list_all (\<lambda>c. c \<in> set workerAlphabet) i" by (auto simp: i(1) list_all_iff)
  ultimately show ?thesis by (auto simp: ValidWorkerID_def ValidID_def MainID_def)
qed

lemma create_journal_projection: "tf_projection (snd (create_journal g fs)) = tf_projection fs"
proof -
  obtain w fs1 where w: "next_outcome fs = (w, fs1)" by fastforce
  then have "tf_projection fs1 = tf_projection fs" using next_outcome_files(1)[of fs] by simp
  with w show ?thesis
    by (auto simp: create_journal_def set_journal_def split: write_result.splits bool.splits)
qed

lemma append_projection: "appendCurrent marshal c t = (r, t') \<Longrightarrow>
    th_id t' = th_id t \<and> tf_projection (th_files t') = tf_projection (th_files t)"
  by (auto simp: appendCurrent_def split: if_splits prod.splits sum.splits elim!: append_record_cases)

lemma replay_created_identity:
  assumes "replay i [sc] = Inr st" "c_facts (sc_commit sc) = [created_fact i alias parent]"
  shows "identity_of ((rs_projection st)\<lparr>p_revision := 1\<rparr>) = (alias, parent, False)"
  using assms by (auto simp: replay_def applyCommit_def applyFact_def created_fact_def empty_fact_def Let_def
      stamp_commit_def created_projection_def identity_of_def split: if_splits)

text \<open>A creation writes a document of the new Thread or leaves the directory without one.\<close>

lemma created_files_cases:
  assumes "created_files marshal now i alias parent (no_files io) = (r, fs)" "ValidID i"
  obtains (missing) e where "r = Inl e" "tf_projection fs = ProjectionMissing"
  | (written) p where "readProjectionFile i fs = Inr p" "identity_of p = (alias, parent, False)"
      "\<And>t. r = Inr t \<Longrightarrow> th_id t = i"
proof -
  obtain r1 fs1 where j: "create_journal InitialGeneration (no_files io) = (r1, fs1)" by fastforce
  then have fs1: "tf_projection fs1 = ProjectionMissing"
    using create_journal_projection[of InitialGeneration "no_files io"] by (simp add: no_files_def)
  let ?h = "new_handle i fs1"
  have h: "th_id ?h = i" "th_files ?h = fs1" by (simp_all add: new_handle_def)
  show ?thesis
  proof (cases "r1 = Inr () \<and> (\<exists>c. prepareCommit marshal now [created_fact i alias parent] ?h = Inr c)")
    case False
    have "\<exists>e. r = Inl e \<and> fs = fs1"
    proof (cases r1)
      case (Inl e)
      then show ?thesis using assms j by (auto simp add: created_files_def)
    next
      case (Inr x)
      with False obtain e where "prepareCommit marshal now [created_fact i alias parent] ?h = Inl e"
        by (cases "prepareCommit marshal now [created_fact i alias parent] ?h") auto
      then show ?thesis using assms j Inr by (auto simp: created_files_def)
    qed
    then show ?thesis using missing fs1 by blast
  next
    case True
    then obtain c where c: "prepareCommit marshal now [created_fact i alias parent] ?h = Inr c" "r1 = Inr ()" by blast
    obtain r2 t where a: "appendCurrent marshal c ?h = (r2, t)" by fastforce
    then have t: "th_id t = i" "tf_projection (th_files t) = ProjectionMissing"
      using append_projection[OF a] h fs1 by simp_all
    show ?thesis
    proof (cases "\<exists>sc st. r2 = Inr sc \<and> replay i [sc] = Inr st")
      case False
      have "\<exists>e. r = Inl e \<and> fs = th_files t"
      proof (cases r2)
        case (Inl e)
        then show ?thesis using assms j c a by (auto simp: created_files_def)
      next
        case (Inr sc)
        with False obtain e where "replay i [sc] = Inl e" by (cases "replay i [sc]") auto
        then show ?thesis using assms j c a Inr by (auto simp: created_files_def)
      qed
      then show ?thesis using missing t by blast
    next
      case True
      then obtain sc st where sc: "r2 = Inr sc" "replay i [sc] = Inr st" by blast
      have "c_facts (sc_commit sc) = [created_fact i alias parent]"
        by (rule appendCurrent_Inr[OF a[unfolded sc(1)]]) (simp add: prepareCommit_Inr(1)[OF c(1)])
      note ident = replay_created_identity[OF sc(2) this]
      let ?t = "refreshPublicLocked (t\<lparr>th_state := st\<lparr>rs_projection := (rs_projection st)\<lparr>p_revision := 1\<rparr>\<rparr>\<rparr>)"
      let ?p = "(rs_projection st)\<lparr>p_revision := 1\<rparr>"
      obtain r3 t3 where p: "persistProjectionLocked ?t = (r3, t3)" by fastforce
      have sel: "th_id ?t = i" "th_files ?t = th_files t" "th_projection ?t = ?p"
        using t by (simp_all add: refreshPublicLocked_def)
      have res: "r = (case r3 of Inl e \<Rightarrow> Inl e | Inr _ \<Rightarrow> Inr t3)" "fs = th_files t3"
        using assms j c a sc p by (auto simp: created_files_def Let_def split: sum.splits)
      from persist_projection[OF p[unfolded persistProjectionLocked_def sel(3)]] sel t
      have o: "th_id t3 = i" "tf_projection (th_files t3) = ProjectionMissing \<and> r3 \<noteq> Inr ()
        \<or> tf_projection (th_files t3) = ProjectionDoc ?p \<and> validateProjectionMetadata ?p i" by simp_all
      from o(2) show ?thesis
      proof
        assume "tf_projection (th_files t3) = ProjectionMissing \<and> r3 \<noteq> Inr ()"
        then show ?thesis using missing res by (cases r3) auto
      next
        assume "tf_projection (th_files t3) = ProjectionDoc ?p \<and> validateProjectionMetadata ?p i"
        then have "readProjectionFile i fs = Inr ?p" using read_doc res(2) by blast
        then show ?thesis by (rule written) (use ident res(1) o(1) in \<open>auto split: sum.splits\<close>)
      qed
    qed
  qed
qed

lemma add_dir_wf:
  assumes "store_wf s" "ValidID i" "i \<notin> keys (st_active s) \<union> keys (st_archive s)" "readProjectionFile i fs = Inr p"
  shows "store_wf (add_dir i fs s)" "registry (add_dir i fs s) = (registry s)(i \<mapsto> identity_of p)"
proof -
  have "dir_ok (i, \<lparr>td_files = fs\<lparr>tf_io := []\<rparr>, td_renewal = no_renewal\<rparr>)"
    using assms(4) by (simp add: dir_ok_def readable_def no_renewal_def renewal_ok_def manifest_entries_def coherent_def)
  then show "store_wf (add_dir i fs s)" using assms(1,3) by (simp add: wf_split add_dir_def)
  have "lookup (add_dir i fs s) j = (if j = i then Some \<lparr>td_files = fs\<lparr>tf_io := []\<rparr>, td_renewal = no_renewal\<rparr> else lookup s j)" for j
    by (simp add: lookup_def add_dir_def cong: option.case_cong)
  then show "registry (add_dir i fs s) = (registry s)(i \<mapsto> identity_of p)"
    using assms(2,4) by (simp add: registry_def fun_eq_iff doc_of_def)
qed

text \<open>The directory of a failed creation that could not be removed again.\<close>

definition leftover :: "store \<Rightarrow> bool" where
  "leftover s \<longleftrightarrow> (\<exists>(i, d) \<in> set (st_active s). ValidID i \<and> tf_projection (td_files d) = ProjectionMissing)"

lemma create_outcome:
  assumes "store_wf s" "ValidID i" "i \<notin> keys (st_active s) \<union> keys (st_archive s)"
    and "createLocked_in fr marshal now i alias parent s = (r, u)"
  shows "leftover u \<and> isl r \<or> outcome s r u ((registry s)(i \<mapsto> (alias, parent, False)))"
    and "r = Inr t \<Longrightarrow> th_id t = i"
proof -
  let ?R = "(registry s)(i \<mapsto> (alias, parent, False))"
  obtain r1 fs where c: "created_files marshal now i alias parent (no_files (st_io s)) = (r1, fs)" by fastforce
  from c assms(2) have "(leftover u \<and> isl r \<or> outcome s r u ?R) \<and> (r = Inr t \<longrightarrow> th_id t = i)"
  proof (cases rule: created_files_cases)
    case (missing e)
    obtain r2 s2 where e: "effect (\<lambda>s. s\<lparr>st_active := AList.delete i (st_active s)\<rparr>) (add_dir i fs s) = (r2, s2)" by fastforce
    have u: "u = s2" "r = Inl (ThreadFailed e)" using assms(4) c missing(1) e by (simp_all add: createLocked_in_def)
    from e show ?thesis
    proof (cases rule: effect_cases)
      case (none s1)
      then have "leftover u" using missing(2) assms(2) u by (auto simp: same_dirs_def leftover_def add_dir_def)
      then show ?thesis using u by simp
    next
      case (some s1)
      then have "same_dirs s u" using u assms(3) by (simp add: same_dirs_def add_dir_def)
      then have "outcome s r u ?R" by (rule outcome_keeps[OF keeps_same[OF assms(1)]]) (use u in simp)
      then show ?thesis using u by simp
    qed
  next
    case (written p)
    from add_dir_wf[OF assms(1-3) written(1)] have a: "store_wf (add_dir i fs s)" "registry (add_dir i fs s) = ?R" using written(2) by simp_all
    show ?thesis
    proof (cases r1)
      case (Inl e)
      obtain r2 s2 where e: "effect (\<lambda>s. s\<lparr>st_active := AList.delete i (st_active s)\<rparr>) (add_dir i fs s) = (r2, s2)" by fastforce
      have u: "u = s2" "r = Inl (ThreadFailed e)" using assms(4) c Inl e by (simp_all add: createLocked_in_def)
      from e show ?thesis
      proof (cases rule: effect_cases)
        case (none s1)
        then have "store_wf u" "registry u = ?R" using u a same_dirs_wf[OF none(1)] same_dirs_registry[OF none(1)] by simp_all
        then show ?thesis using outcome_done u by fastforce
      next
        case (some s1)
        then have "same_dirs s u" using u assms(3) by (simp add: same_dirs_def add_dir_def)
        then have "outcome s r u ?R" by (rule outcome_keeps[OF keeps_same[OF assms(1)]]) (use u in simp)
        then show ?thesis using u by simp
      qed
    next
      case (Inr t1)
      obtain r2 s2 where up: "updateProjectionLocked fr now (add_dir i fs s) = (r2, s2)" by fastforce
      have "u = s2" "r = Inr t \<Longrightarrow> t = t1" using assms(4) c Inr up by (auto simp: createLocked_in_def split: sum.splits)
      moreover have "store_wf s2" "registry s2 = ?R"
        using update_keeps[OF keeps_refl[OF a(1)] up] a(2) by (simp_all add: keeps_registry_def)
      ultimately show ?thesis using written(3)[OF Inr] outcome_done by blast
    qed
  qed
  then show "leftover u \<and> isl r \<or> outcome s r u ?R" "r = Inr t \<Longrightarrow> th_id t = i" by blast+
qed

end
