(* ===== verification/ThreadRetentionProps.thy ===== *)
theory ThreadRetentionProps
  imports ThreadRetentionOps
begin

text \<open>
  The properties of the Thread store: every operation is a step of the registry whichever of its file
  operations fail, the registry stays in order, and recovery at startup finishes what was interrupted.
\<close>

section \<open>Creating Main and Workers\<close>

lemma index_fresh_name:
  assumes "store_wf s" "identities_ok fr (registry s)" "loadOrRebuildIndexLocked fr now s = (Inr ix, t)"
    and "\<not> indexContainsIdentity fr ix i" "\<not> EqualFold fr alias i" "validateAliasAvailable fr ix alias [] = None"
  shows "fresh_name fr i alias (registry s)"
proof -
  have free: "alias \<noteq> []" "\<not> alias_conflict fr alias [] (entries ix)"
    using assms(6) by (auto simp: validateAliasAvailable_def split: if_splits)
  have other: "\<not> EqualFold fr alias j \<and> \<not> EqualFold fr alias a' \<and> \<not> EqualFold fr a' i \<and> \<not> EqualFold fr j i"
    if "registry s j = Some (a', p, b)" for j a' p b
  proof -
    from index_registry(2)[OF assms(1,3) that] obtain e where e: "e \<in> set (entries ix)" "ie_thread_id e = j" "ie_alias e = a'"
      by blast
    have "j \<noteq> []" using identities_okD(1)[OF assms(2) that] by (auto simp: ValidID_def MainID_def)
    with alias_free[OF free(2) e(1)] e assms(4) show ?thesis
      by (auto simp: indexContainsIdentity_def list_ex_iff dest: EqualFold_sym)
  qed
  have "registry s i = None"
  proof (rule ccontr)
    assume "registry s i \<noteq> None"
    then obtain a p b where "registry s i = Some (a, p, b)" by auto
    from other[OF this] show False by simp
  qed
  then show ?thesis using free(1) assms(5) other unfolding fresh_name_def by blast
qed

lemma create_attempts_registry:
  assumes "store_wf s" "identities_ok fr (registry s)" "loadOrRebuildIndexLocked fr now s0 = (Inr ix, s)" "keeps_registry s0 s" "store_wf s0"
    and "registry s parent = Some (pa, pp, False)"
    and "create_attempts n fr marshal now ix parent alias raw s = (r, u)"
  shows "leftover u \<and> isl r \<or> keeps_registry s u \<and> isl r
    \<or> (\<exists>i a. ValidWorkerID i \<and> a = (if alias = [] then DefaultWorkerAlias i else alias)
        \<and> fresh_name fr i a (registry s) \<and> (\<forall>t. r = Inr t \<longrightarrow> th_id t = i)
        \<and> store_wf u \<and> registry u = (registry s)(i \<mapsto> (a, parent, False)))"
  using assms(7)
proof (induction n arbitrary: raw)
  case 0
  then show ?case using keeps_refl[OF assms(1)] by auto
next
  case (Suc n)
  show ?case
  proof (cases "newWorkerID raw")
    case (Pair r0 rest)
    show ?thesis
    proof (cases r0)
      case (Inl e)
      then show ?thesis using Suc.prems Pair keeps_refl[OF assms(1)] by auto
    next
      case (Inr i)
      let ?a = "if alias = [] then DefaultWorkerAlias i else alias"
      have w: "ValidWorkerID i" using worker_id Pair Inr by blast
      show ?thesis
      proof (cases "indexContainsIdentity fr ix i \<or> EqualFold fr ?a i \<or> \<not> workerIDAvailableLocked s i")
        case True
        then have "create_attempts n fr marshal now ix parent alias rest s = (r, u)"
          using Suc.prems Pair Inr by (simp add: Let_def)
        then show ?thesis by (rule Suc.IH)
      next
        case False
        show ?thesis
        proof (cases "validateAliasAvailable fr ix ?a []")
          case (Some e)
          show ?thesis
          proof (cases "alias = []")
            case True
            then have "create_attempts n fr marshal now ix parent alias rest s = (r, u)"
              using Suc.prems Pair Inr False Some by (simp add: Let_def)
            then show ?thesis by (rule Suc.IH)
          next
            case False': False
            then show ?thesis using Suc.prems Pair Inr False Some keeps_refl[OF assms(1)] by (auto simp: Let_def)
          qed
        next
          case None
          have c: "createLocked_in fr marshal now i ?a parent s = (r, u)"
            using Suc.prems Pair Inr False None by (simp add: Let_def)
          have same: "registry s0 = registry s" using assms(4) by (simp add: keeps_registry_def)
          have f: "fresh_name fr i ?a (registry s)"
            using index_fresh_name[OF assms(5) _ assms(3) _ _ None] False assms(2) same by auto
          have v: "ValidID i" "i \<notin> keys (st_active s) \<union> keys (st_archive s)"
            using w False by (auto simp: ValidWorkerID_def workerIDAvailableLocked_def)
          have "leftover u \<and> isl r \<or> keeps_registry s u \<and> isl r \<or> store_wf u \<and> registry u = (registry s)(i \<mapsto> (?a, parent, False))"
            using create_outcome(1)[OF assms(1) v c] by (auto simp: outcome_def keeps_registry_def)
          moreover have "\<forall>t. r = Inr t \<longrightarrow> th_id t = i" using create_outcome(2)[OF assms(1) v c] by blast
          ultimately show ?thesis using w f by blast
        qed
      qed
    qed
  qed
qed

lemma create_worker_registry:
  assumes "store_ok fr s" "CreateWorker fr marshal now parent alias max_depth raw s = (r, u)" "\<not> leftover u"
  shows "keeps_registry s u \<and> isl r
    \<or> (\<exists>i a. ValidWorkerID i \<and> a = (if alias = [] then DefaultWorkerAlias i else alias)
        \<and> (\<forall>t. r = Inr t \<longrightarrow> th_id t = i) \<and> store_wf u
        \<and> registry_step fr (registry s) (registry u) \<and> registry u = (registry s)(i \<mapsto> (a, parent, False)))"
proof -
  have wf: "store_wf s" "identities_ok fr (registry s)" using assms(1) by (simp_all add: store_ok_def)
  obtain r1 s1 where l: "loadOrRebuildIndexLocked fr now s = (r1, s1)" by fastforce
  have s1: "keeps_registry s s1" by (rule load_keeps[OF keeps_refl[OF wf(1)] l])
  show ?thesis
  proof (cases "\<exists>ix. r1 = Inr ix \<and> create_attempts 64 fr marshal now ix parent alias raw s1 = (r, u)
      \<and> list_ex (\<lambda>e. ie_thread_id e = parent \<and> ie_retention_state e = RetentionActive) (entries ix)")
    case False
    then have "isl r \<and> (u = s \<or> u = s1)"
      using assms(2) l by (auto simp: CreateWorker_def split: option.splits sum.splits if_splits)
    then show ?thesis using s1 keeps_refl[OF wf(1)] by auto
  next
    case True
    then obtain ix where ix: "r1 = Inr ix" "create_attempts 64 fr marshal now ix parent alias raw s1 = (r, u)"
      "\<exists>e \<in> set (entries ix). ie_thread_id e = parent \<and> ie_retention_state e = RetentionActive"
      by (auto simp: list_ex_iff)
    then obtain e where e: "e \<in> set (entries ix)" "ie_thread_id e = parent" "ie_retention_state e = RetentionActive" by blast
    from index_registry(1)[OF wf(1) l[unfolded ix(1)] e(1)] e
    have parent: "registry s parent = Some (ie_alias e, ie_parent_thread_id e, False)" by simp
    have same: "registry s1 = registry s" using s1 by (simp add: keeps_registry_def)
    have "identities_ok fr (registry s1)" "registry s1 parent = Some (ie_alias e, ie_parent_thread_id e, False)"
      using wf(2) parent same by simp_all
    from create_attempts_registry[OF keeps_wf[OF s1] this(1) l[unfolded ix(1)] s1 wf(1) this(2) ix(2), unfolded same]
    show ?thesis
    proof (elim disjE exE)
      assume "leftover u \<and> isl r"
      then show ?thesis using assms(3) by simp
    next
      assume "keeps_registry s1 u \<and> isl r"
      then have "keeps_registry s u \<and> isl r" using keeps_trans[OF s1] by blast
      then show ?thesis by (rule disjI1)
    next
      fix i a
      assume c: "ValidWorkerID i \<and> a = (if alias = [] then DefaultWorkerAlias i else alias)
        \<and> fresh_name fr i a (registry s) \<and> (\<forall>t. r = Inr t \<longrightarrow> th_id t = i) \<and> store_wf u
        \<and> registry u = (registry s)(i \<mapsto> (a, parent, False))"
      then have f: "ValidWorkerID i" "fresh_name fr i a (registry s)" "registry u = (registry s)(i \<mapsto> (a, parent, False))"
        by blast+
      have "registry_step fr (registry s) (registry u)"
        unfolding f(3) by (rule registry_step.create_worker[OF f(1,2) parent])
      with c show ?thesis by blast
    qed
  qed
qed

lemma main_alias: "\<not> EqualFold fr MainAlias MainID"
proof -
  have "length (runes MainAlias) \<noteq> length (runes MainID)" by code_simp
  then show ?thesis unfolding EqualFold_def by (metis length_map)
qed

lemma ensure_main_registry:
  assumes "store_ok fr s" "EnsureMain fr marshal now s = (r, u)" "\<not> leftover u"
  shows "keeps_registry s u \<or> store_wf u \<and> registry_step fr (registry s) (registry u)
      \<and> registry u = (registry s)(MainID \<mapsto> (MainAlias, [], False))"
    and "\<not> isl r \<Longrightarrow> registry u MainID \<noteq> None"
proof -
  have wf: "store_wf s" "identities_ok fr (registry s)" using assms(1) by (simp_all add: store_ok_def)
  have "(keeps_registry s u \<or> store_wf u \<and> registry_step fr (registry s) (registry u)
      \<and> registry u = (registry s)(MainID \<mapsto> (MainAlias, [], False))) \<and> (\<not> isl r \<longrightarrow> registry u MainID \<noteq> None)"
  proof (cases "map_of (st_active s) MainID")
    case None
    then have free: "MainID \<notin> keys (st_active s) \<union> keys (st_archive s)" using wf(1) by (auto simp: wf_split map_of_eq_None)
    then have "map_of (st_archive s) MainID = None" by (simp add: map_of_eq_None)
    then have "lookup s MainID = None" using None by (simp add: lookup_def)
    then have "registry s MainID = None" by (simp add: registry_def)
    then have "registry s i = None" for i using identities_ok_main[OF wf(2), of i] by blast
    then have empty: "registry s = Map.empty" by (rule ext)
    have c: "createLocked_in fr marshal now MainID MainAlias [] s = (r, u)" using assms(2) None by (simp add: EnsureMain_def)
    have "ValidID MainID" by (simp add: ValidID_def)
    from create_outcome(1)[OF wf(1) this free c] assms(3)
    have o: "outcome s r u ((registry s)(MainID \<mapsto> (MainAlias, [], False)))" by blast
    have "registry_step fr (registry s) ((registry s)(MainID \<mapsto> (MainAlias, [], False)))"
      by (rule registry_step.create_main[OF empty _ main_alias]) (simp add: MainAlias_def)
    then show ?thesis using o by (auto simp: outcome_def keeps_registry_def)
  next
    case (Some d)
    show ?thesis
    proof (cases "tf_projection (td_files d) = ProjectionMissing")
      case True
      then have "u = s" "isl r" using assms(2) Some by (auto simp: EnsureMain_def)
      then show ?thesis using keeps_refl[OF wf(1)] by simp
    next
      case False
      then have o: "openLocked fr now False MainID s = (r, u)" using assms(2) Some by (simp add: EnsureMain_def)
      note keep = open_registry(1)[OF wf(1) o]
      have "registry u MainID \<noteq> None" if "\<not> isl r"
      proof -
        from that obtain t where "r = Inr t" by (cases r) auto
        from open_registry(2)[OF wf(1) o this] keep show ?thesis by (simp add: keeps_registry_def)
      qed
      then show ?thesis using keep by blast
    qed
  qed
  then show "keeps_registry s u \<or> store_wf u \<and> registry_step fr (registry s) (registry u)
      \<and> registry u = (registry s)(MainID \<mapsto> (MainAlias, [], False))"
    "\<not> isl r \<Longrightarrow> registry u MainID \<noteq> None" by blast+
qed

section \<open>Recovery\<close>

lemma recover_dirs_keeps:
  "store_wf s \<Longrightarrow> recover_dirs b ns s = (r, u) \<Longrightarrow> keeps_registry s u"
proof (induction ns arbitrary: s)
  case (Cons i ns)
  show ?case
  proof (cases "ValidWorkerID i \<and> map_of (dirs (namespace_of b) s) i \<noteq> None")
    case False
    then show ?thesis using Cons keeps_refl[OF Cons.prems(1)] by (auto split: if_splits)
  next
    case True
    then obtain d where d: "ValidWorkerID i" "map_of (dirs (namespace_of b) s) i = Some d" by blast
    then have v: "ValidID i" "i \<noteq> MainID" by (simp_all add: ValidWorkerID_def)
    have read: "readProjectionFile i (td_files d) = Inr (doc_of i d)"
      using readable_doc[OF wf_readable[OF Cons.prems(1) lookup_dir[OF Cons.prems(1) namespace_thread d(2)] v(1)]] .
    let ?to = "p_retention_state (doc_of i d) = RetentionArchived"
    obtain r1 s1 where m: "(if ?to \<noteq> b then durableRename (namespace_of b) i (namespace_of ?to) i s else (Inr (), s)) = (r1, s1)"
      by fastforce
    have s1: "keeps_registry s s1"
    proof (cases "?to \<noteq> b")
      case True
      with m have "durableRename (namespace_of b) i (namespace_of ?to) i s = (r1, s1)" by simp
      from rename_keeps[OF Cons.prems(1) this namespace_thread namespace_thread v(2)] show ?thesis .
    qed (use m keeps_refl[OF Cons.prems(1)] in auto)
    obtain r2 s2 where rr: "recover_renewal (namespace_of ?to) i s1 = (r2, s2)" by fastforce
    have s2: "keeps_registry s s2"
      using keeps_trans[OF s1 recover_renewal_keeps[OF keeps_wf[OF s1] rr namespace_thread v(1)]] .
    have "u = s1 \<or> u = s2 \<or> recover_dirs b ns s2 = (r, u)"
      using Cons.prems(2) d read m rr by (cases r1; cases r2) (simp_all add: Let_def)
    then show ?thesis using s1 s2 Cons.IH[OF keeps_wf[OF s2]] keeps_trans[OF s2] by blast
  qed
qed (simp add: keeps_refl)

lemma finish_trash_keeps: "store_wf s \<Longrightarrow> finish_trash ns s = (r, u) \<Longrightarrow> keeps_registry s u"
proof (induction ns arbitrary: s)
  case Nil
  then show ?case using keeps_same[OF Nil.prems(1)] sync_effect by simp
next
  case (Cons n ns)
  obtain r1 s1 where e: "effect (\<lambda>s. s\<lparr>st_trash := AList.delete n (st_trash s)\<rparr>) s = (r1, s1)" by fastforce
  have s1: "keeps_registry s s1"
    using trash_effect[OF Cons.prems(1) e] registry_cong[OF trash_effect(2)[OF Cons.prems(1) e]] by (simp add: keeps_registry_def)
  have "u = s \<or> u = s1 \<or> finish_trash ns s1 = (r, u)"
    using Cons.prems(2) e by (cases r1) (auto split: if_splits)
  then show ?case using keeps_refl[OF Cons.prems(1)] s1 Cons.IH[OF keeps_wf[OF s1]] keeps_trans[OF s1] by blast
qed

lemma recover_layout_keeps:
  assumes "store_wf s" "RecoverLayout fr now s = (r, u)"
  shows "keeps_registry s u"
proof -
  obtain r1 s1 where a: "recover_dirs False (map fst (st_active s)) s = (r1, s1)" by fastforce
  obtain r2 s2 where b: "recover_dirs True (map fst (st_archive s1)) s1 = (r2, s2)" by fastforce
  obtain r3 s3 where c: "rebuildIndexLocked fr now s2 = (r3, s3)" by fastforce
  have s1: "keeps_registry s s1" by (rule recover_dirs_keeps[OF assms(1) a])
  have s2: "keeps_registry s s2" by (rule keeps_trans[OF s1 recover_dirs_keeps[OF keeps_wf[OF s1] b]])
  have s3: "keeps_registry s s3" by (rule keeps_trans[OF s2 keeps_same[OF keeps_wf[OF s2] rebuild_same[OF c]]])
  have "u = s1 \<or> u = s2 \<or> u = s3 \<or> finish_trash (map fst (st_trash s3)) s3 = (r, u)"
    using assms(2) a b c by (cases r1; cases r2; cases r3) (simp_all add: RecoverLayout_def finishTrashOperationsLocked_def)
  then show ?thesis using s1 s2 s3 keeps_trans[OF s3 finish_trash_keeps[OF keeps_wf[OF s3]]] by blast
qed

section \<open>Runs of a store\<close>

text \<open>
  The operations of the store, each with the time of its call, and what goes on around them: a running
  Thread writes in its directory, the index file is changed by hand and the process restarts. The
  outcomes \<open>io\<close> of its file operations are chosen anew for each operation, so that a crash in the middle of
  one is a step whose remaining file operations all fail.
\<close>

datatype store_call =
    CallEnsureMain instant
  | CallCreateWorker instant string string int "nat list"
  | CallOpen instant bool string
  | CallAlias instant bool string string
  | CallArchive instant string
  | CallUnarchive instant string
  | CallDelete instant string string
  | CallRollback instant string string
  | CallRecover instant

definition silent :: "'a store_op \<Rightarrow> unit store_op" where
  "silent f s = (case f s of (r, t) \<Rightarrow> (map_sum id (\<lambda>_. ()) r, t))"

fun run_store_call :: "fold_table \<Rightarrow> marshal \<Rightarrow> store_call \<Rightarrow> unit store_op" where
  "run_store_call fr marshal (CallEnsureMain now) = silent (EnsureMain fr marshal now)"
| "run_store_call fr marshal (CallCreateWorker now parent alias depth raw) =
     silent (CreateWorker fr marshal now parent alias depth raw)"
| "run_store_call fr marshal (CallOpen now archived i) = silent (openLocked fr now archived i)"
| "run_store_call fr marshal (CallAlias now archived wanted i) = alias_by_id fr now archived wanted i"
| "run_store_call fr marshal (CallArchive now i) = archive_by_id fr now i"
| "run_store_call fr marshal (CallUnarchive now i) = silent (Unarchive fr now i)"
| "run_store_call fr marshal (CallDelete now record_id i) = DeleteArchived fr now record_id i"
| "run_store_call fr marshal (CallRollback now record_id i) = RollbackWorkerCreation fr now record_id i"
| "run_store_call fr marshal (CallRecover now) = RecoverLayout fr now"

text \<open>What an operation is for, as a change of the registry.\<close>

fun performs :: "fold_table \<Rightarrow> store_call \<Rightarrow> registry \<Rightarrow> registry \<Rightarrow> bool" where
  "performs fr (CallEnsureMain now) R R' \<longleftrightarrow> R MainID \<noteq> None \<and> R' = R
     \<or> registry_step fr R R' \<and> R' = R(MainID \<mapsto> (MainAlias, [], False))"
| "performs fr (CallCreateWorker now parent alias depth raw) R R' \<longleftrightarrow> registry_step fr R R' \<and>
     (\<exists>i. ValidWorkerID i \<and> R' = R(i \<mapsto> (if alias = [] then DefaultWorkerAlias i else alias, parent, False)))"
| "performs fr (CallOpen now archived i) R R' \<longleftrightarrow> R' = R \<and> (\<exists>a p. R i = Some (a, p, archived))"
| "performs fr (CallAlias now archived wanted i) R R' \<longleftrightarrow> registry_step fr R R' \<and> R' = renamed i wanted R"
| "performs fr (CallArchive now i) R R' \<longleftrightarrow> registry_step fr R R' \<and> R' = flagged i True R"
| "performs fr (CallUnarchive now i) R R' \<longleftrightarrow> registry_step fr R R' \<and> R' = flagged i False R"
| "performs fr (CallDelete now record_id i) R R' \<longleftrightarrow> registry_step fr R R' \<and> R' = without i R"
| "performs fr (CallRollback now record_id i) R R' \<longleftrightarrow> registry_step fr R R' \<and> R' = without i R"
| "performs fr (CallRecover now) R R' \<longleftrightarrow> R' = R"

datatype store_label = Call store_call "write_result list" | Work string thread_dir | IndexChanged index_file | Restart

definition restart_dir :: "thread_dir \<Rightarrow> thread_dir" where
  "restart_dir d = d\<lparr>td_renewal := crashed [] (td_renewal d)\<rparr>"

definition restart :: "store \<Rightarrow> store" where
  "restart s = s\<lparr>st_active := map (map_prod id restart_dir) (st_active s),
     st_archive := map (map_prod id restart_dir) (st_archive s), st_io := []\<rparr>"

text \<open>
  A Thread at work keeps its document readable, its identity and its renewal files sound, as the
  Thread and the Context renewal do. A creation that fails and cannot be cleaned up is not a step.
\<close>

inductive store_step :: "fold_table \<Rightarrow> marshal \<Rightarrow> store \<Rightarrow> store_label \<Rightarrow> store \<Rightarrow> bool" for fr marshal where
  call: "run_store_call fr marshal c (s\<lparr>st_io := io\<rparr>) = (r, t) \<Longrightarrow> \<not> leftover t \<Longrightarrow>
    store_step fr marshal s (Call c io) t"
| work: "map_of (st_active s) i = Some d \<Longrightarrow> ValidID i \<Longrightarrow> dir_ok (i, d') \<Longrightarrow>
    identity_of (doc_of i d') = identity_of (doc_of i d) \<Longrightarrow>
    store_step fr marshal s (Work i d') (change_dir NsActive i (\<lambda>_. d') s)"
| index_changed: "store_step fr marshal s (IndexChanged f) (s\<lparr>st_index := f\<rparr>)"
| restarted: "store_step fr marshal s Restart (restart s)"

definition empty_store :: "store \<Rightarrow> bool" where
  "empty_store s \<longleftrightarrow> st_active s = [] \<and> st_archive s = [] \<and> st_trash s = []"

lemma map_of_map_prod: "map_of (map (map_prod id f) xs) i = map_option f (map_of xs i)"
  by (induction xs) auto

lemma fst_map_prod [simp]: "map fst (map (map_prod id f) xs) = map fst xs"
  by (induction xs) auto

lemma restart_keeps: "store_wf s \<Longrightarrow> keeps_registry s (restart s)"
proof -
  assume wf: "store_wf s"
  have ok: "dir_ok (i, restart_dir d)" if "dir_ok (i, d)" for i d
  proof -
    have "manifest_entries (td_renewal (restart_dir d)) = manifest_entries (td_renewal d)"
      by (rule manifest_entries_cong) (simp_all add: restart_dir_def crashed_def)
    with that show ?thesis by (simp add: dir_ok_def restart_dir_def readable_def renewal_ok_def crashed_def)
  qed
  have dirs: "\<forall>x \<in> set (map (map_prod id restart_dir) xs). dir_ok x" if "\<forall>x \<in> set xs. dir_ok x" for xs
    using that ok by fastforce
  have k: "keys (map (map_prod id restart_dir) xs) = keys xs" for xs by force
  note parts = wf[unfolded wf_split]
  have "store_wf (restart s)"
    unfolding wf_split
    by (intro conjI; (simp add: restart_def k parts del: list.set_map set_map map_map)?)
      (use dirs[of "st_active s"] dirs[of "st_archive s"] parts in \<open>simp_all add: restart_def\<close>)
  moreover have "lookup (restart s) i = map_option restart_dir (lookup s i)" for i
    by (simp add: lookup_def restart_def map_of_map_prod split: option.splits)
  then have "registry (restart s) = registry s"
    by (simp add: registry_def fun_eq_iff option.map_comp comp_def doc_of_def restart_dir_def)
  ultimately show ?thesis by (simp add: keeps_registry_def)
qed

lemma work_keeps:
  assumes "store_wf s" "map_of (st_active s) i = Some d" "ValidID i" "dir_ok (i, d')"
    and "identity_of (doc_of i d') = identity_of (doc_of i d)"
  shows "keeps_registry s (change_dir NsActive i (\<lambda>_. d') s)"
proof -
  have d: "map_of (dirs NsActive s) i = Some d" "thread_namespace NsActive" using assms(2) by simp_all
  have "renewal_ok (td_renewal d')" "readable i d'" using assms(3,4) by (simp_all add: dir_ok_def)
  from change_dir_wf[OF assms(1) d(2,1) assms(3), of "\<lambda>_. d'", OF this]
  show ?thesis using registry_at[OF assms(1) d(2,1) assms(3)] assms(5) by (auto simp: keeps_registry_def)
qed

lemma index_keeps: "store_wf s \<Longrightarrow> keeps_registry s (s\<lparr>st_index := f\<rparr>)"
  by (erule keeps_same) (simp add: same_dirs_def)

lemma silent_result: "silent f s = (r, u) \<Longrightarrow> \<exists>r'. f s = (r', u) \<and> isl r = isl r'"
  by (cases "f s"; cases "fst (f s)") (auto simp: silent_def)

lemma outcome_performs:
  assumes "outcome s r u R" "\<not> isl r \<or> registry u \<noteq> registry s \<Longrightarrow> registry_step fr (registry s) R"
  shows "store_wf u \<and> (registry_step fr (registry s) (registry u) \<and> registry u = R \<or> isl r \<and> registry u = registry s)"
  using assms by (cases "isl r \<and> registry u = registry s") (auto simp: outcome_def)

lemma call_outcome:
  assumes "store_ok fr s" "run_store_call fr marshal c s = (r, u)" "\<not> leftover u"
  shows "store_wf u \<and> (performs fr c (registry s) (registry u) \<or> isl r \<and> registry u = registry s)"
proof (cases c)
  case (CallEnsureMain now)
  then obtain r' where "EnsureMain fr marshal now s = (r', u)" "isl r = isl r'"
    using assms(2) by (auto dest!: silent_result)
  with ensure_main_registry[OF assms(1) this(1) assms(3)] show ?thesis
    by (auto simp: CallEnsureMain keeps_registry_def)
next
  case (CallCreateWorker now parent wanted depth raw)
  then obtain r' where "CreateWorker fr marshal now parent wanted depth raw s = (r', u)" "isl r = isl r'"
    using assms(2) by (auto dest!: silent_result)
  from create_worker_registry[OF assms(1) this(1) assms(3)] show ?thesis
  proof (elim disjE exE)
    assume "keeps_registry s u \<and> isl r'"
    then show ?thesis using \<open>isl r = isl r'\<close> by (simp add: keeps_registry_def)
  next
    fix i a
    assume "ValidWorkerID i \<and> a = (if wanted = [] then DefaultWorkerAlias i else wanted)
        \<and> (\<forall>t. r' = Inr t \<longrightarrow> th_id t = i) \<and> store_wf u
        \<and> registry_step fr (registry s) (registry u) \<and> registry u = (registry s)(i \<mapsto> (a, parent, False))"
    then have d: "store_wf u" "registry_step fr (registry s) (registry u)" "ValidWorkerID i"
      "a = (if wanted = [] then DefaultWorkerAlias i else wanted)" "registry u = (registry s)(i \<mapsto> (a, parent, False))"
      by blast+
    have "performs fr c (registry s) (registry u)"
      unfolding CallCreateWorker performs.simps by (intro conjI exI[of _ i] d(2,3) d(5)[unfolded d(4)])
    with d(1) show ?thesis by blast
  qed
next
  case (CallOpen now b i)
  then obtain r' where r: "openLocked fr now b i s = (r', u)" "isl r = isl r'"
    using assms(2) by (auto dest!: silent_result)
  have wf: "store_wf s" using assms(1) by (simp add: store_ok_def)
  note keep = open_registry(1)[OF wf r(1)]
  show ?thesis
  proof (cases r')
    case (Inr t)
    from open_registry(2)[OF wf r(1) this] keep show ?thesis
      by (auto simp: CallOpen keeps_registry_def identity_of_def)
  qed (use keep r(2) in \<open>simp add: keeps_registry_def\<close>)
next
  case (CallUnarchive now i)
  then obtain r' where r: "Unarchive fr now i s = (r', u)" "isl r = isl r'"
    using assms(2) by (auto dest!: silent_result)
  have "store_wf s" using assms(1) by (simp add: store_ok_def)
  from outcome_performs[OF unarchive_registry[OF this r(1)]] r(2) show ?thesis by (simp add: CallUnarchive)
next
  case (CallAlias now b wanted i)
  have wf: "store_wf s" using assms(1) by (simp add: store_ok_def)
  note run = assms(2)[unfolded CallAlias run_store_call.simps]
  show ?thesis unfolding CallAlias performs.simps by (rule outcome_performs[OF alias_registry[OF wf run]])
next
  case (CallArchive now i)
  have wf: "store_wf s" using assms(1) by (simp add: store_ok_def)
  note run = assms(2)[unfolded CallArchive run_store_call.simps]
  show ?thesis unfolding CallArchive performs.simps by (rule outcome_performs[OF archive_registry[OF wf run]])
next
  case (CallDelete now rid i)
  have wf: "store_wf s" using assms(1) by (simp add: store_ok_def)
  note run = assms(2)[unfolded CallDelete run_store_call.simps]
  show ?thesis unfolding CallDelete performs.simps by (rule outcome_performs[OF delete_registry[OF wf run]])
next
  case (CallRollback now rid i)
  have wf: "store_wf s" using assms(1) by (simp add: store_ok_def)
  note run = assms(2)[unfolded CallRollback run_store_call.simps]
  show ?thesis unfolding CallRollback performs.simps by (rule outcome_performs[OF rollback_registry[OF wf run]])
next
  case (CallRecover now)
  have "store_wf s" using assms(1) by (simp add: store_ok_def)
  from recover_layout_keeps[OF this] assms(2) show ?thesis by (auto simp: CallRecover keeps_registry_def)
qed

lemma performs_ok: "performs fr c R R' \<Longrightarrow> identities_ok fr R \<Longrightarrow> identities_ok fr R'"
  by (cases c) (auto dest: registry_step_ok)

lemma keeps_ok: "store_ok fr s \<Longrightarrow> keeps_registry s t \<Longrightarrow> store_ok fr t"
  by (simp add: store_ok_def keeps_registry_def)

lemma store_ok_io [simp]: "store_ok fr (s\<lparr>st_io := io\<rparr>) = store_ok fr s"
  by (simp add: store_ok_def)

lemma call_ok:
  assumes "store_ok fr s" "run_store_call fr marshal c (s\<lparr>st_io := io\<rparr>) = (r, u)" "\<not> leftover u"
  shows "store_ok fr u \<and> (performs fr c (registry s) (registry u) \<or> isl r \<and> registry u = registry s)"
proof -
  have ok: "store_ok fr (s\<lparr>st_io := io\<rparr>)" using assms(1) by simp
  have "store_wf u \<and> (performs fr c (registry s) (registry u) \<or> isl r \<and> registry u = registry s)"
    using call_outcome[OF ok assms(2,3)] by simp
  moreover have "identities_ok fr (registry s)" using assms(1) by (simp add: store_ok_def)
  ultimately show ?thesis using performs_ok by (auto simp: store_ok_def)
qed

lemma empty_store_ok: "empty_store s \<Longrightarrow> store_ok fr s"
  by (simp add: empty_store_def store_ok_def store_wf_def identities_ok_def registry_def lookup_def)

lemma store_step_ok: "store_step fr marshal s l t \<Longrightarrow> store_ok fr s \<Longrightarrow> store_ok fr t"
proof (induction rule: store_step.induct)
  case (call c s io r t)
  then show ?case using call_ok by blast
next
  case (work s i d d')
  then have "store_wf s" by (simp add: store_ok_def)
  from work_keeps[OF this work.hyps] show ?case by (rule keeps_ok[OF work.prems])
next
  case (index_changed s f)
  then have "store_wf s" by (simp add: store_ok_def)
  from index_keeps[OF this] show ?case by (rule keeps_ok[OF index_changed.prems])
next
  case (restarted s)
  then have "store_wf s" by (simp add: store_ok_def)
  from restart_keeps[OF this] show ?case by (rule keeps_ok[OF restarted.prems])
qed

interpretation store_runs: invariant_machine empty_store "store_step fr marshal" "store_ok fr"
  by unfold_locales (auto intro: empty_store_ok store_step_ok)


definition wit_empty :: store where
  "wit_empty = \<lparr>st_active = [], st_archive = [], st_trash = [], st_index = IndexMissing, st_io = []\<rparr>"

definition wit_with_main :: store where
  "wit_with_main = snd (run_store_call id wit_marshal (CallEnsureMain 5000000) wit_empty)"

lemma wit_empty_reach: "reach empty_store (store_step id wit_marshal) wit_empty"
  by (rule reach.start) (simp add: wit_empty_def empty_store_def)

lemma wit_main_run: "let (r, u) = run_store_call id wit_marshal (CallEnsureMain 5000000) wit_empty in
    \<not> isl r \<and> \<not> leftover u \<and> st_archive u = [] \<and> map (\<lambda>(i, d). (i, length (p_generations (doc_of i d)))) (st_active u) = [(MainID, 1)]"
  by code_simp


end
