(* ===== verification/ThreadRetentionRecovery.thy ===== *)
theory ThreadRetentionRecovery
  imports ThreadRetentionProps
begin

text \<open>
  Recovery at startup: \<^verbatim>\<open>RecoverLayout\<close> after a restart finishes what the operations before it left
  half done, in every store a run reaches; and the one state it does not recover from.
\<close>

section \<open>A restarted store\<close>

lemma restart_lookup: "lookup (restart s) i = map_option restart_dir (lookup s i)"
  by (simp add: lookup_def restart_def map_of_map_prod split: option.splits)

text \<open>The ids of Generations are valid up to the 999999th.\<close>

definition few_generations :: "string \<Rightarrow> thread_dir \<Rightarrow> bool" where
  "few_generations i d \<longleftrightarrow> length (p_generations (doc_of i d)) < 1000000"

definition dir_quiet :: "string \<Rightarrow> thread_dir \<Rightarrow> bool" where
  "dir_quiet i d \<longleftrightarrow> d_count (td_renewal d) = 0 \<and> few_generations i d"

definition quiet :: "store \<Rightarrow> bool" where
  "quiet s \<longleftrightarrow> st_io s = [] \<and> (\<forall>i d. lookup s i = Some d \<longrightarrow> dir_quiet i d)"

lemma quiet_restart:
  assumes "\<forall>i d. lookup s i = Some d \<longrightarrow> few_generations i d"
  shows "quiet (restart s)"
proof -
  have "dir_quiet i (restart_dir d)" if "lookup s i = Some d" for i d
    using assms that by (simp add: dir_quiet_def restart_dir_def crashed_def few_generations_def doc_of_def)
  then show ?thesis by (auto simp: quiet_def restart_lookup) (simp add: restart_def)
qed

lemma quiet_effect [simp]: "st_io s = [] \<Longrightarrow> effect f s = (Inr (), f s)"
  by (simp add: effect_def next_io_def)

text \<open>Recovery leaves the count of running transactions alone.\<close>

definition keeps_count :: "'a disk_op \<Rightarrow> bool" where
  "keeps_count f \<longleftrightarrow> (\<forall>d. d_count (snd (f d)) = d_count d)"

lemma keeps_count_then: "keeps_count f \<Longrightarrow> (\<And>x. keeps_count (g x)) \<Longrightarrow> keeps_count (andThen f g)"
  unfolding keeps_count_def andThen_def by (auto split: prod.splits sum.splits) (metis snd_conv)+

lemma keeps_count_io: "(\<And>d. d_count (f d) = d_count d) \<Longrightarrow> keeps_count (io_step f)"
  by (auto simp: keeps_count_def io_step_def split: list.splits write_result.splits)

lemma keeps_count_ret: "keeps_count (ret x)" "keeps_count sync_dir"
  by (auto simp: keeps_count_def ret_def sync_dir_def io_step_def split: list.splits write_result.splits)

lemma finish_count: "keeps_count (finishContextRenewalFile e b)"
proof -
  have steps: "keeps_count (io_step (remove_backup e))" "keeps_count (io_step (put_file p c))"
    "keeps_count (io_step (rename_from_backup e c))" for p c
    by (auto intro!: keeps_count_io simp: remove_backup_def put_file_def rename_from_backup_def)
  then have "keeps_count (andThen (io_step (remove_backup e)) (\<lambda>_. sync_dir))"
    "keeps_count (andThen (io_step (put_file p c)) (\<lambda>_. andThen (io_step (remove_backup e)) (\<lambda>_. sync_dir)))"
    "keeps_count (andThen (io_step (rename_from_backup e c)) (\<lambda>_. sync_dir))" for p c
    by (intro keeps_count_then keeps_count_ret; simp)+
  then show ?thesis using keeps_count_ret(2) unfolding keeps_count_def
    by (simp add: finishContextRenewalFile_def split: option.splits)
qed

lemma recover_entries_count: "keeps_count (recover_entries es left g)"
proof (induction es arbitrary: left)
  case (Cons e es)
  have "keeps_count (writeContextRenewalManifest xs)" for xs
    unfolding writeContextRenewalManifest_def by (rule keeps_count_io) simp
  with Cons.IH show ?case unfolding recover_entries.simps Let_def recoverContextRenewalFile_def
    by (intro keeps_count_then finish_count)
qed (simp add: keeps_count_ret)

lemma recover_files_count: "d_count (snd (recoverContextRenewalFiles g d)) = d_count d"
  using recover_entries_count
  by (simp add: recoverContextRenewalFiles_def readContextRenewalManifest_def andThen_def keeps_count_def split: sum.splits)

lemma renewal_clean:
  assumes "renewal_ok d" "d_count d = 0" "d_io d = []" "parseGenerationID g \<noteq> None"
  shows "\<exists>d'. recoverContextRenewalFilesFromMetadata (Inr g) d = (Inr (), d') \<and> d_io d' = [] \<and> d_count d' = 0
    \<and> renewal_ok d'"
proof -
  obtain es where es: "manifest_entries d = Inr es" "coherent es (map_of (d_files d)) (map_of (d_backups d))"
    using assms(1) by (auto simp: renewal_ok_def)
  then have h: "holds {} (\<lambda>_ _. None) (d_bad_parents d) es d" by (simp add: holds_def)
  obtain d' where r: "recover_entries es es g d = (Inr (), d')" "d_io d' = []"
    using recover_entries_clean[OF h assms(3), of g] by auto
  have run: "recoverContextRenewalFiles g d = (Inr (), d')"
    using es r assms(2,4) by (simp add: recoverContextRenewalFiles_def readContextRenewalManifest_def andThen_def)
  have "d_count d' = 0" using recover_files_count[of g d] run assms(2) by simp
  moreover have "renewal_ok d'" using renewal_recover_ok[OF assms(1), of g] run by simp
  ultimately show ?thesis using es(1) run r(2) assms(1-3)
    by (cases "es = []") (simp_all add: recoverContextRenewalFilesFromMetadata_def contextRenewalFilesPresent_def
        readContextRenewalManifest_def andThen_def ret_def)
qed

section \<open>The directories\<close>

text \<open>The Threads of one namespace whose document names the other.\<close>

definition misplaced :: "bool \<Rightarrow> store \<Rightarrow> string set" where
  "misplaced b s = {i. ValidID i \<and> (\<exists>d. map_of (dirs (namespace_of b) s) i = Some d
     \<and> (p_retention_state (doc_of i d) = RetentionArchived) \<noteq> b)}"

definition tidied :: "bool \<Rightarrow> string set \<Rightarrow> store \<Rightarrow> store \<Rightarrow> bool" where
  "tidied b I s u \<longleftrightarrow> keeps_registry s u \<and> quiet u \<and> st_index u = st_index s \<and> st_trash u = st_trash s
     \<and> misplaced b u = misplaced b s - I \<and> misplaced (\<not> b) u \<subseteq> misplaced (\<not> b) s
     \<and> keys (dirs (namespace_of b) s) - I \<subseteq> keys (dirs (namespace_of b) u)"

lemma tidied_trans: "tidied b I s t \<Longrightarrow> tidied b J t u \<Longrightarrow> tidied b (I \<union> J) s u"
proof -
  assume a: "tidied b I s t" and c: "tidied b J t u"
  have "keeps_registry s t" "keeps_registry t u" using a c by (simp_all add: tidied_def)
  then have "keeps_registry s u" by (rule keeps_trans)
  moreover have "misplaced b u = misplaced b s - (I \<union> J)" 
  proof -
    have "misplaced b t = misplaced b s - I" "misplaced b u = misplaced b t - J" using a c by (simp_all add: tidied_def)
    then show ?thesis by blast
  qed
  moreover have "misplaced (\<not> b) u \<subseteq> misplaced (\<not> b) s" using a c by (auto simp: tidied_def)
  moreover have "keys (dirs (namespace_of b) s) - (I \<union> J) \<subseteq> keys (dirs (namespace_of b) u)"
  proof -
    have "keys (dirs (namespace_of b) s) - I \<subseteq> keys (dirs (namespace_of b) t)"
      "keys (dirs (namespace_of b) t) - J \<subseteq> keys (dirs (namespace_of b) u)" using a c unfolding tidied_def by simp_all
    then show ?thesis by blast
  qed
  ultimately show ?thesis using a c unfolding tidied_def by simp
qed

lemma current_generation_valid:
  assumes "validateProjectionMetadata p i" "length (p_generations p) < 1000000"
  shows "parseGenerationID (gp_id (p_current_generation p)) \<noteq> None"
proof -
  have g: "p_generations p \<noteq> []" "registry_ok 0 0 (p_generations p)" "p_current_generation p = last (p_generations p)"
    using assms(1) by (simp_all add: validateProjectionMetadata_def generations_ok_def)
  then show ?thesis using parse_generationID[OF _ assms(2)] registry_last(1)[OF g(2,1)] by simp
qed

lemma misplaced_known: "i \<in> misplaced b s \<Longrightarrow> ValidID i \<and> i \<in> keys (dirs (namespace_of b) s)"
proof -
  assume "i \<in> misplaced b s"
  then have "ValidID i" "map_of (dirs (namespace_of b) s) i \<noteq> None" by (auto simp: misplaced_def)
  then show ?thesis by (simp add: map_of_eq_None)
qed

lemma tidied_done:
  assumes "tidied b (keys (dirs (namespace_of b) s) \<inter> Collect ValidWorkerID) s u" "MainID \<notin> misplaced b u"
  shows "misplaced b u = {}"
proof (rule equals0I)
  fix i assume i: "i \<in> misplaced b u"
  with assms(1) have "i \<in> misplaced b s" "\<not> (i \<in> keys (dirs (namespace_of b) s) \<and> ValidWorkerID i)" by (auto simp: tidied_def)
  with misplaced_known[OF this(1)] have "i = MainID" by (auto simp: ValidWorkerID_def)
  with i assms(2) show False by simp
qed

lemma moved_dirs:
  assumes "store_wf s" "map_of (dirs (namespace_of b) s) i = Some d"
  shows "map_of (dirs (namespace_of c) (moved (namespace_of b) i (namespace_of (\<not> b)) i d s)) j
    = (if j = i then (if c = b then None else Some d) else map_of (dirs (namespace_of c) s) j)"
  using disjoint_names[OF assms(1) namespace_thread assms(2)]
  by (cases b; cases c) (auto simp: moved_def namespace_of_def Let_def delete_conv')

lemma recover_one:
  assumes "store_wf s" "quiet s" "ValidWorkerID i" "map_of (dirs (namespace_of b) s) i = Some d"
  shows "\<exists>u. recover_dirs b (i # is') s = recover_dirs b is' u \<and> tidied b {i} s u"
proof -
  let ?n = "namespace_of b"
  define c where "c = (p_retention_state (doc_of i d) = RetentionArchived)"
  let ?m = "namespace_of c"
  have v: "ValidID i" "i \<noteq> MainID" using assms(3) by (simp_all add: ValidWorkerID_def)
  note look = lookup_dir[OF assms(1) namespace_thread assms(4)]
  have read: "readable i d" by (rule wf_readable[OF assms(1) look v(1)])
  have qd: "st_io s = []" "dir_quiet i d" using assms(2) look by (auto simp: quiet_def)
  define s1 where "s1 = (if c \<noteq> b then moved ?n i ?m i d s else s)"
  have free: "i \<notin> keys (dirs ?m s)" if "c \<noteq> b"
    using disjoint_names[OF assms(1) namespace_thread assms(4)] that by (cases b; cases c) (auto simp: namespace_of_def)
  have mv: "(if c \<noteq> b then durableRename ?n i ?m i s else (Inr (), s)) = (Inr (), s1)"
    using assms(4) qd(1) free by (auto simp: durableRename_def s1_def)
  have s1: "store_wf s1" "lookup s1 = lookup s" "st_io s1 = []" "st_index s1 = st_index s" "st_trash s1 = st_trash s"
  proof -
    have "?n \<noteq> ?m" if "c \<noteq> b" using that by (cases b; cases c) (auto simp: namespace_of_def)
    note m = moved_within[OF assms(1,4) this namespace_thread namespace_thread v(2)]
    show "store_wf s1" using m(1) assms(1) by (cases "c = b") (simp_all add: s1_def)
    show "lookup s1 = lookup s" using m(2) by (cases "c = b") (simp_all add: s1_def)
    show "st_io s1 = []" "st_index s1 = st_index s" "st_trash s1 = st_trash s" using qd(1)
      by (cases b; cases c; simp add: s1_def moved_def namespace_of_def Let_def)+
  qed
  have at: "map_of (dirs (namespace_of k) s1) j = (if j = i then (if k = c then Some d else None)
      else map_of (dirs (namespace_of k) s) j)" for k j
  proof (cases "c = b")
    case True
    then have "map_of (dirs (namespace_of k) s) i = (if k = c then Some d else None)"
      using assms(4) disjoint_names[OF assms(1) namespace_thread assms(4)]
      by (cases b; cases k) (auto simp: namespace_of_def)
    then show ?thesis using True by (simp add: s1_def)
  next
    case False
    then have c: "c = (\<not> b)" by blast
    show ?thesis using moved_dirs[OF assms(1,4), of k j] unfolding s1_def c by (cases b; cases k) simp_all
  qed
  obtain rd where rd: "recoverContextRenewalFilesFromMetadata (Inr (gp_id (p_current_generation (doc_of i d)))) (td_renewal d\<lparr>d_io := []\<rparr>)
      = (Inr (), rd)" "d_io rd = []" "d_count rd = 0" "renewal_ok rd"
  proof -
    have "renewal_ok (td_renewal d\<lparr>d_io := []\<rparr>)" using wf_renewal[OF assms(1) look]
      by (simp add: renewal_ok_def manifest_entries_cong[of "td_renewal d\<lparr>d_io := []\<rparr>" "td_renewal d"])
    moreover have "parseGenerationID (gp_id (p_current_generation (doc_of i d))) \<noteq> None"
      by (rule current_generation_valid[of _ i])
        (use readable_id[OF read] qd(2) in \<open>simp_all add: dir_quiet_def few_generations_def\<close>)
    ultimately obtain rd where "recoverContextRenewalFilesFromMetadata (Inr (gp_id (p_current_generation (doc_of i d))))
        (td_renewal d\<lparr>d_io := []\<rparr>) = (Inr (), rd)" "d_io rd = []" "d_count rd = 0" "renewal_ok rd"
      using renewal_clean[of "td_renewal d\<lparr>d_io := []\<rparr>"] qd(2) by (auto simp: dir_quiet_def)
    then show thesis by (rule that)
  qed
  let ?u = "put_renewal ?m i rd s1"
  have "recover_renewal ?m i s1 = (Inr (), ?u)"
    using at[of c i] readable_doc[OF read] rd(1) s1(3) by (simp add: recover_renewal_def)
  then have "recover_dirs b (i # is') s = recover_dirs b is' ?u"
    using assms(3,4) readable_doc[OF read] mv by (simp add: Let_def c_def[symmetric])
  moreover have "tidied b {i} s ?u"
  proof -
    let ?d = "d\<lparr>td_renewal := rd\<lparr>d_io := []\<rparr>\<rparr>"
    have c: "map_of (dirs ?m s1) i = Some d" using at[of c i] by simp
    have "map_of (dirs (namespace_of k) ?u) j = (if j = i \<and> k = c then Some ?d else map_of (dirs (namespace_of k) s1) j)" for k j
      using c by (cases k; cases c) (simp_all add: put_renewal_change change_dir_def namespace_of_def map_of_change)
    then have dirs: "map_of (dirs (namespace_of k) ?u) j = (if j = i then (if k = c then Some ?d else None)
        else map_of (dirs (namespace_of k) s) j)" for k j
      by (cases "j = i"; cases "k = c") (simp_all add: at)
    have doc: "doc_of i ?d = doc_of i d" by (simp add: doc_of_def)
    have mis: "misplaced k ?u = misplaced k s - {i}" for k
    proof (rule set_eqI)
      fix j
      have "(p_retention_state (doc_of i d) = RetentionArchived) = c" by (simp add: c_def)
      then show "j \<in> misplaced k ?u \<longleftrightarrow> j \<in> misplaced k s - {i}"
        using doc by (cases "j = i"; cases "k = c") (simp_all add: misplaced_def dirs)
    qed
    have keys: "keys (dirs ?n s) - {i} \<subseteq> keys (dirs ?n ?u)"
    proof
      fix j assume j: "j \<in> keys (dirs ?n s) - {i}"
      then have "map_of (dirs ?n s) j \<noteq> None" by (simp add: map_of_eq_None)
      then have "map_of (dirs ?n ?u) j \<noteq> None" using j dirs[of b j] by simp
      then show "j \<in> keys (dirs ?n ?u)" by (simp add: map_of_eq_None)
    qed
    have "store_wf ?u" "registry ?u = registry s"
      using put_renewal_wf[OF s1(1) namespace_thread c v(1) rd(4)] registry_cong[OF s1(2)] by simp_all
    moreover have "lookup ?u j = (if j = i then Some ?d else lookup s j)" for j
    proof -
      have "lookup ?u j = lookup (change_dir ?m i (\<lambda>d. d\<lparr>td_renewal := rd\<lparr>d_io := []\<rparr>\<rparr>) s1) j"
        by (simp add: put_renewal_change lookup_def cong: option.case_cong)
      then show ?thesis using change_dir_lookup[OF s1(1) namespace_thread c] s1(2) by simp
    qed
    then have "quiet ?u" using assms(2) rd(2,3) qd(2) doc
      by (simp add: quiet_def dir_quiet_def few_generations_def put_renewal_change)
    moreover have "st_index ?u = st_index s" "st_trash ?u = st_trash s"
      using s1(4,5) by (cases c; simp add: put_renewal_change change_dir_def namespace_of_def)+
    ultimately show ?thesis using mis keys by (simp add: tidied_def keeps_registry_def Diff_subset)
  qed
  ultimately show ?thesis by blast
qed

lemma recover_dirs_tidies:
  assumes "store_wf s" "quiet s" "distinct ns" "set ns \<subseteq> keys (dirs (namespace_of b) s)"
  shows "\<exists>u. recover_dirs b ns s = (Inr (), u) \<and> tidied b (set ns \<inter> Collect ValidWorkerID) s u"
  using assms
proof (induction ns arbitrary: s)
  case Nil
  then show ?case using keeps_refl by (simp add: tidied_def)
next
  case (Cons i ns)
  show ?case
  proof (cases "ValidWorkerID i")
    case False
    then show ?thesis using Cons by simp
  next
    case True
    from Cons.prems(4) map_of_eq_None[of "dirs (namespace_of b) s" i] obtain d
      where "map_of (dirs (namespace_of b) s) i = Some d" by fastforce
    from recover_one[OF Cons.prems(1,2) True this] obtain t
      where t: "recover_dirs b (i # ns) s = recover_dirs b ns t" "tidied b {i} s t" by blast
    then have "store_wf t" "quiet t" "set ns \<subseteq> keys (dirs (namespace_of b) t)"
      using Cons.prems(3,4) unfolding tidied_def keeps_registry_def by auto
    with Cons.IH[of t] Cons.prems(3) obtain u
      where u: "recover_dirs b ns t = (Inr (), u)" "tidied b (set ns \<inter> Collect ValidWorkerID) t u" by auto
    have "{i} \<union> set ns \<inter> Collect ValidWorkerID = set (i # ns) \<inter> Collect ValidWorkerID" using True by auto
    with tidied_trans[OF t(2) u(2)] t(1) u(1) show ?thesis by metis
  qed
qed

section \<open>The index and the trash\<close>

lemma settled_iff: "store_wf s \<Longrightarrow> settled_layout s \<longleftrightarrow> misplaced False s = {} \<and> misplaced True s = {}"
proof -
  assume wf: "store_wf s"
  have "in_place b (dirs (namespace_of b) s) \<longleftrightarrow> misplaced b s = {}" for b
  proof -
    have "distinct (map fst (dirs (namespace_of b) s))" using wf by (cases b) (simp_all add: namespace_of_def wf_split)
    then show ?thesis by (auto simp: in_place_def misplaced_def)
  qed
  from this[of False] this[of True] show ?thesis by (simp add: settled_layout_def namespace_of_def)
qed

definition index_of :: "store \<Rightarrow> index_entry list" where
  "index_of s = sortIndexEntries (map indexEntryFromProjection (docs (thread_dirs s)))"

lemma rebuild_quiet:
  assumes "store_ok fr s" "settled_layout s" "st_io s = []"
  shows "\<exists>ix. rebuildIndexLocked fr now s = (Inr ix, s\<lparr>st_index := IndexDoc ix\<rparr>) \<and> entries ix = index_of s
    \<and> ix_version ix = IndexVersion"
  using scan_ok[OF assms(1,2)] assms(3)
  by (auto simp: rebuildIndexLocked_def writeProjectionIndexLocked_def writeIndexLocked_def Let_def entries_def index_of_def
      sortIndexEntries_def)

lemma finish_trash_quiet:
  "st_io s = [] \<Longrightarrow> \<forall>n \<in> set ns. trash_name_ok n \<Longrightarrow>
   finish_trash ns s = (Inr (), s\<lparr>st_trash := filter (\<lambda>x. fst x \<notin> set ns) (st_trash s)\<rparr>)"
proof (induction ns arbitrary: s)
  case (Cons n ns)
  have "filter (\<lambda>x. fst x \<notin> set ns) (AList.delete n xs) = filter (\<lambda>x. fst x \<notin> set (n # ns)) xs" for xs :: "(string \<times> thread_dir) list"
    by (auto simp: AList.delete_eq filter_filter intro!: filter_cong)
  then show ?case using Cons by simp
qed simp

lemma main_placed:
  assumes "store_ok fr s"
  shows "MainID \<notin> misplaced False s"
proof
  assume "MainID \<in> misplaced False s"
  then obtain d where d: "map_of (dirs NsActive s) MainID = Some d" "ValidID MainID"
    "p_retention_state (doc_of MainID d) = RetentionArchived" by (auto simp: misplaced_def namespace_of_def)
  have "registry s MainID = Some (identity_of (doc_of MainID d))"
    by (rule registry_at[OF _ _ d(1,2)]) (use assms in \<open>simp_all add: store_ok_def\<close>)
  then have "\<exists>a p. registry s MainID = Some (a, p, True)" using d(3) by (simp add: identity_of_def)
  then show False using assms identities_okD(4)[of fr "registry s"] by (auto simp: store_ok_def)
qed

lemma recover_namespaces:
  assumes "store_ok fr s" "quiet s"
  shows "\<exists>t w. recover_dirs False (map fst (st_active s)) s = (Inr (), t)
    \<and> recover_dirs True (map fst (st_archive t)) t = (Inr (), w)
    \<and> keeps_registry s w \<and> settled_layout w \<and> st_io w = []"
proof -
  have wf: "store_wf s" using assms(1) by (simp add: store_ok_def)
  have names: "distinct (map fst (st_active t))" "distinct (map fst (st_archive t))" if "store_wf t" for t
    using that by (simp_all add: wf_split)
  obtain t where t: "recover_dirs False (map fst (st_active s)) s = (Inr (), t)"
    "tidied False (keys (st_active s) \<inter> Collect ValidWorkerID) s t"
    using recover_dirs_tidies[OF wf assms(2) names(1)[OF wf], of False] by (auto simp: namespace_of_def)
  have kt: "keeps_registry s t" "quiet t" using t(2) by (simp_all add: tidied_def)
  have mt: "misplaced False t = {}"
    using tidied_done[of False s t] t(2) main_placed[OF keeps_ok[OF assms(1) kt(1)]] by (simp add: namespace_of_def)
  obtain w where w: "recover_dirs True (map fst (st_archive t)) t = (Inr (), w)"
    "tidied True (keys (st_archive t) \<inter> Collect ValidWorkerID) t w"
    using recover_dirs_tidies[OF keeps_wf[OF kt(1)] kt(2) names(2)[OF keeps_wf[OF kt(1)]], of True]
    by (auto simp: namespace_of_def)
  have kw: "keeps_registry s w" using keeps_trans[OF kt(1)] w(2) by (simp add: tidied_def)
  have "MainID \<notin> misplaced True w"
    using misplaced_known[of MainID True w] keeps_wf[OF kw] by (auto simp: namespace_of_def wf_split)
  then have "misplaced True w = {}" using tidied_done[of True t w] w(2) by (simp add: namespace_of_def)
  moreover have "misplaced False w = {}" using w(2) mt by (simp add: tidied_def)
  ultimately have "settled_layout w" using settled_iff[OF keeps_wf[OF kw]] by simp
  moreover have "st_io w = []" using w(2) by (simp add: tidied_def quiet_def)
  ultimately show ?thesis using t(1) w(1) kw by blast
qed

lemma recovered_view:
  assumes "u = w\<lparr>st_index := f, st_trash := []\<rparr>"
  shows "registry u = registry w" "settled_layout u = settled_layout w" "index_of u = index_of w"
proof -
  have "lookup u = lookup w" by (simp add: assms lookup_def fun_eq_iff cong: option.case_cong)
  then show "registry u = registry w" by (rule registry_cong)
  show "settled_layout u = settled_layout w" "index_of u = index_of w"
    by (simp_all add: assms settled_layout_def index_of_def)
qed



end
