(* ===== verification/ThreadRetentionFaults.thy ===== *)
theory ThreadRetentionFaults
  imports ThreadRetentionProps
begin

text \<open>
  A creation that is cut off between making the directory and writing the document of the new Thread:
  what the store can do from there on.
\<close>

definition half_created :: "string \<Rightarrow> store \<Rightarrow> bool" where
  "half_created j s \<longleftrightarrow> ValidID j \<and> (case map_of (st_active s) j of
     None \<Rightarrow> False | Some d \<Rightarrow> tf_projection (td_files d) = ProjectionMissing)"

lemma half_created_iff: "half_created j s \<longleftrightarrow> ValidID j \<and>
     (\<exists>d. map_of (st_active s) j = Some d \<and> tf_projection (td_files d) = ProjectionMissing)"
  by (auto simp: half_created_def split: option.splits)

lemma scan_dirs_half:
  "(j, d) \<in> set ds \<Longrightarrow> ValidID j \<Longrightarrow> tf_projection (td_files d) = ProjectionMissing \<Longrightarrow> isl (scan_dirs b seen ds)"
proof (induction b seen ds rule: scan_dirs.induct)
  case (2 b seen i e ds)
  show ?case
  proof (cases "(i, e) = (j, d)")
    case True
    then show ?thesis using 2 by (simp add: readProjectionFile_def)
  next
    case False
    then have "(j, d) \<in> set ds" using 2 by auto
    then show ?thesis using 2 by (auto split: sum.splits)
  qed
qed simp

lemma scan_half: "half_created j s \<Longrightarrow> \<exists>e. scanProjectionFilesLocked fr s = Inl e"
proof -
  assume "half_created j s"
  then obtain d where d: "(j, d) \<in> set (st_active s)" "ValidID j" "tf_projection (td_files d) = ProjectionMissing"
    by (auto simp: half_created_iff dest: map_of_SomeD)
  from scan_dirs_half[OF d, of False "[]"] obtain e where "scan_dirs False [] (st_active s) = Inl e"
    by (cases "scan_dirs False [] (st_active s)") auto
  then show ?thesis by (simp add: scanProjectionFilesLocked_def)
qed

lemma index_half:
  assumes "half_created j s"
  shows "\<exists>e. loadOrRebuildIndexLocked fr now s = (Inl e, s)" "\<exists>e. rebuildIndexLocked fr now s = (Inl e, s)"
    "\<exists>e. updateProjectionLocked fr now s = (Inl e, s)"
  using scan_half[OF assms, of fr]
  by (auto simp: loadOrRebuildIndexLocked_def rebuildIndexLocked_def updateProjectionLocked_def)

lemma half_other:
  assumes "half_created j s" "map_of (dirs n s) i = Some d" "readProjectionFile i (td_files d) = Inr p"
  shows "n \<noteq> NsActive \<or> i \<noteq> j"
  using assms by (auto simp: half_created_iff readProjectionFile_def)

lemma half_change: "half_created j s \<Longrightarrow> n \<noteq> NsActive \<or> i \<noteq> j \<Longrightarrow> half_created j (change_dir n i f s)"
  by (cases n) (auto simp: half_created_iff change_dir_def map_of_change)

lemma half_io: "half_created j (s\<lparr>st_io := io\<rparr>) = half_created j s"
  by (simp add: half_created_iff)

lemma half_put:
  assumes "half_created j s" "n \<noteq> NsActive \<or> i \<noteq> j"
  shows "half_created j (put_files n i fs s)" "half_created j (put_renewal n i r s)"
  using half_change[OF assms] by (simp_all add: put_files_change put_renewal_change half_io)

lemma half_same: "half_created j s \<Longrightarrow> same_dirs s t \<Longrightarrow> half_created j t"
  by (simp add: half_created_iff same_dirs_def)

section \<open>Opening\<close>

lemma finish_open_half:
  assumes "half_created j s" "n \<noteq> NsActive \<or> th_id t \<noteq> j" "finish_openLocked fr now n b t s = (r, u)"
  shows "isl r \<and> half_created j u"
proof -
  obtain r1 t1 s1 where p: "(if b then on_thread n persistProjectionLocked t s else (Inr (), t, s)) = (r1, t1, s1)"
    by (metis prod_cases3)
  have "\<exists>fs. s1 = s \<or> s1 = put_files n (th_id t) fs s"
    using p by (cases b) (auto simp: on_thread_def Let_def split: prod.splits)
  then have s1: "half_created j s1" using assms(1) half_put(1)[OF assms(1,2)] by auto
  from index_half(1)[OF this] obtain e where "loadOrRebuildIndexLocked fr now s1 = (Inl e, s1)" by blast
  with assms(3) p s1 show ?thesis by (cases r1) (auto simp: finish_openLocked_def)
qed

lemma open_half:
  assumes "half_created j s" "openLocked fr now b i s = (r, u)"
  shows "isl r \<and> half_created j u"
proof (cases "ValidID i \<and> (\<exists>d p. map_of (dirs (namespace_of b) s) i = Some d \<and> readProjectionFile i (td_files d) = Inr p
    \<and> (p_retention_state p = RetentionArchived) = b)")
  case False
  then have "isl r \<and> u = s" using assms(2)
    by (auto simp: openLocked_def Let_def split: if_splits option.splits sum.splits)
  then show ?thesis using assms(1) by simp
next
  case True
  then obtain d p where d: "ValidID i" "map_of (dirs (namespace_of b) s) i = Some d" "readProjectionFile i (td_files d) = Inr p"
    "(p_retention_state p = RetentionArchived) = b" by blast
  let ?n = "namespace_of b"
  have other: "?n \<noteq> NsActive \<or> i \<noteq> j" by (rule half_other[OF assms(1) d(2,3)])
  obtain r1 fs where o: "openEventStore now i p ((td_files d)\<lparr>tf_io := st_io s\<rparr>) = (r1, fs)" by fastforce
  let ?s1 = "put_files ?n i fs s"
  have s1: "half_created j ?s1" by (rule half_put(1)[OF assms(1) other])
  show ?thesis
  proof (cases r1)
    case (Inl e)
    then show ?thesis using assms(2) d o s1 by (auto simp: openLocked_def Let_def)
  next
    case (Inr tb)
    obtain t0 w where t0: "tb = (t0, w)" by fastforce
    obtain r2 rd where rd: "recoverContextRenewalFiles (gp_id (p_current_generation p)) ((td_renewal d)\<lparr>d_io := st_io ?s1\<rparr>) = (r2, rd)"
      by fastforce
    let ?s2 = "put_renewal ?n i rd ?s1"
    have s2: "half_created j ?s2" by (rule half_put(2)[OF s1 other])
    show ?thesis
    proof (cases r2)
      case (Inl e)
      then show ?thesis using assms(2) d o \<open>r1 = Inr tb\<close> t0 rd s2 by (auto simp: openLocked_def Let_def)
    next
      case (Inr x)
      then have "finish_openLocked fr now ?n w (refreshPublicLocked t0) ?s2 = (r, u)"
        using assms(2) d o \<open>r1 = Inr tb\<close> t0 rd by (simp add: openLocked_def Let_def)
      moreover have "th_id (refreshPublicLocked t0) = i"
        using open_thread(1)[OF o[unfolded \<open>r1 = Inr tb\<close> t0]] by (simp add: refreshPublicLocked_def)
      ultimately show ?thesis using finish_open_half[OF s2, of ?n "refreshPublicLocked t0"] other by blast
    qed
  qed
qed

section \<open>Creating and recovering\<close>

lemma create_half:
  assumes "half_created j s" "i \<noteq> j" "createLocked_in fr marshal now i alias parent s = (r, u)"
  shows "isl r \<and> half_created j u"
proof -
  obtain r1 fs where c: "created_files marshal now i alias parent (no_files (st_io s)) = (r1, fs)" by fastforce
  have add: "half_created j (add_dir i fs s)" using assms(1,2) by (auto simp: half_created_iff add_dir_def)
  show ?thesis
  proof (cases r1)
    case (Inl e)
    obtain r2 s2 where e: "effect (\<lambda>s. s\<lparr>st_active := AList.delete i (st_active s)\<rparr>) (add_dir i fs s) = (r2, s2)" by fastforce
    from e have "half_created j s2"
    proof (cases rule: effect_cases)
      case (none s1)
      with half_same[OF add] show ?thesis by simp
    next
      case (some s1)
      with half_same[OF add] assms(2) show ?thesis by (auto simp: half_created_iff delete_conv')
    qed
    with assms(3) c Inl e show ?thesis by (auto simp: createLocked_in_def)
  next
    case (Inr t)
    from index_half(3)[OF add] obtain e where "updateProjectionLocked fr now (add_dir i fs s) = (Inl e, add_dir i fs s)" by blast
    with assms(3) c Inr add show ?thesis by (auto simp: createLocked_in_def)
  qed
qed

lemma ensure_main_half:
  assumes "half_created j s" "EnsureMain fr marshal now s = (r, u)"
  shows "isl r \<and> half_created j u"
proof (cases "map_of (st_active s) MainID")
  case None
  then have "MainID \<noteq> j" using assms(1) by (auto simp: half_created_iff)
  moreover have "createLocked_in fr marshal now MainID MainAlias [] s = (r, u)" using assms(2) None by (simp add: EnsureMain_def)
  ultimately show ?thesis using create_half[OF assms(1)] by blast
next
  case (Some d)
  then show ?thesis using assms open_half[OF assms(1)] by (auto simp: EnsureMain_def split: if_splits)
qed

lemma rename_half:
  assumes "half_created j s" "i \<noteq> j \<or> n \<noteq> NsActive" "durableRename n i m i s = (r, u)"
  shows "half_created j u"
  using assms(3)
proof (cases rule: rename_cases)
  case (moved d s1)
  from half_same[OF assms(1) this(3)] have h: "half_created j s1" .
  have "j \<in> keys (st_active s)" using assms(1) map_of_SomeD by (force simp: half_created_iff)
  then have m: "m \<noteq> NsActive \<or> i \<noteq> j" using moved(2) by (cases m) auto
  show ?thesis using h m assms(2) unfolding moved(5)
    by (cases n; cases m) (auto simp: moved_def half_created_iff Let_def delete_conv')
next
  case kept
  with half_same[OF assms(1)] show ?thesis by blast
qed

lemma renewal_half: "half_created j s \<Longrightarrow> half_created j (put_renewal n i r s)"
  by (cases n) (auto simp: half_created_iff put_renewal_change change_dir_def map_of_change)

lemma recover_renewal_half: "half_created j s \<Longrightarrow> recover_renewal n i s = (r, u) \<Longrightarrow> half_created j u"
  by (auto simp: recover_renewal_def renewal_half split: option.splits prod.splits)

lemma recover_dirs_half: "half_created j s \<Longrightarrow> recover_dirs b ns s = (r, u) \<Longrightarrow> half_created j u"
proof (induction ns arbitrary: s)
  case (Cons i ns)
  show ?case
  proof (cases "ValidWorkerID i \<and> (\<exists>d p. map_of (dirs (namespace_of b) s) i = Some d \<and> readProjectionFile i (td_files d) = Inr p)")
    case False
    then have "u = s \<or> recover_dirs b ns s = (r, u)"
      using Cons.prems(2) by (auto split: if_splits option.splits sum.splits)
    then show ?thesis using Cons by blast
  next
    case True
    then obtain d p where d: "ValidWorkerID i" "map_of (dirs (namespace_of b) s) i = Some d"
      "readProjectionFile i (td_files d) = Inr p" by blast
    let ?to = "p_retention_state p = RetentionArchived"
    obtain r1 s1 where m: "(if ?to \<noteq> b then durableRename (namespace_of b) i (namespace_of ?to) i s else (Inr (), s)) = (r1, s1)"
      by fastforce
    obtain r2 s2 where rr: "recover_renewal (namespace_of ?to) i s1 = (r2, s2)" by fastforce
    have "i \<noteq> j \<or> namespace_of b \<noteq> NsActive" using half_other[OF Cons.prems(1) d(2,3)] by blast
    then have s1: "half_created j s1"
      using rename_half[OF Cons.prems(1)] m Cons.prems(1) by (cases "?to \<noteq> b") auto
    have "u = s1 \<or> u = s2 \<or> recover_dirs b ns s2 = (r, u)"
      using Cons.prems(2) d m rr by (cases r1; cases r2) (simp_all add: Let_def)
    then show ?thesis using s1 recover_renewal_half[OF s1 rr] Cons.IH by blast
  qed
qed simp

lemma recover_layout_half:
  assumes "half_created j s" "RecoverLayout fr now s = (r, u)"
  shows "isl r \<and> half_created j u"
proof -
  obtain r1 s1 where a: "recover_dirs False (map fst (st_active s)) s = (r1, s1)" by fastforce
  note s1 = recover_dirs_half[OF assms(1) a]
  obtain r2 s2 where b: "recover_dirs True (map fst (st_archive s1)) s1 = (r2, s2)" by fastforce
  note s2 = recover_dirs_half[OF s1 b]
  obtain e where "rebuildIndexLocked fr now s2 = (Inl e, s2)" using index_half(2)[OF s2] by blast
  then show ?thesis using assms(2) a b s1 s2 by (cases r1; cases r2) (auto simp: RecoverLayout_def)
qed

section \<open>Every operation fails\<close>



end
