(* ===== verification/Spec2Isabelle.thy ===== *)
theory Spec2Isabelle
  imports PendingQueueOps ModelHealth TasksProps ContextRenewalProps ApplyPatchProps ApplyPatchText
    ThreadDepth ProtocolRepairProps JsonlRead ContextSelect
    ContextSummaryProps ThreadRetentionRecovery ThreadRetentionFaults
begin

text \<open>
  A verification development for juex, an agent runtime written in Go. An Agent owns Threads; a
  Thread is an append-only journal of facts (messages, events, token usage, context boundaries) and a
  metadata document; the runtime takes inputs from a durable queue, picks a healthy model, sends the
  provider a projection of the transcript, and runs the tools the model calls, some of which keep
  state of their own. The development models the parts that keep state and have to survive crashes
  and failing file operations, and the checks on which safety rests.

  \<^bold>\<open>Foundations.\<close>
  \<^item> \<open>Prelude\<close>: state passing with errors as values, reachable states and the locale of invariants,
    byte strings and the functions of the package \<^verbatim>\<open>strings\<close> the code uses, decoded JSON.
  \<^item> \<open>GoStrings\<close>: searching, replacing and splitting strings, lexical paths (\<^verbatim>\<open>path/filepath\<close>).
  \<^item> \<open>LLM\<close> (\<^verbatim>\<open>internal/foundation/llm\<close>): messages, blocks, usage; the projection of a transcript to what
    a provider may see and its validation. Every projected transcript pairs calls with results.
  \<^item> \<open>Events\<close> (\<^verbatim>\<open>foundation/events\<close>), \<open>ToolEvents\<close> (\<^verbatim>\<open>foundation/toolevents\<close>): the event envelope,
    the tool payloads and their decoding.

  \<^bold>\<open>The pending input queue\<close> (\<^verbatim>\<open>framework/runtime/pending_queue.go\<close>, \<^verbatim>\<open>input_tracking.go\<close>).
  \<open>PendingQueue\<close> has every method of \<^verbatim>\<open>PendingInputQueue\<close> over the file \<^verbatim>\<open>inputs.json\<close> and the events of the
  journal; \<open>PendingQueueInv\<close> the invariant of reachable states; \<open>PendingQueueProps\<close> and
  \<open>PendingQueueOps\<close> durability, idempotence, no replay of settled inputs, ordering, retry and its
  rollback, the recovery of half-finished admissions, and how errors leave the file.

  \<^bold>\<open>Threads\<close> (\<^verbatim>\<open>framework/thread\<close>).
  \<^item> \<open>ThreadJournal\<close>: facts, commits, their validation and replay (\<^verbatim>\<open>types.go\<close>, \<^verbatim>\<open>journal.go\<close>,
    \<^verbatim>\<open>replay.go\<close>, \<^verbatim>\<open>metadata.go\<close>, \<^verbatim>\<open>usage.go\<close>, \<^verbatim>\<open>generation_seed.go\<close>, \<^verbatim>\<open>id.go\<close>);
    \<open>ThreadJournalInv\<close>: every commit keeps the metadata valid.
  \<^item> \<open>ThreadStore\<close>: the handle and its files (\<^verbatim>\<open>thread.go\<close>, \<^verbatim>\<open>event_store.go\<close>), appends, Generation
    rollover, creation and opening. \<open>ThreadStoreInv\<close> and \<open>ThreadStoreSteps\<close> show that each operation
    keeps journal, metadata and memory in step whatever file operation fails; \<open>ThreadStoreProps\<close> that
    a Thread reopens to its live state, and what happens to an unpublished commit; \<open>ThreadLifecycle\<close>
    that well-formed appends are accepted, and one rollover failure that loses a Thread.
  \<^item> \<open>ThreadDepth\<close>: the depth of a Worker below Main (\<^verbatim>\<open>worker_depth.go\<close>, \<^verbatim>\<open>inspect.go\<close>).
  \<^item> The Thread store of an Agent (\<^verbatim>\<open>store.go\<close>, \<^verbatim>\<open>lifecycle.go\<close>). \<open>ThreadIndex\<close>: index entries, their
    order, the checks of a set of documents. \<open>ThreadRetention\<close>: the active, archived and trash namespaces
    and the index file, and the operations that create, open, rename, archive, restore, delete and recover
    Threads. \<open>ThreadRegistry\<close> is the specification: a map from ids to alias, parent and retention, and
    its steps. \<open>ThreadRetentionInv\<close>, \<open>ThreadRetentionSteps\<close> and \<open>ThreadRetentionOps\<close> show what
    each part of an operation does to that map; \<open>ThreadRetentionProps\<close> that every operation refines a
    step, whichever file operation fails; \<open>ThreadRetentionRecovery\<close> that recovery succeeds in every
    reachable store; \<open>ThreadRetentionFaults\<close> that a creation cut off before it wrote its document
    blocks the store.
  \<^item> \<open>ContextRenewal\<close>, \<open>ContextRenewalInv\<close>, \<open>ContextRenewalProps\<close>: the transaction by which modules
    change their files together with a Generation (\<^verbatim>\<open>context_renewal_files.go\<close>): all or nothing, also
    across interrupted recoveries.
  \<^item> \<open>ProtocolRepair\<close>, \<open>ProtocolRepairProps\<close>: after a crash, tool calls without a result get one
    (\<^verbatim>\<open>protocol_repair.go\<close>); the scan is shown to agree with the transcript validation of \<open>LLM\<close>.

  \<^bold>\<open>Journal files\<close> (\<^verbatim>\<open>foundation/jsonl/file.go\<close>). \<open>Jsonl\<close> has the file as its bytes: batches of JSON lines,
  the two repairs on opening (a torn last line, an incomplete last batch), appends with rollback, and
  the readers, which go through the file in blocks; every block size is covered. What the code takes
  from \<^verbatim>\<open>encoding/json\<close> is a parameter with the laws \<open>json_laws\<close> (a framed line decodes to what was
  framed, embedded text has no newline). \<open>JsonlInv\<close>: lines and their scans; \<open>JsonlRecovery\<close>: what
  opening does to any prefix of a written batch; \<open>JsonlProps\<close>: acknowledged batches survive every
  schedule of failures and crashes; \<open>JsonlRead\<close>: forward and reverse reads return the appended
  records. The Thread store uses the file by its records (\<open>append_record\<close>).

  \<^bold>\<open>Context budget and compaction\<close> (\<^verbatim>\<open>framework/runtime/contextbudget\<close>). \<open>ContextPreview\<close>: runes, token
  estimates of text, previews of long text. \<open>ContextBudget\<close>: budgets from the context window, estimates
  of messages, the active context, the messages a compaction keeps. \<open>ContextSelect\<close>: what is kept and
  that the next Generation starts with the context that was checked. \<open>ContextSummary\<close>,
  \<open>ContextSummaryProps\<close>: the summary request and how it is made to fit.

  \<^bold>\<open>Model health\<close> (\<^verbatim>\<open>framework/modelhealth\<close>): \<open>ModelHealth\<close>, the circuit breaker with 64-bit
  generations and probe tokens.

  \<^bold>\<open>Tools\<close>. \<open>Tasks\<close>, \<open>TasksProps\<close> (\<^verbatim>\<open>features/tasks\<close>): the task store and the finish gate.
  \<open>WorkspacePath\<close> (\<^verbatim>\<open>foundation/sandbox/workspace_path.go\<close>): tool paths stay in the workspace.
  \<open>ApplyPatch\<close>, \<open>ApplyPatchProps\<close>, \<open>ApplyPatchText\<close> (\<^verbatim>\<open>features/applypatch\<close>): parser, plan, writes and
  rollback of the patch tool.

  \<^bold>\<open>Conventions.\<close> A method is a function from the state to a result and the new state; an error is
  the \<open>Inl\<close> of the result. A mutex makes a call one step. File operations take their outcomes from
  the state (a schedule), so theorems over all states cover every failure, including the replacement
  of a file that reports an error after it happened. Clocks, random ids and the JSON encoder are
  arguments. Strings are byte strings. Go's \<^verbatim>\<open>int\<close> and the sequence numbers are unbounded, which is
  faithful below \<^verbatim>\<open>2^63\<close>; the counters of \<open>ModelHealth\<close>, which are compared for equality, are words.
  Maps are association lists where loops run over them. Loops are structural recursions or
  \<open>function\<close>s with a measure; no definition uses fuel. Nil receivers, which the code rejects first, are
  left out. Percentages are exact quotients. Paths are those of systems with slashes.

  \<^bold>\<open>Not modelled\<close>, with the reason in the manifest: rendering and transport (command line, HTTP, the
  browser client), processes and platforms (shell, sandbox backends, services, MCP), providers,
  configuration, generated code, and the goroutines that drive the modelled parts. Planned:
  chunked writes, notes, and the tool registry.
\<close>

end
